(* ===== verification/L2_Prelude.thy ===== *)
theory L2_Prelude
  imports Main "HOL-Library.Word"
begin

text \<open>
  What the components share: the outcome type of a C call that may abort or run into undefined
  behaviour, C's truncating remainder, bytes seen as bit strings (most significant bit first, the
  order in which the RLC codec writes them), and the list and word lemmas that carry the component
  proofs.
\<close>

unbundle bit_operations_syntax

named_theorems res_simps \<open>unfolding of the outcome combinators\<close>
named_theorems bits_simps \<open>bytes and integers as bit strings\<close>

section \<open>Outcomes\<close>

type_synonym byte = "8 word"

text \<open>
  How a call can fail to return: \<open>Exit_fatal\<close> is the source's \<^verbatim>\<open>exit(1)\<close> after a fatal log line;
  \<open>Null_pointer\<close>, \<open>Dangling_pointer\<close> and \<open>Out_of_bounds\<close> are the undefined behaviours of C the code
  can run into; \<open>Divergence\<close> is a loop that does not end; \<open>Inconsistent_state\<close> is the state the code
  itself logs as inconsistent (see the control PDU of the acknowledged mode entity).
\<close>

datatype fault =
    Exit_fatal
  | Null_pointer
  | Dangling_pointer
  | Out_of_bounds
  | Divergence
  | Inconsistent_state

type_synonym 'a res = "fault + 'a"

definition rbind :: "'a res \<Rightarrow> ('a \<Rightarrow> 'b res) \<Rightarrow> 'b res" where
  "rbind m f = (case m of Inl e \<Rightarrow> Inl e | Inr x \<Rightarrow> f x)"

definition of_opt :: "fault \<Rightarrow> 'a option \<Rightarrow> 'a res" where
  "of_opt e v = (case v of None \<Rightarrow> Inl e | Some x \<Rightarrow> Inr x)"

definition returns :: "'a res \<Rightarrow> bool" where
  "returns m \<longleftrightarrow> (\<exists>x. m = Inr x)"

fun fault_of :: "'a res \<Rightarrow> fault option" where
  "fault_of (Inl f) = Some f"
| "fault_of (Inr x) = None"

section \<open>C integers\<close>

text \<open>The remainder of C: it takes the sign of the dividend.\<close>

definition c_rem :: "int \<Rightarrow> int \<Rightarrow> int" where
  "c_rem a b = (if a < 0 then - ((- a) mod b) else a mod b)"

section \<open>Memory copies\<close>

text \<open>
  \<^verbatim>\<open>memcpy\<close> with its ranges checked: \<open>c_read\<close> takes \<open>len\<close> bytes at offset \<open>off\<close>, \<open>c_write\<close> overwrites
  the bytes at offset \<open>off\<close>; outside the object the behaviour is undefined.
\<close>

definition c_read :: "byte list \<Rightarrow> int \<Rightarrow> int \<Rightarrow> byte list res" where
  "c_read bs off len =
     (if 0 \<le> off \<and> 0 \<le> len \<and> off + len \<le> int (length bs)
      then Inr (take (nat len) (drop (nat off) bs)) else Inl Out_of_bounds)"

definition c_write :: "byte list \<Rightarrow> int \<Rightarrow> byte list \<Rightarrow> byte list res" where
  "c_write buf off bs =
     (if 0 \<le> off \<and> off + int (length bs) \<le> int (length buf)
      then Inr (take (nat off) buf @ bs @ drop (nat off + length bs) buf) else Inl Out_of_bounds)"

section \<open>Bit strings\<close>

definition byte_bits :: "byte \<Rightarrow> bool list" where
  "byte_bits w = map (bit w) (rev [0..<8])"

definition bytes_bits :: "byte list \<Rightarrow> bool list" where
  "bytes_bits bs = concat (map byte_bits bs)"

definition int_bits :: "nat \<Rightarrow> int \<Rightarrow> bool list" where
  "int_bits c v = map (bit v) (rev [0..<c])"

definition bits_val :: "bool list \<Rightarrow> int" where
  "bits_val bs = foldl (\<lambda>a b. 2 * a + of_bool b) 0 bs"

section \<open>Lemmas on outcomes\<close>

lemma rbind_Inl [simp]: "rbind (Inl e) f = Inl e"
  by (simp add: rbind_def)

lemma rbind_Inr [simp]: "rbind (Inr x) f = f x"
  by (simp add: rbind_def)

lemma rbind_eq_Inr: "rbind m f = Inr y \<longleftrightarrow> (\<exists>x. m = Inr x \<and> f x = Inr y)"
  by (cases m) auto

lemma rbind_eq_Inl: "rbind m f = Inl e \<longleftrightarrow> m = Inl e \<or> (\<exists>x. m = Inr x \<and> f x = Inl e)"
  by (cases m) auto

lemma rbind_InrE:
  assumes "rbind m f = Inr y"
  obtains x where "m = Inr x" and "f x = Inr y"
  using assms by (auto simp: rbind_eq_Inr)

text \<open>A computed outcome, taken apart.\<close>

lemma case_outcome:
  "(case m of Inl _ \<Rightarrow> False | Inr x \<Rightarrow> P x) \<longleftrightarrow> (\<exists>x. m = Inr x \<and> P x)"
  "(case r of None \<Rightarrow> False | Some y \<Rightarrow> Q y) \<longleftrightarrow> (\<exists>y. r = Some y \<and> Q y)"
  by (auto split: sum.splits option.splits)

lemma rbind_assoc: "rbind (rbind m f) g = rbind m (\<lambda>x. rbind (f x) g)"
  by (cases m) auto

lemma rbind_if: "rbind (if b then m else n) f = (if b then rbind m f else rbind n f)"
  by simp

lemma of_opt_simps [simp]:
  "of_opt e None = Inl e" "of_opt e (Some x) = Inr x"
  by (simp_all add: of_opt_def)

lemma of_opt_eq_Inr [simp]: "of_opt e v = Inr x \<longleftrightarrow> v = Some x"
  by (cases v) auto

lemma returns_simps [simp]: "returns (Inr x)" "\<not> returns (Inl e)"
  by (simp_all add: returns_def)

lemma returnsE:
  assumes "returns m"
  obtains x where "m = Inr x"
  using assms by (auto simp: returns_def)

lemma returns_rbind [simp]: "returns (rbind m f) \<longleftrightarrow> (\<exists>x. m = Inr x \<and> returns (f x))"
  by (cases m) auto

lemmas res_intros = rbind_eq_Inr [THEN iffD2]

section \<open>Lemmas on memory copies\<close>

lemma c_read_ok [simp]:
  "0 \<le> off \<Longrightarrow> 0 \<le> len \<Longrightarrow> off + len \<le> int (length bs) \<Longrightarrow>
   c_read bs off len = Inr (take (nat len) (drop (nat off) bs))"
  by (simp add: c_read_def)

lemma c_write_ok [simp]:
  "0 \<le> off \<Longrightarrow> off + int (length bs) \<le> int (length buf) \<Longrightarrow>
   c_write buf off bs = Inr (take (nat off) buf @ bs @ drop (nat off + length bs) buf)"
  by (simp add: c_write_def)

lemma c_read_length: "c_read bs off len = Inr xs \<Longrightarrow> length xs = nat len"
  by (auto simp: c_read_def split: if_splits)

lemma c_write_length: "c_write buf off bs = Inr buf' \<Longrightarrow> length buf' = length buf"
  by (auto simp: c_write_def split: if_splits)

section \<open>Lemmas on C integers\<close>

lemma sum_list_map_cong_int:
  "(\<And>x. x \<in> set l \<Longrightarrow> f x = int (g x)) \<Longrightarrow> sum_list (map f l) = int (sum_list (map g l))"
  by (induction l) auto

lemma c_rem_nonneg [simp]: "0 \<le> a \<Longrightarrow> c_rem a b = a mod b"
  by (simp add: c_rem_def)

lemma c_rem_range: "0 \<le> a \<Longrightarrow> 0 < b \<Longrightarrow> 0 \<le> c_rem a b \<and> c_rem a b < b"
  by simp

section \<open>Lemmas on bit strings\<close>

lemma length_byte_bits [simp]: "length (byte_bits w) = 8"
  by (simp add: byte_bits_def)

lemma length_bytes_bits [simp]: "length (bytes_bits bs) = 8 * length bs"
  by (induction bs) (simp_all add: bytes_bits_def)

lemma bytes_bits_Nil [simp]: "bytes_bits [] = []"
  by (simp add: bytes_bits_def)

lemma bytes_bits_Cons [simp]: "bytes_bits (b # bs) = byte_bits b @ bytes_bits bs"
  by (simp add: bytes_bits_def)

lemma bytes_bits_append [simp]: "bytes_bits (as @ bs) = bytes_bits as @ bytes_bits bs"
  by (simp add: bytes_bits_def)

lemma length_int_bits [simp]: "length (int_bits c v) = c"
  by (simp add: int_bits_def)

lemma int_bits_0 [simp]: "int_bits 0 v = []"
  by (simp add: int_bits_def)

lemma int_bits_Suc: "int_bits (Suc c) v = bit v c # int_bits c v"
  by (simp add: int_bits_def)

lemma bits_val_Nil [simp]: "bits_val [] = 0"
  by (simp add: bits_val_def)

lemma bits_val_snoc [simp]: "bits_val (bs @ [b]) = 2 * bits_val bs + of_bool b"
  by (simp add: bits_val_def)

lemma bits_val_append: "bits_val (as @ bs) = bits_val as * 2 ^ length bs + bits_val bs"
proof (induction bs rule: rev_induct)
  case (snoc b bs)
  have "bits_val ((as @ bs) @ [b]) = 2 * bits_val (as @ bs) + of_bool b"
    by (rule bits_val_snoc)
  with snoc show ?case
    by (simp add: algebra_simps)
qed simp

lemma bits_val_Cons: "bits_val (b # bs) = of_bool b * 2 ^ length bs + bits_val bs"
  using bits_val_append [of "[b]" bs] by (simp add: bits_val_def)

lemma bits_val_bounds: "0 \<le> bits_val bs \<and> bits_val bs < 2 ^ length bs"
  by (induction bs rule: rev_induct) (auto simp: of_bool_def)

lemma bits_val_int_bits [simp]: "bits_val (int_bits c v) = take_bit c v"
proof (induction c)
  case (Suc c)
  then show ?case
    by (simp add: int_bits_Suc bits_val_Cons take_bit_Suc_from_most mult.commute)
qed simp

lemma drop_bytes_bits:
  assumes "n < length bs"
  shows "drop (8 * n) (bytes_bits bs) = byte_bits (bs ! n) @ bytes_bits (drop (Suc n) bs)"
  using assms
proof (induction bs arbitrary: n)
  case (Cons b bs)
  then show ?case
    by (cases n) simp_all
qed simp

lemma byte_bits_inj [simp]: "byte_bits a = byte_bits b \<longleftrightarrow> a = b"
proof
  assume h: "byte_bits a = byte_bits b"
  have "bit a n = bit b n" if "n < 8" for n
    using h that by (auto simp: byte_bits_def)
  then show "a = b"
    by (auto intro: bit_word_eqI)
qed simp

end
