(* ===== verification/NR_RLC_Pdu.thy ===== *)
theory NR_RLC_Pdu
  imports L2_Prelude
begin

text \<open>
  The RLC PDU module (\<^verbatim>\<open>nr_rlc_pdu.h\<close>, \<^verbatim>\<open>nr_rlc_pdu.c\<close>): the received PDU and the insertion into
  the ordered reception list, and the bit level decoder and encoder the header code is written
  with. A \<^verbatim>\<open>(char *buffer, int size)\<close> pair is a byte list, so \<^verbatim>\<open>size\<close> is its length.

  The codec is related to bit strings: what has been encoded so far is a bit string that
  \<open>put_bits\<close> extends, and what is left to decode is a bit string \<open>get_bits\<close> consumes. The list
  insertion is proved once for every sequence number order, in the locale \<open>sn_order\<close>.
\<close>

section \<open>The received PDU\<close>

record nr_rlc_pdu =
  p_sn :: int
  p_data :: "byte list option" \<comment> \<open>None is the NULL pointer\<close>
  p_size :: int
  p_so :: int
  p_is_first :: bool
  p_is_last :: bool

definition nr_rlc_new_pdu :: "int \<Rightarrow> int \<Rightarrow> bool \<Rightarrow> bool \<Rightarrow> byte list \<Rightarrow> nr_rlc_pdu" where
  "nr_rlc_new_pdu sn so is_first is_last data =
     \<lparr>p_sn = sn, p_data = Some data, p_size = int (length data), p_so = so,
      p_is_first = is_first, p_is_last = is_last\<rparr>"

text \<open>The order of the list: by \<^verbatim>\<open>sn\<close>, then by \<^verbatim>\<open>so\<close>; a new PDU goes behind its equals.\<close>

fun nr_rlc_pdu_list_add ::
  "(int \<Rightarrow> int \<Rightarrow> int) \<Rightarrow> nr_rlc_pdu list \<Rightarrow> nr_rlc_pdu \<Rightarrow> nr_rlc_pdu list" where
  "nr_rlc_pdu_list_add sn_compare [] pdu = [pdu]"
| "nr_rlc_pdu_list_add sn_compare (cur # l) pdu =
     (if sn_compare (p_sn cur) (p_sn pdu) > 0 \<or>
         (p_sn cur = p_sn pdu \<and> p_so cur > p_so pdu)
      then pdu # cur # l
      else cur # nr_rlc_pdu_list_add sn_compare l pdu)"

section \<open>The decoder\<close>

record nr_rlc_pdu_decoder =
  d_error :: bool
  d_byte :: nat
  d_bit :: nat
  d_buffer :: "byte list"
  d_size :: nat

definition nr_rlc_pdu_decoder_init :: "byte list \<Rightarrow> nr_rlc_pdu_decoder" where
  "nr_rlc_pdu_decoder_init buffer =
     \<lparr>d_error = False, d_byte = 0, d_bit = 0, d_buffer = buffer, d_size = length buffer\<rparr>"

definition get_bit :: "nr_rlc_pdu_decoder \<Rightarrow> int \<times> nr_rlc_pdu_decoder" where
  "get_bit d =
     (if d_byte d \<ge> d_size d then (0, d\<lparr>d_error := True\<rparr>)
      else
        (of_bool (bit (d_buffer d ! d_byte d) (7 - d_bit d)),
         if Suc (d_bit d) = 8 then d\<lparr>d_bit := 0, d_byte := Suc (d_byte d)\<rparr>
         else d\<lparr>d_bit := Suc (d_bit d)\<rparr>))"

fun get_bits_loop :: "nat \<Rightarrow> int \<Rightarrow> nr_rlc_pdu_decoder \<Rightarrow> int \<times> nr_rlc_pdu_decoder" where
  "get_bits_loop 0 ret d = (ret, d)"
| "get_bits_loop (Suc n) ret d =
     (case get_bit d of (b, d') \<Rightarrow>
        if d_error d' then (-1, d') else get_bits_loop n (push_bit 1 ret OR b) d')"

definition nr_rlc_pdu_decoder_get_bits ::
  "nr_rlc_pdu_decoder \<Rightarrow> nat \<Rightarrow> (int \<times> nr_rlc_pdu_decoder) res" where
  "nr_rlc_pdu_decoder_get_bits d count =
     (if count > 31 then Inl Exit_fatal else Inr (get_bits_loop count 0 d))"

text \<open>
  The idiom \<^verbatim>\<open>v = get_bits(&decoder, count); R(decoder);\<close> of the entities: read, and jump to the
  error label when the decoder is in error.
\<close>

definition get_R ::
  "nr_rlc_pdu_decoder \<Rightarrow> nat \<Rightarrow> 'a res \<Rightarrow> (int \<Rightarrow> nr_rlc_pdu_decoder \<Rightarrow> 'a res) \<Rightarrow> 'a res" where
  "get_R d count err k =
     rbind (nr_rlc_pdu_decoder_get_bits d count)
       (\<lambda>(v, d'). if d_error d' then err else k v d')"

section \<open>The encoder\<close>

record nr_rlc_pdu_encoder =
  e_byte :: nat
  e_bit :: nat
  e_buffer :: "byte list"
  e_size :: nat

definition nr_rlc_pdu_encoder_init :: "byte list \<Rightarrow> nr_rlc_pdu_encoder" where
  "nr_rlc_pdu_encoder_init buffer =
     \<lparr>e_byte = 0, e_bit = 0, e_buffer = buffer, e_size = length buffer\<rparr>"

definition put_bit :: "nr_rlc_pdu_encoder \<Rightarrow> bool \<Rightarrow> nr_rlc_pdu_encoder res" where
  "put_bit e b =
     (if e_byte e = e_size e then Inl Exit_fatal
      else
        let w = push_bit 1 (e_buffer e ! e_byte e);
            w' = (if b then w OR 1 else w);
            e1 = e\<lparr>e_buffer := (e_buffer e)[e_byte e := w'], e_bit := Suc (e_bit e)\<rparr>
        in Inr (if e_bit e1 = 8 then e1\<lparr>e_bit := 0, e_byte := Suc (e_byte e1)\<rparr> else e1))"

fun put_bits_loop :: "nat \<Rightarrow> int \<Rightarrow> nr_rlc_pdu_encoder \<Rightarrow> nr_rlc_pdu_encoder res" where
  "put_bits_loop 0 value e = Inr e"
| "put_bits_loop (Suc n) value e = rbind (put_bit e (bit value n)) (put_bits_loop n value)"

definition nr_rlc_pdu_encoder_put_bits ::
  "nr_rlc_pdu_encoder \<Rightarrow> int \<Rightarrow> nat \<Rightarrow> nr_rlc_pdu_encoder res" where
  "nr_rlc_pdu_encoder_put_bits e value count =
     (if count > 31 then Inl Exit_fatal else put_bits_loop count value e)"

section \<open>Bit string views of the codec\<close>

definition dec_pos :: "nr_rlc_pdu_decoder \<Rightarrow> nat" where
  "dec_pos d = 8 * d_byte d + d_bit d"

definition dec_ok :: "nr_rlc_pdu_decoder \<Rightarrow> bool" where
  "dec_ok d \<longleftrightarrow> d_size d = length (d_buffer d) \<and> d_bit d < 8 \<and> dec_pos d \<le> 8 * d_size d
     \<and> \<not> d_error d"

definition dec_rest :: "nr_rlc_pdu_decoder \<Rightarrow> bool list" where
  "dec_rest d = drop (dec_pos d) (bytes_bits (d_buffer d))"

definition dec_skip :: "nr_rlc_pdu_decoder \<Rightarrow> nat \<Rightarrow> nr_rlc_pdu_decoder" where
  "dec_skip d c = d\<lparr>d_byte := (dec_pos d + c) div 8, d_bit := (dec_pos d + c) mod 8\<rparr>"

definition enc_pos :: "nr_rlc_pdu_encoder \<Rightarrow> nat" where
  "enc_pos e = 8 * e_byte e + e_bit e"

definition enc_ok :: "nr_rlc_pdu_encoder \<Rightarrow> bool" where
  "enc_ok e \<longleftrightarrow> e_size e = length (e_buffer e) \<and> e_bit e < 8 \<and> enc_pos e \<le> 8 * e_size e"

definition enc_bits :: "nr_rlc_pdu_encoder \<Rightarrow> bool list" where
  "enc_bits e = bytes_bits (take (e_byte e) (e_buffer e)) @
     (if e_bit e = 0 then [] else drop (8 - e_bit e) (byte_bits (e_buffer e ! e_byte e)))"

lemma dec_ok_init [simp]: "dec_ok (nr_rlc_pdu_decoder_init buffer)"
  by (simp add: dec_ok_def dec_pos_def nr_rlc_pdu_decoder_init_def)

lemma dec_rest_init [simp]: "dec_rest (nr_rlc_pdu_decoder_init buffer) = bytes_bits buffer"
  by (simp add: dec_rest_def dec_pos_def nr_rlc_pdu_decoder_init_def)

lemma dec_pos_init [simp]: "dec_pos (nr_rlc_pdu_decoder_init buffer) = 0"
  by (simp add: dec_pos_def nr_rlc_pdu_decoder_init_def)

lemma dec_skip_sel [simp]:
  "d_buffer (dec_skip d c) = d_buffer d" "d_size (dec_skip d c) = d_size d"
  "d_error (dec_skip d c) = d_error d" "dec_pos (dec_skip d c) = dec_pos d + c"
  by (simp_all add: dec_skip_def dec_pos_def)

lemma d_byte_dec_skip: "d_byte (dec_skip d c) = (dec_pos d + c) div 8"
  by (simp add: dec_skip_def)

lemma dec_skip_0: "dec_ok d \<Longrightarrow> dec_skip d 0 = d"
  by (simp add: dec_skip_def dec_ok_def dec_pos_def)

lemma dec_skip_skip [simp]: "dec_skip (dec_skip d a) b = dec_skip d (a + b)"
  by (simp add: dec_skip_def dec_pos_def add.assoc)

lemma dec_rest_skip [simp]: "dec_rest (dec_skip d c) = drop c (dec_rest d)"
  by (simp add: dec_rest_def add.commute)

lemma length_dec_rest: "dec_ok d \<Longrightarrow> length (dec_rest d) = 8 * d_size d - dec_pos d"
  by (simp add: dec_rest_def dec_ok_def)

lemma dec_ok_skip [simp]: "dec_ok d \<Longrightarrow> c \<le> length (dec_rest d) \<Longrightarrow> dec_ok (dec_skip d c)"
  by (auto simp: dec_ok_def dec_rest_def dec_skip_def dec_pos_def)

lemma byte_bits_nth: "k < 8 \<Longrightarrow> byte_bits w ! k = bit w (7 - k)"
  by (simp add: byte_bits_def rev_nth)

lemma dec_rest_Cons:
  assumes "dec_ok d" and "d_byte d < d_size d"
  shows "dec_rest d = bit (d_buffer d ! d_byte d) (7 - d_bit d) # dec_rest (dec_skip d 1)"
proof -
  let ?w = "d_buffer d ! d_byte d"
  have b: "d_bit d < 8" and s: "d_byte d < length (d_buffer d)"
    using assms by (auto simp: dec_ok_def)
  have "dec_rest d = drop (d_bit d) (drop (8 * d_byte d) (bytes_bits (d_buffer d)))"
    by (simp add: dec_rest_def dec_pos_def add.commute)
  also have "\<dots> = drop (d_bit d) (byte_bits ?w @ bytes_bits (drop (Suc (d_byte d)) (d_buffer d)))"
    using s by (simp add: drop_bytes_bits)
  also have "\<dots> = byte_bits ?w ! d_bit d #
      drop (Suc (d_bit d)) (byte_bits ?w @ bytes_bits (drop (Suc (d_byte d)) (d_buffer d)))"
    using b by (subst Cons_nth_drop_Suc [symmetric]) (simp_all add: nth_append)
  finally have *: "dec_rest d = bit ?w (7 - d_bit d) # drop (Suc (d_bit d))
      (byte_bits ?w @ bytes_bits (drop (Suc (d_byte d)) (d_buffer d)))"
    using b by (simp add: byte_bits_nth)
  then have "drop 1 (dec_rest d) = drop (Suc (d_bit d))
      (byte_bits ?w @ bytes_bits (drop (Suc (d_byte d)) (d_buffer d)))"
    by simp
  with * show ?thesis
    by simp
qed

lemma get_bit_Cons:
  assumes ok: "dec_ok d" and r: "dec_rest d = b # r"
  shows "get_bit d = (of_bool b, dec_skip d 1)"
proof -
  have "d_byte d < d_size d"
    using ok r length_dec_rest [OF ok] by (auto simp: dec_ok_def dec_pos_def)
  moreover have "dec_skip d 1 = (if Suc (d_bit d) = 8 then d\<lparr>d_bit := 0, d_byte := Suc (d_byte d)\<rparr>
         else d\<lparr>d_bit := Suc (d_bit d)\<rparr>)"
    using ok by (auto simp: dec_skip_def dec_pos_def dec_ok_def)
  ultimately show ?thesis
    using dec_rest_Cons [OF ok] r by (simp add: get_bit_def)
qed

lemma get_bit_Nil:
  assumes ok: "dec_ok d" and r: "dec_rest d = []"
  shows "get_bit d = (0, d\<lparr>d_error := True\<rparr>)"
proof -
  have "8 * d_size d \<le> dec_pos d"
    using length_dec_rest [OF ok] r by simp
  with ok have "d_byte d \<ge> d_size d"
    by (simp add: dec_ok_def dec_pos_def)
  then show ?thesis
    by (simp add: get_bit_def)
qed

lemma push_bit_or_bool: "push_bit 1 (v::int) OR of_bool b = 2 * v + of_bool b"
  by (cases b) (simp_all add: push_bit_eq_mult or_one_eq)

lemma get_bits_loop_enough:
  "dec_ok d \<Longrightarrow> n \<le> length (dec_rest d) \<Longrightarrow>
   get_bits_loop n ret d = (ret * 2 ^ n + bits_val (take n (dec_rest d)), dec_skip d n)"
proof (induction n arbitrary: ret d)
  case 0
  then show ?case
    by (simp add: dec_skip_0)
next
  case (Suc n)
  then obtain b r where r: "dec_rest d = b # r"
    by (cases "dec_rest d") auto
  have g: "get_bit d = (of_bool b, dec_skip d 1)"
    using Suc.prems(1) r by (rule get_bit_Cons)
  have "get_bits_loop n (push_bit 1 ret OR of_bool b) (dec_skip d 1) =
      ((2 * ret + of_bool b) * 2 ^ n + bits_val (take n r), dec_skip (dec_skip d 1) n)"
    unfolding push_bit_or_bool using Suc.prems r by (subst Suc.IH) auto
  moreover have "n \<le> length r"
    using Suc.prems(2) r by simp
  ultimately show ?case
    using g Suc.prems(1) r
    by (auto simp: dec_ok_def bits_val_Cons algebra_simps min_def)
qed

lemma get_bits_loop_short:
  "dec_ok d \<Longrightarrow> length (dec_rest d) < n \<Longrightarrow>
   fst (get_bits_loop n ret d) = -1 \<and> d_error (snd (get_bits_loop n ret d))"
proof (induction n arbitrary: ret d)
  case (Suc n)
  show ?case
  proof (cases "dec_rest d")
    case Nil
    with Suc.prems(1) show ?thesis
      by (simp add: get_bit_Nil)
  next
    case (Cons b r)
    then have "get_bit d = (of_bool b, dec_skip d 1)" "dec_ok (dec_skip d 1)"
      "dec_rest (dec_skip d 1) = r" "\<not> d_error d"
      using Suc.prems(1) by (auto simp: get_bit_Cons) (simp add: dec_ok_def)
    with Cons Suc show ?thesis
      by simp
  qed
qed simp

text \<open>Reading \<open>c\<close> bits: the value of the next \<open>c\<close> bits, or the error branch when fewer are left.\<close>

lemma get_R_enough [simp]:
  "dec_ok d \<Longrightarrow> c \<le> 31 \<Longrightarrow> c \<le> length (dec_rest d) \<Longrightarrow>
   get_R d c err k = k (bits_val (take c (dec_rest d))) (dec_skip d c)"
  by (simp add: get_R_def nr_rlc_pdu_decoder_get_bits_def get_bits_loop_enough)
     (simp add: dec_ok_def)

lemma get_R_short [simp]:
  "dec_ok d \<Longrightarrow> c \<le> 31 \<Longrightarrow> length (dec_rest d) < c \<Longrightarrow> get_R d c err k = err"
  using get_bits_loop_short [of d c 0]
  by (auto simp: get_R_def nr_rlc_pdu_decoder_get_bits_def split: prod.split)

lemma get_R_cases:
  assumes "dec_ok d" and "c \<le> 31"
  shows "get_R d c err k =
     (if c \<le> length (dec_rest d) then k (bits_val (take c (dec_rest d))) (dec_skip d c) else err)"
  using assms by auto

section \<open>The encoder extends the encoded bit string\<close>

lemma enc_ok_init [simp]: "enc_ok (nr_rlc_pdu_encoder_init buffer)"
  by (simp add: enc_ok_def enc_pos_def nr_rlc_pdu_encoder_init_def)

lemma enc_init [simp]:
  "enc_bits (nr_rlc_pdu_encoder_init buffer) = []"
  "enc_pos (nr_rlc_pdu_encoder_init buffer) = 0"
  "e_size (nr_rlc_pdu_encoder_init buffer) = length buffer"
  "e_buffer (nr_rlc_pdu_encoder_init buffer) = buffer"
  "e_byte (nr_rlc_pdu_encoder_init buffer) = 0"
  by (simp_all add: enc_bits_def enc_pos_def nr_rlc_pdu_encoder_init_def)

lemma byte_bits_shift:
  "byte_bits (if b then push_bit 1 w OR 1 else push_bit 1 w) = tl (byte_bits w) @ [b]"
proof (rule nth_equalityI)
  fix k assume "k < length (byte_bits (if b then push_bit 1 w OR 1 else push_bit 1 w))"
  then have k: "k < 8"
    by simp
  then consider "k = 7" | "k < 7"
    by linarith
  then show "byte_bits (if b then push_bit 1 w OR 1 else push_bit 1 w) ! k =
      (tl (byte_bits w) @ [b]) ! k"
  proof cases
    case 1
    then show ?thesis
      by (simp add: byte_bits_nth nth_append bit_simps bit_0 even_or_iff)
  next
    case 2
    then have "7 - k = Suc (6 - k)" "7 - Suc k = 6 - k" "6 - k < 7"
      by simp_all
    with 2 show ?thesis
      by (simp add: byte_bits_nth nth_append nth_tl bit_simps mult.commute [of w 2])
  qed
qed simp

lemma length_enc_bits: "enc_ok e \<Longrightarrow> length (enc_bits e) = enc_pos e"
  by (auto simp: enc_bits_def enc_ok_def enc_pos_def)

text \<open>
  \<open>enc_at e bits buf\<close>: the encoder, started on \<open>buf\<close>, has written exactly \<open>bits\<close>; the bytes it has
  not reached are those of \<open>buf\<close>.
\<close>

definition enc_at :: "nr_rlc_pdu_encoder \<Rightarrow> bool list \<Rightarrow> byte list \<Rightarrow> bool" where
  "enc_at e bits buf \<longleftrightarrow> enc_ok e \<and> enc_bits e = bits \<and> e_size e = length buf \<and>
     (\<forall>i. length bits \<le> 8 * i \<longrightarrow> e_buffer e ! i = buf ! i)"

lemma enc_at_init [simp]: "enc_at (nr_rlc_pdu_encoder_init buf) [] buf"
  by (simp add: enc_at_def)

lemma take_Suc_update:
  "n < length xs \<Longrightarrow> take (Suc n) (xs[n := x]) = take n xs @ [x]"
  by (simp add: take_Suc_conv_app_nth)

lemma put_bit_enc_at:
  assumes at: "enc_at e bits buf" and room: "length bits < 8 * length buf"
  shows "\<exists>e'. put_bit e b = Inr e' \<and> enc_at e' (bits @ [b]) buf"
proof -
  let ?w = "e_buffer e ! e_byte e"
  let ?w' = "if b then push_bit 1 ?w OR 1 else push_bit 1 ?w"
  let ?n = "e_byte e" and ?k = "e_bit e"
  have ok: "e_size e = length (e_buffer e)" "?k < 8" and bits: "bits = enc_bits e"
    and sz: "e_size e = length buf" and pos: "length bits = 8 * ?n + ?k"
    using at length_enc_bits [of e] by (auto simp: enc_at_def enc_ok_def enc_pos_def)
  then have n: "?n < length (e_buffer e)"
    using room by linarith
  have w: "drop (8 - Suc ?k) (byte_bits ?w') = (if ?k = 0 then [] else drop (8 - ?k) (byte_bits ?w)) @ [b]"
  proof -
    have "length (tl (byte_bits ?w)) = 7"
      by simp
    moreover have "drop (8 - Suc ?k) (tl (byte_bits ?w)) =
        (if ?k = 0 then [] else drop (8 - ?k) (byte_bits ?w))"
      using ok(2) by (auto simp: tl_drop drop_Suc [symmetric] simp flip: Suc_diff_le)
    ultimately show ?thesis
      unfolding byte_bits_shift using ok(2) by auto
  qed
  have frame: "e_buffer e ! i = buf ! i" if "length bits \<le> 8 * i" for i
    using at that by (auto simp: enc_at_def)
  define e1 where "e1 = e\<lparr>e_buffer := (e_buffer e)[?n := ?w'], e_bit := Suc ?k\<rparr>"
  define e' where "e' = (if Suc ?k = 8 then e1\<lparr>e_bit := 0, e_byte := Suc ?n\<rparr> else e1)"
  have put: "put_bit e b = Inr e'"
    using n ok by (simp add: put_bit_def e'_def e1_def Let_def)
  have "enc_bits e' = enc_bits e @ [b]"
  proof (cases "Suc ?k = 8")
    case True
    then have "?k = 7" by simp
    with True w n show ?thesis
      by (simp add: e'_def e1_def enc_bits_def take_Suc_update del: take_Suc_conv_app_nth)
  next
    case False
    with w n ok show ?thesis
      by (simp add: e'_def e1_def enc_bits_def)
  qed
  moreover have "enc_ok e'"
    using ok n by (auto simp: e'_def e1_def enc_ok_def enc_pos_def)
  moreover have "e_size e' = length buf"
    using sz by (simp add: e'_def e1_def)
  moreover have "e_buffer e' ! i = buf ! i" if "length bits < 8 * i" for i
    using frame [of i] that pos by (auto simp: e'_def e1_def nth_list_update)
  ultimately have "enc_at e' (bits @ [b]) buf"
    using bits by (auto simp: enc_at_def)
  with put show ?thesis
    by blast
qed

lemma put_bits_loop_enc_at:
  "enc_at e bits buf \<Longrightarrow> length bits + n \<le> 8 * length buf \<Longrightarrow>
   \<exists>e'. put_bits_loop n v e = Inr e' \<and> enc_at e' (bits @ int_bits n v) buf"
proof (induction n arbitrary: e bits)
  case (Suc n)
  have "length bits < 8 * length buf"
    using Suc.prems(2) by simp
  then obtain e1 where e1: "put_bit e (bit v n) = Inr e1" "enc_at e1 (bits @ [bit v n]) buf"
    using put_bit_enc_at [OF Suc.prems(1)] by blast
  then obtain e2 where "put_bits_loop n v e1 = Inr e2"
    "enc_at e2 ((bits @ [bit v n]) @ int_bits n v) buf"
    using Suc.IH [of e1 "bits @ [bit v n]"] Suc.prems(2) by auto
  with e1 show ?case
    by (simp add: int_bits_Suc)
qed simp

lemma put_bits_enc_at:
  assumes "enc_at e bits buf" and "c \<le> 31" and "length bits + c \<le> 8 * length buf"
  shows "\<exists>e'. nr_rlc_pdu_encoder_put_bits e v c = Inr e' \<and> enc_at e' (bits @ int_bits c v) buf"
  using put_bits_loop_enc_at [OF assms(1,3)] assms(2)
  by (simp add: nr_rlc_pdu_encoder_put_bits_def)

lemma enc_at_bytes:
  assumes at: "enc_at e bits buf" and n: "length bits = 8 * n"
  shows "e_byte e = n" "e_bit e = 0" "n \<le> length buf" "length (e_buffer e) = length buf"
    "bytes_bits (take n (e_buffer e)) = bits" "drop n (e_buffer e) = drop n buf"
proof -
  have ok: "enc_ok e" "enc_bits e = bits" "e_size e = length buf"
    "\<And>i. n \<le> i \<Longrightarrow> e_buffer e ! i = buf ! i"
    using at n by (auto simp: enc_at_def)
  then have p: "8 * e_byte e + e_bit e = 8 * n" "e_bit e < 8"
    using length_enc_bits [of e] n by (auto simp: enc_ok_def enc_pos_def)
  then show b: "e_byte e = n" "e_bit e = 0"
    by presburger+
  show l: "n \<le> length buf" "length (e_buffer e) = length buf"
    using ok p by (auto simp: enc_ok_def enc_pos_def)
  show "bytes_bits (take n (e_buffer e)) = bits"
    using ok(2) b by (simp add: enc_bits_def)
  show "drop n (e_buffer e) = drop n buf"
    using ok(4) l by (intro nth_equalityI) auto
qed

section \<open>The order of the reception list\<close>

definition sn_so_le :: "(int \<Rightarrow> int) \<Rightarrow> int \<times> int \<Rightarrow> int \<times> int \<Rightarrow> bool" where
  "sn_so_le key x y \<longleftrightarrow> key (fst x) < key (fst y) \<or> (fst x = fst y \<and> snd x \<le> snd y)"

definition pdu_sorted :: "(int \<Rightarrow> int) \<Rightarrow> nr_rlc_pdu list \<Rightarrow> bool" where
  "pdu_sorted key l \<longleftrightarrow>
     sorted_wrt (\<lambda>p q. sn_so_le key (p_sn p, p_so p) (p_sn q, p_so q)) l"

lemma nr_rlc_pdu_list_add_split:
  "nr_rlc_pdu_list_add cmp l pdu =
     takeWhile (\<lambda>c. \<not> (cmp (p_sn c) (p_sn pdu) > 0 \<or> p_sn c = p_sn pdu \<and> p_so c > p_so pdu)) l @
     pdu # dropWhile (\<lambda>c. \<not> (cmp (p_sn c) (p_sn pdu) > 0 \<or> p_sn c = p_sn pdu \<and> p_so c > p_so pdu)) l"
  by (induction l) auto

lemma set_nr_rlc_pdu_list_add [simp]:
  "set (nr_rlc_pdu_list_add cmp l pdu) = insert pdu (set l)"
  by (induction l) auto

lemma length_nr_rlc_pdu_list_add [simp]:
  "length (nr_rlc_pdu_list_add cmp l pdu) = Suc (length l)"
  by (induction l) auto

lemma sum_list_nr_rlc_pdu_list_add:
  "sum_list (map f (nr_rlc_pdu_list_add cmp l pdu)) = f pdu + (sum_list (map f l) :: int)"
  by (induction l) auto

text \<open>
  The interface between the reception list and the entities: a comparison of sequence numbers that
  is the difference of their distances from the start of a window, and distances that tell the
  valid sequence numbers apart.
\<close>

locale sn_order =
  fixes cmp :: "int \<Rightarrow> int \<Rightarrow> int"
    and key :: "int \<Rightarrow> int"
    and valid :: "int \<Rightarrow> bool"
  assumes cmp_key: "cmp a b = key a - key b"
    and key_inj: "valid a \<Longrightarrow> valid b \<Longrightarrow> key a = key b \<Longrightarrow> a = b"
begin

lemma cmp_pos_iff: "cmp a b > 0 \<longleftrightarrow> key b < key a"
  by (simp add: cmp_key)

lemma cmp_zero_iff: "valid a \<Longrightarrow> valid b \<Longrightarrow> cmp a b = 0 \<longleftrightarrow> a = b"
  using key_inj by (auto simp: cmp_key)

lemma not_before:
  assumes "valid a" "valid b"
    and "\<not> (cmp a b > 0 \<or> (a = b \<and> (s::int) > t))"
  shows "sn_so_le key (a, s) (b, t)"
  using assms key_inj [of a b] by (auto simp: cmp_key sn_so_le_def not_less le_less)

lemma before:
  assumes "cmp a b > 0 \<or> (a = b \<and> (s::int) > t)"
  shows "sn_so_le key (b, t) (a, s)"
  using assms by (auto simp: cmp_key sn_so_le_def)

lemma sn_so_le_trans: "sn_so_le key x y \<Longrightarrow> sn_so_le key y z \<Longrightarrow> sn_so_le key x z"
  by (auto simp: sn_so_le_def)

lemma pdu_list_add_sorted:
  assumes "pdu_sorted key l" and "\<And>p. p \<in> set l \<Longrightarrow> valid (p_sn p)" and "valid (p_sn pdu)"
  shows "pdu_sorted key (nr_rlc_pdu_list_add cmp l pdu)"
  using assms
proof (induction l)
  case (Cons cur l)
  show ?case
  proof (cases "cmp (p_sn cur) (p_sn pdu) > 0 \<or> (p_sn cur = p_sn pdu \<and> p_so cur > p_so pdu)")
    case True
    then have "sn_so_le key (p_sn pdu, p_so pdu) (p_sn cur, p_so cur)"
      by (rule before)
    with True Cons.prems(1) show ?thesis
      by (auto simp: pdu_sorted_def intro: sn_so_le_trans)
  next
    case False
    then have "sn_so_le key (p_sn cur, p_so cur) (p_sn pdu, p_so pdu)"
      using Cons.prems by (intro not_before) auto
    moreover have "pdu_sorted key (nr_rlc_pdu_list_add cmp l pdu)"
      using Cons by (auto simp: pdu_sorted_def)
    ultimately show ?thesis
      using False Cons.prems(1) by (auto simp: pdu_sorted_def)
  qed
qed (simp add: pdu_sorted_def)

end

section \<open>Properties of the codec\<close>

fun put_fields :: "nr_rlc_pdu_encoder \<Rightarrow> (int \<times> nat) list \<Rightarrow> nr_rlc_pdu_encoder res" where
  "put_fields e [] = Inr e"
| "put_fields e ((v, c) # fs) = rbind (nr_rlc_pdu_encoder_put_bits e v c) (\<lambda>e'. put_fields e' fs)"

fun get_fields :: "nr_rlc_pdu_decoder \<Rightarrow> nat list \<Rightarrow> int list res" where
  "get_fields d [] = Inr []"
| "get_fields d (c # cs) =
     get_R d c (Inl Out_of_bounds) (\<lambda>v d'. rbind (get_fields d' cs) (\<lambda>vs. Inr (v # vs)))"

definition fields_bits :: "(int \<times> nat) list \<Rightarrow> bool list" where
  "fields_bits fs = concat (map (\<lambda>(v, c). int_bits c v) fs)"

lemma length_fields_bits: "length (fields_bits fs) = sum_list (map snd fs)"
  by (induction fs) (auto simp: fields_bits_def)

lemma put_fields_enc_at:
  "enc_at e bits buf \<Longrightarrow> list_all (\<lambda>(v, c). c \<le> 31) fs \<Longrightarrow>
   length bits + sum_list (map snd fs) \<le> 8 * length buf \<Longrightarrow>
   \<exists>e'. put_fields e fs = Inr e' \<and> enc_at e' (bits @ fields_bits fs) buf"
proof (induction fs arbitrary: e bits)
  case (Cons f fs)
  obtain v c where f: "f = (v, c)"
    by (cases f)
  have c: "c \<le> 31" "length bits + c \<le> 8 * length buf"
    using Cons.prems f by auto
  obtain e1 where e1: "nr_rlc_pdu_encoder_put_bits e v c = Inr e1"
    "enc_at e1 (bits @ int_bits c v) buf"
    using put_bits_enc_at [OF Cons.prems(1) c] by blast
  with Cons.IH [OF e1(2)] Cons.prems f show ?case
    by (auto simp: fields_bits_def)
qed (simp add: fields_bits_def)

lemma put_fields_append:
  "put_fields e (fs @ gs) = rbind (put_fields e fs) (\<lambda>e'. put_fields e' gs)"
  by (induction e fs rule: put_fields.induct) (simp_all add: rbind_assoc)

text \<open>A header of whole bytes, and the data copied behind it.\<close>

lemma put_header:
  assumes "list_all (\<lambda>(v, c). c \<le> 31) fs" and "sum_list (map snd fs) = 8 * n"
    and "n + length bs \<le> length buf"
  shows "\<exists>e hdr. put_fields (nr_rlc_pdu_encoder_init buf) fs = Inr e \<and> e_byte e = n \<and>
    length hdr = n \<and> bytes_bits hdr = fields_bits fs \<and> length (e_buffer e) = length buf \<and>
    c_write (e_buffer e) (int n) bs = Inr (hdr @ bs @ drop (n + length bs) buf)"
proof -
  obtain e where e: "put_fields (nr_rlc_pdu_encoder_init buf) fs = Inr e"
    "enc_at e (fields_bits fs) buf"
    using put_fields_enc_at [OF enc_at_init, of fs buf] assms by auto
  then have n: "length (fields_bits fs) = 8 * n"
    using assms(2) by (simp add: length_fields_bits)
  note at = enc_at_bytes [OF e(2) n]
  have "drop (n + length bs) (e_buffer e) = drop (n + length bs) buf"
    using at(6) by (metis add.commute drop_drop)
  then show ?thesis
    using e at assms(3) by (intro exI [of _ e] exI [of _ "take n (e_buffer e)"]) auto
qed

lemma int_bits_1 [bits_simps]: "int_bits (Suc 0) v = [odd v]"
  by (simp add: int_bits_Suc bit_0)

text \<open>The two flags of the segmentation information.\<close>

lemma si_bits [bits_simps]:
  "(bits_val [a, b] AND 2 = 0) = (\<not> a)" "(bits_val [a, b] AND 1 = 0) = (\<not> b)"
  "odd (1 - of_bool f :: int) = (\<not> f)"
  by (cases a; cases b; cases f; simp add: bits_val_Cons)+

lemma get_fields_bits:
  "dec_ok d \<Longrightarrow> list_all (\<lambda>(v, c). c \<le> 31) fs \<Longrightarrow> dec_rest d = fields_bits fs @ r \<Longrightarrow>
   get_fields d (map snd fs) = Inr (map (\<lambda>(v, c). take_bit c v) fs)"
  by (induction fs arbitrary: d) (auto simp: fields_bits_def)

text \<open>C12: what the encoder writes, the decoder reads back: for every sequence of fields of at most
  31 bits that fills whole bytes of the buffer, encoding succeeds and decoding the buffer with the
  same widths gives every field modulo its width.\<close>

theorem codec_roundtrip:
  assumes "list_all (\<lambda>(v, c). c \<le> 31) fs"
    and "sum_list (map snd fs) = 8 * n" and "n \<le> length buf"
  shows "\<exists>e. put_fields (nr_rlc_pdu_encoder_init buf) fs = Inr e \<and> e_byte e = n \<and>
    get_fields (nr_rlc_pdu_decoder_init (e_buffer e)) (map snd fs) =
      Inr (map (\<lambda>(v, c). take_bit c v) fs)"
proof -
  obtain e where e: "put_fields (nr_rlc_pdu_encoder_init buf) fs = Inr e"
    "enc_at e (fields_bits fs) buf"
    using put_fields_enc_at [OF enc_at_init, of fs buf] assms by auto
  then have n: "length (fields_bits fs) = 8 * n"
    using assms(2) by (simp add: length_fields_bits)
  have "bytes_bits (e_buffer e) = fields_bits fs @ bytes_bits (drop n (e_buffer e))"
    using enc_at_bytes(5) [OF e(2) n] by (metis append_take_drop_id bytes_bits_append)
  then show ?thesis
    using e enc_at_bytes(1) [OF e(2) n] assms(1)
    by (auto intro!: get_fields_bits)
qed

theorem codec_roundtrip_witness:
  "list_all (\<lambda>(v, c). c \<le> 31) [(1::int, 1::nat), (0, 3), (2730, 12)] \<and>
   (\<exists>e. put_fields (nr_rlc_pdu_encoder_init [0, 0, 0]) [(1, 1), (0, 3), (2730, 12)] = Inr e \<and>
      get_fields (nr_rlc_pdu_decoder_init (e_buffer e)) [1, 3, 12] = Inr [1, 0, 2730])"
  using codec_roundtrip [of "[(1, 1), (0, 3), (2730, 12)]" 2 "[0, 0, 0]"] by auto

text \<open>C13: the decoder stays inside its buffer. On a decoder at any position, reading at most 31 bits
  never aborts; it returns a value of that many bits and moves on by as many when they are there,
  and otherwise returns -1 with the error flag set.\<close>

theorem decoder_get_bits_bounded:
  assumes "dec_ok d" and "c \<le> 31"
  shows "\<exists>v d'. nr_rlc_pdu_decoder_get_bits d c = Inr (v, d') \<and>
    (if dec_pos d + c \<le> 8 * length (d_buffer d)
     then dec_ok d' \<and> 0 \<le> v \<and> v < 2 ^ c \<and> dec_pos d' = dec_pos d + c
     else v = -1 \<and> d_error d')"
proof -
  have l: "length (dec_rest d) = 8 * length (d_buffer d) - dec_pos d"
    "dec_pos d \<le> 8 * length (d_buffer d)"
    using assms(1) by (auto simp: dec_rest_def dec_ok_def)
  show ?thesis
  proof (cases "dec_pos d + c \<le> 8 * length (d_buffer d)")
    case True
    with l have c: "c \<le> length (dec_rest d)"
      by simp
    have "length (take c (dec_rest d)) = c"
      using c by simp
    with c True assms bits_val_bounds [of "take c (dec_rest d)"] show ?thesis
      by (simp add: nr_rlc_pdu_decoder_get_bits_def get_bits_loop_enough)
  next
    case False
    with l have "length (dec_rest d) < c"
      by simp
    with False assms get_bits_loop_short [of d c 0] show ?thesis
      by (auto simp: nr_rlc_pdu_decoder_get_bits_def intro: prod_eqI
          intro!: exI [of _ "fst (get_bits_loop c 0 d)"] exI [of _ "snd (get_bits_loop c 0 d)"])
  qed
qed

theorem decoder_get_bits_bounded_witness:
  "dec_ok (nr_rlc_pdu_decoder_init [255, 1]) \<and>
   (\<exists>v d'. nr_rlc_pdu_decoder_get_bits (nr_rlc_pdu_decoder_init [255, 1]) 12 = Inr (v, d') \<and>
      0 \<le> v \<and> v < 2 ^ 12)"
  using decoder_get_bits_bounded [of "nr_rlc_pdu_decoder_init [255, 1]" 12]
  by (auto simp: nr_rlc_pdu_decoder_init_def dec_ok_def dec_pos_def)

end
