(* ===== verification/NR_RLC_Sdu.thy ===== *)
theory NR_RLC_Sdu
  imports NR_RLC_Pdu "HOL-Library.Multiset"
begin

text \<open>
  The RLC SDU module (\<^verbatim>\<open>nr_rlc_sdu.h\<close>, \<^verbatim>\<open>nr_rlc_sdu.c\<close>). An SDU is shared by the segments it has
  been cut into: the segments point to it, and reference counts say when the last segment has been
  freed. Since the entities rely on this sharing, the SDUs live in an explicit store
  (\<open>sdu_heap\<close>) and a segment holds the address of its SDU. A segment also carries its own address,
  because the entities keep pointers to the last segment of a list (\<^verbatim>\<open>tx_end\<close>, \<^verbatim>\<open>wait_end\<close>). A chain
  of \<^verbatim>\<open>next\<close> pointers is a list. Addresses are never reused, so that a pointer to freed memory is
  visible as such. Allocation is taken to succeed.

  The lemmas show the ownership discipline (\<open>heap_ok\<close>) and what appending through an end pointer,
  ordered insertion, creation and release do under it.
\<close>

section \<open>Data\<close>

record nr_rlc_sdu =
  s_sn :: int
  s_upper_layer_id :: int
  s_data :: "byte list"
  s_size :: int
  s_retx_count :: int
  s_ref_count :: int
  s_free_count :: int

record nr_rlc_sdu_segment =
  g_addr :: nat
  g_sdu :: nat
  g_size :: int
  g_so :: int
  g_is_first :: bool
  g_is_last :: bool

record sdu_heap =
  h_sdu :: "nat \<Rightarrow> nr_rlc_sdu option"
  h_next :: nat

abbreviation empty_heap :: sdu_heap where
  "empty_heap \<equiv> \<lparr>h_sdu = (\<lambda>_. None), h_next = 0\<rparr>"

section \<open>Operations\<close>

definition get_sdu :: "sdu_heap \<Rightarrow> nat \<Rightarrow> nr_rlc_sdu res" where
  "get_sdu h a = of_opt Dangling_pointer (h_sdu h a)"

definition put_sdu :: "sdu_heap \<Rightarrow> nat \<Rightarrow> nr_rlc_sdu \<Rightarrow> sdu_heap" where
  "put_sdu h a s = h\<lparr>h_sdu := (h_sdu h)(a \<mapsto> s)\<rparr>"

definition seg_sn :: "sdu_heap \<Rightarrow> nr_rlc_sdu_segment \<Rightarrow> int res" where
  "seg_sn h g = rbind (get_sdu h (g_sdu g)) (\<lambda>s. Inr (s_sn s))"

definition nr_rlc_new_sdu :: "sdu_heap \<Rightarrow> byte list \<Rightarrow> int \<Rightarrow> nr_rlc_sdu_segment \<times> sdu_heap" where
  "nr_rlc_new_sdu h buffer upper_layer_id =
     (let a = h_next h;
          sdu = \<lparr>s_sn = -1, s_upper_layer_id = upper_layer_id, s_data = buffer,
                 s_size = int (length buffer), s_retx_count = -1, s_ref_count = 1,
                 s_free_count = 0\<rparr>
      in (\<lparr>g_addr = Suc a, g_sdu = a, g_size = int (length buffer), g_so = 0,
           g_is_first = True, g_is_last = True\<rparr>,
          \<lparr>h_sdu = (h_sdu h)(a \<mapsto> sdu), h_next = Suc (Suc a)\<rparr>))"

definition nr_rlc_free_sdu_segment :: "sdu_heap \<Rightarrow> nr_rlc_sdu_segment \<Rightarrow> (bool \<times> sdu_heap) res" where
  "nr_rlc_free_sdu_segment h g =
     rbind (get_sdu h (g_sdu g)) (\<lambda>s.
       let s' = s\<lparr>s_free_count := s_free_count s + 1\<rparr>
       in if s_free_count s' = s_ref_count s'
          then Inr (True, h\<lparr>h_sdu := (h_sdu h)(g_sdu g := None)\<rparr>)
          else Inr (False, put_sdu h (g_sdu g) s'))"

text \<open>\<^verbatim>\<open>(*end)->next = sdu\<close>: the node \<open>end\<close> of the list is followed by \<open>sdu\<close> alone from now on.\<close>

fun link_after ::
  "nat \<Rightarrow> nr_rlc_sdu_segment list \<Rightarrow> nr_rlc_sdu_segment \<Rightarrow> nr_rlc_sdu_segment list option" where
  "link_after a [] sdu = None"
| "link_after a (g # l) sdu =
     (if g_addr g = a then Some [g, sdu] else map_option (Cons g) (link_after a l sdu))"

definition nr_rlc_sdu_segment_list_append ::
  "nr_rlc_sdu_segment list \<Rightarrow> nat option \<Rightarrow> nr_rlc_sdu_segment \<Rightarrow>
   (nr_rlc_sdu_segment list \<times> nat option) res" where
  "nr_rlc_sdu_segment_list_append l end sdu =
     (if l = [] then Inr ([sdu], Some (g_addr sdu))
      else case end of
        None \<Rightarrow> Inl Null_pointer
      | Some a \<Rightarrow> rbind (of_opt Dangling_pointer (link_after a l sdu))
                    (\<lambda>l'. Inr (l', Some (g_addr sdu))))"

fun nr_rlc_sdu_segment_list_add ::
  "sdu_heap \<Rightarrow> (int \<Rightarrow> int \<Rightarrow> int) \<Rightarrow> nr_rlc_sdu_segment list \<Rightarrow> nr_rlc_sdu_segment \<Rightarrow>
   nr_rlc_sdu_segment list res" where
  "nr_rlc_sdu_segment_list_add h sn_compare [] seg = Inr [seg]"
| "nr_rlc_sdu_segment_list_add h sn_compare (cur # l) seg =
     rbind (seg_sn h cur) (\<lambda>csn. rbind (seg_sn h seg) (\<lambda>sn.
       if sn_compare csn sn > 0 \<or> (csn = sn \<and> g_so cur > g_so seg)
       then Inr (seg # cur # l)
       else rbind (nr_rlc_sdu_segment_list_add h sn_compare l seg) (\<lambda>l'. Inr (cur # l'))))"

fun nr_rlc_free_sdu_segment_list :: "sdu_heap \<Rightarrow> nr_rlc_sdu_segment list \<Rightarrow> sdu_heap res" where
  "nr_rlc_free_sdu_segment_list h [] = Inr h"
| "nr_rlc_free_sdu_segment_list h (g # l) =
     rbind (nr_rlc_free_sdu_segment h g) (\<lambda>(_, h'). nr_rlc_free_sdu_segment_list h' l)"

section \<open>Ownership\<close>

text \<open>A segment is a range of the bytes of a live SDU; its flags say whether it touches the ends.\<close>

definition seg_ok :: "sdu_heap \<Rightarrow> nr_rlc_sdu_segment \<Rightarrow> bool" where
  "seg_ok h g \<longleftrightarrow>
     (case h_sdu h (g_sdu g) of None \<Rightarrow> False
      | Some s \<Rightarrow> s_size s = int (length (s_data s)) \<and> 0 \<le> g_so g \<and> 0 \<le> g_size g \<and>
          g_so g + g_size g \<le> s_size s \<and>
          (g_is_first g \<longleftrightarrow> g_so g = 0) \<and> (g_is_last g \<longleftrightarrow> g_so g + g_size g = s_size s))"

definition owners :: "nr_rlc_sdu_segment list \<Rightarrow> nat \<Rightarrow> int" where
  "owners l a = int (length (filter (\<lambda>g. g_sdu g = a) l))"

text \<open>
  The segments in use, wherever they are queued, are at different addresses and each is a range of
  a live SDU; an SDU is live exactly as long as some segment points to it, and its counts say how
  many do.
\<close>

definition heap_ok :: "sdu_heap \<Rightarrow> nr_rlc_sdu_segment list \<Rightarrow> bool" where
  "heap_ok h l \<longleftrightarrow> distinct (map g_addr l) \<and>
     (\<forall>g \<in> set l. g_addr g < h_next h \<and> seg_ok h g) \<and>
     (\<forall>a s. h_sdu h a = Some s \<longrightarrow>
        a < h_next h \<and> s_ref_count s - s_free_count s = owners l a \<and> 0 < owners l a)"

definition end_ok :: "nr_rlc_sdu_segment list \<Rightarrow> nat option \<Rightarrow> bool" where
  "end_ok l end \<longleftrightarrow> end = (if l = [] then None else Some (g_addr (last l)))"

definition total_size :: "nr_rlc_sdu_segment list \<Rightarrow> int" where
  "total_size l = sum_list (map g_size l)"

text \<open>The bytes of all live SDUs.\<close>

definition live_size :: "sdu_heap \<Rightarrow> int" where
  "live_size h = (\<Sum>a | h_sdu h a \<noteq> None. s_size (the (h_sdu h a)))"

text \<open>The bytes of the SDU a segment belongs to.\<close>

definition sdu_bytes :: "sdu_heap \<Rightarrow> nr_rlc_sdu_segment \<Rightarrow> byte list" where
  "sdu_bytes h g = (case h_sdu h (g_sdu g) of None \<Rightarrow> [] | Some s \<Rightarrow> s_data s)"

lemma owners_simps [simp]:
  "owners [] a = 0"
  "owners (g # l) a = of_bool (g_sdu g = a) + owners l a"
  "owners (k @ l) a = owners k a + owners l a"
  by (simp_all add: owners_def)

lemma owners_nonneg [simp]: "0 \<le> owners l a"
  by (simp add: owners_def)

lemma owners_mset: "mset k = mset l \<Longrightarrow> owners k a = owners l a"
  by (metis mset_filter owners_def size_mset)

lemma owners_pos_iff: "0 < owners l a \<longleftrightarrow> (\<exists>g \<in> set l. g_sdu g = a)"
  by (auto simp: owners_def filter_empty_conv)

lemma heap_ok_mset:
  assumes "mset k = mset l"
  shows "heap_ok h k \<longleftrightarrow> heap_ok h l"
proof -
  have "set k = set l"
    using assms by (rule mset_eq_setD)
  moreover have "distinct (map g_addr k) \<longleftrightarrow> distinct (map g_addr l)"
    using assms by (metis mset_eq_imp_distinct_iff mset_map)
  moreover have "owners k = owners l"
    using owners_mset [OF assms] by blast
  ultimately show ?thesis
    by (simp add: heap_ok_def)
qed

lemma heap_ok_empty [simp]: "heap_ok empty_heap []"
  by (simp add: heap_ok_def)

lemma heap_okD:
  assumes "heap_ok h l" and "g \<in> set l"
  obtains s where "h_sdu h (g_sdu g) = Some s" and "s_size s = int (length (s_data s))"
    and "0 \<le> g_so g" and "0 \<le> g_size g" and "g_so g + g_size g \<le> s_size s"
    and "g_is_first g \<longleftrightarrow> g_so g = 0" and "g_is_last g \<longleftrightarrow> g_so g + g_size g = s_size s"
proof -
  have "seg_ok h g"
    using assms by (simp add: heap_ok_def)
  then show thesis
    using that by (auto simp: seg_ok_def split: option.splits)
qed

lemma heap_ok_sdu_bound:
  assumes "heap_ok h l" and "g \<in> set l"
  shows "g_sdu g < h_next h"
proof -
  obtain s where "h_sdu h (g_sdu g) = Some s"
    using assms by (rule heap_okD)
  with assms(1) show ?thesis
    by (auto simp: heap_ok_def)
qed

lemma heap_ok_new:
  assumes "heap_ok h l" and "nr_rlc_new_sdu h buffer i = (g, h')"
  shows "heap_ok h' (l @ [g])"
proof -
  have eq: "g_addr g = Suc (h_next h)" "g_sdu g = h_next h" "h_next h' = Suc (Suc (h_next h))"
    using assms(2) by (auto simp: nr_rlc_new_sdu_def Let_def)
  have fresh: "h_sdu h (h_next h) = None"
    using assms(1) by (cases "h_sdu h (h_next h)") (auto simp: heap_ok_def)
  have old: "g_sdu k \<noteq> h_next h" "g_addr k \<noteq> Suc (h_next h)" "g_addr k < Suc (Suc (h_next h))"
    if "k \<in> set l" for k
  proof -
    have "seg_ok h k" "g_addr k < h_next h"
      using assms(1) that by (auto simp: heap_ok_def)
    then show "g_sdu k \<noteq> h_next h" "g_addr k \<noteq> Suc (h_next h)" "g_addr k < Suc (Suc (h_next h))"
      using fresh by (auto simp: seg_ok_def)
  qed
  have z: "owners l (h_next h) = 0"
    using old(1) by (auto simp: owners_def filter_empty_conv)
  have k: "seg_ok h' k" if "k \<in> set l" for k
    using assms that old(1) [OF that]
    by (auto simp: heap_ok_def seg_ok_def nr_rlc_new_sdu_def Let_def split: option.splits)
  have n: "seg_ok h' g"
    using assms(2) by (auto simp: seg_ok_def nr_rlc_new_sdu_def Let_def)
  have c: "a < Suc (Suc (h_next h)) \<and>
      s_ref_count s - s_free_count s = owners (l @ [g]) a \<and> 0 < owners (l @ [g]) a"
    if "h_sdu h' a = Some s" for a s
  proof (cases "a = h_next h")
    case True
    then show ?thesis
      using assms(2) that z eq by (auto simp: nr_rlc_new_sdu_def Let_def)
  next
    case False
    then have "h_sdu h a = Some s"
      using assms(2) that by (auto simp: nr_rlc_new_sdu_def Let_def)
    then show ?thesis
      using assms(1) False eq by (fastforce simp: heap_ok_def)
  qed
  show ?thesis
    using assms(1) old k n c eq by (auto simp: heap_ok_def)
qed

text \<open>Replacing an SDU by one with the same bytes and counts keeps the discipline.\<close>

lemma heap_ok_put:
  assumes "heap_ok h l" and "h_sdu h a = Some s"
    and "s_data s' = s_data s" "s_size s' = s_size s"
    and "s_ref_count s' - s_free_count s' = s_ref_count s - s_free_count s"
  shows "heap_ok (put_sdu h a s') l"
proof -
  have "seg_ok (put_sdu h a s') g" if "g \<in> set l" for g
    using assms that by (auto simp: heap_ok_def seg_ok_def put_sdu_def split: option.splits)
  then show ?thesis
    using assms by (auto simp: heap_ok_def put_sdu_def)
qed

lemma finite_live: "heap_ok h l \<Longrightarrow> finite {a. h_sdu h a \<noteq> None}"
  by (rule finite_subset [of _ "{..<h_next h}"]) (auto simp: heap_ok_def)

lemma live_size_put:
  assumes "heap_ok h l" and "h_sdu h a = Some s" and "s_size s' = s_size s"
  shows "live_size (put_sdu h a s') = live_size h"
proof -
  have A: "{b. h_sdu (put_sdu h a s') b \<noteq> None} = {b. h_sdu h b \<noteq> None}"
    using assms(2) by (auto simp: put_sdu_def)
  show ?thesis
    unfolding live_size_def A using assms(2,3) by (intro sum.cong) (auto simp: put_sdu_def)
qed

lemma live_size_remove:
  assumes "heap_ok h l" and "h_sdu h a = Some s"
  shows "live_size (h\<lparr>h_sdu := (h_sdu h)(a := None)\<rparr>) = live_size h - s_size s"
proof -
  let ?A = "{b. h_sdu h b \<noteq> None}"
  have "{b. h_sdu (h\<lparr>h_sdu := (h_sdu h)(a := None)\<rparr>) b \<noteq> None} = ?A - {a}"
    by auto
  moreover have "(\<Sum>b \<in> ?A. s_size (the (h_sdu h b))) =
      s_size s + (\<Sum>b \<in> ?A - {a}. s_size (the (h_sdu h b)))"
    using finite_live [OF assms(1)] assms(2) by (subst sum.remove [of _ a]) auto
  ultimately show ?thesis
    unfolding live_size_def by (auto intro: sum.cong)
qed

lemma live_size_new:
  assumes "heap_ok h l" and "nr_rlc_new_sdu h buffer i = (g, h')"
  shows "live_size h' = live_size h + int (length buffer)"
proof -
  let ?A = "{b. h_sdu h b \<noteq> None}" and ?n = "h_next h"
  have n: "?n \<notin> ?A"
    using assms(1) by (cases "h_sdu h ?n") (auto simp: heap_ok_def)
  have "{b. h_sdu h' b \<noteq> None} = insert ?n ?A"
    using assms(2) by (auto simp: nr_rlc_new_sdu_def Let_def)
  moreover have "(\<Sum>b \<in> ?A. s_size (the (h_sdu h' b))) = (\<Sum>b \<in> ?A. s_size (the (h_sdu h b)))"
    using assms(2) n by (intro sum.cong) (auto simp: nr_rlc_new_sdu_def Let_def)
  moreover have "s_size (the (h_sdu h' ?n)) = int (length buffer)"
    using assms(2) by (auto simp: nr_rlc_new_sdu_def Let_def)
  ultimately show ?thesis
    unfolding live_size_def using n finite_live [OF assms(1)] by simp
qed

text \<open>Freeing a segment: the SDU goes with its last segment.\<close>

lemma free_sdu_segment_ok:
  assumes ok: "heap_ok h (g # l)" and s: "h_sdu h (g_sdu g) = Some s"
  defines "b \<equiv> owners l (g_sdu g) = 0"
  shows "\<exists>h'. nr_rlc_free_sdu_segment h g = Inr (b, h') \<and> heap_ok h' l \<and>
    live_size h' = live_size h - (if b then s_size s else 0) \<and> h_next h' = h_next h"
proof -
  let ?a = "g_sdu g"
  let ?s' = "s\<lparr>s_free_count := s_free_count s + 1\<rparr>"
  have cnt: "s_ref_count s - s_free_count s = 1 + owners l ?a"
    using ok s by (auto simp: heap_ok_def)
  then have last: "s_free_count ?s' = s_ref_count ?s' \<longleftrightarrow> b"
    by (auto simp: b_def)
  show ?thesis
  proof (cases b)
    case True
    let ?h = "h\<lparr>h_sdu := (h_sdu h)(?a := None)\<rparr>"
    have "g_sdu k \<noteq> ?a" if "k \<in> set l" for k
      using True that unfolding b_def by (auto simp: owners_def filter_empty_conv)
    then have "seg_ok ?h k" if "k \<in> set l" for k
      using ok that by (auto simp: heap_ok_def seg_ok_def)
    moreover have "a < h_next h \<and> s_ref_count t - s_free_count t = owners l a \<and> 0 < owners l a"
      if "h_sdu ?h a = Some t" for a t
      using ok that by (fastforce simp: heap_ok_def split: if_splits)
    ultimately have "heap_ok ?h l"
      using ok by (auto simp: heap_ok_def)
    moreover have "live_size ?h = live_size h - s_size s"
      using ok s by (rule live_size_remove)
    moreover have "nr_rlc_free_sdu_segment h g = Inr (True, ?h)"
      using True last s by (simp add: nr_rlc_free_sdu_segment_def get_sdu_def Let_def)
    ultimately show ?thesis
      using True by simp
  next
    case False
    let ?h = "put_sdu h ?a ?s'"
    have pos: "0 < owners l ?a"
      using False owners_nonneg [of l ?a] unfolding b_def by linarith
    have "seg_ok ?h k" if "k \<in> set l" for k
      using ok that s by (auto simp: heap_ok_def seg_ok_def put_sdu_def split: option.splits)
    moreover have "a < h_next h \<and> s_ref_count t - s_free_count t = owners l a \<and> 0 < owners l a"
      if "h_sdu ?h a = Some t" for a t
      using ok that s cnt pos by (fastforce simp: heap_ok_def put_sdu_def split: if_splits)
    ultimately have "heap_ok ?h l"
      using ok by (auto simp: heap_ok_def put_sdu_def)
    moreover have "live_size ?h = live_size h"
      using ok s by (intro live_size_put) auto
    moreover have "nr_rlc_free_sdu_segment h g = Inr (False, ?h)"
      using False last s by (simp add: nr_rlc_free_sdu_segment_def get_sdu_def Let_def)
    ultimately show ?thesis
      using False by (simp add: put_sdu_def)
  qed
qed

text \<open>Cutting a segment in two: one more owner, one more reference.\<close>

lemma heap_ok_cut:
  assumes ok: "heap_ok h (g # l)" and s: "h_sdu h (g_sdu g) = Some s"
    and g': "seg_ok h g'" "g_addr g' = g_addr g" "g_sdu g' = g_sdu g"
    and n: "seg_ok h nxt" "g_addr nxt = h_next h" "g_sdu nxt = g_sdu g"
  shows "heap_ok ((put_sdu h (g_sdu g) (s\<lparr>s_ref_count := s_ref_count s + 1\<rparr>))
    \<lparr>h_next := Suc (h_next h)\<rparr>) (g' # nxt # l)" (is "heap_ok ?h _")
proof -
  have seg: "seg_ok ?h k" if "seg_ok h k" for k
    using that s by (auto simp: seg_ok_def put_sdu_def split: option.splits)
  have addr: "g_addr k < h_next h" if "k \<in> set (g # l)" for k
    using ok that by (auto simp: heap_ok_def)
  have "distinct (map g_addr (g' # nxt # l))"
    using ok g' n addr by (fastforce simp: heap_ok_def)
  moreover have "\<forall>k \<in> set (g' # nxt # l). g_addr k < h_next ?h \<and> seg_ok ?h k"
    using ok g' n addr seg by (fastforce simp: heap_ok_def)
  moreover have "a < h_next ?h \<and> s_ref_count t - s_free_count t = owners (g' # nxt # l) a \<and>
      0 < owners (g' # nxt # l) a" if "h_sdu ?h a = Some t" for a t
  proof (cases "a = g_sdu g")
    case True
    then show ?thesis
      using ok s that g'(3) n(3) owners_nonneg [of l a]
      by (fastforce simp: heap_ok_def put_sdu_def)
  next
    case False
    then show ?thesis
      using ok that g'(3) n(3) by (fastforce simp: heap_ok_def put_sdu_def)
  qed
  ultimately show ?thesis
    unfolding heap_ok_def by blast
qed

lemma free_sdu_segment_frame:
  "nr_rlc_free_sdu_segment h g = Inr (b, h') \<Longrightarrow> a \<noteq> g_sdu g \<Longrightarrow> h_sdu h' a = h_sdu h a"
  by (auto simp: nr_rlc_free_sdu_segment_def rbind_eq_Inr put_sdu_def Let_def split: if_splits)

text \<open>What is still live after freeing a segment has kept everything but its free count.\<close>

lemma free_sdu_segment_keeps:
  assumes "nr_rlc_free_sdu_segment h g = Inr (b, h')" and "h_sdu h' a = Some t"
  shows "\<exists>s. h_sdu h a = Some s \<and> s_sn t = s_sn s \<and> s_data t = s_data s \<and> s_size t = s_size s \<and>
    s_upper_layer_id t = s_upper_layer_id s \<and> s_retx_count t = s_retx_count s \<and>
    s_ref_count t = s_ref_count s"
  using assms
  by (auto simp: nr_rlc_free_sdu_segment_def rbind_eq_Inr get_sdu_def put_sdu_def Let_def
      split: if_splits)

lemma free_sdu_segment_bytes:
  assumes "nr_rlc_free_sdu_segment h g = Inr (b, h')" and "heap_ok h' l"
  shows "\<forall>k \<in> set l. sdu_bytes h' k = sdu_bytes h k"
proof
  fix k assume "k \<in> set l"
  with assms(2) obtain t where t: "h_sdu h' (g_sdu k) = Some t"
    by (rule heap_okD)
  with free_sdu_segment_keeps [OF assms(1) t] show "sdu_bytes h' k = sdu_bytes h k"
    by (auto simp: sdu_bytes_def)
qed

lemma free_sdu_segment_list_ok:
  "heap_ok h (l @ k) \<Longrightarrow> \<exists>h'. nr_rlc_free_sdu_segment_list h l = Inr h' \<and> heap_ok h' k"
proof (induction l arbitrary: h)
  case (Cons g l)
  obtain s where "h_sdu h (g_sdu g) = Some s"
    using Cons.prems by (auto elim: heap_okD)
  then obtain b h' where "nr_rlc_free_sdu_segment h g = Inr (b, h')" "heap_ok h' (l @ k)"
    using free_sdu_segment_ok [of h g "l @ k" s] Cons.prems by auto
  then show ?case
    using Cons.IH by simp
qed simp

section \<open>Lists with an end pointer\<close>

lemma end_ok_simps [simp]:
  "end_ok [] e \<longleftrightarrow> e = None"
  "end_ok (l @ [g]) e \<longleftrightarrow> e = Some (g_addr g)"
  by (simp_all add: end_ok_def)

lemma link_after_last:
  "distinct (map g_addr (l @ [g])) \<Longrightarrow> link_after (g_addr g) (l @ [g]) sdu = Some (l @ [g, sdu])"
  by (induction l) auto

lemma list_append_ok:
  assumes "end_ok l e" and "distinct (map g_addr l)"
  shows "nr_rlc_sdu_segment_list_append l e sdu = Inr (l @ [sdu], Some (g_addr sdu))"
proof (cases l rule: rev_cases)
  case Nil
  then show ?thesis
    by (simp add: nr_rlc_sdu_segment_list_append_def)
next
  case (snoc k g)
  then show ?thesis
    using assms link_after_last [of k g sdu]
    by (simp add: nr_rlc_sdu_segment_list_append_def)
qed

section \<open>Ordered insertion\<close>

definition sn_of :: "sdu_heap \<Rightarrow> nr_rlc_sdu_segment \<Rightarrow> int" where
  "sn_of h g = (case h_sdu h (g_sdu g) of None \<Rightarrow> -1 | Some s \<Rightarrow> s_sn s)"

definition seg_live :: "sdu_heap \<Rightarrow> nr_rlc_sdu_segment \<Rightarrow> bool" where
  "seg_live h g \<longleftrightarrow> h_sdu h (g_sdu g) \<noteq> None"

lemma seg_sn_live [simp]: "seg_live h g \<Longrightarrow> seg_sn h g = Inr (sn_of h g)"
  by (auto simp: seg_live_def seg_sn_def get_sdu_def sn_of_def)

lemma heap_ok_live: "heap_ok h l \<Longrightarrow> g \<in> set l \<Longrightarrow> seg_live h g"
  by (auto simp: seg_live_def elim: heap_okD)

definition seg_sorted :: "(int \<Rightarrow> int) \<Rightarrow> sdu_heap \<Rightarrow> nr_rlc_sdu_segment list \<Rightarrow> bool" where
  "seg_sorted key h l \<longleftrightarrow>
     sorted_wrt (\<lambda>g k. sn_so_le key (sn_of h g, g_so g) (sn_of h k, g_so k)) l"

text \<open>Insertion puts the segment somewhere in the list and loses none.\<close>

lemma list_add_ok:
  assumes "\<forall>g \<in> set (seg # l). seg_live h g"
  shows "\<exists>xs ys. l = xs @ ys \<and> nr_rlc_sdu_segment_list_add h cmp l seg = Inr (xs @ seg # ys)"
  using assms
proof (induction l)
  case (Cons cur l)
  then obtain xs ys where l: "l = xs @ ys"
    "nr_rlc_sdu_segment_list_add h cmp l seg = Inr (xs @ seg # ys)"
    by auto
  show ?case
  proof (cases "cmp (sn_of h cur) (sn_of h seg) > 0 \<or> (sn_of h cur = sn_of h seg \<and> g_so cur > g_so seg)")
    case True
    with Cons.prems show ?thesis
      by (intro exI [of _ "[]"] exI [of _ "cur # l"]) auto
  next
    case False
    with Cons.prems l show ?thesis
      by (intro exI [of _ "cur # xs"] exI [of _ ys]) auto
  qed
qed simp

context sn_order
begin

lemma segment_list_add_sorted:
  assumes "seg_sorted key h l" and "\<forall>g \<in> set (seg # l). seg_live h g \<and> valid (sn_of h g)"
  shows "\<exists>l'. nr_rlc_sdu_segment_list_add h cmp l seg = Inr l' \<and> seg_sorted key h l' \<and>
    set l' = insert seg (set l)"
  using assms
proof (induction l)
  case (Cons cur l)
  let ?b = "cmp (sn_of h cur) (sn_of h seg) > 0 \<or> (sn_of h cur = sn_of h seg \<and> g_so cur > g_so seg)"
  show ?case
  proof (cases ?b)
    case True
    then have "sn_so_le key (sn_of h seg, g_so seg) (sn_of h cur, g_so cur)"
      by (rule before)
    with True Cons.prems show ?thesis
      by (auto simp: seg_sorted_def intro: sn_so_le_trans)
  next
    case False
    have le: "sn_so_le key (sn_of h cur, g_so cur) (sn_of h seg, g_so seg)"
      using Cons.prems False by (intro not_before) auto
    obtain l' where l': "nr_rlc_sdu_segment_list_add h cmp l seg = Inr l'" "seg_sorted key h l'"
      "set l' = insert seg (set l)"
      using Cons by (auto simp: seg_sorted_def)
    have "nr_rlc_sdu_segment_list_add h cmp (cur # l) seg = Inr (cur # l')"
      using False Cons.prems l' by auto
    moreover have "seg_sorted key h (cur # l')"
      using l' le Cons.prems(1) by (auto simp: seg_sorted_def)
    ultimately show ?thesis
      using l' by auto
  qed
qed (simp add: seg_sorted_def)

end

end
