(* ===== verification/NR_RLC_Common.thy ===== *)
theory NR_RLC_Common
  imports NR_RLC_Sdu
begin

text \<open>
  What the three kinds of RLC entities share (\<^verbatim>\<open>nr_rlc_entity.h\<close>): the size limit, the buffer status,
  and the callbacks. The function pointers \<^verbatim>\<open>deliver_sdu\<close>, \<^verbatim>\<open>sdu_successful_delivery\<close> and
  \<^verbatim>\<open>max_retx_reached\<close> are code of the user of the entity: the model records the calls, in order, as
  a list of events the entity holds.

  The contract of the transmitting side is the locale \<open>rlc_tx\<close>: an entity that accepts SDUs and
  fills grants. Its client is the layer above and below: any interleaving of SDUs and grants.
\<close>

definition NR_SDU_MAX :: int where
  "NR_SDU_MAX = 16000"

record nr_rlc_entity_buffer_status =
  bs_status_size :: int
  bs_tx_size :: int
  bs_retx_size :: int

datatype rlc_event =
    Deliver_sdu "byte list"
  | Sdu_successful_delivery int
  | Max_retx_reached

text \<open>The bytes of an SDU a segment stands for.\<close>

definition seg_bytes :: "sdu_heap \<Rightarrow> nr_rlc_sdu_segment \<Rightarrow> byte list" where
  "seg_bytes h g =
     (case h_sdu h (g_sdu g) of None \<Rightarrow> []
      | Some s \<Rightarrow> take (nat (g_size g)) (drop (nat (g_so g)) (s_data s)))"

text \<open>
  The search for an SDU by the identifier of the upper layer, in a list of segments: the nodes
  before the first segment of that SDU, and the rest.
\<close>

fun find_sdu_id ::
  "sdu_heap \<Rightarrow> int \<Rightarrow> nr_rlc_sdu_segment list \<Rightarrow>
   (nr_rlc_sdu_segment list \<times> nr_rlc_sdu_segment list) res" where
  "find_sdu_id h sdu_id [] = Inr ([], [])"
| "find_sdu_id h sdu_id (cur # l) =
     rbind (get_sdu h (g_sdu cur)) (\<lambda>s.
       if s_upper_layer_id s \<noteq> sdu_id
       then rbind (find_sdu_id h sdu_id l) (\<lambda>(before, rest). Inr (cur # before, rest))
       else Inr ([], cur # l))"

section \<open>The contract of the transmitting side\<close>

text \<open>What the layers around an entity do to its transmitting side.\<close>

datatype tx_cmd = Sdu "byte list" int | Grant "byte list"

fun tx_cmd_ok :: "(nat \<Rightarrow> bool) \<Rightarrow> tx_cmd \<Rightarrow> bool" where
  "tx_cmd_ok grant_ok (Sdu sdu i) \<longleftrightarrow> int (length sdu) \<le> NR_SDU_MAX"
| "tx_cmd_ok grant_ok (Grant buf) \<longleftrightarrow> grant_ok (length buf)"

text \<open>One command, with the PDU a grant produced.\<close>

fun tx_step ::
  "('e \<Rightarrow> byte list \<Rightarrow> int \<Rightarrow> 'e res) \<Rightarrow> ('e \<Rightarrow> byte list \<Rightarrow> (int \<times> byte list \<times> 'e) res) \<Rightarrow>
   'e \<Rightarrow> tx_cmd \<Rightarrow> (byte list \<times> 'e) res" where
  "tx_step recv_sdu generate_pdu e (Sdu sdu i) = rbind (recv_sdu e sdu i) (\<lambda>e'. Inr ([], e'))"
| "tx_step recv_sdu generate_pdu e (Grant buf) =
     rbind (generate_pdu e buf) (\<lambda>(ret, buf', e'). Inr (take (nat ret) buf', e'))"

fun tx_run ::
  "('e \<Rightarrow> byte list \<Rightarrow> int \<Rightarrow> 'e res) \<Rightarrow> ('e \<Rightarrow> byte list \<Rightarrow> (int \<times> byte list \<times> 'e) res) \<Rightarrow>
   'e \<Rightarrow> tx_cmd list \<Rightarrow> (byte list list \<times> 'e) res" where
  "tx_run recv_sdu generate_pdu e [] = Inr ([], e)"
| "tx_run recv_sdu generate_pdu e (c # cs) =
     rbind (tx_step recv_sdu generate_pdu e c) (\<lambda>(pdu, e').
       rbind (tx_run recv_sdu generate_pdu e' cs) (\<lambda>(pdus, e''). Inr (pdu # pdus, e'')))"

fun pdu_fits :: "tx_cmd \<Rightarrow> byte list \<Rightarrow> bool" where
  "pdu_fits (Sdu _ _) pdu \<longleftrightarrow> pdu = []"
| "pdu_fits (Grant buf) pdu \<longleftrightarrow> length pdu \<le> length buf"

locale rlc_tx =
  fixes inv :: "'e \<Rightarrow> bool"
    and grant_ok :: "nat \<Rightarrow> bool"
    and recv_sdu :: "'e \<Rightarrow> byte list \<Rightarrow> int \<Rightarrow> 'e res"
    and generate_pdu :: "'e \<Rightarrow> byte list \<Rightarrow> (int \<times> byte list \<times> 'e) res"
  assumes recv_sdu_ok: "inv e \<Longrightarrow> int (length sdu) \<le> NR_SDU_MAX \<Longrightarrow>
      \<exists>e'. recv_sdu e sdu i = Inr e' \<and> inv e'"
    and generate_pdu_ok: "inv e \<Longrightarrow> grant_ok (length buf) \<Longrightarrow>
      \<exists>ret buf' e'. generate_pdu e buf = Inr (ret, buf', e') \<and> inv e' \<and>
        0 \<le> ret \<and> ret \<le> int (length buf) \<and> length buf' = length buf"
begin

lemma tx_step_ok:
  assumes "inv e" and "tx_cmd_ok grant_ok c"
  shows "\<exists>pdu e'. tx_step recv_sdu generate_pdu e c = Inr (pdu, e') \<and> inv e' \<and> pdu_fits c pdu"
proof (cases c)
  case (Sdu sdu i)
  then show ?thesis
    using recv_sdu_ok [of e sdu i] assms by auto
next
  case (Grant buf)
  then show ?thesis
    using generate_pdu_ok [of e buf] assms by fastforce
qed

text \<open>No interleaving of SDUs and grants makes the entity fail, and every PDU fits its grant.\<close>

lemma tx_run_ok:
  assumes "inv e" and "\<forall>c \<in> set cs. tx_cmd_ok grant_ok c"
  shows "\<exists>pdus e'. tx_run recv_sdu generate_pdu e cs = Inr (pdus, e') \<and> inv e' \<and>
    list_all2 pdu_fits cs pdus"
  using assms
proof (induction cs arbitrary: e)
  case (Cons c cs)
  obtain pdu e1 where 1: "tx_step recv_sdu generate_pdu e c = Inr (pdu, e1)" "inv e1"
    "pdu_fits c pdu"
    using tx_step_ok [of e c] Cons.prems by auto
  obtain pdus e2 where "tx_run recv_sdu generate_pdu e1 cs = Inr (pdus, e2)" "inv e2"
    "list_all2 pdu_fits cs pdus"
    using Cons.IH [OF 1(2)] Cons.prems by auto
  with 1 show ?case
    by auto
qed simp

end

end
