(* ===== verification/NR_RLC_Rx.thy ===== *)
theory NR_RLC_Rx
  imports NR_RLC_Common
begin

text \<open>
  The reception list of the acknowledged and the unacknowledged mode entities. The two source files
  (\<^verbatim>\<open>nr_rlc_entity_am.c\<close>, \<^verbatim>\<open>nr_rlc_entity_um.c\<close>) contain the same loops over \<^verbatim>\<open>rx_list\<close>; they are
  modelled here once, on the list, and the entities' functions are defined from them.

  The lemmas relate the loops to the bytes of the SDU the received PDUs are pieces of: when the scan
  for completeness succeeds, when it sees a gap, what the reassembly builds, and when the search for
  the first sequence number not yet delivered ends.
\<close>

section \<open>The loops\<close>

text \<open>The first node of the SDU, and what follows it.\<close>

definition seek_sn :: "int \<Rightarrow> nr_rlc_pdu list \<Rightarrow> nr_rlc_pdu list" where
  "seek_sn sn l = dropWhile (\<lambda>p. p_sn p \<noteq> sn) l"

fun full_scan :: "int \<Rightarrow> int \<Rightarrow> nr_rlc_pdu list \<Rightarrow> bool" where
  "full_scan sn last_byte [] = False"
| "full_scan sn last_byte (p # l) =
     (if p_sn p \<noteq> sn then False
      else if p_so p > last_byte + 1 then False
      else if p_is_last p then True
      else
        let new_last_byte = p_so p + p_size p - 1
        in full_scan sn (if new_last_byte > last_byte then new_last_byte else last_byte) l)"

fun missing_scan :: "int \<Rightarrow> int \<Rightarrow> nr_rlc_pdu list \<Rightarrow> bool" where
  "missing_scan sn last_byte [] = False"
| "missing_scan sn last_byte (p # l) =
     (if p_sn p \<noteq> sn then False
      else if p_so p > last_byte + 1 then True
      else
        let new_last_byte = p_so p + p_size p - 1
        in missing_scan sn (if new_last_byte > last_byte then new_last_byte else last_byte) l)"

definition list_sdu_full :: "nr_rlc_pdu list \<Rightarrow> int \<Rightarrow> bool" where
  "list_sdu_full rx_list sn =
     (case seek_sn sn rx_list of
        [] \<Rightarrow> False
      | p # l \<Rightarrow> if p_data p = None then False else full_scan sn (-1) (p # l))"

definition list_sdu_delivered :: "nr_rlc_pdu list \<Rightarrow> int \<Rightarrow> bool" where
  "list_sdu_delivered rx_list sn =
     (case seek_sn sn rx_list of [] \<Rightarrow> False | p # l \<Rightarrow> p_data p = None)"

definition list_sdu_has_missing_bytes :: "nr_rlc_pdu list \<Rightarrow> int \<Rightarrow> bool" where
  "list_sdu_has_missing_bytes rx_list sn =
     (case seek_sn sn rx_list of
        [] \<Rightarrow> False
      | p # l \<Rightarrow> if p_data p = None then False else missing_scan sn (-1) (p # l))"

text \<open>
  The second loop of \<^verbatim>\<open>reassemble_and_deliver\<close>. The stack buffer is the byte list built so far, \<^verbatim>\<open>so\<close>
  its length; \<open>mark\<close> is what the loop does to a node it is done with.
\<close>

fun reassemble_loop ::
  "(nr_rlc_pdu \<Rightarrow> nr_rlc_pdu) \<Rightarrow> int \<Rightarrow> nr_rlc_pdu list \<Rightarrow> byte list \<Rightarrow> bool \<Rightarrow> int \<Rightarrow>
   (nr_rlc_pdu list \<times> byte list \<times> bool \<times> int) res" where
  "reassemble_loop mark sn [] sdu bad_sdu rx_size = Inr ([], sdu, bad_sdu, rx_size)"
| "reassemble_loop mark sn (p # l) sdu bad_sdu rx_size =
     (if p_sn p \<noteq> sn then Inr (p # l, sdu, bad_sdu, rx_size)
      else
        let so = int (length sdu);
            len = p_size p - (so - p_so p);
            bad_sdu' = (bad_sdu \<or> so + len > NR_SDU_MAX)
        in rbind (if \<not> bad_sdu' \<and> len > 0
                  then rbind (of_opt Null_pointer (p_data p)) (\<lambda>data.
                       rbind (c_read data (so - p_so p) len) (\<lambda>bs. Inr (sdu @ bs)))
                  else Inr sdu) (\<lambda>sdu'.
           rbind (reassemble_loop mark sn l sdu' bad_sdu' (rx_size - p_size p))
             (\<lambda>(l', r). Inr (mark p # l', r))))"

definition list_reassemble ::
  "(nr_rlc_pdu \<Rightarrow> nr_rlc_pdu) \<Rightarrow> int \<Rightarrow> nr_rlc_pdu list \<Rightarrow> int \<Rightarrow>
   (nr_rlc_pdu list \<times> byte list \<times> bool \<times> int) res" where
  "list_reassemble mark sn rx_list rx_size =
     (if seek_sn sn rx_list = [] then Inl Null_pointer
      else rbind (reassemble_loop mark sn (seek_sn sn rx_list) [] False rx_size)
        (\<lambda>(l', r). Inr (takeWhile (\<lambda>p. p_sn p \<noteq> sn) rx_list @ l', r)))"

text \<open>
  \<^verbatim>\<open>while (sdu_delivered(entity, sn)) sn = (sn + 1) % sn_modulus;\<close> with as much fuel as the list has
  nodes. The loop of the source does not end exactly when every sequence number is delivered.
\<close>

fun skip_delivered :: "nr_rlc_pdu list \<Rightarrow> int \<Rightarrow> nat \<Rightarrow> int \<Rightarrow> int res" where
  "skip_delivered rx_list sn_modulus 0 sn =
     (if list_sdu_delivered rx_list sn then Inl Divergence else Inr sn)"
| "skip_delivered rx_list sn_modulus (Suc fuel) sn =
     (if list_sdu_delivered rx_list sn
      then skip_delivered rx_list sn_modulus fuel (c_rem (sn + 1) sn_modulus) else Inr sn)"

section \<open>Pieces of an SDU\<close>

definition piece_of :: "byte list \<Rightarrow> nr_rlc_pdu \<Rightarrow> bool" where
  "piece_of x p \<longleftrightarrow> 0 \<le> p_so p \<and> 0 < p_size p \<and> p_so p + p_size p \<le> int (length x) \<and>
     p_data p = Some (take (nat (p_size p)) (drop (nat (p_so p)) x)) \<and>
     (p_is_first p \<longleftrightarrow> p_so p = 0) \<and> (p_is_last p \<longleftrightarrow> p_so p + p_size p = int (length x))"

definition block :: "int \<Rightarrow> nr_rlc_pdu list \<Rightarrow> nr_rlc_pdu list" where
  "block sn l = takeWhile (\<lambda>p. p_sn p = sn) l"

definition covers :: "nr_rlc_pdu list \<Rightarrow> int \<Rightarrow> bool" where
  "covers l b \<longleftrightarrow> (\<exists>p \<in> set l. p_so p \<le> b \<and> b < p_so p + p_size p)"

lemma block_simps [simp]:
  "block sn [] = []"
  "block sn (p # l) = (if p_sn p = sn then p # block sn l else [])"
  by (simp_all add: block_def)

lemma covers_simps [simp]:
  "\<not> covers [] b"
  "covers (p # l) b \<longleftrightarrow> p_so p \<le> b \<and> b < p_so p + p_size p \<or> covers l b"
  by (auto simp: covers_def)

lemma covers_insert:
  "set k = insert p (set l) \<Longrightarrow> covers k b \<longleftrightarrow> p_so p \<le> b \<and> b < p_so p + p_size p \<or> covers l b"
  by (auto simp: covers_def)

lemma max_if: "(if a > b then a else b) = max b (a :: int)"
  by auto

text \<open>What reassembly does to the rest of the list once the whole SDU is there.\<close>

definition marked :: "(nr_rlc_pdu \<Rightarrow> nr_rlc_pdu) \<Rightarrow> int \<Rightarrow> nr_rlc_pdu list \<Rightarrow> nr_rlc_pdu list" where
  "marked mark sn l = map mark (block sn l) @ dropWhile (\<lambda>p. p_sn p = sn) l"

lemma marked_simps [simp]:
  "marked mark sn [] = []"
  "marked mark sn (p # l) = (if p_sn p = sn then mark p # marked mark sn l else p # l)"
  by (simp_all add: marked_def)

lemma reassemble_done:
  assumes "\<forall>p \<in> set (block sn l). piece_of x p" and "int (length x) \<le> NR_SDU_MAX"
  shows "reassemble_loop mark sn l x False r =
    Inr (marked mark sn l, x, False, r - sum_list (map p_size (block sn l)))"
  using assms(1)
proof (induction l arbitrary: r)
  case (Cons p l)
  show ?case
  proof (cases "p_sn p = sn")
    case True
    then have "p_size p - (int (length x) - p_so p) \<le> 0"
      using Cons.prems by (auto simp: piece_of_def)
    with True assms(2) Cons show ?thesis
      by (simp add: Let_def algebra_simps)
  qed simp
qed simp

lemma take_take_drop:
  assumes "i \<le> j" and "j \<le> length x"
  shows "take i x @ take (j - i) (drop i x) = take j x"
  using assms by (metis le_add_diff_inverse take_add)

text \<open>When the scan succeeds, reassembly builds the SDU.\<close>

lemma full_scan_reassemble:
  assumes "full_scan sn (int n - 1) l" and "n \<le> length x"
    and "\<forall>p \<in> set (block sn l). piece_of x p" and len: "int (length x) \<le> NR_SDU_MAX"
  shows "reassemble_loop mark sn l (take n x) False r =
    Inr (marked mark sn l, x, False, r - sum_list (map p_size (block sn l)))"
  using assms(1-3)
proof (induction l arbitrary: n r)
  case (Cons p l)
  have sn: "p_sn p = sn" and so: "p_so p \<le> int n"
    using Cons.prems(1) by (auto split: if_splits)
  have p: "0 \<le> p_so p" "0 < p_size p" "p_so p + p_size p \<le> int (length x)"
    "p_data p = Some (take (nat (p_size p)) (drop (nat (p_so p)) x))"
    "p_is_last p \<longleftrightarrow> p_so p + p_size p = int (length x)"
    using Cons.prems(3) sn by (auto simp: piece_of_def)
  define m where "m = max n (nat (p_so p + p_size p))"
  have m: "m \<le> length x" "int m - 1 = max (int n - 1) (p_so p + p_size p - 1)"
    using p Cons.prems(2) by (auto simp: m_def)
  have n: "length (take n x) = n"
    using Cons.prems(2) by simp
  have step: "reassemble_loop mark sn (p # l) (take n x) False r =
      rbind (reassemble_loop mark sn l (take m x) False (r - p_size p))
        (\<lambda>(l', r). Inr (mark p # l', r))"
  proof (cases "p_so p + p_size p > int n")
    case True
    let ?len = "p_size p - (int n - p_so p)"
    have "c_read (take (nat (p_size p)) (drop (nat (p_so p)) x)) (int n - p_so p) ?len =
        Inr (take (m - n) (drop n x))"
      using True p so by (auto simp: c_read_def m_def drop_take nat_add_distrib nat_diff_distrib
          add.commute)
    then show ?thesis
      using True p so n sn len m take_take_drop [of n m x]
      by (simp add: Let_def m_def del: c_read_ok)
  next
    case False
    then show ?thesis
      using p sn n len by (simp add: Let_def m_def)
  qed
  show ?case
  proof (cases "p_is_last p")
    case True
    then have "take m x = x"
      using p by (simp add: m_def)
    then show ?thesis
      using step sn reassemble_done [of sn l x mark] Cons.prems(3) len by simp
  next
    case False
    then have "full_scan sn (int m - 1) l"
      using Cons.prems(1) sn m(2) by (auto simp: Let_def max_if split: if_splits)
    then show ?thesis
      using step sn Cons.IH [of m] m(1) Cons.prems(3) by simp
  qed
qed simp

text \<open>
  On pieces ordered by offset, the scan succeeds exactly when every byte of the SDU has been
  received, and it sees a gap exactly when a byte is missing before one that has been received.
\<close>

lemma not_covers_before: "\<forall>q \<in> set l. c \<le> p_so q \<Longrightarrow> b < c \<Longrightarrow> \<not> covers l b"
  by (force simp: covers_def)

lemma full_scan_iff:
  assumes "\<forall>p \<in> set (block sn l). piece_of x p" and "sorted (map p_so (block sn l))"
    and "last_byte + 1 < int (length x)"
  shows "full_scan sn last_byte l \<longleftrightarrow>
    (\<forall>b. last_byte < b \<and> b < int (length x) \<longrightarrow> covers (block sn l) b)"
  using assms
proof (induction l arbitrary: last_byte)
  case Nil
  then show ?case
    by (auto intro!: exI [of _ "last_byte + 1"])
next
  case (Cons p l)
  show ?case
  proof (cases "p_sn p = sn")
    case False
    then show ?thesis
      using Cons.prems(3) by (auto intro!: exI [of _ "last_byte + 1"])
  next
    case True
    let ?B = "block sn l"
    have p: "0 \<le> p_so p" "0 < p_size p" "p_so p + p_size p \<le> int (length x)"
      "p_is_last p \<longleftrightarrow> p_so p + p_size p = int (length x)"
      and rest: "\<forall>q \<in> set ?B. piece_of x q" "sorted (map p_so ?B)" "\<forall>q \<in> set ?B. p_so p \<le> p_so q"
      using Cons.prems(1,2) True by (auto simp: piece_of_def)
    consider "p_so p > last_byte + 1" | "p_so p \<le> last_byte + 1" "p_is_last p"
      | "p_so p \<le> last_byte + 1" "\<not> p_is_last p"
      by linarith
    then show ?thesis
    proof cases
      case 1
      then have "\<not> covers (block sn (p # l)) (last_byte + 1)"
        using True not_covers_before [OF rest(3), of "last_byte + 1"] by simp
      then show ?thesis
        using 1 True Cons.prems(3) by (auto intro!: exI [of _ "last_byte + 1"])
    next
      case 2
      then show ?thesis
        using True p by auto
    next
      case 3
      let ?m = "max last_byte (p_so p + p_size p - 1)"
      have "full_scan sn last_byte (p # l) \<longleftrightarrow> full_scan sn ?m l"
        using 3 True by (simp add: Let_def max_if)
      also have "\<dots> \<longleftrightarrow> (\<forall>b. ?m < b \<and> b < int (length x) \<longrightarrow> covers ?B b)"
        using 3 p Cons.prems(3) rest by (intro Cons.IH) auto
      also have "\<dots> \<longleftrightarrow> (\<forall>b. last_byte < b \<and> b < int (length x) \<longrightarrow> covers (block sn (p # l)) b)"
      proof -
        have "covers (block sn (p # l)) b \<longleftrightarrow> ?m < b \<longrightarrow> covers ?B b"
          if "last_byte < b" for b
          using 3 True p that by auto
        then show ?thesis
          by auto
      qed
      finally show ?thesis .
    qed
  qed
qed

lemma missing_scan_iff:
  assumes "\<forall>p \<in> set (block sn l). 0 < p_size p" and "sorted (map p_so (block sn l))"
  shows "missing_scan sn last_byte l \<longleftrightarrow>
    (\<exists>q \<in> set (block sn l). \<exists>b. last_byte < b \<and> b < p_so q \<and> \<not> covers (block sn l) b)"
  using assms
proof (induction l arbitrary: last_byte)
  case (Cons p l)
  show ?case
  proof (cases "p_sn p = sn")
    case True
    let ?B = "block sn l"
    have rest: "\<forall>q \<in> set ?B. 0 < p_size q" "sorted (map p_so ?B)" "\<forall>q \<in> set ?B. p_so p \<le> p_so q"
      using Cons.prems True by auto
    show ?thesis
    proof (cases "p_so p > last_byte + 1")
      case gap: True
      then have "\<not> covers (block sn (p # l)) (last_byte + 1)"
        using True not_covers_before [OF rest(3), of "last_byte + 1"] by simp
      then show ?thesis
        using gap True by (auto intro!: exI [of _ "last_byte + 1"])
    next
      case False
      let ?m = "max last_byte (p_so p + p_size p - 1)"
      have "missing_scan sn last_byte (p # l) \<longleftrightarrow> missing_scan sn ?m l"
        using False True by (simp add: Let_def max_if)
      also have "\<dots> \<longleftrightarrow> (\<exists>q \<in> set ?B. \<exists>b. ?m < b \<and> b < p_so q \<and> \<not> covers ?B b)"
        using rest by (intro Cons.IH) auto
      also have "\<dots> \<longleftrightarrow> (\<exists>q \<in> set (block sn (p # l)). \<exists>b. last_byte < b \<and> b < p_so q \<and>
          \<not> covers (block sn (p # l)) b)"
      proof -
        have "covers (block sn (p # l)) b \<longleftrightarrow> ?m < b \<longrightarrow> covers ?B b"
          if "last_byte < b" for b
          using False True that by auto
        moreover have "\<not> (\<exists>b. last_byte < b \<and> b < p_so p)"
          using False by auto
        ultimately show ?thesis
          using True by (metis (no_types, lifting) block_simps(2) max.strict_boundedE set_ConsD
              list.set_intros(2))
      qed
      finally show ?thesis .
    qed
  qed simp
qed simp

section \<open>The search for the first sequence number not delivered\<close>

lemma delivered_in_list: "list_sdu_delivered l sn \<Longrightarrow> \<exists>p \<in> set l. p_sn p = sn"
proof -
  assume "list_sdu_delivered l sn"
  then have "seek_sn sn l \<noteq> []"
    by (auto simp: list_sdu_delivered_def split: list.splits)
  then show ?thesis
    by (auto simp: seek_sn_def dropWhile_eq_Nil_conv)
qed

lemma skip_delivered_run:
  assumes "0 < M" and "0 \<le> sn" "sn < M"
  shows "case skip_delivered l M fuel sn of
      Inl f \<Rightarrow> f = Divergence \<and> (\<forall>k \<le> fuel. list_sdu_delivered l ((sn + int k) mod M))
    | Inr sn' \<Rightarrow> (\<exists>k \<le> fuel. sn' = (sn + int k) mod M \<and> \<not> list_sdu_delivered l sn' \<and>
        (\<forall>j < k. list_sdu_delivered l ((sn + int j) mod M)))"
  using assms(2,3)
proof (induction fuel arbitrary: sn)
  case 0
  then show ?case
    by simp
next
  case (Suc fuel)
  show ?case
  proof (cases "list_sdu_delivered l sn")
    case False
    then show ?thesis
      using Suc.prems by (auto intro!: exI [of _ 0])
  next
    case True
    let ?s = "(sn + 1) mod M"
    have s: "0 \<le> ?s" "?s < M" and eq: "(?s + int k) mod M = (sn + int (Suc k)) mod M" for k
      using assms(1) by (auto simp: mod_simps algebra_simps)
    have all: "(\<forall>j < Suc k. list_sdu_delivered l ((sn + int j) mod M)) \<longleftrightarrow>
        (\<forall>j < k. list_sdu_delivered l ((?s + int j) mod M))" for k
      using True Suc.prems unfolding eq by (auto simp: All_less_Suc2)
    have run: "skip_delivered l M (Suc fuel) sn = skip_delivered l M fuel ?s"
      using True Suc.prems by simp
    show ?thesis
    proof (cases "skip_delivered l M fuel ?s")
      case (Inl f)
      then show ?thesis
        using Suc.IH [OF s] all [of "Suc fuel"] unfolding run by (simp add: less_Suc_eq_le)
    next
      case (Inr sn')
      then obtain k where "k \<le> fuel" "sn' = (?s + int k) mod M" "\<not> list_sdu_delivered l sn'"
        "\<forall>j < k. list_sdu_delivered l ((?s + int j) mod M)"
        using Suc.IH [OF s] by auto
      then show ?thesis
        using Inr all [of k] unfolding run eq by (auto intro!: exI [of _ "Suc k"])
    qed
  qed
qed

lemma mod_add_inj:
  fixes sn M :: int
  assumes "(sn + int a) mod M = (sn + int b) mod M" and "int a < M" and "int b < M"
  shows "a = b"
proof -
  have "int a mod M = int b mod M"
    using assms(1) by (metis add_diff_cancel_left' mod_diff_left_eq)
  then show ?thesis
    using assms(2,3) by simp
qed

text \<open>The fuel is enough: the search fails only where the loop of the source never ends.\<close>

lemma skip_delivered_returns_iff:
  assumes "0 < M" and "0 \<le> sn" "sn < M"
  shows "returns (skip_delivered l M (length l) sn) \<longleftrightarrow>
    (\<exists>k. \<not> list_sdu_delivered l ((sn + int k) mod M))"
proof (cases "skip_delivered l M (length l) sn")
  case (Inr sn')
  then show ?thesis
    using skip_delivered_run [OF assms, where l = l and fuel = "length l"] by auto
next
  case (Inl f)
  then have d: "list_sdu_delivered l ((sn + int k) mod M)" if "k \<le> length l" for k
    using skip_delivered_run [OF assms, where l = l and fuel = "length l"] that by auto
  have "M \<le> int (length l)"
  proof (rule ccontr)
    assume "\<not> M \<le> int (length l)"
    then have "inj_on (\<lambda>k. (sn + int k) mod M) {..length l}"
      by (intro inj_onI mod_add_inj) auto
    then have "Suc (length l) = card ((\<lambda>k. (sn + int k) mod M) ` {..length l})"
      by (simp add: card_image)
    also have "\<dots> \<le> card (p_sn ` set l)"
    proof (rule card_mono)
      show "(\<lambda>k. (sn + int k) mod M) ` {..length l} \<subseteq> p_sn ` set l"
        using delivered_in_list [OF d] by (force simp: image_iff)
    qed simp
    also have "\<dots> \<le> length l"
      using card_image_le [of "set l" p_sn] card_length [of l] by simp
    finally show False
      by simp
  qed
  then have "list_sdu_delivered l ((sn + int k) mod M)" for k
  proof -
    have "nat (int k mod M) \<le> length l"
      using \<open>M \<le> int (length l)\<close> assms(1) pos_mod_bound [of M "int k"] by linarith
    from d [OF this] show ?thesis
      using assms(1) by (simp add: mod_simps)
  qed
  with Inl show ?thesis
    by simp
qed

section \<open>The nodes of one SDU\<close>

lemma block_filter:
  assumes "pdu_sorted key (p # l)" and "p_sn p = sn"
  shows "block sn l = filter (\<lambda>p. p_sn p = sn) l"
  using assms
proof (induction l arbitrary: p)
  case (Cons q l)
  have q: "pdu_sorted key (q # l)" "sn_so_le key (sn, p_so p) (p_sn q, p_so q)"
    using Cons.prems by (simp_all add: pdu_sorted_def)
  show ?case
  proof (cases "p_sn q = sn")
    case True
    then show ?thesis
      using Cons.IH [OF q(1)] by simp
  next
    case False
    then have k: "key sn < key (p_sn q)"
      using q(2) by (simp add: sn_so_le_def)
    have "p_sn r \<noteq> sn" if "r \<in> set l" for r
    proof -
      have "sn_so_le key (p_sn q, p_so q) (p_sn r, p_so r)"
        using q(1) that by (simp add: pdu_sorted_def)
      then show ?thesis
        using k by (auto simp: sn_so_le_def)
    qed
    then show ?thesis
      using False by (simp add: filter_empty_conv)
  qed
qed simp

lemma block_seek_filter:
  assumes "pdu_sorted key l"
  shows "block sn (seek_sn sn l) = filter (\<lambda>p. p_sn p = sn) l"
  using assms
proof (induction l)
  case (Cons p l)
  then show ?case
    using block_filter [OF Cons.prems] by (auto simp: seek_sn_def pdu_sorted_def)
qed (simp add: seek_sn_def)

lemma sorted_so_filter:
  "pdu_sorted key l \<Longrightarrow> sorted (map p_so (filter (\<lambda>p. p_sn p = sn) l))"
  by (induction l) (auto simp: pdu_sorted_def sn_so_le_def)

lemma seek_sn_Nil_iff: "seek_sn sn l = [] \<longleftrightarrow> filter (\<lambda>p. p_sn p = sn) l = []"
  by (auto simp: seek_sn_def dropWhile_eq_Nil_conv filter_empty_conv)

lemma seek_sn_Cons: "seek_sn sn l = p # k \<Longrightarrow> p_sn p = sn \<and> p \<in> set l"
proof -
  assume a: "seek_sn sn l = p # k"
  then have "p_sn (hd (seek_sn sn l)) = sn"
    unfolding seek_sn_def by (metis (mono_tags) hd_dropWhile list.distinct(1))
  moreover have "p \<in> set l"
    using a unfolding seek_sn_def by (metis list.set_intros(1) set_dropWhileD)
  ultimately show ?thesis
    using a by simp
qed

definition pieces :: "nr_rlc_pdu list \<Rightarrow> int \<Rightarrow> byte list \<Rightarrow> bool" where
  "pieces l sn x \<longleftrightarrow> (\<forall>p \<in> set l. p_sn p = sn \<longrightarrow> piece_of x p)"

lemma list_sdu_full_iff:
  assumes "pdu_sorted key l" and "pieces l sn x" and "x \<noteq> []"
  shows "list_sdu_full l sn \<longleftrightarrow>
    (\<forall>b. 0 \<le> b \<and> b < int (length x) \<longrightarrow> covers (filter (\<lambda>p. p_sn p = sn) l) b)"
proof (cases "seek_sn sn l")
  case Nil
  then have "filter (\<lambda>p. p_sn p = sn) l = []"
    using seek_sn_Nil_iff by blast
  then show ?thesis
    using Nil assms(3) by (auto simp: list_sdu_full_def intro!: exI [of _ 0])
next
  case (Cons p k)
  then have "p_data p \<noteq> None"
    using seek_sn_Cons [OF Cons] assms(2) by (auto simp: pieces_def piece_of_def)
  moreover have "\<forall>q \<in> set (block sn (seek_sn sn l)). piece_of x q"
    using assms(2) unfolding block_seek_filter [OF assms(1)] by (auto simp: pieces_def)
  ultimately show ?thesis
    using Cons assms(3) full_scan_iff [of sn "seek_sn sn l" x "-1"]
      sorted_so_filter [OF assms(1), of sn] block_seek_filter [OF assms(1), of sn]
    by (auto simp: list_sdu_full_def)
qed

lemma list_missing_iff:
  assumes "pdu_sorted key l" and "pieces l sn x"
  shows "list_sdu_has_missing_bytes l sn \<longleftrightarrow>
    (\<exists>q \<in> set (filter (\<lambda>p. p_sn p = sn) l). \<exists>b. 0 \<le> b \<and> b < p_so q \<and>
       \<not> covers (filter (\<lambda>p. p_sn p = sn) l) b)"
proof (cases "seek_sn sn l")
  case Nil
  then have "filter (\<lambda>p. p_sn p = sn) l = []"
    using seek_sn_Nil_iff by blast
  then show ?thesis
    using Nil by (auto simp: list_sdu_has_missing_bytes_def)
next
  case (Cons p k)
  then have "p_data p \<noteq> None"
    using seek_sn_Cons [OF Cons] assms(2) by (auto simp: pieces_def piece_of_def)
  moreover have "\<forall>q \<in> set (block sn (seek_sn sn l)). 0 < p_size q"
    using assms(2) unfolding block_seek_filter [OF assms(1)] by (auto simp: pieces_def piece_of_def)
  moreover have "-1 < b \<longleftrightarrow> 0 \<le> b" for b :: int
    by auto
  moreover have "list_sdu_has_missing_bytes l sn \<longleftrightarrow> missing_scan sn (-1) (seek_sn sn l)"
    using Cons \<open>p_data p \<noteq> None\<close> by (simp only: list_sdu_has_missing_bytes_def list.case if_False)
  ultimately show ?thesis
    using missing_scan_iff [of sn "seek_sn sn l" "-1"]
      sorted_so_filter [OF assms(1), of sn] block_seek_filter [OF assms(1), of sn]
    by simp
qed

text \<open>A complete SDU is reassembled to its bytes, and its nodes are marked.\<close>

lemma list_reassemble_ok:
  assumes "pdu_sorted key l" and "pieces l sn x" and "int (length x) \<le> NR_SDU_MAX"
    and "list_sdu_full l sn"
  shows "list_reassemble mark sn l r =
    Inr (map (\<lambda>p. if p_sn p = sn then mark p else p) l, x, False,
         r - sum_list (map p_size (filter (\<lambda>p. p_sn p = sn) l)))"
proof -
  define pre where "pre = takeWhile (\<lambda>p. p_sn p \<noteq> sn) l"
  define suf where "suf = seek_sn sn l"
  have blk: "block sn suf = filter (\<lambda>p. p_sn p = sn) l"
    unfolding suf_def by (rule block_seek_filter [OF assms(1)])
  have l: "l = pre @ suf"
    by (simp add: pre_def suf_def seek_sn_def)
  have full: "full_scan sn (int 0 - 1) suf" "suf \<noteq> []"
    using assms(4) by (auto simp: suf_def list_sdu_full_def split: list.splits if_splits)
  have run: "reassemble_loop mark sn suf [] False r = Inr (marked mark sn suf, x, False,
      r - sum_list (map p_size (block sn suf)))"
    using full_scan_reassemble [OF full(1), of x mark r] assms(2,3) blk by (auto simp: pieces_def)
  have m: "map (\<lambda>p. if p_sn p = sn then mark p else p) suf = marked mark sn suf"
  proof -
    define d where "d = dropWhile (\<lambda>p. p_sn p = sn) suf"
    define b where "b = block sn suf"
    have s: "suf = b @ d" and bs: "\<forall>p \<in> set b. p_sn p = sn"
      by (auto simp: b_def d_def block_def dest: set_takeWhileD)
    have "filter (\<lambda>p. p_sn p = sn) l = filter (\<lambda>p. p_sn p = sn) suf"
      by (subst l) (auto simp: pre_def filter_empty_conv dest: set_takeWhileD)
    also have "\<dots> = b @ filter (\<lambda>p. p_sn p = sn) d"
      using bs by (simp add: s)
    finally have "\<forall>p \<in> set d. p_sn p \<noteq> sn"
      using blk by (simp add: b_def filter_empty_conv)
    then have "map (\<lambda>p. if p_sn p = sn then mark p else p) (b @ d) = map mark b @ d"
      using bs by (auto intro: map_idI)
    moreover have "marked mark sn suf = map mark b @ d"
      by (simp add: marked_def b_def d_def)
    ultimately show ?thesis
      by (metis s)
  qed
  have "map (\<lambda>p. if p_sn p = sn then mark p else p) pre = pre"
    by (intro map_idI) (auto simp: pre_def dest: set_takeWhileD)
  then have "map (\<lambda>p. if p_sn p = sn then mark p else p) l = pre @ marked mark sn suf"
    using m by (subst l) simp
  then show ?thesis
    using full(2) run blk by (simp add: list_reassemble_def flip: pre_def suf_def)
qed

end
