(* ===== verification/NR_RLC_Am.thy ===== *)
theory NR_RLC_Am
  imports NR_RLC_Rx
begin

text \<open>
  The acknowledged mode entity (\<^verbatim>\<open>nr_rlc_entity_am.h\<close>, \<^verbatim>\<open>nr_rlc_entity_am.c\<close> and its constructor in
  \<^verbatim>\<open>nr_rlc_entity.c\<close>): its state, the sequence number windows, and the reception of data PDUs. Status
  reports are in \<open>NR_RLC_Am_Ctrl\<close> (received) and \<open>NR_RLC_Am_Status\<close> (generated), the transmission in
  \<open>NR_RLC_Am_Tx\<close>.

  The pointer \<^verbatim>\<open>wait_end\<close> is the address of a segment. Following it when no segment of \<^verbatim>\<open>wait_list\<close> has
  that address is the fault \<open>Dangling_pointer\<close>.
\<close>

section \<open>State\<close>

record nr_rlc_entity_am =
  am_t_poll_retransmit :: int
  am_t_reassembly :: int
  am_t_status_prohibit :: int
  am_poll_pdu :: int
  am_poll_byte :: int
  am_max_retx_threshold :: int
  am_sn_field_length :: nat
  am_sn_modulus :: int
  am_window_size :: int
  am_rx_next :: int
  am_rx_next_status_trigger :: int
  am_rx_highest_status :: int
  am_rx_next_highest :: int
  am_status_triggered :: bool
  am_tx_next :: int
  am_tx_next_ack :: int
  am_poll_sn :: int
  am_pdu_without_poll :: int
  am_byte_without_poll :: int
  am_force_poll :: bool
  am_t_current :: "64 word"
  am_t_log_buffer_full :: "64 word"
  am_sdu_rejected :: int
  am_t_poll_retransmit_start :: "64 word"
  am_t_reassembly_start :: "64 word"
  am_t_status_prohibit_start :: "64 word"
  am_rx_list :: "nr_rlc_pdu list"
  am_rx_size :: int
  am_rx_maxsize :: int
  am_tx_list :: "nr_rlc_sdu_segment list"
  am_tx_end :: "nat option"
  am_tx_size :: int
  am_tx_maxsize :: int
  am_wait_list :: "nr_rlc_sdu_segment list"
  am_wait_end :: "nat option"
  am_retransmit_list :: "nr_rlc_sdu_segment list"
  am_bstatus_tx_size :: int
  am_bstatus_retx_size :: int
  am_heap :: sdu_heap
  am_out :: "rlc_event list"

definition new_nr_rlc_entity_am ::
  "int \<Rightarrow> int \<Rightarrow> int \<Rightarrow> int \<Rightarrow> int \<Rightarrow> int \<Rightarrow> int \<Rightarrow> int \<Rightarrow> nat \<Rightarrow> nr_rlc_entity_am res" where
  "new_nr_rlc_entity_am rx_maxsize tx_maxsize t_poll_retransmit t_reassembly t_status_prohibit
     poll_pdu poll_byte max_retx_threshold sn_field_length =
     (if \<not> (sn_field_length = 12 \<or> sn_field_length = 18) then Inl Exit_fatal
      else Inr
        \<lparr>am_t_poll_retransmit = t_poll_retransmit, am_t_reassembly = t_reassembly,
         am_t_status_prohibit = t_status_prohibit, am_poll_pdu = poll_pdu,
         am_poll_byte = poll_byte, am_max_retx_threshold = max_retx_threshold,
         am_sn_field_length = sn_field_length, am_sn_modulus = push_bit sn_field_length 1,
         am_window_size = push_bit sn_field_length 1 div 2,
         am_rx_next = 0, am_rx_next_status_trigger = 0, am_rx_highest_status = 0,
         am_rx_next_highest = 0, am_status_triggered = False, am_tx_next = 0, am_tx_next_ack = 0,
         am_poll_sn = 0, am_pdu_without_poll = 0, am_byte_without_poll = 0, am_force_poll = False,
         am_t_current = 0, am_t_log_buffer_full = 0, am_sdu_rejected = 0,
         am_t_poll_retransmit_start = 0, am_t_reassembly_start = 0, am_t_status_prohibit_start = 0,
         am_rx_list = [], am_rx_size = 0, am_rx_maxsize = rx_maxsize,
         am_tx_list = [], am_tx_end = None, am_tx_size = 0, am_tx_maxsize = tx_maxsize,
         am_wait_list = [], am_wait_end = None, am_retransmit_list = [],
         am_bstatus_tx_size = 0, am_bstatus_retx_size = 0, am_heap = empty_heap, am_out = []\<rparr>)"

definition am_compute_pdu_header_size :: "nr_rlc_entity_am \<Rightarrow> nr_rlc_sdu_segment \<Rightarrow> int" where
  "am_compute_pdu_header_size entity sdu =
     (let header_size = 2;
          header_size = (if am_sn_field_length entity = 18 then header_size + 1 else header_size)
      in if \<not> g_is_first sdu then header_size + 2 else header_size)"

section \<open>The windows\<close>

definition am_modulus_rx :: "nr_rlc_entity_am \<Rightarrow> int \<Rightarrow> int" where
  "am_modulus_rx entity a =
     (let r = a - am_rx_next entity in if r < 0 then r + am_sn_modulus entity else r)"

definition am_modulus_tx :: "nr_rlc_entity_am \<Rightarrow> int \<Rightarrow> int" where
  "am_modulus_tx entity a =
     (let r = a - am_tx_next_ack entity in if r < 0 then r + am_sn_modulus entity else r)"

definition am_sn_in_recv_window :: "nr_rlc_entity_am \<Rightarrow> int \<Rightarrow> bool" where
  "am_sn_in_recv_window entity sn \<longleftrightarrow> am_modulus_rx entity sn < am_window_size entity"

definition am_sn_compare_rx :: "nr_rlc_entity_am \<Rightarrow> int \<Rightarrow> int \<Rightarrow> int" where
  "am_sn_compare_rx entity a b = am_modulus_rx entity a - am_modulus_rx entity b"

definition am_sn_compare_tx :: "nr_rlc_entity_am \<Rightarrow> int \<Rightarrow> int \<Rightarrow> int" where
  "am_sn_compare_tx entity a b = am_modulus_tx entity a - am_modulus_tx entity b"

section \<open>The reception list\<close>

fun already_received_scan :: "nr_rlc_pdu list \<Rightarrow> int \<Rightarrow> int \<Rightarrow> int \<Rightarrow> int" where
  "already_received_scan [] sn so sz = sz"
| "already_received_scan (l # ls) sn so sz =
     (if sz \<le> 0 then sz
      else if p_sn l = sn then
        if p_so l \<le> so \<and> so < p_so l + p_size l then
          let covered = p_size l - (so - p_so l)
          in already_received_scan ls sn (so + covered) (sz - covered)
        else if p_so l \<le> so + sz - 1 \<and> so + sz - 1 < p_so l + p_size l then
          let covered = sz - (p_so l - so)
          in already_received_scan ls sn so (sz - covered)
        else already_received_scan ls sn so sz
      else already_received_scan ls sn so sz)"

definition am_segment_already_received :: "nr_rlc_entity_am \<Rightarrow> int \<Rightarrow> int \<Rightarrow> int \<Rightarrow> bool" where
  "am_segment_already_received entity sn so sz \<longleftrightarrow>
     already_received_scan (am_rx_list entity) sn so sz \<le> 0"

definition am_sdu_full :: "nr_rlc_entity_am \<Rightarrow> int \<Rightarrow> bool" where
  "am_sdu_full entity sn = list_sdu_full (am_rx_list entity) sn"

definition am_sdu_delivered :: "nr_rlc_entity_am \<Rightarrow> int \<Rightarrow> bool" where
  "am_sdu_delivered entity sn = list_sdu_delivered (am_rx_list entity) sn"

definition am_sdu_has_missing_bytes :: "nr_rlc_entity_am \<Rightarrow> int \<Rightarrow> bool" where
  "am_sdu_has_missing_bytes entity sn = list_sdu_has_missing_bytes (am_rx_list entity) sn"

text \<open>A node that has been reassembled: no data; the size is kept.\<close>

definition am_mark :: "nr_rlc_pdu \<Rightarrow> nr_rlc_pdu" where
  "am_mark p = p\<lparr>p_data := None\<rparr>"

definition am_reassemble_and_deliver :: "nr_rlc_entity_am \<Rightarrow> int \<Rightarrow> nr_rlc_entity_am res" where
  "am_reassemble_and_deliver entity sn =
     rbind (list_reassemble am_mark sn (am_rx_list entity) (am_rx_size entity))
       (\<lambda>(rx_list', sdu, bad_sdu, rx_size').
          let entity' = entity\<lparr>am_rx_list := rx_list', am_rx_size := rx_size'\<rparr>
          in Inr (if bad_sdu then entity'
                  else entity'\<lparr>am_out := am_out entity' @ [Deliver_sdu sdu]\<rparr>))"

definition am_skip_delivered :: "nr_rlc_entity_am \<Rightarrow> int \<Rightarrow> int res" where
  "am_skip_delivered entity sn =
     skip_delivered (am_rx_list entity) (am_sn_modulus entity) (length (am_rx_list entity)) sn"

text \<open>The delivered SDUs at the head of the list are freed, and \<^verbatim>\<open>rx_next\<close> moves past them.\<close>

function am_free_delivered :: "int \<Rightarrow> nr_rlc_pdu list \<Rightarrow> int \<Rightarrow> nr_rlc_pdu list \<times> int" where
  "am_free_delivered sn_modulus [] rx_next = ([], rx_next)"
| "am_free_delivered sn_modulus (p # l) rx_next =
     (if p_data p = None \<and> p_sn p = rx_next
      then am_free_delivered sn_modulus (dropWhile (\<lambda>q. p_sn q = rx_next) l)
             (c_rem (rx_next + 1) sn_modulus)
      else (p # l, rx_next))"
  by pat_completeness auto
termination
  by (relation "measure (\<lambda>(_, l, _). length l)") (auto simp: le_imp_less_Suc length_dropWhile_le)

definition am_deliver :: "nr_rlc_entity_am \<Rightarrow> int \<Rightarrow> nr_rlc_entity_am res" where
  "am_deliver entity x =
     rbind (am_reassemble_and_deliver entity x) (\<lambda>e.
     rbind (if x = am_rx_highest_status e
            then rbind (am_skip_delivered e (am_rx_highest_status e))
                   (\<lambda>sn. Inr (e\<lparr>am_rx_highest_status := sn\<rparr>))
            else Inr e) (\<lambda>e.
       Inr (if x = am_rx_next e
            then case am_free_delivered (am_sn_modulus e) (am_rx_list e) (am_rx_next e) of
                   (l, n) \<Rightarrow> e\<lparr>am_rx_list := l, am_rx_next := n\<rparr>
            else e)))"

definition am_reassembly_timer :: "nr_rlc_entity_am \<Rightarrow> nr_rlc_entity_am" where
  "am_reassembly_timer entity =
     (let nxt = c_rem (am_rx_next entity + 1) (am_sn_modulus entity);
          e1 = (if am_t_reassembly_start entity \<noteq> 0 \<and>
                   (am_rx_next_status_trigger entity = am_rx_next entity \<or>
                    (am_rx_next_status_trigger entity = nxt \<and>
                     \<not> am_sdu_has_missing_bytes entity (am_rx_next entity)) \<or>
                    (\<not> am_sn_in_recv_window entity (am_rx_next_status_trigger entity) \<and>
                     am_rx_next_status_trigger entity \<noteq>
                       c_rem (am_rx_next entity + am_window_size entity) (am_sn_modulus entity)))
                then entity\<lparr>am_t_reassembly_start := 0\<rparr> else entity)
      in if am_t_reassembly_start e1 = 0 \<and>
            (am_sn_compare_rx e1 (am_rx_next_highest e1) nxt > 0 \<or>
             (am_rx_next_highest e1 = nxt \<and> am_sdu_has_missing_bytes e1 (am_rx_next e1)))
         then e1\<lparr>am_t_reassembly_start := am_t_current e1,
                 am_rx_next_status_trigger := am_rx_next_highest e1\<rparr>
         else e1)"

definition am_reception_actions :: "nr_rlc_entity_am \<Rightarrow> int \<Rightarrow> nr_rlc_entity_am res" where
  "am_reception_actions entity x =
     (let e = (if am_sn_compare_rx entity x (am_rx_next_highest entity) \<ge> 0
               then entity\<lparr>am_rx_next_highest := c_rem (x + 1) (am_sn_modulus entity)\<rparr> else entity)
      in rbind (if am_sdu_full e x then am_deliver e x else Inr e)
           (\<lambda>e. Inr (am_reassembly_timer e)))"

end
