(* ===== verification/NR_RLC_Am_Ctrl.thy ===== *)
theory NR_RLC_Am_Ctrl
  imports NR_RLC_Am
begin

text \<open>
  The reception of PDUs by the acknowledged mode entity: status reports (\<^verbatim>\<open>process_control_pdu\<close>), which
  acknowledge and un-acknowledge what has been sent, and data PDUs (\<^verbatim>\<open>nr_rlc_entity_am_recv_pdu\<close>).

  \<^verbatim>\<open>process_control_pdu\<close> walks along the wait list and the retransmit list in step with the NACKs of the
  report. Its local variables are the record \<open>am_ctrl\<close>: \<open>c_before\<close> is the wait list up to
  \<^verbatim>\<open>prev_wait_list\<close> and \<open>c_wait\<close> the chain behind it; \<^verbatim>\<open>cur_wait_list\<close> is the head of \<open>c_wait\<close>, or NULL once
  \<open>c_wait_null\<close> is set; \<open>c_new\<close> is the retransmit list being built and \<open>c_retx\<close> the chain at
  \<^verbatim>\<open>cur_retransmit_list\<close>; \<open>c_end\<close> is \<^verbatim>\<open>end_wait_list\<close> (\<open>Some None\<close> is the address of the local list head).
  The \<^verbatim>\<open>goto\<close>s are values of \<open>ctrl_out\<close>.

  When a report turns out to be malformed after segments have been moved or freed, the list heads of
  the entity are not updated; the code logs an inconsistent state, and the model has the fault
  \<open>Inconsistent_state\<close> (\<open>c_touched\<close> says whether that is the case).
\<close>

section \<open>State\<close>

record am_ctrl =
  c_entity :: nr_rlc_entity_am
  c_before :: "nr_rlc_sdu_segment list"
  c_wait :: "nr_rlc_sdu_segment list"
  c_wait_null :: bool
  c_new :: "nr_rlc_sdu_segment list"
  c_retx :: "nr_rlc_sdu_segment list"
  c_end :: "nat option option"
  c_touched :: bool

datatype ctrl_out = Again am_ctrl | Done_nack am_ctrl | Lists_over am_ctrl

text \<open>One NACK: sequence number, first and last byte (-1 is the end of the SDU).\<close>

record am_nack =
  n_sn :: int
  n_so_start :: int
  n_so_end :: int

definition so_overlap :: "int \<Rightarrow> int \<Rightarrow> int \<Rightarrow> int \<Rightarrow> bool" where
  "so_overlap s1 e1 s2 e2 \<longleftrightarrow>
     (if s1 < s2 then e1 = -1 \<or> e1 \<ge> s2 else e2 = -1 \<or> s1 \<le> e2)"

definition c_prev :: "am_ctrl \<Rightarrow> nat option" where
  "c_prev st = (if c_before st = [] then None else Some (g_addr (last (c_before st))))"

definition c_cur_wait :: "am_ctrl \<Rightarrow> nr_rlc_sdu_segment list" where
  "c_cur_wait st = (if c_wait_null st then [] else c_wait st)"

section \<open>Acknowledged and un-acknowledged segments\<close>

text \<open>A segment is un-acknowledged: its SDU is transmitted once more.\<close>

definition am_count_retx :: "nr_rlc_entity_am \<Rightarrow> nr_rlc_sdu_segment \<Rightarrow> nr_rlc_sdu \<Rightarrow> nr_rlc_entity_am" where
  "am_count_retx entity g s =
     (let s' = s\<lparr>s_retx_count := s_retx_count s + 1\<rparr>
      in entity\<lparr>am_heap := put_sdu (am_heap entity) (g_sdu g) s',
                am_out := am_out entity @
                  (if s_retx_count s' \<ge> am_max_retx_threshold entity * s_ref_count s'
                   then [Max_retx_reached] else []),
                am_bstatus_retx_size := am_bstatus_retx_size entity +
                  am_compute_pdu_header_size entity g + g_size g\<rparr>)"

text \<open>A segment is acknowledged: it is freed, and the SDU is reported with its last segment.\<close>

definition am_free_acked :: "nr_rlc_entity_am \<Rightarrow> nr_rlc_sdu_segment \<Rightarrow> nr_rlc_entity_am res" where
  "am_free_acked entity g =
     rbind (get_sdu (am_heap entity) (g_sdu g)) (\<lambda>s.
     rbind (nr_rlc_free_sdu_segment (am_heap entity) g) (\<lambda>(freed, h').
       Inr (if freed
            then entity\<lparr>am_heap := h', am_tx_size := am_tx_size entity - s_size s,
                        am_out := am_out entity @ [Sdu_successful_delivery (s_upper_layer_id s)]\<rparr>
            else entity\<lparr>am_heap := h'\<rparr>)))"

section \<open>One segment against the current NACK\<close>

text \<open>Label \<^verbatim>\<open>process_wait_list_head\<close>; \<open>w # ws\<close> is the chain at \<^verbatim>\<open>cur_wait_list\<close>.\<close>

definition am_wait_list_head ::
  "int \<Rightarrow> am_nack \<Rightarrow> am_ctrl \<Rightarrow> nr_rlc_sdu_segment \<Rightarrow> nr_rlc_sdu_segment list \<Rightarrow> ctrl_out res" where
  "am_wait_list_head ack_sn n st w ws =
     (let e = c_entity st in
      rbind (get_sdu (am_heap e) (g_sdu w)) (\<lambda>s.
      if s_sn s = n_sn n \<and>
         so_overlap (n_so_start n) (n_so_end n) (g_so w) (g_so w + g_size w - 1)
      then Inr (Again (st\<lparr>c_entity := am_count_retx e w s, c_wait := ws, c_new := c_new st @ [w],
                          c_end := (if am_wait_end e = Some (g_addr w) then Some (c_prev st)
                                    else c_end st),
                          c_touched := True\<rparr>))
      else if am_sn_compare_tx e (s_sn s) (n_sn n) > 0 \<or> (s_sn s = n_sn n \<and> g_so w > n_so_start n)
      then Inr (Done_nack st)
      else if am_sn_compare_tx e (s_sn s) ack_sn < 0
      then rbind (am_free_acked e w) (\<lambda>e'.
             Inr (Again (st\<lparr>c_entity := e', c_wait := ws,
                            c_end := (if am_wait_end e = (case ws of [] \<Rightarrow> None | x # _ \<Rightarrow> Some (g_addr x))
                                      then Some (c_prev st) else c_end st),
                            c_touched := True\<rparr>)))
      else if am_sn_compare_tx e (s_sn s) ack_sn > 0
      then Inr (Again (st\<lparr>c_wait_null := True\<rparr>))
      else Inr (Again (st\<lparr>c_before := c_before st @ [w], c_wait := ws\<rparr>))))"

text \<open>
  Label \<^verbatim>\<open>process_retransmit_list_head\<close>; \<open>r # rs\<close> is the chain at \<^verbatim>\<open>cur_retransmit_list\<close>. In the case of an
  empty wait list the rest of the chain is attached behind the new list and \<^verbatim>\<open>cur_retransmit_list\<close>
  becomes NULL; the attachment is overwritten with \<^verbatim>\<open>cur_retransmit_list\<close> at the end, before it is read.
\<close>

definition am_retransmit_list_head ::
  "int \<Rightarrow> am_nack \<Rightarrow> am_ctrl \<Rightarrow> nr_rlc_sdu_segment \<Rightarrow> nr_rlc_sdu_segment list \<Rightarrow> ctrl_out res" where
  "am_retransmit_list_head ack_sn n st r rs =
     (let e = c_entity st in
      rbind (get_sdu (am_heap e) (g_sdu r)) (\<lambda>s.
      if s_sn s = n_sn n \<and>
         so_overlap (n_so_start n) (n_so_end n) (g_so r) (g_so r + g_size r - 1)
      then Inr (Again (st\<lparr>c_retx := rs, c_new := c_new st @ [r], c_touched := True\<rparr>))
      else if am_sn_compare_tx e (s_sn s) (n_sn n) > 0 \<or> (s_sn s = n_sn n \<and> g_so r > n_so_start n)
      then Inr (Done_nack st)
      else if am_sn_compare_tx e (s_sn s) ack_sn < 0
      then let e1 = e\<lparr>am_bstatus_retx_size := am_bstatus_retx_size e -
                        (am_compute_pdu_header_size e r + g_size r)\<rparr>
           in rbind (am_free_acked e1 r) (\<lambda>e'.
                Inr (Again (st\<lparr>c_entity := e', c_retx := rs, c_touched := True\<rparr>)))
      else if c_cur_wait st = []
      then Inr (Lists_over (st\<lparr>c_retx := []\<rparr>))
      else Inr (Again (st\<lparr>c_retx := rs, c_new := c_new st @ [r], c_touched := True\<rparr>))))"

text \<open>Label \<^verbatim>\<open>process_next_pdu\<close>: the smaller of the two heads is next.\<close>

definition am_process_next_step :: "int \<Rightarrow> am_nack \<Rightarrow> am_ctrl \<Rightarrow> ctrl_out res" where
  "am_process_next_step ack_sn n st =
     (case (c_cur_wait st, c_retx st) of
        ([], []) \<Rightarrow> Inr (Lists_over st)
      | ([], r # rs) \<Rightarrow> am_retransmit_list_head ack_sn n st r rs
      | (w # ws, []) \<Rightarrow> am_wait_list_head ack_sn n st w ws
      | (w # ws, r # rs) \<Rightarrow>
          rbind (seg_sn (am_heap (c_entity st)) w) (\<lambda>wsn.
          rbind (seg_sn (am_heap (c_entity st)) r) (\<lambda>rsn.
            if wsn < rsn \<or> (wsn = rsn \<and> g_so w < g_so r)
            then am_wait_list_head ack_sn n st w ws
            else am_retransmit_list_head ack_sn n st r rs)))"

definition am_ctrl_left :: "am_ctrl \<Rightarrow> nat" where
  "am_ctrl_left st = (if c_wait_null st then 0 else Suc (length (c_wait st))) + length (c_retx st)"

lemma am_wait_list_head_decreases:
  assumes "am_wait_list_head ack_sn n st w ws = Inr (Again st')" and "c_cur_wait st = w # ws"
  shows "am_ctrl_left st' < am_ctrl_left st"
proof -
  have "c_wait st = w # ws" "\<not> c_wait_null st"
    using assms(2) by (auto simp: c_cur_wait_def split: if_splits)
  moreover have "c_retx st' = c_retx st" "c_wait_null st' \<or> c_wait st' = ws"
    using assms(1) by (auto simp: am_wait_list_head_def Let_def rbind_eq_Inr split: if_splits)
  ultimately show ?thesis
    by (auto simp: am_ctrl_left_def)
qed

lemma am_retransmit_list_head_decreases:
  assumes "am_retransmit_list_head ack_sn n st r rs = Inr (Again st')" and "c_retx st = r # rs"
  shows "am_ctrl_left st' < am_ctrl_left st"
proof -
  have "c_wait st' = c_wait st" "c_wait_null st' = c_wait_null st" "c_retx st' = rs"
    using assms(1) by (auto simp: am_retransmit_list_head_def Let_def rbind_eq_Inr split: if_splits)
  with assms(2) show ?thesis
    by (simp add: am_ctrl_left_def)
qed

lemma am_process_next_step_decreases:
  assumes "am_process_next_step ack_sn n st = Inr (Again st')"
  shows "am_ctrl_left st' < am_ctrl_left st"
proof -
  consider (w) w ws where "c_cur_wait st = w # ws" "am_wait_list_head ack_sn n st w ws = Inr (Again st')"
    | (r) r rs where "c_retx st = r # rs" "am_retransmit_list_head ack_sn n st r rs = Inr (Again st')"
    using assms
    by (auto simp: am_process_next_step_def rbind_eq_Inr split: list.splits if_splits)
  then show ?thesis
    by cases (auto intro: am_wait_list_head_decreases am_retransmit_list_head_decreases)
qed

text \<open>The loop over \<^verbatim>\<open>process_next_pdu\<close>: whether both lists are over, and the state.\<close>

function am_process_next :: "int \<Rightarrow> am_nack \<Rightarrow> am_ctrl \<Rightarrow> (bool \<times> am_ctrl) res" where
  "am_process_next ack_sn n st =
     (case am_process_next_step ack_sn n st of
        Inl f \<Rightarrow> Inl f
      | Inr (Again st') \<Rightarrow> am_process_next ack_sn n st'
      | Inr (Done_nack st') \<Rightarrow> Inr (False, st')
      | Inr (Lists_over st') \<Rightarrow> Inr (True, st'))"
  by pat_completeness auto
termination
  by (relation "measure (\<lambda>(_, _, st). am_ctrl_left st)") (auto dest: am_process_next_step_decreases)

declare am_process_next.simps [simp del]

section \<open>The NACKs of a report\<close>

text \<open>One NACK block: sequence number, byte range, number of SDUs, and whether another follows.\<close>

record am_nack_block =
  b_nack_sn :: int
  b_e1 :: int
  b_so_start :: int
  b_so_end :: int
  b_range :: int

text \<open>\<open>None\<close> is the jump to the error label.\<close>

definition am_read_nack ::
  "nr_rlc_entity_am \<Rightarrow> nr_rlc_pdu_decoder \<Rightarrow> (am_nack_block \<times> nr_rlc_pdu_decoder) option res" where
  "am_read_nack entity d =
     (let err = Inr None;
          len = am_sn_field_length entity;
          finish = (\<lambda>nack_sn e1 so_start so_end range d.
            let so_end = (if so_end = 0xffff then -1 else so_end)
            in Inr (Some (\<lparr>b_nack_sn = nack_sn, b_e1 = e1, b_so_start = so_start,
                           b_so_end = so_end, b_range = range\<rparr>, d)));
          rd_range = (\<lambda>nack_sn e1 e3 so_start so_end d.
            if e3 \<noteq> 0
            then get_R d 8 err (\<lambda>range d. finish nack_sn e1 so_start so_end range d)
            else finish nack_sn e1 so_start so_end 1 d)
      in get_R d len err (\<lambda>nack_sn d.
         get_R d 1 err (\<lambda>e1 d.
         get_R d 1 err (\<lambda>e2 d.
         get_R d 1 err (\<lambda>e3 d.
         get_R d (if len = 18 then 3 else 1) err (\<lambda>_ d.
           if e2 \<noteq> 0
           then get_R d 16 err (\<lambda>so_start d.
                get_R d 16 err (\<lambda>so_end d. rd_range nack_sn e1 e3 so_start so_end d))
           else rd_range nack_sn e1 e3 0 0xffff d))))))"

text \<open>
  The loop over the range of a block, from \<open>i\<close> on with \<open>k\<close> numbers left: whether to jump to
  \<^verbatim>\<open>nacks_done\<close>, the state, and the previous NACK (\<open>None\<close> at the beginning).
\<close>

fun am_range_loop ::
  "int \<Rightarrow> am_nack_block \<Rightarrow> nat \<Rightarrow> int \<Rightarrow> am_ctrl \<Rightarrow> (int \<times> int) option \<Rightarrow>
   (bool \<times> am_ctrl \<times> (int \<times> int) option) res" where
  "am_range_loop ack_sn b 0 i st prev = Inr (False, st, prev)"
| "am_range_loop ack_sn b (Suc k) i st prev =
     (let e = c_entity st;
          cur_nack_sn = c_rem (b_nack_sn b + i) (am_sn_modulus e);
          cur_so_start = (if i = 0 then b_so_start b else 0);
          cur_so_end = (if i = b_range b - 1 then b_so_end b else -1);
          bad_order = (case prev of
             None \<Rightarrow> False
           | Some (prev_nack_sn, prev_so_end) \<Rightarrow>
               let cmp = am_sn_compare_tx e cur_nack_sn prev_nack_sn
               in cmp < 0 \<or> (cmp = 0 \<and> (prev_so_end = -1 \<or> cur_so_start \<le> prev_so_end)))
      in if bad_order \<or> am_sn_compare_tx e cur_nack_sn ack_sn > 0 then Inr (True, st, prev)
         else
           rbind (am_process_next ack_sn
                    \<lparr>n_sn = cur_nack_sn, n_so_start = cur_so_start, n_so_end = cur_so_end\<rparr> st)
             (\<lambda>(over, st'). if over then Inr (False, st', prev)
                else am_range_loop ack_sn b k (i + 1) st' (Some (cur_nack_sn, cur_so_end))))"

text \<open>Label \<^verbatim>\<open>lists_over\<close>: the poll timer stops when the polled number is un-acknowledged.\<close>

definition am_stop_poll_timer :: "am_nack_block \<Rightarrow> nr_rlc_entity_am \<Rightarrow> nr_rlc_entity_am" where
  "am_stop_poll_timer b e =
     (if am_sn_compare_tx e (b_nack_sn b) (am_poll_sn e) \<le> 0 \<and>
         am_sn_compare_tx e (am_poll_sn e)
           (c_rem (b_nack_sn b + b_range b) (am_sn_modulus e)) < 0
      then e\<lparr>am_t_poll_retransmit_start := 0\<rparr> else e)"

text \<open>
  The loop over the blocks: whether the decoder ran into an error, and the state. Each block takes at
  least two bytes, so that fuel for every byte of the PDU is enough.
\<close>

fun am_nack_loop ::
  "nat \<Rightarrow> int \<Rightarrow> int \<Rightarrow> nr_rlc_pdu_decoder \<Rightarrow> am_ctrl \<Rightarrow> (int \<times> int) option \<Rightarrow> (bool \<times> am_ctrl) res" where
  "am_nack_loop fuel ack_sn e1 d st prev =
     (if e1 = 0 then Inr (False, st)
      else
        case fuel of 0 \<Rightarrow> Inl Divergence
        | Suc fuel' \<Rightarrow>
            rbind (am_read_nack (c_entity st) d) (\<lambda>r.
              case r of None \<Rightarrow> Inr (True, st)
              | Some (b, d') \<Rightarrow>
                  rbind (am_range_loop ack_sn b (nat (b_range b)) 0 st prev) (\<lambda>(done, st', prev').
                    if done then Inr (False, st')
                    else am_nack_loop fuel' ack_sn (b_e1 b) d'
                           (st'\<lparr>c_entity := am_stop_poll_timer b (c_entity st')\<rparr>) prev')))"

declare am_nack_loop.simps [simp del]

section \<open>The ACK of a report\<close>

fun am_ack_wait_list ::
  "int \<Rightarrow> am_ctrl \<Rightarrow> nr_rlc_sdu_segment list \<Rightarrow> am_ctrl res" where
  "am_ack_wait_list ack_sn st [] = Inr st"
| "am_ack_wait_list ack_sn st (w # ws) =
     (let e = c_entity st in
      rbind (seg_sn (am_heap e) w) (\<lambda>sn.
        if am_sn_compare_tx e sn ack_sn < 0
        then rbind (am_free_acked e w) (\<lambda>e'.
               am_ack_wait_list ack_sn
                 (st\<lparr>c_entity := e', c_wait := ws,
                     c_end := (if am_wait_end e = Some (g_addr w) then Some (c_prev st)
                               else c_end st)\<rparr>) ws)
        else Inr st))"

fun am_ack_retransmit_list ::
  "int \<Rightarrow> am_ctrl \<Rightarrow> nr_rlc_sdu_segment list \<Rightarrow> am_ctrl res" where
  "am_ack_retransmit_list ack_sn st [] = Inr st"
| "am_ack_retransmit_list ack_sn st (r # rs) =
     (let e = c_entity st in
      rbind (seg_sn (am_heap e) r) (\<lambda>sn.
        if am_sn_compare_tx e sn ack_sn < 0
        then let e1 = e\<lparr>am_bstatus_retx_size := am_bstatus_retx_size e -
                          (am_compute_pdu_header_size e r + g_size r)\<rparr>
             in rbind (am_free_acked e1 r) (\<lambda>e'.
                  am_ack_retransmit_list ack_sn (st\<lparr>c_entity := e', c_retx := rs\<rparr>) rs)
        else Inr st))"

text \<open>The smallest number not acknowledged becomes \<^verbatim>\<open>tx_next_ack\<close>.\<close>

definition am_lower_ack :: "nr_rlc_entity_am \<Rightarrow> nr_rlc_sdu_segment list \<Rightarrow> int \<Rightarrow> int res" where
  "am_lower_ack e l tx_next_ack =
     (case l of [] \<Rightarrow> Inr tx_next_ack
      | g # _ \<Rightarrow> rbind (seg_sn (am_heap e) g)
          (\<lambda>sn. Inr (if am_sn_compare_tx e sn tx_next_ack < 0 then sn else tx_next_ack)))"

definition am_update_tx_next_ack :: "nr_rlc_entity_am \<Rightarrow> int \<Rightarrow> nr_rlc_entity_am res" where
  "am_update_tx_next_ack e ack_sn =
     rbind (am_lower_ack e (am_wait_list e) (am_tx_next e)) (\<lambda>a.
     rbind (am_lower_ack e (am_retransmit_list e) a) (\<lambda>a.
       Inr (e\<lparr>am_tx_next_ack := (if am_sn_compare_tx e ack_sn a < 0 then ack_sn else a)\<rparr>)))"

text \<open>Label \<^verbatim>\<open>nacks_done\<close>.\<close>

definition am_nacks_done :: "int \<Rightarrow> am_ctrl \<Rightarrow> nr_rlc_entity_am res" where
  "am_nacks_done ack_sn st =
     rbind (am_ack_wait_list ack_sn st (c_cur_wait st)) (\<lambda>st1.
     rbind (am_ack_retransmit_list ack_sn st1 (c_retx st1)) (\<lambda>st2.
       let e = (c_entity st2)\<lparr>am_wait_list := c_before st2 @ c_wait st2,
                              am_retransmit_list := c_new st2 @ c_retx st2,
                              am_wait_end := (case c_end st2 of None \<Rightarrow> am_wait_end (c_entity st2)
                                              | Some a \<Rightarrow> a)\<rparr>
       in am_update_tx_next_ack e ack_sn))"

definition am_process_control_pdu :: "nr_rlc_entity_am \<Rightarrow> byte list \<Rightarrow> nr_rlc_entity_am res" where
  "am_process_control_pdu entity buffer =
     (let err = Inr entity; len = am_sn_field_length entity in
      get_R (nr_rlc_pdu_decoder_init buffer) 1 err (\<lambda>_ d.
      get_R d 3 err (\<lambda>cpt d.
      if cpt \<noteq> 0 then err
      else
        get_R d len err (\<lambda>ack_sn d.
        get_R d 1 err (\<lambda>e1 d.
        get_R d (if len = 18 then 1 else 7) err (\<lambda>_ d.
          let e = (if am_sn_compare_tx entity (am_poll_sn entity) ack_sn < 0
                   then entity\<lparr>am_t_poll_retransmit_start := 0\<rparr> else entity);
              st = \<lparr>c_entity = e, c_before = [], c_wait = am_wait_list e, c_wait_null = False,
                    c_new = [], c_retx = am_retransmit_list e, c_end = None, c_touched = False\<rparr>
          in rbind (am_nack_loop (length buffer) ack_sn e1 d st None) (\<lambda>(error, st').
               if error
               then if c_touched st' then Inl Inconsistent_state else Inr (c_entity st')
               else am_nacks_done ack_sn st')))))))"

section \<open>Received PDUs\<close>

text \<open>A set poll bit triggers a status report, whether the PDU is kept or discarded.\<close>

definition am_poll_bit :: "nr_rlc_entity_am \<Rightarrow> int \<Rightarrow> nr_rlc_entity_am" where
  "am_poll_bit entity p = (if p \<noteq> 0 then entity\<lparr>am_status_triggered := True\<rparr> else entity)"

definition am_recv_segment ::
  "nr_rlc_entity_am \<Rightarrow> byte list \<Rightarrow> int \<Rightarrow> int \<Rightarrow> int \<Rightarrow> bool \<Rightarrow> bool \<Rightarrow> nat \<Rightarrow> nr_rlc_entity_am res" where
  "am_recv_segment entity buffer p sn so is_first is_last header =
     (let data_size = int (length buffer) - int header;
          discard = Inr (am_poll_bit entity p)
      in if data_size \<le> 0 then discard
         else if am_rx_size entity + data_size > am_rx_maxsize entity then discard
         else if \<not> am_sn_in_recv_window entity sn then discard
         else if am_segment_already_received entity sn so data_size then discard
         else
           let pdu = nr_rlc_new_pdu sn so is_first is_last (drop header buffer);
               e = entity\<lparr>am_rx_size := am_rx_size entity + data_size,
                          am_rx_list := nr_rlc_pdu_list_add (am_sn_compare_rx entity)
                                          (am_rx_list entity) pdu\<rparr>
           in rbind (am_reception_actions e sn) (\<lambda>e'. Inr (am_poll_bit e' p)))"

definition nr_rlc_entity_am_recv_pdu :: "nr_rlc_entity_am \<Rightarrow> byte list \<Rightarrow> nr_rlc_entity_am res" where
  "nr_rlc_entity_am_recv_pdu entity buffer =
     (let len = am_sn_field_length entity;
          segment = (\<lambda>p is_first is_last d.
            let err = Inr (am_poll_bit entity p) in
            get_R d len err (\<lambda>sn d.
            if \<not> is_first
            then get_R d 16 err (\<lambda>so d.
                   if so = 0 then err
                   else am_recv_segment entity buffer p sn so is_first is_last (d_byte d))
            else am_recv_segment entity buffer p sn 0 is_first is_last (d_byte d)))
      in get_R (nr_rlc_pdu_decoder_init buffer) 1 (Inr entity) (\<lambda>dc d.
           if dc = 0 then am_process_control_pdu entity buffer
           else
             get_R d 1 (Inr (am_poll_bit entity (-1))) (\<lambda>p d.
             get_R d 2 (Inr (am_poll_bit entity p)) (\<lambda>si d.
               let is_first = (si AND 2 = 0); is_last = (si AND 1 = 0) in
               if len = 18
               then get_R d 2 (Inr (am_poll_bit entity p)) (\<lambda>_ d. segment p is_first is_last d)
               else segment p is_first is_last d))))"

end
