(* ===== verification/NR_RLC_Am_Status.thy ===== *)
theory NR_RLC_Am_Status
  imports NR_RLC_Am
begin

text \<open>
  The status report of the acknowledged mode entity: what is missing in the reception list
  (\<^verbatim>\<open>next_missing\<close>), the NACKs that report it (\<^verbatim>\<open>generate_missing\<close>), the report
  (\<^verbatim>\<open>generate_status\<close>) and the computation of its size (\<^verbatim>\<open>status_size\<close>), which the scheduler asks for
  before the report is generated.
\<close>

section \<open>What is missing\<close>

text \<open>\<^verbatim>\<open>missing_data_t\<close>; \<open>m_next\<close> is the chain at \<^verbatim>\<open>next\<close>, empty for NULL. \<^verbatim>\<open>sn_start = -1\<close> is \<open>None\<close>.\<close>

record missing_data =
  m_sn_start :: int
  m_so_start :: int
  m_sn_end :: int
  m_so_end :: int
  m_next :: "nr_rlc_pdu list"

text \<open>Label \<^verbatim>\<open>set_end_different_sdu\<close>; \<open>cur\<close> is the node after the gap.\<close>

definition am_set_end_different_sdu ::
  "nr_rlc_entity_am \<Rightarrow> nr_rlc_pdu \<Rightarrow> int \<Rightarrow> int \<Rightarrow> nr_rlc_pdu list \<Rightarrow> missing_data" where
  "am_set_end_different_sdu entity cur sn_start so_start nxt =
     (let M = am_sn_modulus entity;
          (sn_end, so_end) =
            (if p_is_first cur then (c_rem (p_sn cur - 1 + M) M, 0xffff)
             else (p_sn cur, p_so cur - 1))
      in if am_sn_compare_rx entity (am_rx_highest_status entity) sn_end \<le> 0
         then \<lparr>m_sn_start = sn_start, m_so_start = so_start,
               m_sn_end = c_rem (am_rx_highest_status entity - 1 + M) M, m_so_end = 0xffff,
               m_next = []\<rparr>
         else \<lparr>m_sn_start = sn_start, m_so_start = so_start, m_sn_end = sn_end, m_so_end = so_end,
               m_next = nxt\<rparr>)"

text \<open>The report ends with the SDU before \<^verbatim>\<open>rx_highest_status\<close>.\<close>

definition am_missing_to_end :: "nr_rlc_entity_am \<Rightarrow> int \<Rightarrow> int \<Rightarrow> missing_data option" where
  "am_missing_to_end entity sn_start so_start =
     (let M = am_sn_modulus entity in
      if am_sn_compare_rx entity (am_rx_highest_status entity) sn_start \<le> 0 then None
      else Some \<lparr>m_sn_start = sn_start, m_so_start = so_start,
                 m_sn_end = c_rem (am_rx_highest_status entity - 1 + M) M, m_so_end = 0xffff,
                 m_next = []\<rparr>)"

text \<open>Label \<^verbatim>\<open>next_pdu\<close>.\<close>

fun am_next_missing_loop ::
  "nr_rlc_entity_am \<Rightarrow> nr_rlc_pdu \<Rightarrow> nr_rlc_pdu list \<Rightarrow> bool \<Rightarrow> int \<Rightarrow> missing_data option" where
  "am_next_missing_loop entity cur rest last_reached max_so =
     (let M = am_sn_modulus entity;
          sn = p_sn cur;
          cur_max_so = p_so cur + p_size cur - 1;
          max_so = (if cur_max_so > max_so then cur_max_so else max_so);
          last_reached = (last_reached \<or> p_is_last cur)
      in case rest of
           [] \<Rightarrow>
             if p_data cur = None then am_missing_to_end entity (c_rem (sn + 1) M) 0
             else if last_reached then am_missing_to_end entity (c_rem (sn + 1) M) 0
             else am_missing_to_end entity sn (max_so + 1)
         | cur' # rest' \<Rightarrow>
             if p_sn cur' = sn \<and> max_so \<ge> p_so cur' - 1
             then am_next_missing_loop entity cur' rest' last_reached max_so
             else if p_sn cur' = c_rem (sn + 1) M \<and> last_reached \<and> p_is_first cur'
             then am_next_missing_loop entity cur' rest' False 0
             else if p_sn cur' = sn
             then if am_sn_compare_rx entity (am_rx_highest_status entity) sn \<le> 0 then None
                  else Some \<lparr>m_sn_start = sn, m_so_start = max_so + 1, m_sn_end = sn,
                             m_so_end = p_so cur' - 1, m_next = cur' # rest'\<rparr>
             else
               let (sn_start, so_start) =
                     (if last_reached then (c_rem (sn + 1) M, 0) else (sn, max_so + 1))
               in if am_sn_compare_rx entity (am_rx_highest_status entity) sn_start \<le> 0 then None
                  else Some (am_set_end_different_sdu entity cur' sn_start so_start (cur' # rest')))"

declare am_next_missing_loop.simps [simp del]

definition am_next_missing ::
  "nr_rlc_entity_am \<Rightarrow> nr_rlc_pdu \<Rightarrow> nr_rlc_pdu list \<Rightarrow> bool \<Rightarrow> missing_data option" where
  "am_next_missing entity cur rest check_head =
     (if check_head \<and> (p_sn cur \<noteq> am_rx_next entity \<or> \<not> p_is_first cur)
      then if am_sn_compare_rx entity (am_rx_highest_status entity) (am_rx_next entity) \<le> 0 then None
           else Some (am_set_end_different_sdu entity cur (am_rx_next entity) 0 (cur # rest))
      else am_next_missing_loop entity cur rest False 0)"

section \<open>NACKs\<close>

definition am_nack_size :: "nr_rlc_entity_am \<Rightarrow> int \<Rightarrow> int \<Rightarrow> int \<Rightarrow> int \<Rightarrow> int" where
  "am_nack_size entity sn_start so_start sn_end so_end =
     (let nack_length = 2 + of_bool (am_sn_field_length entity = 18) in
      if sn_start = sn_end
      then if so_start = 0 \<and> so_end = 0xffff then nack_length else nack_length + 4
      else if so_start = 0 \<and> so_end = 0xffff then nack_length + 1 else nack_length + 5)"

definition am_get_e1_position :: "nr_rlc_entity_am \<Rightarrow> nr_rlc_pdu_encoder \<Rightarrow> nat \<times> nat" where
  "am_get_e1_position entity encoder =
     (if am_sn_field_length entity = 18 then (e_byte encoder + 2, 5) else (e_byte encoder + 1, 3))"

text \<open>\<^verbatim>\<open>buffer[i] |= x\<close>.\<close>

definition or_byte :: "byte list \<Rightarrow> nat \<Rightarrow> byte \<Rightarrow> byte list res" where
  "or_byte buf i x = (if i < length buf then Inr (buf[i := buf ! i OR x]) else Inl Out_of_bounds)"

text \<open>The bounds of the next block of at most 255 SDUs: \<^verbatim>\<open>so_start\<close>, \<^verbatim>\<open>sn_end\<close>, \<^verbatim>\<open>so_end\<close>.\<close>

definition am_nack_bounds ::
  "nr_rlc_entity_am \<Rightarrow> missing_data \<Rightarrow> int \<Rightarrow> nat \<Rightarrow> int \<times> int \<times> int" where
  "am_nack_bounds entity m sn_start sn_count =
     (let so_start = (if sn_start = m_sn_start m then m_so_start m else 0)
      in if sn_count \<le> 255 then (so_start, m_sn_end m, m_so_end m)
         else (so_start, c_rem (sn_start + 254) (am_sn_modulus entity), 0xffff))"

text \<open>\<^verbatim>\<open>sn_count\<close>: the remainder is not negative, as both ends are sequence numbers.\<close>

definition am_sn_count :: "nr_rlc_entity_am \<Rightarrow> missing_data \<Rightarrow> nat" where
  "am_sn_count entity m =
     Suc (nat (c_rem (m_sn_end m - m_sn_start m + am_sn_modulus entity) (am_sn_modulus entity)))"

text \<open>The flags E2 (byte range) and E3 (SDU range) of a block.\<close>

definition am_e2 :: "int \<Rightarrow> int \<Rightarrow> bool" where
  "am_e2 so_start so_end \<longleftrightarrow> \<not> (so_start = 0 \<and> so_end = 0xffff)"

text \<open>
  The fields of a block, and the position of \<^verbatim>\<open>so_end\<close> in the buffer (the pointer
  \<^verbatim>\<open>so_end_address\<close>).
\<close>

definition am_put_nack ::
  "nr_rlc_entity_am \<Rightarrow> nr_rlc_pdu_encoder \<Rightarrow> int \<Rightarrow> int \<Rightarrow> int \<Rightarrow> int \<Rightarrow> int \<Rightarrow>
   (nr_rlc_pdu_encoder \<times> nat option) res" where
  "am_put_nack entity encoder sn_start so_start sn_end so_end cur_sn_count =
     (let r_bits = (if am_sn_field_length entity = 18 then 3 else 1);
          e2 = am_e2 so_start so_end; e3 = (sn_start \<noteq> sn_end)
      in rbind (nr_rlc_pdu_encoder_put_bits encoder sn_start (am_sn_field_length entity)) (\<lambda>enc.
         rbind (nr_rlc_pdu_encoder_put_bits enc 0 1) (\<lambda>enc.
         rbind (nr_rlc_pdu_encoder_put_bits enc (of_bool e2) 1) (\<lambda>enc.
         rbind (nr_rlc_pdu_encoder_put_bits enc (of_bool e3) 1) (\<lambda>enc.
         rbind (nr_rlc_pdu_encoder_put_bits enc 0 r_bits) (\<lambda>enc.
         rbind (if e2
                then rbind (nr_rlc_pdu_encoder_put_bits enc so_start 16) (\<lambda>enc1.
                     rbind (nr_rlc_pdu_encoder_put_bits enc1 so_end 16) (\<lambda>enc2.
                       Inr (enc2, Some (e_byte enc1))))
                else Inr (enc, None)) (\<lambda>(enc, so_end_address).
         rbind (if e3 then nr_rlc_pdu_encoder_put_bits enc cur_sn_count 8 else Inr enc) (\<lambda>enc.
           Inr (enc, so_end_address)))))))))"

section \<open>The report\<close>

text \<open>
  What the generation of a report updates: the encoder, the position of the E1 bit that tells
  whether another NACK follows, and \<^verbatim>\<open>so_end_address\<close>.
\<close>

record am_report =
  r_enc :: nr_rlc_pdu_encoder
  r_e1_byte :: nat
  r_e1_bit :: nat
  r_so_end :: "nat option"

text \<open>One NACK block.\<close>

definition am_generate_block ::
  "nr_rlc_entity_am \<Rightarrow> int \<Rightarrow> int \<Rightarrow> int \<Rightarrow> int \<Rightarrow> int \<Rightarrow> am_report \<Rightarrow> am_report res" where
  "am_generate_block entity sn_start so_start sn_end so_end cur_sn_count r =
     rbind (or_byte (e_buffer (r_enc r)) (r_e1_byte r) (push_bit (r_e1_bit r) 1)) (\<lambda>buf.
       let enc = (r_enc r)\<lparr>e_buffer := buf\<rparr>;
           (e1_byte, e1_bit) = am_get_e1_position entity enc
       in rbind (am_put_nack entity enc sn_start so_start sn_end so_end cur_sn_count)
            (\<lambda>(enc, so_end_address).
              Inr \<lparr>r_enc = enc, r_e1_byte = e1_byte, r_e1_bit = e1_bit, r_so_end = so_end_address\<rparr>))"

text \<open>
  \<^verbatim>\<open>generate_missing\<close>: the last NACK generated, whether the generation was truncated, and the
  report. A truncated generation also sets \<^verbatim>\<open>m->next\<close> to NULL.
\<close>

fun am_generate_missing_loop ::
  "nr_rlc_entity_am \<Rightarrow> missing_data \<Rightarrow> nat \<Rightarrow> int \<Rightarrow> int \<Rightarrow> am_report \<Rightarrow> (int \<times> bool \<times> am_report) res" where
  "am_generate_missing_loop entity m sn_count sn_start last_nack_generated r =
     (if sn_count = 0 then Inr (last_nack_generated, False, r)
      else
        let cur_sn_count = min sn_count 255;
            (so_start, sn_end, so_end) = am_nack_bounds entity m sn_start sn_count
        in if int (e_byte (r_enc r)) + am_nack_size entity sn_start so_start sn_end so_end
              > int (e_size (r_enc r))
           then Inr (last_nack_generated, True, r)
           else
             rbind (am_generate_block entity sn_start so_start sn_end so_end (int cur_sn_count) r)
               (\<lambda>r'. am_generate_missing_loop entity m (sn_count - cur_sn_count)
                       (c_rem (sn_start + int cur_sn_count) (am_sn_modulus entity))
                       (if sn_start = sn_end then sn_start else sn_start + int cur_sn_count - 1)
                       r'))"

declare am_generate_missing_loop.simps [simp del]

definition am_generate_missing ::
  "nr_rlc_entity_am \<Rightarrow> missing_data \<Rightarrow> am_report \<Rightarrow> (int \<times> bool \<times> am_report) res" where
  "am_generate_missing entity m r =
     am_generate_missing_loop entity m (am_sn_count entity m) (m_sn_start m) (-1) r"

text \<open>The end of the SDU replaces the last \<^verbatim>\<open>so_end\<close> of a truncated report.\<close>

definition am_force_so_end :: "bool \<Rightarrow> am_report \<Rightarrow> am_report res" where
  "am_force_so_end generation_truncated r =
     (case r_so_end r of
        Some a \<Rightarrow>
          if generation_truncated
          then if Suc a < length (e_buffer (r_enc r))
               then Inr (r\<lparr>r_enc := (r_enc r)\<lparr>e_buffer := (e_buffer (r_enc r))[a := 255, Suc a := 255]\<rparr>\<rparr>)
               else Inl Out_of_bounds
          else Inr r
      | None \<Rightarrow> Inr r)"

text \<open>The node of the next call is behind the node of this one, or it is the head after the check of the head.\<close>

lemma am_next_missing_loop_shorter:
  "am_next_missing_loop entity cur rest lr ms = Some m \<Longrightarrow> length (m_next m) \<le> length rest"
proof (induction rest arbitrary: cur lr ms)
  case Nil
  then show ?case
    by (auto simp: am_next_missing_loop.simps [of entity cur "[]"] am_missing_to_end_def Let_def
        split: if_splits)
next
  case (Cons cur' rest')
  have set_end: "length (m_next (am_set_end_different_sdu entity c a b l)) \<le> length l" for c a b l
    by (simp add: am_set_end_different_sdu_def Let_def)
  show ?case
    using Cons.prems
    by (auto simp: am_next_missing_loop.simps [of entity cur "cur' # rest'"] Let_def
        split: if_splits dest!: Cons.IH intro: order_trans [OF set_end])
qed

lemma am_next_missing_shorter:
  assumes "am_next_missing entity cur rest check_head = Some m"
  shows "length (m_next m) \<le> length rest \<or> check_head \<and> length (m_next m) \<le> Suc (length rest)"
  using assms am_next_missing_loop_shorter
  by (fastforce simp: am_next_missing_def am_set_end_different_sdu_def Let_def split: if_splits)

text \<open>The loop of \<^verbatim>\<open>generate_status\<close>: the last NACK and the report.\<close>

function am_status_loop ::
  "nr_rlc_entity_am \<Rightarrow> nr_rlc_pdu list \<Rightarrow> bool \<Rightarrow> int \<Rightarrow> am_report \<Rightarrow> (int \<times> am_report) res" where
  "am_status_loop entity [] check_head last_nack r = Inr (last_nack, r)"
| "am_status_loop entity (cur # rest) check_head last_nack r =
     (case am_next_missing entity cur rest check_head of
        None \<Rightarrow> Inr (last_nack, r)
      | Some m \<Rightarrow>
          rbind (am_generate_missing entity m r) (\<lambda>(ln, truncated, r1).
          rbind (am_force_so_end truncated r1) (\<lambda>r2.
            am_status_loop entity (if truncated then [] else m_next m) False
              (if ln \<noteq> -1 then ln else last_nack) r2)))"
  by pat_completeness auto
termination
  by (relation "measure (\<lambda>(entity, l, check_head, last_nack, r). 2 * length l + of_bool check_head)")
     (auto dest: am_next_missing_shorter)

text \<open>\<^verbatim>\<open>ack_sn\<close>, in the first three bytes of the report.\<close>

definition am_put_ack_sn :: "nr_rlc_entity_am \<Rightarrow> int \<Rightarrow> byte list \<Rightarrow> byte list" where
  "am_put_ack_sn entity ack_sn buffer =
     (if am_sn_field_length entity = 12
      then buffer[0 := word_of_int (drop_bit 8 ack_sn), 1 := word_of_int (ack_sn AND 255)]
      else buffer[0 := word_of_int (drop_bit 14 ack_sn),
                  1 := word_of_int (drop_bit 6 ack_sn AND 255),
                  2 := buffer ! 2 OR word_of_int (push_bit 2 (ack_sn AND 0x3f))])"

definition am_generate_status ::
  "nr_rlc_entity_am \<Rightarrow> byte list \<Rightarrow> (int \<times> byte list \<times> nr_rlc_entity_am) res" where
  "am_generate_status entity buffer =
     (if length buffer < 3 then Inr (0, buffer, entity)
      else
        let M = am_sn_modulus entity;
            last_nack = c_rem (am_rx_next entity - 1 + M) M
        in rbind (nr_rlc_pdu_encoder_put_bits (nr_rlc_pdu_encoder_init buffer) 0 (8 * 3)) (\<lambda>enc.
           rbind (am_status_loop entity (am_rx_list entity) True last_nack
                    \<lparr>r_enc = enc, r_e1_byte = 2,
                     r_e1_bit = (if am_sn_field_length entity = 18 then 1 else 7), r_so_end = None\<rparr>)
             (\<lambda>(last_nack, r).
               Inr (int (e_byte (r_enc r)),
                    am_put_ack_sn entity (c_rem (last_nack + 1) M) (e_buffer (r_enc r)),
                    entity\<lparr>am_status_triggered := False,
                           am_t_status_prohibit_start := am_t_current entity\<rparr>))))"

definition am_status_to_report :: "nr_rlc_entity_am \<Rightarrow> bool" where
  "am_status_to_report entity \<longleftrightarrow> am_status_triggered entity \<and>
     (am_t_status_prohibit_start entity = 0 \<or>
      am_t_current entity - am_t_status_prohibit_start entity
        > word_of_int (am_t_status_prohibit entity))"

section \<open>The size of a report\<close>

text \<open>\<^verbatim>\<open>missing_size\<close>: the number of blocks, whether \<^verbatim>\<open>m->next\<close> became NULL, and \<^verbatim>\<open>size\<close>.\<close>

definition am_block_size :: "nr_rlc_entity_am \<Rightarrow> int \<Rightarrow> int \<Rightarrow> int \<Rightarrow> int \<Rightarrow> int" where
  "am_block_size entity sn_start so_start sn_end so_end =
     (let L = int (am_sn_field_length entity);
          r_bits = (if am_sn_field_length entity = 18 then 3 else 1)
      in if sn_start = sn_end
         then if so_start = 0 \<and> so_end = 0xffff then (L + 3 + r_bits) div 8
              else (L + 3 + r_bits + 16 * 2) div 8
         else if so_start = 0 \<and> so_end = 0xffff then (L + 3 + r_bits + 8) div 8
              else (L + 3 + r_bits + 16 * 2 + 8) div 8)"

fun am_missing_size_loop ::
  "nr_rlc_entity_am \<Rightarrow> missing_data \<Rightarrow> nat \<Rightarrow> int \<Rightarrow> nat \<Rightarrow> int \<Rightarrow> int \<Rightarrow> nat \<times> bool \<times> int" where
  "am_missing_size_loop entity m sn_count sn_start range_count sz maxsize =
     (if sn_count = 0 then (range_count, False, sz)
      else
        let cur_sn_count = min sn_count 255;
            (so_start, sn_end, so_end) = am_nack_bounds entity m sn_start sn_count
        in if sz + am_nack_size entity sn_start so_start sn_end so_end > maxsize
           then (range_count, True, sz)
           else am_missing_size_loop entity m (sn_count - cur_sn_count)
                  (c_rem (sn_start + int cur_sn_count) (am_sn_modulus entity)) (Suc range_count)
                  (sz + am_block_size entity sn_start so_start sn_end so_end) maxsize)"

declare am_missing_size_loop.simps [simp del]

definition am_missing_size ::
  "nr_rlc_entity_am \<Rightarrow> missing_data \<Rightarrow> int \<Rightarrow> int \<Rightarrow> nat \<times> bool \<times> int" where
  "am_missing_size entity m sz maxsize =
     am_missing_size_loop entity m (am_sn_count entity m) (m_sn_start m) 0 sz maxsize"


lemma am_missing_size_loop_count:
  "am_missing_size_loop entity m k sn n sz ms = (n', t, sz') \<Longrightarrow> n \<le> n' \<and> (0 < k \<longrightarrow> \<not> t \<longrightarrow> n < n')"
proof (induction k arbitrary: sn n sz rule: less_induct)
  case (less k)
  show ?case
  proof (cases "k = 0")
    case True
    then show ?thesis using less.prems by (simp add: am_missing_size_loop.simps [of entity m 0])
  next
    case False
    obtain a b c where bs: "am_nack_bounds entity m sn k = (a, b, c)" by (cases "am_nack_bounds entity m sn k")
    show ?thesis
    proof (cases "sz + am_nack_size entity sn a b c > ms")
      case True
      then show ?thesis using less.prems False bs by (simp add: am_missing_size_loop.simps [of entity m k])
    next
      case go: False
      have "k - min k 255 < k" using False by simp
      moreover have "am_missing_size_loop entity m (k - min k 255)
          (c_rem (sn + int (min k 255)) (am_sn_modulus entity)) (Suc n)
          (sz + am_block_size entity sn a b c) ms = (n', t, sz')"
        using less.prems False bs go by (simp add: am_missing_size_loop.simps [of entity m k] Let_def)
      ultimately have "Suc n \<le> n'" using less.IH by blast
      then show ?thesis by simp
    qed
  qed
qed

function am_status_size_loop ::
  "nr_rlc_entity_am \<Rightarrow> nr_rlc_pdu list \<Rightarrow> nat \<Rightarrow> int \<Rightarrow> int \<Rightarrow> int" where
  "am_status_size_loop entity [] nack_count sz maxsize = sz"
| "am_status_size_loop entity (cur # rest) nack_count sz maxsize =
     (case am_next_missing entity cur rest (nack_count = 0) of
        None \<Rightarrow> sz
      | Some m \<Rightarrow>
          (case am_missing_size entity m sz maxsize of (n, truncated, sz') \<Rightarrow>
             am_status_size_loop entity (if truncated then [] else m_next m) (nack_count + n) sz' maxsize))"
  by pat_completeness auto
termination
proof (relation "measure (\<lambda>(entity, l, nack_count, sz, maxsize). 2 * length l + of_bool (nack_count = 0))")
  fix entity cur rest and nack_count :: nat and sz maxsize m n tsz truncated sz'
  assume m: "am_next_missing entity cur rest (nack_count = 0) = Some m"
    and s: "(n, tsz) = am_missing_size entity m sz maxsize" "(truncated, sz') = tsz"
  have "truncated \<or> 0 < n"
    using s am_missing_size_loop_count [of entity m "am_sn_count entity m" "m_sn_start m" 0 sz maxsize n truncated sz']
    by (auto simp: am_missing_size_def am_sn_count_def)
  then show "((entity, if truncated then [] else m_next m, nack_count + n, sz', maxsize),
      entity, cur # rest, nack_count, sz, maxsize)
    \<in> measure (\<lambda>(entity, l, nack_count, sz, maxsize). 2 * length l + of_bool (nack_count = 0))"
    using am_next_missing_shorter [OF m] by auto
qed simp

definition am_status_size :: "nr_rlc_entity_am \<Rightarrow> int \<Rightarrow> int" where
  "am_status_size entity maxsize =
     (if maxsize < 3 then 0
      else am_status_size_loop entity (am_rx_list entity) 0 3 maxsize)"

end
