(* ===== verification/NR_RLC_Am_Tx.thy ===== *)
theory NR_RLC_Am_Tx
  imports NR_RLC_Am_Ctrl NR_RLC_Am_Status
begin

text \<open>
  The transmission of the acknowledged mode entity: polling, the PDUs of new and of retransmitted
  SDUs, SDUs from the upper layer, the timers, discard and deletion. A sent segment is kept in
  \<^verbatim>\<open>wait_list\<close> until a status report moves it to \<^verbatim>\<open>retransmit_list\<close> or frees it.
\<close>

section \<open>Polling\<close>

definition am_is_window_stalling :: "nr_rlc_entity_am \<Rightarrow> bool" where
  "am_is_window_stalling entity \<longleftrightarrow>
     \<not> (am_sn_compare_tx entity (am_tx_next_ack entity) (am_tx_next entity) \<le> 0 \<and>
        am_sn_compare_tx entity (am_tx_next entity)
          (c_rem (am_tx_next_ack entity + am_window_size entity) (am_sn_modulus entity)) < 0)"

definition am_include_poll ::
  "nr_rlc_entity_am \<Rightarrow> byte list \<Rightarrow> (byte list \<times> nr_rlc_entity_am) res" where
  "am_include_poll entity buffer =
     rbind (or_byte buffer 0 0x40) (\<lambda>buffer'.
       Inr (buffer',
            entity\<lparr>am_pdu_without_poll := 0, am_byte_without_poll := 0,
                   am_poll_sn := c_rem (am_tx_next entity - 1 + am_sn_modulus entity)
                                       (am_sn_modulus entity),
                   am_t_poll_retransmit_start := am_t_current entity\<rparr>))"

definition am_check_poll_after_pdu_assembly :: "nr_rlc_entity_am \<Rightarrow> bool" where
  "am_check_poll_after_pdu_assembly entity \<longleftrightarrow>
     (am_tx_list entity = [] \<and> am_retransmit_list entity = []) \<or> am_is_window_stalling entity"

section \<open>PDUs\<close>

definition am_serialize_sdu ::
  "nr_rlc_entity_am \<Rightarrow> nr_rlc_sdu_segment \<Rightarrow> byte list \<Rightarrow> bool \<Rightarrow>
   (int \<times> byte list \<times> nr_rlc_entity_am) res" where
  "am_serialize_sdu entity sdu buffer p =
     rbind (get_sdu (am_heap entity) (g_sdu sdu)) (\<lambda>s.
     rbind (nr_rlc_pdu_encoder_put_bits (nr_rlc_pdu_encoder_init buffer) 1 1) (\<lambda>e.
     rbind (nr_rlc_pdu_encoder_put_bits e 0 1) (\<lambda>e.
     rbind (nr_rlc_pdu_encoder_put_bits e (1 - of_bool (g_is_first sdu)) 1) (\<lambda>e.
     rbind (nr_rlc_pdu_encoder_put_bits e (1 - of_bool (g_is_last sdu)) 1) (\<lambda>e.
     rbind (if am_sn_field_length entity = 18
            then nr_rlc_pdu_encoder_put_bits e 0 2 else Inr e) (\<lambda>e.
     rbind (nr_rlc_pdu_encoder_put_bits e (s_sn s) (am_sn_field_length entity)) (\<lambda>e.
     rbind (if \<not> g_is_first sdu
            then nr_rlc_pdu_encoder_put_bits e (g_so sdu) 16 else Inr e) (\<lambda>e.
     rbind (c_read (s_data s) (g_so sdu) (g_size sdu)) (\<lambda>bs.
     rbind (c_write (e_buffer e) (int (e_byte e)) bs) (\<lambda>buffer'.
     rbind (if p then am_include_poll entity buffer' else Inr (buffer', entity)) (\<lambda>(buffer'', entity').
       Inr (int (e_byte e) + g_size sdu, buffer'', entity'))))))))))))"

text \<open>The segment as it is after the call, the new segment for the remaining bytes, and the heap.\<close>

definition am_resegment ::
  "sdu_heap \<Rightarrow> nr_rlc_sdu_segment \<Rightarrow> nr_rlc_entity_am \<Rightarrow> int \<Rightarrow>
   (nr_rlc_sdu_segment \<times> nr_rlc_sdu_segment \<times> sdu_heap) res" where
  "am_resegment h sdu entity pdu_size =
     rbind (get_sdu h (g_sdu sdu)) (\<lambda>s.
       let h' = put_sdu h (g_sdu sdu) (s\<lparr>s_ref_count := s_ref_count s + 1\<rparr>);
           pdu_header_size = am_compute_pdu_header_size entity sdu;
           over_size = pdu_header_size + g_size sdu - pdu_size;
           sdu' = sdu\<lparr>g_size := g_size sdu - over_size, g_is_last := False\<rparr>;
           nxt = sdu\<lparr>g_addr := h_next h', g_size := over_size,
                     g_so := g_so sdu' + g_size sdu', g_is_first := False\<rparr>
       in Inr (sdu', nxt, h'\<lparr>h_next := Suc (h_next h')\<rparr>))"

text \<open>A sent segment enters the wait list: at its end if it belongs there, else at its place.\<close>

definition am_put_in_wait_list ::
  "nr_rlc_entity_am \<Rightarrow> nr_rlc_sdu_segment \<Rightarrow> nr_rlc_entity_am res" where
  "am_put_in_wait_list entity sdu =
     (let h = am_heap entity;
          append = rbind (nr_rlc_sdu_segment_list_append (am_wait_list entity) (am_wait_end entity) sdu)
            (\<lambda>(l, e). Inr (entity\<lparr>am_wait_list := l, am_wait_end := e\<rparr>))
      in case am_wait_end entity of
           None \<Rightarrow> append
         | Some a \<Rightarrow>
             rbind (of_opt Dangling_pointer (find (\<lambda>g. g_addr g = a) (am_wait_list entity))) (\<lambda>w.
             rbind (seg_sn h sdu) (\<lambda>sn. rbind (seg_sn h w) (\<lambda>wsn.
               if am_sn_compare_tx entity sn wsn > 0 \<or>
                  (am_sn_compare_tx entity sn wsn = 0 \<and> g_so sdu > g_so w)
               then append
               else rbind (nr_rlc_sdu_segment_list_add h (am_sn_compare_tx entity)
                             (am_wait_list entity) sdu) (\<lambda>l.
                      Inr (entity\<lparr>am_wait_list := l,
                                  am_wait_end := (case l of [g] \<Rightarrow> Some (g_addr g)
                                                  | _ \<Rightarrow> am_wait_end entity)\<rparr>))))))"

text \<open>A pending \<^verbatim>\<open>force_poll\<close> is consumed.\<close>

definition am_finish_pdu ::
  "nr_rlc_entity_am \<Rightarrow> nr_rlc_sdu_segment \<Rightarrow> byte list \<Rightarrow> bool \<Rightarrow>
   (int \<times> byte list \<times> nr_rlc_entity_am) res" where
  "am_finish_pdu entity sdu buffer p =
     am_serialize_sdu (entity\<lparr>am_force_poll := False\<rparr>) sdu buffer (p \<or> am_force_poll entity)"

definition am_generate_retx_pdu ::
  "nr_rlc_entity_am \<Rightarrow> byte list \<Rightarrow> (int \<times> byte list \<times> nr_rlc_entity_am) res" where
  "am_generate_retx_pdu entity buffer =
     (case am_retransmit_list entity of
        [] \<Rightarrow> Inl Null_pointer
      | sdu # rest \<Rightarrow>
          let size = int (length buffer);
              pdu_header_size = am_compute_pdu_header_size entity sdu;
              pdu_size = pdu_header_size + g_size sdu
          in if pdu_header_size + 1 > size then Inr (0, buffer, entity)
             else
               let e1 = entity\<lparr>am_retransmit_list := rest,
                               am_bstatus_retx_size := am_bstatus_retx_size entity - pdu_size\<rparr>
               in rbind
                    (if pdu_size > size
                     then rbind (am_resegment (am_heap e1) sdu e1 size) (\<lambda>(sdu', nxt, h').
                            Inr (sdu', e1\<lparr>am_heap := h', am_retransmit_list := nxt # rest,
                                          am_bstatus_retx_size := am_bstatus_retx_size e1 +
                                            (am_compute_pdu_header_size e1 nxt + g_size nxt)\<rparr>))
                     else Inr (sdu, e1)) (\<lambda>(sdu', e2).
                  rbind (am_put_in_wait_list e2 sdu') (\<lambda>e3.
                    am_finish_pdu e3 sdu' buffer (am_check_poll_after_pdu_assembly e3))))"

definition am_generate_tx_pdu ::
  "nr_rlc_entity_am \<Rightarrow> byte list \<Rightarrow> (int \<times> byte list \<times> nr_rlc_entity_am) res" where
  "am_generate_tx_pdu entity buffer =
     (if am_is_window_stalling entity then Inr (0, buffer, entity)
      else case am_tx_list entity of
        [] \<Rightarrow> Inr (0, buffer, entity)
      | sdu # rest \<Rightarrow>
          let size = int (length buffer);
              pdu_header_size = am_compute_pdu_header_size entity sdu;
              pdu_size = pdu_header_size + g_size sdu
          in if pdu_header_size + 1 > size then Inr (0, buffer, entity)
             else
               rbind (get_sdu (am_heap entity) (g_sdu sdu)) (\<lambda>s.
               let e1 = entity\<lparr>am_tx_list := rest,
                               am_tx_end := (if rest = [] then None else am_tx_end entity),
                               am_bstatus_tx_size := am_bstatus_tx_size entity - pdu_size,
                               am_heap := put_sdu (am_heap entity) (g_sdu sdu)
                                            (s\<lparr>s_sn := am_tx_next entity\<rparr>)\<rparr>
               in rbind
                    (if pdu_size > size
                     then rbind (am_resegment (am_heap e1) sdu e1 size) (\<lambda>(sdu', nxt, h').
                            Inr (sdu', e1\<lparr>am_heap := h', am_tx_list := nxt # rest,
                                          am_tx_end := (if am_tx_end e1 = None then Some (g_addr nxt)
                                                        else am_tx_end e1),
                                          am_bstatus_tx_size := am_bstatus_tx_size e1 +
                                            (am_compute_pdu_header_size e1 nxt + g_size nxt)\<rparr>))
                     else Inr (sdu, e1)) (\<lambda>(sdu', e2).
                  let e3 = (if g_is_last sdu'
                            then e2\<lparr>am_tx_next := c_rem (am_tx_next e2 + 1) (am_sn_modulus e2)\<rparr>
                            else e2)
                  in rbind (am_put_in_wait_list e3 sdu') (\<lambda>e4.
                       let e5 = e4\<lparr>am_pdu_without_poll := am_pdu_without_poll e4 + 1,
                                   am_byte_without_poll := am_byte_without_poll e4 + g_size sdu'\<rparr>
                       in am_finish_pdu e5 sdu' buffer
                            ((am_poll_pdu e5 \<noteq> -1 \<and> am_pdu_without_poll e5 \<ge> am_poll_pdu e5) \<or>
                             (am_poll_byte e5 \<noteq> -1 \<and> am_byte_without_poll e5 \<ge> am_poll_byte e5) \<or>
                             am_check_poll_after_pdu_assembly e5)))))"

definition nr_rlc_entity_am_buffer_status ::
  "nr_rlc_entity_am \<Rightarrow> int \<Rightarrow> nr_rlc_entity_buffer_status" where
  "nr_rlc_entity_am_buffer_status entity maxsize =
     \<lparr>bs_status_size = (if am_status_to_report entity then am_status_size entity maxsize else 0),
      bs_tx_size = am_bstatus_tx_size entity, bs_retx_size = am_bstatus_retx_size entity\<rparr>"

definition nr_rlc_entity_am_generate_pdu ::
  "nr_rlc_entity_am \<Rightarrow> byte list \<Rightarrow> (int \<times> byte list \<times> nr_rlc_entity_am) res" where
  "nr_rlc_entity_am_generate_pdu entity buffer =
     rbind (if am_status_to_report entity then am_generate_status entity buffer
            else Inr (0, buffer, entity)) (\<lambda>(ret, buffer, entity).
       if ret \<noteq> 0 then Inr (ret, buffer, entity)
       else
         rbind (if am_retransmit_list entity \<noteq> [] then am_generate_retx_pdu entity buffer
                else Inr (0, buffer, entity)) (\<lambda>(ret, buffer, entity).
           if ret \<noteq> 0 then Inr (ret, buffer, entity)
           else am_generate_tx_pdu entity buffer))"

section \<open>SDUs\<close>

definition nr_rlc_entity_am_recv_sdu ::
  "nr_rlc_entity_am \<Rightarrow> byte list \<Rightarrow> int \<Rightarrow> nr_rlc_entity_am res" where
  "nr_rlc_entity_am_recv_sdu entity buffer sdu_id =
     (let size = int (length buffer) in
      if size > NR_SDU_MAX then Inl Exit_fatal
      else
        let e = (if am_sdu_rejected entity \<noteq> 0 \<and>
                    am_t_current entity > am_t_log_buffer_full entity + 1000
                 then entity\<lparr>am_sdu_rejected := 0, am_t_log_buffer_full := am_t_current entity\<rparr>
                 else entity)
        in if am_tx_size e + size > am_tx_maxsize e
           then Inr (e\<lparr>am_sdu_rejected := am_sdu_rejected e + 1\<rparr>)
           else
             case nr_rlc_new_sdu (am_heap e) buffer sdu_id of (sdu, heap') \<Rightarrow>
               rbind (nr_rlc_sdu_segment_list_append (am_tx_list e) (am_tx_end e) sdu)
                 (\<lambda>(l, end). Inr (e\<lparr>am_tx_size := am_tx_size e + size,
                                    am_heap := heap', am_tx_list := l, am_tx_end := end,
                                    am_bstatus_tx_size := am_bstatus_tx_size e +
                                      (am_compute_pdu_header_size e sdu + g_size sdu)\<rparr>)))"

section \<open>Timers\<close>

definition am_check_t_poll_retransmit :: "nr_rlc_entity_am \<Rightarrow> nr_rlc_entity_am res" where
  "am_check_t_poll_retransmit entity =
     (if am_t_poll_retransmit_start entity = 0 \<or>
         am_t_current entity \<le> am_t_poll_retransmit_start entity
                                + word_of_int (am_t_poll_retransmit entity)
      then Inr entity
      else
        let e = entity\<lparr>am_t_poll_retransmit_start := 0, am_force_poll := True\<rparr>
        in if \<not> am_check_poll_after_pdu_assembly e then Inr e
           else case am_wait_list e of
             [] \<Rightarrow> Inl Null_pointer
           | cur # rest \<Rightarrow>
               rbind (get_sdu (am_heap e) (g_sdu cur)) (\<lambda>s.
                 let e1 = am_count_retx
                            (e\<lparr>am_wait_list := rest,
                               am_wait_end := (if rest = [] then None else am_wait_end e)\<rparr>) cur s
                 in rbind (nr_rlc_sdu_segment_list_add (am_heap e1) (am_sn_compare_tx e1)
                             (am_retransmit_list e1) cur)
                      (\<lambda>l. Inr (e1\<lparr>am_retransmit_list := l\<rparr>))))"

definition am_check_t_reassembly :: "nr_rlc_entity_am \<Rightarrow> nr_rlc_entity_am res" where
  "am_check_t_reassembly entity =
     (if am_t_reassembly_start entity = 0 \<or>
         am_t_current entity \<le> am_t_reassembly_start entity + word_of_int (am_t_reassembly entity)
      then Inr entity
      else
        rbind (am_skip_delivered entity (am_rx_next_status_trigger entity)) (\<lambda>sn.
          let e = entity\<lparr>am_t_reassembly_start := 0, am_rx_highest_status := sn,
                         am_status_triggered := True\<rparr>;
              next = c_rem (am_rx_highest_status e + 1) (am_sn_modulus e)
          in Inr (if am_sn_compare_rx e (am_rx_next_highest e) next > 0 \<or>
                     (am_rx_next_highest e = next \<and>
                      am_sdu_has_missing_bytes e (am_rx_highest_status e))
                  then e\<lparr>am_t_reassembly_start := am_t_current e,
                         am_rx_next_status_trigger := am_rx_next_highest e\<rparr>
                  else e)))"

definition nr_rlc_entity_am_set_time :: "nr_rlc_entity_am \<Rightarrow> 64 word \<Rightarrow> nr_rlc_entity_am res" where
  "nr_rlc_entity_am_set_time entity now =
     rbind (am_check_t_poll_retransmit (entity\<lparr>am_t_current := now\<rparr>)) am_check_t_reassembly"

section \<open>Discard, re-establishment, deletion\<close>

definition nr_rlc_entity_am_discard_sdu :: "nr_rlc_entity_am \<Rightarrow> int \<Rightarrow> nr_rlc_entity_am res" where
  "nr_rlc_entity_am_discard_sdu entity sdu_id =
     rbind (find_sdu_id (am_heap entity) sdu_id (am_tx_list entity)) (\<lambda>(before, rest).
       case rest of
         [] \<Rightarrow> Inr entity
       | cur # after \<Rightarrow>
           if \<not> g_is_first cur \<or> \<not> g_is_last cur then Inr entity
           else
             rbind (get_sdu (am_heap entity) (g_sdu cur)) (\<lambda>s.
             rbind (nr_rlc_free_sdu_segment (am_heap entity) cur) (\<lambda>(_, h').
               Inr (entity\<lparr>am_tx_list := before @ after,
                           am_tx_end := (if am_tx_end entity = Some (g_addr cur)
                                         then if before \<noteq> [] then Some (g_addr (last before))
                                              else None
                                         else am_tx_end entity),
                           am_bstatus_tx_size := am_bstatus_tx_size entity -
                             (am_compute_pdu_header_size entity cur + g_size cur),
                           am_tx_size := am_tx_size entity - s_size s,
                           am_heap := h'\<rparr>))))"

definition am_clear_entity :: "nr_rlc_entity_am \<Rightarrow> nr_rlc_entity_am res" where
  "am_clear_entity entity =
     rbind (nr_rlc_free_sdu_segment_list (am_heap entity) (am_tx_list entity)) (\<lambda>h.
     rbind (nr_rlc_free_sdu_segment_list h (am_wait_list entity)) (\<lambda>h.
     rbind (nr_rlc_free_sdu_segment_list h (am_retransmit_list entity)) (\<lambda>h.
       Inr (entity\<lparr>am_rx_next := 0, am_rx_next_status_trigger := 0, am_rx_highest_status := 0,
                   am_rx_next_highest := 0, am_status_triggered := False, am_tx_next := 0,
                   am_tx_next_ack := 0, am_poll_sn := 0, am_pdu_without_poll := 0,
                   am_byte_without_poll := 0, am_force_poll := False, am_t_current := 0,
                   am_t_log_buffer_full := 0, am_sdu_rejected := 0,
                   am_t_poll_retransmit_start := 0, am_t_reassembly_start := 0,
                   am_t_status_prohibit_start := 0, am_rx_list := [], am_rx_size := 0,
                   am_tx_list := [], am_tx_end := None, am_tx_size := 0, am_wait_list := [],
                   am_wait_end := None, am_retransmit_list := [], am_bstatus_tx_size := 0,
                   am_bstatus_retx_size := 0, am_heap := h\<rparr>))))"

definition nr_rlc_entity_am_reestablishment :: "nr_rlc_entity_am \<Rightarrow> nr_rlc_entity_am res" where
  "nr_rlc_entity_am_reestablishment entity = am_clear_entity entity"

definition nr_rlc_entity_am_delete :: "nr_rlc_entity_am \<Rightarrow> sdu_heap res" where
  "nr_rlc_entity_am_delete entity = rbind (am_clear_entity entity) (\<lambda>e. Inr (am_heap e))"

definition nr_rlc_entity_am_available_tx_space :: "nr_rlc_entity_am \<Rightarrow> int" where
  "nr_rlc_entity_am_available_tx_space entity = am_tx_maxsize entity - am_tx_size entity"

end
