(* ===== verification/NR_RLC_Am_Report.thy ===== *)
theory NR_RLC_Am_Report
  imports NR_RLC_Am_Tx
begin

text \<open>
  Status reports of acknowledged mode, sender side and receiver side: the NACK blocks written by
  \<^verbatim>\<open>generate_status\<close> are read back by \<^verbatim>\<open>process_control_pdu\<close>, the buffer occupancy computed by
  \<^verbatim>\<open>status_size\<close> is the size of the report that is written, and the loop over the blocks of a received
  report ends.
\<close>

section \<open>Positions of the encoder\<close>

lemma enc_at_self: "enc_ok e \<Longrightarrow> enc_at e (enc_bits e) (e_buffer e)"
  by (simp add: enc_at_def enc_ok_def)

lemma put_bits_pos:
  assumes "enc_ok e" and "c \<le> 31" and "enc_pos e + c \<le> 8 * e_size e"
  shows "\<exists>e'. nr_rlc_pdu_encoder_put_bits e v c = Inr e' \<and> enc_ok e' \<and> e_size e' = e_size e \<and>
    enc_pos e' = enc_pos e + c \<and> length (e_buffer e') = length (e_buffer e)"
proof -
  have sz: "e_size e = length (e_buffer e)"
    using assms(1) by (simp add: enc_ok_def)
  then obtain e' where e': "nr_rlc_pdu_encoder_put_bits e v c = Inr e'"
    "enc_at e' (enc_bits e @ int_bits c v) (e_buffer e)"
    using put_bits_enc_at [OF enc_at_self [OF assms(1)] assms(2), of v] assms
    by (auto simp: length_enc_bits)
  then have "enc_ok e'" "enc_bits e' = enc_bits e @ int_bits c v" "e_size e' = e_size e"
    using sz by (auto simp: enc_at_def)
  moreover from this have "enc_pos e' = enc_pos e + c"
    using length_enc_bits [of e'] length_enc_bits [OF assms(1)] by simp
  ultimately show ?thesis
    using e'(1) sz by (auto simp: enc_ok_def)
qed

lemma e_byte_pos: "enc_ok e \<Longrightarrow> e_byte e = enc_pos e div 8"
  by (simp add: enc_ok_def enc_pos_def)

section \<open>NACK blocks\<close>

definition am_nack_fields ::
  "nat \<Rightarrow> int \<Rightarrow> int \<Rightarrow> int \<Rightarrow> int \<Rightarrow> int \<Rightarrow> (int \<times> nat) list" where
  "am_nack_fields len sn_start so_start sn_end so_end k =
     [(sn_start, len), (0, 1), (of_bool (am_e2 so_start so_end), 1), (of_bool (sn_start \<noteq> sn_end), 1),
      (0, if len = 18 then 3 else 1)] @
     (if am_e2 so_start so_end then [(so_start, 16), (so_end, 16)] else []) @
     (if sn_start \<noteq> sn_end then [(k, 8)] else [])"

lemma put_fields_pos:
  assumes "enc_ok e" and "list_all (\<lambda>(v, c). c \<le> 31) fs"
    and "enc_pos e + sum_list (map snd fs) \<le> 8 * e_size e"
  shows "\<exists>e'. put_fields e fs = Inr e' \<and> enc_at e' (enc_bits e @ fields_bits fs) (e_buffer e)"
  using put_fields_enc_at [OF enc_at_self [OF assms(1)] assms(2)] assms
  by (auto simp: length_enc_bits enc_ok_def)

text \<open>What is written, up to the position of the end offset.\<close>

lemma am_put_nack_fields:
  assumes "enc_ok enc" and "am_sn_field_length e \<in> {12, 18}"
    and "enc_pos enc + sum_list (map snd (am_nack_fields (am_sn_field_length e) a b c d k)) \<le> 8 * e_size enc"
  shows "\<exists>enc'. am_put_nack e enc a b c d k =
      Inr (enc', if am_e2 b d
                 then Some ((enc_pos enc + 8 * (2 + of_bool (am_sn_field_length e = 18)) + 16) div 8)
                 else None) \<and>
    put_fields enc (am_nack_fields (am_sn_field_length e) a b c d k) = Inr enc'"
proof -
  let ?len = "am_sn_field_length e"
  let ?hd = "[(a, ?len), (0, 1), (of_bool (am_e2 b d), 1), (of_bool (a \<noteq> c), 1),
      (0, if ?len = 18 then 3 else 1)] :: (int \<times> nat) list"
  have len: "?len \<le> 31" "?len + 3 + (if ?len = 18 then 3 else 1) = 8 * (2 + of_bool (?len = 18))"
    using assms(2) by auto
  have hd: "list_all (\<lambda>(v, c). c \<le> 31) ?hd" "sum_list (map snd ?hd) = 8 * (2 + of_bool (?len = 18))"
    using len by auto
  have room: "enc_pos enc + sum_list (map snd ?hd) \<le> 8 * e_size enc"
    using assms(3) by (simp add: am_nack_fields_def)
  obtain e1 where e1: "put_fields enc ?hd = Inr e1" "enc_at e1 (enc_bits enc @ fields_bits ?hd) (e_buffer enc)"
    using put_fields_pos [OF assms(1) hd(1) room] by blast
  have ok1: "enc_ok e1" "enc_pos e1 = enc_pos enc + 8 * (2 + of_bool (?len = 18))" "e_size e1 = e_size enc"
    using e1(2) assms(1) hd(2) length_enc_bits [of e1] length_enc_bits [OF assms(1)]
    by (auto simp: enc_at_def length_fields_bits enc_ok_def)
  have run: "am_put_nack e enc a b c d k =
      rbind (if am_e2 b d
             then rbind (nr_rlc_pdu_encoder_put_bits e1 b 16) (\<lambda>enc1.
                  rbind (nr_rlc_pdu_encoder_put_bits enc1 d 16) (\<lambda>enc2.
                    Inr (enc2, Some (e_byte enc1))))
             else Inr (e1, None)) (\<lambda>(enc, so_end_address).
      rbind (if a \<noteq> c then nr_rlc_pdu_encoder_put_bits enc k 8 else Inr enc) (\<lambda>enc.
        Inr (enc, so_end_address)))"
    using e1(1) unfolding am_put_nack_def Let_def by (auto simp: rbind_eq_Inr)
  have fs: "put_fields enc (am_nack_fields ?len a b c d k) =
      put_fields e1 ((if am_e2 b d then [(b, 16), (d, 16)] else []) @ (if a \<noteq> c then [(k, 8)] else []))"
    unfolding am_nack_fields_def by (subst put_fields_append) (simp only: e1(1) rbind_Inr)
  have room1: "enc_pos e1 + (if am_e2 b d then 32 else 0) + (if a \<noteq> c then 8 else 0) \<le> 8 * e_size e1"
    using assms(3) hd(2) ok1(2,3) by (simp add: am_nack_fields_def split: if_splits)
  show ?thesis
  proof (cases "am_e2 b d")
    case True
    obtain e2 where e2: "nr_rlc_pdu_encoder_put_bits e1 b 16 = Inr e2" "enc_ok e2" "e_size e2 = e_size e1"
      "enc_pos e2 = enc_pos e1 + 16"
      using put_bits_pos [OF ok1(1), of 16 b] room1 True by auto
    obtain e3 where e3: "nr_rlc_pdu_encoder_put_bits e2 d 16 = Inr e3" "enc_ok e3" "e_size e3 = e_size e1"
      "enc_pos e3 = enc_pos e1 + 32"
      using put_bits_pos [OF e2(2), of 16 d] e2(3,4) room1 True by auto
    have "\<exists>e4. (if a \<noteq> c then nr_rlc_pdu_encoder_put_bits e3 k 8 else Inr e3) = Inr e4"
      using put_bits_pos [OF e3(2), of 8 k] e3(3,4) room1 True by auto
    then show ?thesis
      unfolding run fs using True e2(1) e3(1) e_byte_pos [OF e2(2)] e2(4) ok1(2) by auto
  next
    case False
    have "\<exists>e4. (if a \<noteq> c then nr_rlc_pdu_encoder_put_bits e1 k 8 else Inr e1) = Inr e4"
      using put_bits_pos [OF ok1(1), of 8 k] room1 False by auto
    then show ?thesis
      unfolding run fs using False by auto
  qed
qed

lemma am_nack_fields_size:
  assumes "am_sn_field_length e \<in> {12, 18}"
  shows "int (sum_list (map snd (am_nack_fields (am_sn_field_length e) a b c d k))) =
      8 * am_nack_size e a b c d"
    and "am_block_size e a b c d = am_nack_size e a b c d" and "2 \<le> am_nack_size e a b c d"
  using assms by (auto simp: am_nack_fields_def am_nack_size_def am_block_size_def am_e2_def)

text \<open>A block of \<open>am_nack_size\<close> bytes, encoded at the position of the encoder.\<close>

lemma am_put_nack_ok:
  assumes len: "am_sn_field_length e \<in> {12, 18}" and enc: "enc_ok enc" "e_bit enc = 0"
    and room: "int (e_byte enc) + am_nack_size e a b c d \<le> int (e_size enc)"
  shows "\<exists>enc' so. am_put_nack e enc a b c d k = Inr (enc', so) \<and>
    enc_at enc' (enc_bits enc @ fields_bits (am_nack_fields (am_sn_field_length e) a b c d k)) (e_buffer enc) \<and>
    int (e_byte enc') = int (e_byte enc) + am_nack_size e a b c d \<and> e_bit enc' = 0 \<and>
    e_size enc' = e_size enc \<and> (\<forall>i. so = Some i \<longrightarrow> i + 2 \<le> e_byte enc')"
proof -
  let ?fs = "am_nack_fields (am_sn_field_length e) a b c d k"
  define n where "n = nat (am_nack_size e a b c d)"
  have n: "am_nack_size e a b c d = int n" "sum_list (map snd ?fs) = 8 * n" "2 \<le> n"
    using am_nack_fields_size(1) [OF len, of a b c d k] am_nack_fields_size(3) [OF len, of a b c d]
    by (auto simp: n_def)
  have pos: "enc_pos enc = 8 * e_byte enc" and sz: "e_size enc = length (e_buffer enc)"
    using enc by (simp_all add: enc_pos_def enc_ok_def)
  have fits: "enc_pos enc + sum_list (map snd ?fs) \<le> 8 * e_size enc"
    using room n pos by simp
  obtain enc' where put: "am_put_nack e enc a b c d k =
      Inr (enc', if am_e2 b d
                 then Some ((enc_pos enc + 8 * (2 + of_bool (am_sn_field_length e = 18)) + 16) div 8)
                 else None)" "put_fields enc ?fs = Inr enc'"
    using am_put_nack_fields [OF enc(1) len fits] by blast
  have "list_all (\<lambda>(v, c). c \<le> 31) ?fs"
    using len by (auto simp: am_nack_fields_def)
  then have at: "enc_at enc' (enc_bits enc @ fields_bits ?fs) (e_buffer enc)"
    using put_fields_pos [OF enc(1) _ fits] put(2) by auto
  have l: "length (enc_bits enc @ fields_bits ?fs) = 8 * (e_byte enc + n)"
    using n(2) pos by (simp add: length_fields_bits length_enc_bits [OF enc(1)])
  note b = enc_at_bytes [OF at l]
  have "e_size enc' = e_size enc"
    using at sz by (simp add: enc_at_def)
  moreover have "i + 2 \<le> e_byte enc'"
    if "(if am_e2 b d
         then Some ((enc_pos enc + 8 * (2 + of_bool (am_sn_field_length e = 18)) + 16) div 8)
         else None) = Some i" for i
  proof -
    have "2 + of_bool (am_sn_field_length e = 18) + 4 \<le> n"
      using that n(1) by (auto simp: am_nack_size_def am_e2_def split: if_splits)
    then show ?thesis
      using that pos b(1) by (auto split: if_splits)
  qed
  ultimately show ?thesis
    using put(1) at b(1,2) n(1)
    by (intro exI [of _ enc'] exI [of _ "if am_e2 b d
         then Some ((enc_pos enc + 8 * (2 + of_bool (am_sn_field_length e = 18)) + 16) div 8) else None"])
       simp
qed

text \<open>The state of the generation: whole bytes, and both patch positions behind the encoder.\<close>

definition am_report_ok :: "am_report \<Rightarrow> bool" where
  "am_report_ok r \<longleftrightarrow> enc_ok (r_enc r) \<and> e_bit (r_enc r) = 0 \<and> r_e1_byte r < e_byte (r_enc r) \<and>
     (\<forall>i. r_so_end r = Some i \<longrightarrow> i + 2 \<le> e_byte (r_enc r))"

lemma am_report_bounds: "am_report_ok r \<Longrightarrow> e_byte (r_enc r) \<le> length (e_buffer (r_enc r))"
  by (simp add: am_report_ok_def enc_ok_def enc_pos_def)

lemma am_generate_block_ok:
  assumes len: "am_sn_field_length e \<in> {12, 18}" and r: "am_report_ok r"
    and room: "int (e_byte (r_enc r)) + am_nack_size e a b c d \<le> int (e_size (r_enc r))"
  shows "\<exists>r'. am_generate_block e a b c d k r = Inr r' \<and> am_report_ok r' \<and>
    int (e_byte (r_enc r')) = int (e_byte (r_enc r)) + am_nack_size e a b c d \<and>
    e_size (r_enc r') = e_size (r_enc r)"
proof -
  let ?buf = "(e_buffer (r_enc r))[r_e1_byte r := e_buffer (r_enc r) ! r_e1_byte r OR push_bit (r_e1_bit r) 1]"
  let ?enc = "(r_enc r)\<lparr>e_buffer := ?buf\<rparr>"
  have "r_e1_byte r < length (e_buffer (r_enc r))"
    using r am_report_bounds [OF r] by (simp add: am_report_ok_def)
  then have or: "or_byte (e_buffer (r_enc r)) (r_e1_byte r) (push_bit (r_e1_bit r) 1) = Inr ?buf"
    by (simp add: or_byte_def)
  have enc: "enc_ok ?enc" "e_bit ?enc = 0"
    using r by (simp_all add: am_report_ok_def enc_ok_def enc_pos_def)
  obtain enc' so where put: "am_put_nack e ?enc a b c d k = Inr (enc', so)"
    "enc_at enc' (enc_bits ?enc @ fields_bits (am_nack_fields (am_sn_field_length e) a b c d k)) ?buf"
    "int (e_byte enc') = int (e_byte (r_enc r)) + am_nack_size e a b c d" "e_bit enc' = 0"
    "e_size enc' = e_size (r_enc r)" "\<forall>i. so = Some i \<longrightarrow> i + 2 \<le> e_byte enc'"
    using am_put_nack_ok [OF len enc, of a b c d k] room by auto
  have "fst (am_get_e1_position e ?enc) < e_byte enc'"
    using put(3) len by (auto simp: am_get_e1_position_def am_nack_size_def split: if_splits)
  moreover have "enc_ok enc'"
    using put(2) by (simp add: enc_at_def)
  ultimately show ?thesis
    using or put by (auto simp: am_generate_block_def Let_def am_report_ok_def split: prod.splits)
qed

section \<open>The size of a report\<close>

lemma am_generate_missing_loop_size:
  assumes len: "am_sn_field_length e \<in> {12, 18}" and "am_report_ok r"
  shows "\<exists>last t r' n'. am_generate_missing_loop e m cnt sn ln r = Inr (last, t, r') \<and> am_report_ok r' \<and>
    e_size (r_enc r') = e_size (r_enc r) \<and>
    am_missing_size_loop e m cnt sn n (int (e_byte (r_enc r))) (int (e_size (r_enc r))) =
      (n', t, int (e_byte (r_enc r')))"
  using assms(2)
proof (induction cnt arbitrary: sn ln r n rule: less_induct)
  case (less cnt)
  obtain b c d where bs: "am_nack_bounds e m sn cnt = (b, c, d)"
    by (cases "am_nack_bounds e m sn cnt")
  note unfold = am_generate_missing_loop.simps [of e m cnt] am_missing_size_loop.simps [of e m cnt]
  consider "cnt = 0"
    | "cnt \<noteq> 0" "int (e_byte (r_enc r)) + am_nack_size e sn b c d > int (e_size (r_enc r))"
    | "cnt \<noteq> 0" "int (e_byte (r_enc r)) + am_nack_size e sn b c d \<le> int (e_size (r_enc r))"
    by linarith
  then show ?case
  proof cases
    case 1
    then show ?thesis
      using less.prems
      by (intro exI [of _ ln] exI [of _ False] exI [of _ r] exI [of _ n])
         (simp add: am_generate_missing_loop.simps [of e m 0] am_missing_size_loop.simps [of e m 0])
  next
    case 2
    then show ?thesis
      using less.prems bs
      by (intro exI [of _ ln] exI [of _ True] exI [of _ r] exI [of _ n]) (simp add: unfold)
  next
    case 3
    obtain r1 where r1: "am_generate_block e sn b c d (int (min cnt 255)) r = Inr r1" "am_report_ok r1"
      "int (e_byte (r_enc r1)) = int (e_byte (r_enc r)) + am_nack_size e sn b c d"
      "e_size (r_enc r1) = e_size (r_enc r)"
      using am_generate_block_ok [OF len less.prems 3(2)] by blast
    let ?sn = "c_rem (sn + int (min cnt 255)) (am_sn_modulus e)"
    let ?ln = "if sn = c then sn else sn + int (min cnt 255) - 1"
    have "cnt - min cnt 255 < cnt"
      using 3(1) by simp
    from less.IH [OF this r1(2), of ?sn ?ln "Suc n"] show ?thesis
      using 3 bs r1 am_nack_fields_size(2) [OF len] by (simp add: unfold Let_def)
  qed
qed

lemma am_force_so_end_ok:
  assumes "am_report_ok r"
  shows "\<exists>r'. am_force_so_end t r = Inr r' \<and> am_report_ok r' \<and> e_byte (r_enc r') = e_byte (r_enc r) \<and>
    e_size (r_enc r') = e_size (r_enc r)"
  using assms am_report_bounds [OF assms]
  by (auto simp: am_force_so_end_def am_report_ok_def enc_ok_def enc_pos_def split: option.splits)

lemma am_status_loop_size:
  assumes len: "am_sn_field_length e \<in> {12, 18}" and "am_report_ok r"
    and "l \<noteq> [] \<Longrightarrow> ch \<longleftrightarrow> cnt = 0"
  shows "\<exists>last r'. am_status_loop e l ch ln r = Inr (last, r') \<and> am_report_ok r' \<and>
    e_size (r_enc r') = e_size (r_enc r) \<and>
    am_status_size_loop e l cnt (int (e_byte (r_enc r))) (int (e_size (r_enc r))) = int (e_byte (r_enc r'))"
  using assms(2,3)
proof (induction "2 * length l + of_bool ch" arbitrary: l ch cnt ln r rule: less_induct)
  case less
  show ?case
  proof (cases l)
    case Nil
    then show ?thesis
      using less.prems by simp
  next
    case (Cons p k)
    then have ch: "ch \<longleftrightarrow> cnt = 0"
      using less.prems(2) by simp
    show ?thesis
    proof (cases "am_next_missing e p k ch")
      case None
      then show ?thesis
        using Cons ch less.prems by simp
    next
      case (Some m)
      obtain last t r1 n where 1: "am_generate_missing e m r = Inr (last, t, r1)" "am_report_ok r1"
        "e_size (r_enc r1) = e_size (r_enc r)"
        "am_missing_size e m (int (e_byte (r_enc r))) (int (e_size (r_enc r))) = (n, t, int (e_byte (r_enc r1)))"
        using am_generate_missing_loop_size [OF len less.prems(1), of m "am_sn_count e m" "m_sn_start m" "-1" 0]
        by (auto simp: am_generate_missing_def am_missing_size_def)
      obtain r2 where 2: "am_force_so_end t r1 = Inr r2" "am_report_ok r2" "e_byte (r_enc r2) = e_byte (r_enc r1)"
        "e_size (r_enc r2) = e_size (r_enc r1)"
        using am_force_so_end_ok [OF 1(2)] by blast
      let ?l = "if t then [] else m_next m"
      have n: "t \<or> 0 < n"
        using am_missing_size_loop_count [OF 1(4) [unfolded am_missing_size_def]]
        by (auto simp: am_sn_count_def)
      have "2 * length ?l + of_bool False < 2 * length l + of_bool ch"
        using am_next_missing_shorter [OF Some] Cons by auto
      then obtain last' r' where "am_status_loop e ?l False (if last \<noteq> -1 then last else ln) r2 = Inr (last', r')"
        "am_report_ok r'" "e_size (r_enc r') = e_size (r_enc r2)"
        "am_status_size_loop e ?l (cnt + n) (int (e_byte (r_enc r2))) (int (e_size (r_enc r2))) =
          int (e_byte (r_enc r'))"
        using less.hyps [of ?l False r2 "cnt + n" "if last \<noteq> -1 then last else ln"] 2(2) n by auto
      then show ?thesis
        using Cons Some ch 1 2 by simp
    qed
  qed
qed

text \<open>C16: the size announced for a status report is the size of the report. Whatever is in the
  reception list and whatever the size of the buffer, generating the report does not fail, stays
  inside the buffer, and takes exactly the number of bytes \<^verbatim>\<open>status_size\<close> computes for it.\<close>

theorem am_status_size_exact:
  assumes "am_sn_field_length e \<in> {12, 18}"
  shows "\<exists>buf' e'. am_generate_status e buf = Inr (am_status_size e (int (length buf)), buf', e') \<and>
    length buf' = length buf \<and> am_status_size e (int (length buf)) \<le> int (length buf) \<and>
    (3 \<le> length buf \<longrightarrow> \<not> am_status_triggered e')"
proof (cases "length buf < 3")
  case True
  then show ?thesis
    by (simp add: am_generate_status_def am_status_size_def)
next
  case False
  let ?r = "\<lambda>enc. \<lparr>r_enc = enc, r_e1_byte = 2, r_e1_bit = if am_sn_field_length e = 18 then 1 else 7,
      r_so_end = None\<rparr>"
  let ?ln = "c_rem (am_rx_next e - 1 + am_sn_modulus e) (am_sn_modulus e)"
  obtain enc where enc: "nr_rlc_pdu_encoder_put_bits (nr_rlc_pdu_encoder_init buf) 0 24 = Inr enc"
    "enc_ok enc" "enc_pos enc = 24" "e_size enc = length buf"
    using put_bits_pos [of "nr_rlc_pdu_encoder_init buf" 24 0] False by auto
  then have "8 * e_byte enc + e_bit enc = 24" "e_bit enc < 8"
    by (auto simp: enc_ok_def enc_pos_def)
  then have byte: "e_byte enc = 3" "e_bit enc = 0"
    by presburger+
  then have "am_report_ok (?r enc)"
    using enc by (simp add: am_report_ok_def)
  from am_status_loop_size [OF assms this, of "am_rx_list e" True 0 ?ln]
  obtain last r where r: "am_status_loop e (am_rx_list e) True ?ln (?r enc) = Inr (last, r)"
    "am_report_ok r" "e_size (r_enc r) = length buf"
    "am_status_size_loop e (am_rx_list e) 0 3 (int (length buf)) = int (e_byte (r_enc r))"
    using enc(4) byte by auto
  have "length (e_buffer (r_enc r)) = length buf"
    using r(2,3) by (simp add: am_report_ok_def enc_ok_def)
  moreover have "am_status_size e (int (length buf)) = int (e_byte (r_enc r))"
    using False r(4) by (simp add: am_status_size_def)
  ultimately show ?thesis
    using False enc(1) r(1) am_report_bounds [OF r(2)]
    by (simp add: am_generate_status_def am_put_ack_sn_def Let_def)
qed

theorem am_status_size_exact_witness:
  "\<exists>e buf' e'. new_nr_rlc_entity_am 1000 1000 45 35 0 (-1) (-1) 8 12 = Inr e \<and>
     am_generate_status (e\<lparr>am_rx_list := [nr_rlc_new_pdu 2 0 True True [1]], am_rx_highest_status := 3\<rparr>)
       (replicate 20 0) = Inr (6, buf', e')"
proof -
  obtain e where e: "new_nr_rlc_entity_am 1000 1000 45 35 0 (-1) (-1) 8 12 = Inr e"
    by (simp add: new_nr_rlc_entity_am_def)
  let ?e = "e\<lparr>am_rx_list := [nr_rlc_new_pdu 2 0 True True [1]], am_rx_highest_status := 3\<rparr>"
  have "am_sn_field_length ?e \<in> {12, 18}"
    using e by (auto simp: new_nr_rlc_entity_am_def)
  moreover have "(case new_nr_rlc_entity_am 1000 1000 45 35 0 (-1) (-1) 8 12 of Inl _ \<Rightarrow> 0 | Inr e \<Rightarrow>
      am_status_size (e\<lparr>am_rx_list := [nr_rlc_new_pdu 2 0 True True [1]], am_rx_highest_status := 3\<rparr>) 20) = 6"
    by code_simp
  then have "am_status_size ?e 20 = 6"
    by (simp add: e)
  ultimately show ?thesis
    using e am_status_size_exact [of ?e "replicate 20 0"] by auto
qed

section \<open>Reading NACK blocks\<close>

lemma am_read_nack_bits:
  assumes len: "am_sn_field_length e \<in> {12, 18}" and d: "dec_ok d"
    and rest: "dec_rest d = fields_bits (am_nack_fields (am_sn_field_length e) a b c f k) @ r"
    and ok: "0 \<le> a" "a < 2 ^ am_sn_field_length e" "0 \<le> b" "b < 2 ^ 16" "0 \<le> f" "f < 2 ^ 16"
      "0 \<le> k" "k < 2 ^ 8"
  shows "\<exists>n. am_read_nack e d =
    Inr (Some (\<lparr>b_nack_sn = a, b_e1 = 0, b_so_start = b, b_so_end = (if f = 0xffff then -1 else f),
                b_range = (if a = c then 1 else k)\<rparr>, dec_skip d n)) \<and> dec_ok (dec_skip d n) \<and>
    dec_rest (dec_skip d n) = r"
proof -
  have t: "take_bit (am_sn_field_length e) a = a" "take_bit 16 b = b" "take_bit 16 f = f" "take_bit 8 k = k"
    using ok by (simp_all add: take_bit_int_eq_self_iff)
  let ?n = "sum_list (map snd (am_nack_fields (am_sn_field_length e) a b c f k))"
  have n: "length (fields_bits (am_nack_fields (am_sn_field_length e) a b c f k)) = ?n"
    by (rule length_fields_bits)
  have "am_read_nack e d =
    Inr (Some (\<lparr>b_nack_sn = a, b_e1 = 0, b_so_start = b, b_so_end = (if f = 0xffff then -1 else f),
                b_range = (if a = c then 1 else k)\<rparr>, dec_skip d ?n))"
    using len d rest t
    by (cases "am_e2 b f"; cases "a = c")
       (auto simp: am_read_nack_def Let_def am_nack_fields_def fields_bits_def bits_simps bits_val_Cons
         am_e2_def)
  moreover have "?n \<le> length (dec_rest d)" "dec_rest (dec_skip d ?n) = r"
    using rest n by auto
  ultimately show ?thesis
    using d by auto
qed

text \<open>C17: NACK blocks are read as they were written. A block written by the generation of a status
  report at any position of the buffer is decoded, at that position, to the same sequence number,
  byte range and number of SDUs; the end offset 0xffff is read as the end of the SDU.\<close>

theorem am_nack_roundtrip:
  assumes "am_sn_field_length e \<in> {12, 18}" and "enc_ok enc" "e_bit enc = 0"
    and "int (e_byte enc) + am_nack_size e sn_start so_start sn_end so_end \<le> int (e_size enc)"
    and "0 \<le> sn_start" "sn_start < 2 ^ am_sn_field_length e" "0 \<le> so_start" "so_start < 2 ^ 16"
      "0 \<le> so_end" "so_end < 2 ^ 16" "0 \<le> k" "k < 2 ^ 8"
  shows "\<exists>enc' so d'. am_put_nack e enc sn_start so_start sn_end so_end k = Inr (enc', so) \<and>
    am_read_nack e \<lparr>d_error = False, d_byte = e_byte enc, d_bit = 0, d_buffer = e_buffer enc',
                     d_size = length (e_buffer enc')\<rparr> =
      Inr (Some (\<lparr>b_nack_sn = sn_start, b_e1 = 0, b_so_start = so_start,
                  b_so_end = (if so_end = 0xffff then -1 else so_end),
                  b_range = (if sn_start = sn_end then 1 else k)\<rparr>, d')) \<and>
    dec_pos d' = 8 * e_byte enc'"
proof -
  let ?fs = "am_nack_fields (am_sn_field_length e) sn_start so_start sn_end so_end k"
  obtain enc' so where put: "am_put_nack e enc sn_start so_start sn_end so_end k = Inr (enc', so)"
    "enc_at enc' (enc_bits enc @ fields_bits ?fs) (e_buffer enc)" "e_bit enc' = 0"
    using am_put_nack_ok [OF assms(1-4), of k] by blast
  let ?d = "\<lparr>d_error = False, d_byte = e_byte enc, d_bit = 0, d_buffer = e_buffer enc',
             d_size = length (e_buffer enc')\<rparr>"
  have "enc_ok enc'" "enc_bits enc' = enc_bits enc @ fields_bits ?fs"
    using put(2) by (auto simp: enc_at_def)
  then have l: "length (enc_bits enc @ fields_bits ?fs) = 8 * e_byte enc'"
    using length_enc_bits [of enc'] put(3) by (simp add: enc_pos_def)
  note at = enc_at_bytes [OF put(2) l]
  have e: "length (enc_bits enc) = 8 * e_byte enc"
    using length_enc_bits [OF assms(2)] assms(3) by (simp add: enc_pos_def)
  have "bytes_bits (e_buffer enc') = (enc_bits enc @ fields_bits ?fs) @ bytes_bits (drop (e_byte enc') (e_buffer enc'))"
    using at(5) by (metis append_take_drop_id bytes_bits_append)
  then have rest: "dec_rest ?d = fields_bits ?fs @ bytes_bits (drop (e_byte enc') (e_buffer enc'))"
    using e by (simp add: dec_rest_def dec_pos_def)
  have ok: "dec_ok ?d"
    using l e at(3,4) by (simp add: dec_ok_def dec_pos_def)
  obtain n where n: "am_read_nack e ?d = Inr (Some (\<lparr>b_nack_sn = sn_start, b_e1 = 0, b_so_start = so_start,
      b_so_end = (if so_end = 0xffff then -1 else so_end), b_range = (if sn_start = sn_end then 1 else k)\<rparr>,
      dec_skip ?d n))" "dec_ok (dec_skip ?d n)"
    "dec_rest (dec_skip ?d n) = bytes_bits (drop (e_byte enc') (e_buffer enc'))"
    using am_read_nack_bits [OF assms(1) ok rest assms(5-12)] by blast
  have "dec_pos (dec_skip ?d n) \<le> 8 * length (e_buffer enc')"
    using n(2) by (simp add: dec_ok_def)
  then have "dec_pos (dec_skip ?d n) = 8 * e_byte enc'"
    using arg_cong [OF n(3), of length] length_dec_rest [OF n(2)] at(3,4) by simp
  then show ?thesis
    using put(1) n(1) by blast
qed

theorem am_nack_roundtrip_witness:
  "\<exists>e enc' so d'. new_nr_rlc_entity_am 1000 1000 45 35 0 (-1) (-1) 8 12 = Inr e \<and>
     am_put_nack e (nr_rlc_pdu_encoder_init (replicate 8 0)) 5 10 7 20 3 = Inr (enc', so) \<and>
     am_read_nack e (nr_rlc_pdu_decoder_init (e_buffer enc')) =
       Inr (Some (\<lparr>b_nack_sn = 5, b_e1 = 0, b_so_start = 10, b_so_end = 20, b_range = 3\<rparr>, d'))"
proof -
  obtain e where e: "new_nr_rlc_entity_am 1000 1000 45 35 0 (-1) (-1) 8 12 = Inr e"
    "am_sn_field_length e = 12"
    by (simp add: new_nr_rlc_entity_am_def)
  then have "am_nack_size e 5 10 7 20 = 7"
    by (simp add: am_nack_size_def)
  then show ?thesis
    using e am_nack_roundtrip [of e "nr_rlc_pdu_encoder_init (replicate 8 0)" 5 10 7 20 3]
    by (auto simp: nr_rlc_pdu_decoder_init_def nr_rlc_pdu_encoder_init_def enc_ok_def enc_pos_def)
qed

section \<open>Reading a report\<close>

section \<open>The end of the loop over the blocks\<close>

text \<open>A reader that, when it returns a value, has taken \<open>n\<close> bits at least.\<close>

definition reads :: "nat \<Rightarrow> nr_rlc_pdu_decoder \<Rightarrow> ('a \<times> nr_rlc_pdu_decoder) option res \<Rightarrow> bool" where
  "reads n d r \<longleftrightarrow> (\<forall>b d'. r = Inr (Some (b, d')) \<longrightarrow>
     dec_ok d' \<and> length (dec_rest d') + n \<le> length (dec_rest d))"

lemma reads_get_R:
  assumes "dec_ok d" and "c \<le> 31" and "\<And>v d1. dec_ok d1 \<Longrightarrow> reads (n - c) d1 (k v d1)"
  shows "reads n d (get_R d c (Inr None) k)"
proof (cases "c \<le> length (dec_rest d)")
  case True
  then have d1: "dec_ok (dec_skip d c)" "length (dec_rest d) = length (dec_rest (dec_skip d c)) + c"
    using assms(1) by simp_all
  show ?thesis
    unfolding reads_def
  proof (intro allI impI)
    fix b d'
    assume "get_R d c (Inr None) k = Inr (Some (b, d'))"
    then have "k (bits_val (take c (dec_rest d))) (dec_skip d c) = Inr (Some (b, d'))"
      using assms(1,2) True by simp
    then have "dec_ok d'" "length (dec_rest d') + (n - c) \<le> length (dec_rest (dec_skip d c))"
      using assms(3) [OF d1(1)] unfolding reads_def by blast+
    with d1(2) show "dec_ok d' \<and> length (dec_rest d') + n \<le> length (dec_rest d)"
      by linarith
  qed
next
  case False
  then show ?thesis
    using assms by (simp add: reads_def)
qed

lemma reads_done: "dec_ok d \<Longrightarrow> reads 0 d (Inr (Some (b, d)))"
  by (simp add: reads_def)

lemma am_read_nack_reads:
  assumes "dec_ok d" and "am_sn_field_length e \<in> {12, 18}"
  shows "reads 16 d (am_read_nack e d)"
proof (cases "am_sn_field_length e = 12")
  case True
  then show ?thesis
    unfolding am_read_nack_def Let_def
    using assms(1) by (auto intro!: reads_get_R reads_done)
next
  case False
  then have "am_sn_field_length e = 18"
    using assms(2) by simp
  then show ?thesis
    unfolding am_read_nack_def Let_def
    using assms(1) by (auto intro!: reads_get_R reads_done)
qed

lemma am_free_acked_len: "am_free_acked e g = Inr e' \<Longrightarrow> am_sn_field_length e' = am_sn_field_length e"
  by (auto simp: am_free_acked_def rbind_eq_Inr)

text \<open>The length of the sequence numbers does not change.\<close>

fun ctrl_st :: "ctrl_out \<Rightarrow> am_ctrl" where
  "ctrl_st (Again st) = st"
| "ctrl_st (Done_nack st) = st"
| "ctrl_st (Lists_over st) = st"

definition c_len :: "am_ctrl \<Rightarrow> nat" where
  "c_len st = am_sn_field_length (c_entity st)"

lemma am_count_retx_len [simp]: "am_sn_field_length (am_count_retx e w s) = am_sn_field_length e"
  by (simp add: am_count_retx_def Let_def)

lemma am_wait_list_head_len: "am_wait_list_head a n st w ws = Inr x \<Longrightarrow> c_len (ctrl_st x) = c_len st"
  by (auto simp: am_wait_list_head_def c_len_def Let_def rbind_eq_Inr
      split: if_splits dest: am_free_acked_len)

lemma am_retransmit_list_head_len:
  "am_retransmit_list_head a n st r rs = Inr x \<Longrightarrow> c_len (ctrl_st x) = c_len st"
  by (auto simp: am_retransmit_list_head_def c_len_def Let_def rbind_eq_Inr
      split: if_splits dest: am_free_acked_len)

lemma am_process_next_step_cases:
  assumes "am_process_next_step a n st = r"
  obtains (w) w ws where "c_cur_wait st = w # ws" "am_wait_list_head a n st w ws = r"
    | (r) g gs where "c_retx st = g # gs" "am_retransmit_list_head a n st g gs = r"
    | (over) "r = Inr (Lists_over st)"
    | (fault) g f where "seg_sn (am_heap (c_entity st)) g = Inl f" "r = Inl f"
proof -
  show ?thesis
  proof (cases "c_cur_wait st")
    case Nil
    then show ?thesis
      using assms by (cases "c_retx st") (auto simp: am_process_next_step_def intro: over r)
  next
    case (Cons w ws)
    note cw = this
    show ?thesis
    proof (cases "c_retx st")
      case Nil
      then show ?thesis
        using assms w [OF cw] cw by (simp add: am_process_next_step_def)
    next
      case (Cons g gs)
      then show ?thesis
        using assms w [OF cw] r [OF Cons] fault [of w] fault [of g] cw
        by (cases "seg_sn (am_heap (c_entity st)) w"; cases "seg_sn (am_heap (c_entity st)) g")
           (auto simp: am_process_next_step_def split: if_splits)
    qed
  qed
qed

lemma am_process_next_step_len:
  assumes "am_process_next_step a n st = Inr x"
  shows "c_len (ctrl_st x) = c_len st"
  using assms
  by (cases rule: am_process_next_step_cases)
     (auto dest: am_wait_list_head_len am_retransmit_list_head_len)

lemma am_process_next_len: "am_process_next a n st = Inr (o', st') \<Longrightarrow> c_len st' = c_len st"
proof (induction a n st rule: am_process_next.induct)
  case (1 a n st)
  show ?case
  proof (cases "am_process_next_step a n st")
    case (Inl f)
    then show ?thesis
      using "1.prems" by (simp add: am_process_next.simps [of a n st])
  next
    case (Inr x)
    then show ?thesis
      using "1.prems" "1.IH" [OF Inr] am_process_next_step_len [OF Inr]
      by (cases x) (auto simp: am_process_next.simps [of a n st])
  qed
qed

lemma am_range_loop_cases:
  obtains (stop) "am_range_loop a b (Suc k) i st prev = Inr (True, st, prev)"
    | (step) N p where "am_range_loop a b (Suc k) i st prev = rbind (am_process_next a N st)
        (\<lambda>(over, st'). if over then Inr (False, st', prev) else am_range_loop a b k (i + 1) st' (Some p))"
proof -
  have "\<exists>c N p. am_range_loop a b (Suc k) i st prev = (if c then Inr (True, st, prev)
     else rbind (am_process_next a N st) (\<lambda>(over, st'). if over then Inr (False, st', prev)
       else am_range_loop a b k (i + 1) st' (Some p)))"
    unfolding am_range_loop.simps Let_def by (intro exI, rule refl)
  then obtain c N p where "am_range_loop a b (Suc k) i st prev = (if c then Inr (True, st, prev)
     else rbind (am_process_next a N st) (\<lambda>(over, st'). if over then Inr (False, st', prev)
       else am_range_loop a b k (i + 1) st' (Some p)))"
    by blast
  then show ?thesis
    using that by (cases c) simp_all
qed

lemma am_range_loop_len:
  "am_range_loop a b k i st prev = Inr (dn, st', prev') \<Longrightarrow> c_len st' = c_len st"
proof (induction k arbitrary: i st prev)
  case (Suc k)
  show ?case
  proof (cases rule: am_range_loop_cases [of a b k i st prev])
    case stop
    then show ?thesis
      using Suc.prems by simp
  next
    case (step N p)
    then obtain over st1 where 1: "am_process_next a N st = Inr (over, st1)"
      and 2: "(if over then Inr (False, st1, prev) else am_range_loop a b k (i + 1) st1 (Some p)) =
        Inr (dn, st', prev')"
      using Suc.prems by (auto elim: rbind_InrE)
    have "c_len st' = c_len st1"
      using 2 Suc.IH by (cases over) auto
    with am_process_next_len [OF 1] show ?thesis
      by simp
  qed
qed simp

section \<open>The only fault of the list operations\<close>

text \<open>A result that, if it is a fault at all, is a use of a freed object.\<close>

definition dangles :: "'a res \<Rightarrow> bool" where
  "dangles r \<longleftrightarrow> (\<forall>f. r = Inl f \<longrightarrow> f = Dangling_pointer)"

lemma dangles_Inr [simp, intro!]: "dangles (Inr x)"
  by (simp add: dangles_def)

lemma dangles_rbind [intro!]:
  "\<lbrakk>dangles m; \<And>x. m = Inr x \<Longrightarrow> dangles (k x)\<rbrakk> \<Longrightarrow> dangles (rbind m k)"
  by (auto simp: dangles_def rbind_eq_Inl)

lemma dangles_get_sdu [simp, intro!]: "dangles (get_sdu h a)"
  by (auto simp: dangles_def get_sdu_def of_opt_def split: option.splits)

lemma dangles_seg_sn [simp, intro!]: "dangles (seg_sn h g)"
  by (auto simp: seg_sn_def)

lemma dangles_free [simp, intro!]: "dangles (nr_rlc_free_sdu_segment h g)"
  by (auto simp: nr_rlc_free_sdu_segment_def Let_def)

lemma dangles_free_acked [simp, intro!]: "dangles (am_free_acked e g)"
  by (auto simp: am_free_acked_def)

lemma dangles_wait_list_head: "dangles (am_wait_list_head a n st w ws)"
  by (auto simp: am_wait_list_head_def Let_def)

lemma dangles_retransmit_list_head: "dangles (am_retransmit_list_head a n st w ws)"
  by (auto simp: am_retransmit_list_head_def Let_def)

lemma dangles_process_next_step: "dangles (am_process_next_step a n st)"
proof (rule am_process_next_step_cases [OF refl [of "am_process_next_step a n st"]])
  fix g f
  assume "seg_sn (am_heap (c_entity st)) g = Inl f" "am_process_next_step a n st = Inl f"
  then show ?thesis
    using dangles_seg_sn [of "am_heap (c_entity st)" g] by (simp add: dangles_def)
qed (use dangles_wait_list_head [of a n st] dangles_retransmit_list_head [of a n st] in \<open>auto dest: sym\<close>)

lemma dangles_process_next: "dangles (am_process_next a n st)"
proof (induction a n st rule: am_process_next.induct)
  case (1 a n st)
  show ?case
    using "1.IH" dangles_process_next_step [of a n st]
    by (auto simp: am_process_next.simps [of a n st] dangles_def split: sum.splits ctrl_out.splits)
qed

lemma dangles_range_loop: "dangles (am_range_loop a b k i st prev)"
proof (induction k arbitrary: i st prev)
  case (Suc k)
  then show ?case
    by (cases rule: am_range_loop_cases [of a b k i st prev]) (auto intro: dangles_process_next)
qed simp

lemma dangles_ack_wait_list: "dangles (am_ack_wait_list a st l)"
  by (induction l arbitrary: st) (auto simp: Let_def)

lemma dangles_ack_retransmit_list: "dangles (am_ack_retransmit_list a st l)"
  by (induction l arbitrary: st) (auto simp: Let_def)

lemma dangles_nacks_done: "dangles (am_nacks_done a st)"
  by (auto simp: am_nacks_done_def am_update_tx_next_ack_def am_lower_ack_def Let_def
      dangles_ack_wait_list dangles_ack_retransmit_list split: list.splits)

lemma get_R_not_Inl:
  "\<lbrakk>dec_ok d; c \<le> 31; get_R d c (Inr y) k = Inl f\<rbrakk> \<Longrightarrow>
   k (bits_val (take c (dec_rest d))) (dec_skip d c) = Inl f \<and> dec_ok (dec_skip d c) \<and>
   length (dec_rest d) = length (dec_rest (dec_skip d c)) + c"
  by (cases "c \<le> length (dec_rest d)") auto

lemma dangles_get_R:
  assumes "dec_ok d" and "c \<le> 31" and "\<And>v d1. dec_ok d1 \<Longrightarrow> dangles (k v d1)"
  shows "dangles (get_R d c (Inr y) k)"
  unfolding dangles_def
proof (intro allI impI)
  fix f assume "get_R d c (Inr y) k = Inl f"
  from get_R_not_Inl [OF assms(1,2) this] assms(3) show "f = Dangling_pointer"
    unfolding dangles_def by blast
qed

lemma dangles_read_nack:
  assumes "dec_ok d" and "am_sn_field_length e \<in> {12, 18}"
  shows "dangles (am_read_nack e d)"
proof -
  have "am_sn_field_length e \<le> 31" "(if am_sn_field_length e = 18 then 3 else 1) \<le> (31 :: nat)"
    using assms(2) by auto
  with assms(1) show ?thesis
    unfolding am_read_nack_def Let_def
    by (intro dangles_get_R) (auto intro!: dangles_get_R)
qed

section \<open>The loop over the NACKs ends\<close>

lemma am_nack_loop_ends:
  "\<lbrakk>dec_ok d; c_len st \<in> {12, 18}; length (dec_rest d) < 16 * fuel\<rbrakk> \<Longrightarrow>
   dangles (am_nack_loop fuel a e1 d st prev)"
proof (induction fuel arbitrary: e1 d st prev)
  case (Suc fuel)
  have len: "am_sn_field_length (c_entity st) \<in> {12, 18}"
    using Suc.prems(2) by (simp add: c_len_def)
  have rec: "dangles (am_nack_loop fuel a (b_e1 b) d' (st'\<lparr>c_entity := am_stop_poll_timer b (c_entity st')\<rparr>) prev')"
    if r: "am_read_nack (c_entity st) d = Inr (Some (b, d'))"
      and l: "am_range_loop a b (nat (b_range b)) 0 st prev = Inr (dn, st', prev')" for b d' dn st' prev'
  proof (rule Suc.IH)
    show "dec_ok d'" "length (dec_rest d') < 16 * fuel"
      using am_read_nack_reads [OF Suc.prems(1) len] r Suc.prems(3) by (auto simp: reads_def)
    show "c_len (st'\<lparr>c_entity := am_stop_poll_timer b (c_entity st')\<rparr>) \<in> {12, 18}"
      using am_range_loop_len [OF l] Suc.prems(2) by (simp add: c_len_def am_stop_poll_timer_def)
  qed
  show ?case
    unfolding am_nack_loop.simps [of "Suc fuel"]
    using rec dangles_read_nack [OF Suc.prems(1) len]
    by (auto split: option.splits intro: dangles_range_loop)
qed simp

definition ends :: "'a res \<Rightarrow> bool" where
  "ends r \<longleftrightarrow> (\<forall>f. r = Inl f \<longrightarrow> f \<in> {Dangling_pointer, Inconsistent_state})"

lemma ends_get_R:
  assumes "dec_ok d" and "c \<le> 31"
    and "\<And>v d1. dec_ok d1 \<Longrightarrow> length (dec_rest d) = length (dec_rest d1) + c \<Longrightarrow> ends (k v d1)"
  shows "ends (get_R d c (Inr y) k)"
  unfolding ends_def
proof (intro allI impI)
  fix f assume "get_R d c (Inr y) k = Inl f"
  from get_R_not_Inl [OF assms(1,2) this] assms(3)
  show "f \<in> {Dangling_pointer, Inconsistent_state}"
    unfolding ends_def by blast
qed

lemma ends_nacks:
  assumes "dangles m"
  shows "ends (rbind m (\<lambda>(error, st'). if error
     then if c_touched st' then Inl Inconsistent_state else Inr (c_entity st') else am_nacks_done a st'))"
  using assms dangles_nacks_done [of a]
  by (auto simp: rbind_eq_Inl dangles_def ends_def split: if_splits)

text \<open>
  C18: A status report is processed to its end, whatever bytes the peer sent: the loop over the NACK blocks
  does not run forever. A fault is either the use of a freed SDU or the error exit in the middle of the
  list surgery.
\<close>

theorem am_control_pdu_ends:
  assumes "am_sn_field_length e \<in> {12, 18}"
  shows "fault_of (am_process_control_pdu e buf) \<in> {None, Some Dangling_pointer, Some Inconsistent_state}"
proof -
  have le: "am_sn_field_length e \<le> 31" "(if am_sn_field_length e = 18 then 1 else 7) \<le> (31 :: nat)"
    using assms by auto
  have loop: "dangles (am_nack_loop (length buf) a e1 d st None)"
    if "dec_ok d" "length (dec_rest d) + 5 \<le> 8 * length buf" "c_len st = am_sn_field_length e" for a e1 d st
    using that assms by (intro am_nack_loop_ends) auto
  have "ends (am_process_control_pdu e buf)"
    unfolding am_process_control_pdu_def Let_def
    apply (rule ends_get_R)
      apply simp
     apply simp
    apply (rule ends_get_R, assumption, simp)
    apply (split if_split, rule conjI, simp add: ends_def, rule impI)
    apply (rule ends_get_R, assumption, rule le)
    apply (rule ends_get_R, assumption, simp)
    apply (rule ends_get_R, assumption, rule le)
    apply (rule ends_nacks)
    apply (rule loop)
      apply assumption
     apply simp
    apply (simp add: c_len_def)
    done
  then show ?thesis
    by (cases "am_process_control_pdu e buf") (auto simp: ends_def)
qed

theorem am_control_pdu_ends_witness:
  "\<exists>e. new_nr_rlc_entity_am 1000 1000 45 35 0 (-1) (-1) 8 18 = Inr e \<and>
     fault_of (am_process_control_pdu e [0, 0, 2, 255, 255, 255]) \<in>
       {None, Some Dangling_pointer, Some Inconsistent_state}"
proof -
  obtain e where e: "new_nr_rlc_entity_am 1000 1000 45 35 0 (-1) (-1) 8 18 = Inr e"
    "am_sn_field_length e = 18"
    by (simp add: new_nr_rlc_entity_am_def)
  then show ?thesis
    using am_control_pdu_ends [of e "[0, 0, 2, 255, 255, 255]"] by simp
qed

end
