(* ===== verification/NR_RLC_Am_Rx.thy ===== *)
theory NR_RLC_Am_Rx
  imports NR_RLC_Am_Ctrl
begin

text \<open>
  The receiving side of the acknowledged mode entity against a numbered sequence of SDUs. The
  reception list is related to the set of bytes received of each SDU (\<open>am_nodes\<close>); every operation
  on the list, and the reception of a data PDU as a whole, is shown to do to the list what adding
  the bytes of the PDU does to the set. The sequence numbers of the list are distances from
  \<^verbatim>\<open>rx_next\<close>, so that nothing depends on the wrap-around.
\<close>

section \<open>Repeated segments\<close>

lemma already_received_scan_done: "sz \<le> 0 \<Longrightarrow> already_received_scan l sn so sz = sz"
  by (cases l) simp_all

lemma already_received_scan_filter:
  "already_received_scan l sn so sz = already_received_scan (filter (\<lambda>p. p_sn p = sn) l) sn so sz"
  by (induction l arbitrary: so sz) (auto simp: Let_def already_received_scan_done)

lemma already_received_scan_iff:
  assumes "\<forall>p \<in> set l. p_sn p = sn \<and> 0 < p_size p" and "sorted (map p_so l)"
  shows "already_received_scan l sn so sz \<le> 0 \<longleftrightarrow> (\<forall>b. so \<le> b \<and> b < so + sz \<longrightarrow> covers l b)"
  using assms
proof (induction l arbitrary: so sz)
  case Nil
  then show ?case
    by (auto intro: exI [of _ so])
next
  case (Cons p l)
  have p: "p_sn p = sn" "0 < p_size p" "\<forall>q \<in> set l. p_so p \<le> p_so q"
    and IH: "already_received_scan l sn so' sz' \<le> 0 \<longleftrightarrow>
      (\<forall>b. so' \<le> b \<and> b < so' + sz' \<longrightarrow> covers l b)" for so' sz'
    using Cons by auto
  let ?e = "p_so p + p_size p"
  consider "sz \<le> 0" | "0 < sz" "p_so p \<le> so" "so < ?e"
    | "0 < sz" "\<not> (p_so p \<le> so \<and> so < ?e)" "p_so p \<le> so + sz - 1" "so + sz - 1 < ?e"
    | "0 < sz" "\<not> (p_so p \<le> so \<and> so < ?e)" "\<not> (p_so p \<le> so + sz - 1 \<and> so + sz - 1 < ?e)"
    by linarith
  then show ?case
  proof cases
    case 1
    then show ?thesis
      by (simp add: already_received_scan_done)
  next
    case 2
    have "already_received_scan (p # l) sn so sz = already_received_scan l sn ?e (so + sz - ?e)"
      using 2 p(1) by (simp add: Let_def algebra_simps)
    moreover have "(?e \<le> b \<and> b < so + sz \<longrightarrow> covers l b) \<longleftrightarrow>
        (so \<le> b \<and> b < so + sz \<longrightarrow> covers (p # l) b)" for b
      using 2 by auto
    ultimately show ?thesis
      using IH [of ?e "so + sz - ?e"] by simp
  next
    case 3
    then show ?thesis
      using p(1) IH [of so "sz - (sz - (p_so p - so))"] by (auto simp: Let_def)
  next
    case 4
    then have eq: "already_received_scan (p # l) sn so sz = already_received_scan l sn so sz"
      using p(1) by auto
    from 4 consider "so < p_so p" | "?e \<le> so"
      by linarith
    then show ?thesis
    proof cases
      case 1
      then have "\<not> covers l so" "\<not> covers (p # l) so"
        using not_covers_before [OF p(3)] by auto
      then show ?thesis
        using eq IH [of so sz] 4(1) by (metis less_add_same_cancel1 order_refl)
    next
      case 2
      then show ?thesis
        using eq IH [of so sz] by auto
    qed
  qed
qed

section \<open>The windows\<close>

definition am_config_ok :: "nr_rlc_entity_am \<Rightarrow> bool" where
  "am_config_ok e \<longleftrightarrow> am_sn_field_length e \<in> {12, 18} \<and>
     am_sn_modulus e = 2 ^ am_sn_field_length e \<and> 2 * am_window_size e = am_sn_modulus e"

definition am_sn_ok :: "nr_rlc_entity_am \<Rightarrow> int \<Rightarrow> bool" where
  "am_sn_ok e sn \<longleftrightarrow> 0 \<le> sn \<and> sn < am_sn_modulus e"

lemma am_config_pos:
  assumes "am_config_ok e"
  shows "2 * am_window_size e = am_sn_modulus e" "2 \<le> am_window_size e" "0 < am_sn_modulus e"
  using assms by (auto simp: am_config_ok_def)

text \<open>The distance of a sequence number from the start of a window.\<close>

definition sn_dist :: "int \<Rightarrow> int \<Rightarrow> int \<Rightarrow> int" where
  "sn_dist M start a = (a - start) mod M"

lemma sn_dist_inj:
  assumes "0 \<le> a" "a < M" "0 \<le> b" "b < M" and "sn_dist M s a = sn_dist M s b"
  shows "a = b"
proof -
  have "(a - s + s) mod M = (b - s + s) mod M"
    using assms(5) unfolding sn_dist_def by (metis mod_add_left_eq)
  with assms show ?thesis
    by simp
qed

lemma sn_dist_num:
  assumes "N \<le> n" "int n < int N + M"
  shows "sn_dist M (int N mod M) (int n mod M) = int n - int N"
proof -
  have "sn_dist M (int N mod M) (int n mod M) = (int n - int N) mod M"
    by (simp add: sn_dist_def mod_simps)
  then show ?thesis
    using assms by simp
qed

lemma sn_dist_if:
  assumes "0 \<le> a" "a < M" "0 \<le> s" "s < M"
  shows "(let r = a - s in if r < 0 then r + M else r) = sn_dist M s a"
proof (cases "a - s < 0")
  case True
  then have "(a - s) mod M = a - s + M"
    using assms by (intro mod_pos_pos_trivial [of "a - s + M" M, simplified]) auto
  with True show ?thesis
    by (simp add: sn_dist_def)
next
  case False
  with assms show ?thesis
    by (simp add: sn_dist_def)
qed

lemma am_modulus_dist:
  assumes "am_sn_ok e a"
  shows "am_sn_ok e (am_rx_next e) \<Longrightarrow> am_modulus_rx e a = sn_dist (am_sn_modulus e) (am_rx_next e) a"
    and "am_sn_ok e (am_tx_next_ack e) \<Longrightarrow>
      am_modulus_tx e a = sn_dist (am_sn_modulus e) (am_tx_next_ack e) a"
  using assms sn_dist_if unfolding am_sn_ok_def am_modulus_rx_def am_modulus_tx_def by auto

interpretation am_rx: sn_order "am_sn_compare_rx e" "am_modulus_rx e"
  "\<lambda>sn. am_sn_ok e (am_rx_next e) \<and> am_sn_ok e sn" for e
  by unfold_locales
     (auto simp: am_sn_compare_rx_def am_modulus_dist, auto simp: am_sn_ok_def intro: sn_dist_inj)

interpretation am_tx: sn_order "am_sn_compare_tx e" "am_modulus_tx e"
  "\<lambda>sn. am_sn_ok e (am_tx_next_ack e) \<and> am_sn_ok e sn" for e
  by unfold_locales
     (auto simp: am_sn_compare_tx_def am_modulus_dist, auto simp: am_sn_ok_def intro: sn_dist_inj)

section \<open>The reception list as a set of received bytes\<close>

text \<open>
  The transmitter numbers its SDUs; \<open>sdu n\<close> is the SDU with number \<open>n\<close>, sent with sequence number
  \<open>n mod M\<close>. The list holds nodes of the numbers in the window at \<open>N\<close>: pieces of the SDU, or, for the
  numbers in \<open>D\<close>, what is left of the pieces of a delivered SDU. The bytes they cover are those in \<open>got\<close>.
\<close>

definition am_node_ok :: "(nat \<Rightarrow> byte list) \<Rightarrow> nat set \<Rightarrow> nat \<Rightarrow> nr_rlc_pdu \<Rightarrow> bool" where
  "am_node_ok sdu D n p \<longleftrightarrow>
     (if n \<in> D then p_data p = None \<and> 0 < p_size p else piece_of (sdu n) p)"

definition am_nodes ::
  "int \<Rightarrow> int \<Rightarrow> (nat \<Rightarrow> byte list) \<Rightarrow> (nat \<Rightarrow> int set) \<Rightarrow> nat set \<Rightarrow> nat \<Rightarrow> nr_rlc_pdu list \<Rightarrow> bool" where
  "am_nodes M W sdu got D N l \<longleftrightarrow> W \<le> M \<and> pdu_sorted (sn_dist M (int N mod M)) l \<and>
     (\<forall>p \<in> set l. \<exists>n. N \<le> n \<and> int n < int N + W \<and> p_sn p = int n mod M \<and>
        am_node_ok sdu D n p) \<and>
     (\<forall>n b. N \<le> n \<and> int n < int N + W \<longrightarrow>
        (covers (filter (\<lambda>p. p_sn p = int n mod M) l) b \<longleftrightarrow> b \<in> got n)) \<and>
     (\<forall>n. int N + W \<le> int n \<longrightarrow> got n = {})"

lemma window_inj:
  assumes "W \<le> M" and "N \<le> n" "int n < int N + W" "N \<le> k" "int k < int N + W"
    and "int n mod M = int k mod M"
  shows "n = k"
proof -
  have "int n - int N = sn_dist M (int N mod M) (int n mod M)"
    using assms(1-3) by (intro sn_dist_num [symmetric]) auto
  also have "\<dots> = sn_dist M (int N mod M) (int k mod M)"
    by (simp only: assms(6))
  also have "\<dots> = int k - int N"
    using assms(1,4,5) by (intro sn_dist_num) auto
  finally show ?thesis
    by simp
qed

lemma am_nodesI:
  assumes "W \<le> M" and "pdu_sorted (sn_dist M (int N mod M)) l"
    and "\<And>p. p \<in> set l \<Longrightarrow>
      \<exists>n. N \<le> n \<and> int n < int N + W \<and> p_sn p = int n mod M \<and> am_node_ok sdu D n p"
    and "\<And>n b. N \<le> n \<Longrightarrow> int n < int N + W \<Longrightarrow>
      covers (filter (\<lambda>p. p_sn p = int n mod M) l) b \<longleftrightarrow> b \<in> got n"
    and "\<And>n. int N + W \<le> int n \<Longrightarrow> got n = {}"
  shows "am_nodes M W sdu got D N l"
  using assms by (simp add: am_nodes_def)

lemma am_nodes_M: "am_nodes M W sdu got D N l \<Longrightarrow> W \<le> M"
  by (simp add: am_nodes_def)

lemma am_nodesE:
  assumes "am_nodes M W sdu got D N l" and "p \<in> set l"
  obtains n where "N \<le> n" "int n < int N + W" "p_sn p = int n mod M" "am_node_ok sdu D n p"
proof -
  have "\<exists>n. N \<le> n \<and> int n < int N + W \<and> p_sn p = int n mod M \<and> am_node_ok sdu D n p"
    using assms by (simp add: am_nodes_def)
  then show thesis
    using that by blast
qed

text \<open>The nodes of one number.\<close>

lemma am_nodes_at:
  assumes "am_nodes M W sdu got D N l" and "N \<le> n" "int n < int N + W"
    and "p \<in> set l" "p_sn p = int n mod M"
  shows "am_node_ok sdu D n p"
proof -
  obtain k where "N \<le> k" "int k < int N + W" "p_sn p = int k mod M" "am_node_ok sdu D k p"
    using assms(1,4) by (rule am_nodesE)
  moreover have "n = k"
    using calculation assms(2,3,5) am_nodes_M [OF assms(1)] by (intro window_inj [of W M N n k]) auto
  ultimately show ?thesis
    by simp
qed

lemma am_nodes_covers:
  "am_nodes M W sdu got D N l \<Longrightarrow> N \<le> n \<Longrightarrow> int n < int N + W \<Longrightarrow>
   covers (filter (\<lambda>p. p_sn p = int n mod M) l) b \<longleftrightarrow> b \<in> got n"
  by (simp add: am_nodes_def)

lemma am_nodes_beyond: "am_nodes M W sdu got D N l \<Longrightarrow> int N + W \<le> int n \<Longrightarrow> got n = {}"
  by (simp add: am_nodes_def)

lemma am_nodes_dist:
  assumes "am_nodes M W sdu got D N l" and "p \<in> set l"
  shows "0 \<le> sn_dist M (int N mod M) (p_sn p)"
    "sn_dist M (int N mod M) (p_sn p) < W" "0 \<le> p_sn p" "p_sn p < M"
proof -
  obtain n where n: "N \<le> n" "int n < int N + W" "p_sn p = int n mod M"
    using assms by (rule am_nodesE)
  then have M: "0 < M" "W \<le> M"
    using am_nodes_M [OF assms(1)] by linarith+
  with n show "0 \<le> p_sn p" "p_sn p < M"
    by simp_all
  show "0 \<le> sn_dist M (int N mod M) (p_sn p)"
    "sn_dist M (int N mod M) (p_sn p) < W"
    using n M sn_dist_num [of N n M] by simp_all
qed

lemma pdu_sorted_cong:
  assumes "pdu_sorted key l"
    and "\<And>p q. p \<in> set l \<Longrightarrow> q \<in> set l \<Longrightarrow> key (p_sn p) < key (p_sn q) \<Longrightarrow> key' (p_sn p) < key' (p_sn q)"
  shows "pdu_sorted key' l"
  using assms(1) unfolding pdu_sorted_def
  by (rule sorted_wrt_mono_rel [rotated]) (auto simp: sn_so_le_def assms(2))

lemma pdu_sorted_filter: "pdu_sorted key l \<Longrightarrow> pdu_sorted key (filter P l)"
  unfolding pdu_sorted_def by (rule sorted_wrt_filter)

text \<open>Moving the window past a number: its nodes leave the list.\<close>

lemma am_nodes_advance:
  assumes l: "am_nodes M W sdu got D N l"
  shows "am_nodes M W sdu got D (Suc N) (filter (\<lambda>p. p_sn p \<noteq> int N mod M) l)"
    (is "am_nodes _ _ _ _ _ _ ?l")
proof -
  have M: "W \<le> M"
    using l by (rule am_nodes_M)
  have num: "\<exists>n. Suc N \<le> n \<and> int n < int N + W \<and> p_sn p = int n mod M \<and> am_node_ok sdu D n p"
    if "p \<in> set ?l" for p
  proof -
    have "p \<in> set l"
      using that by simp
    with l obtain n where n: "N \<le> n" "int n < int N + W" "p_sn p = int n mod M"
      "am_node_ok sdu D n p"
      by (rule am_nodesE)
    with that have "n \<noteq> N"
      by auto
    with n show ?thesis
      by (metis Suc_leI le_neq_implies_less)
  qed
  have key: "sn_dist M (int (Suc N) mod M) (p_sn p) = sn_dist M (int N mod M) (p_sn p) - 1"
    if p: "p \<in> set ?l" for p
  proof -
    obtain n where "Suc N \<le> n" "int n < int N + W" "p_sn p = int n mod M"
      using num [OF p] by blast
    then show ?thesis
      using M sn_dist_num [of N n M] sn_dist_num [of "Suc N" n M] by simp
  qed
  have "pdu_sorted (sn_dist M (int N mod M)) ?l"
    using l by (simp add: am_nodes_def pdu_sorted_filter)
  then have 1: "pdu_sorted (sn_dist M (int (Suc N) mod M)) ?l"
    by (rule pdu_sorted_cong) (simp only: key)
  have 2: "\<exists>n. Suc N \<le> n \<and> int n < int (Suc N) + W \<and> p_sn p = int n mod M \<and>
      am_node_ok sdu D n p" if p: "p \<in> set ?l" for p
  proof -
    from num [OF p] obtain n where "Suc N \<le> n" "int n < int N + W" "p_sn p = int n mod M"
      "am_node_ok sdu D n p"
      by blast
    then show ?thesis
      by (intro exI [of _ n]) auto
  qed
  have 3: "covers (filter (\<lambda>p. p_sn p = int n mod M) ?l) b \<longleftrightarrow> b \<in> got n"
    if n: "Suc N \<le> n" "int n < int (Suc N) + W" for n b
  proof (cases "int n < int N + W")
    case True
    then have "int n mod M \<noteq> int N mod M"
      using n M window_inj [of W M N n N] by auto
    then have "filter (\<lambda>p. p_sn p = int n mod M) ?l = filter (\<lambda>p. p_sn p = int n mod M) l"
      by (auto intro: filter_cong)
    then show ?thesis
      using True n am_nodes_covers [OF l, of n b] by simp
  next
    case False
    then have e: "int n = int N + W" "got n = {}"
      using n am_nodes_beyond [OF l, of n] by auto
    have "p_sn p \<noteq> int n mod M" if p: "p \<in> set ?l" for p
    proof
      obtain k where k: "Suc N \<le> k" "int k < int N + W" "p_sn p = int k mod M"
        using num [OF p] by blast
      assume "p_sn p = int n mod M"
      then have "n = k"
        using k n M by (intro window_inj [of W M "Suc N" n k]) auto
      with e k show False
        by simp
    qed
    then have "filter (\<lambda>p. p_sn p = int n mod M) ?l = []"
      by (auto simp: filter_empty_conv)
    then show ?thesis
      using e by simp
  qed
  have 4: "got n = {}" if "int (Suc N) + W \<le> int n" for n
    using that by (intro am_nodes_beyond [OF l]) simp
  show ?thesis
    using M 1 2 3 4 by (rule am_nodesI)
qed

lemma dropWhile_filter: "takeWhile P l = filter P l \<Longrightarrow> dropWhile P l = filter (\<lambda>x. \<not> P x) l"
proof (induction l)
  case (Cons x l)
  show ?case
  proof (cases "P x")
    case False
    with Cons.prems have "filter P l = []"
      by simp
    then have "filter (\<lambda>x. \<not> P x) l = l"
      by (simp add: filter_empty_conv)
    with False show ?thesis
      by simp
  qed (use Cons in simp)
qed simp

text \<open>The first number of the window, once delivered, is at the head of the list.\<close>

lemma am_nodes_head:
  assumes l: "am_nodes M W sdu got D N l" and N: "N \<in> D" "got N \<noteq> {}" and W: "0 < W"
  obtains p k where "l = p # k" "p_sn p = int N mod M" "p_data p = None"
    "dropWhile (\<lambda>q. p_sn q = int N mod M) k = filter (\<lambda>q. p_sn q \<noteq> int N mod M) l"
proof -
  let ?key = "sn_dist M (int N mod M)"
  obtain b where "b \<in> got N"
    using N(2) by blast
  then have "covers (filter (\<lambda>p. p_sn p = int N mod M) l) b"
    using am_nodes_covers [OF l, of N b] W by simp
  then obtain q where q: "q \<in> set l" "p_sn q = int N mod M"
    by (auto simp: covers_def)
  then obtain p k where pk: "l = p # k"
    by (cases l) auto
  have sorted: "pdu_sorted ?key (p # k)"
    using l pk by (simp add: am_nodes_def)
  have "?key (p_sn q) = 0"
    using q(2) by (simp add: sn_dist_def)
  moreover have "0 \<le> ?key (p_sn p)"
    using am_nodes_dist(1) [OF l, of p] pk by simp
  ultimately have p: "p_sn p = int N mod M"
    using q pk sorted by (auto simp: pdu_sorted_def sn_so_le_def)
  then have "p_data p = None"
    using am_nodes_at [OF l, of N p] N(1) W pk by (simp add: am_node_ok_def)
  moreover have "dropWhile (\<lambda>q. p_sn q = int N mod M) k = filter (\<lambda>q. p_sn q \<noteq> int N mod M) l"
    using block_filter [OF sorted p] p pk
    by (simp add: dropWhile_filter block_def)
  ultimately show thesis
    using that [OF pk p] by blast
qed

definition unread_size :: "nr_rlc_pdu list \<Rightarrow> int" where
  "unread_size l = sum_list (map p_size (filter (\<lambda>p. p_data p \<noteq> None) l))"

lemma unread_size_simps [simp]:
  "unread_size [] = 0"
  "unread_size (p # l) = (if p_data p = None then 0 else p_size p) + unread_size l"
  by (simp_all add: unread_size_def)

lemma unread_size_filter:
  "\<forall>p \<in> set l. \<not> P p \<longrightarrow> p_data p = None \<Longrightarrow> unread_size (filter P l) = unread_size l"
  by (induction l) auto

lemma am_free_delivered_ok:
  assumes "am_nodes M W sdu got D N l" and "0 < W" and "\<And>n. n \<in> D \<Longrightarrow> got n \<noteq> {}"
  shows "\<exists>N' l'. am_free_delivered M l (int N mod M) = (l', int N' mod M) \<and>
    am_nodes M W sdu got D N' l' \<and> N \<le> N' \<and> {N..<N'} \<subseteq> D \<and> N' \<notin> D \<and>
    unread_size l' = unread_size l"
  using assms(1)
proof (induction "length l" arbitrary: l N rule: less_induct)
  case less
  show ?case
  proof (cases "N \<in> D")
    case True
    let ?l = "filter (\<lambda>q. p_sn q \<noteq> int N mod M) l"
    obtain p k where p: "l = p # k" "p_sn p = int N mod M" "p_data p = None"
      "dropWhile (\<lambda>q. p_sn q = int N mod M) k = ?l"
      using am_nodes_head [OF less.prems True assms(3) [OF True] assms(2)] by blast
    have "length ?l < length l"
      using p(1,2) by (simp add: le_imp_less_Suc)
    from less.hyps [OF this am_nodes_advance [OF less.prems]]
    obtain N' l' where N': "am_free_delivered M ?l (int (Suc N) mod M) = (l', int N' mod M)"
      "am_nodes M W sdu got D N' l'" "Suc N \<le> N'" "{Suc N..<N'} \<subseteq> D" "N' \<notin> D"
      "unread_size l' = unread_size ?l"
      by blast
    have M: "0 < M"
      using am_nodes_M [OF less.prems] assms(2) by simp
    have "c_rem (int N mod M + 1) M = int (Suc N) mod M"
      using M by (simp add: mod_simps add.commute)
    then have "am_free_delivered M l (int N mod M) = (l', int N' mod M)"
      using p N'(1) by simp
    moreover have "{N..<N'} \<subseteq> D"
    proof -
      have "{N..<N'} \<subseteq> insert N {Suc N..<N'}"
        by auto
      then show ?thesis
        using N'(4) True by blast
    qed
    moreover have "unread_size ?l = unread_size l"
      using am_nodes_at [OF less.prems, of N] True assms(2)
      by (intro unread_size_filter) (auto simp: am_node_ok_def)
    ultimately show ?thesis
      using N' by (intro exI [of _ N'] exI [of _ l']) auto
  next
    case False
    have "am_free_delivered M l (int N mod M) = (l, int N mod M)"
    proof (cases l)
      case (Cons p k)
      have "p_data p \<noteq> None" if "p_sn p = int N mod M"
        using am_nodes_at [OF less.prems, of N p] that False assms(2) Cons
        by (auto simp: am_node_ok_def piece_of_def)
      then show ?thesis
        using Cons by auto
    qed simp
    then show ?thesis
      using less.prems False by auto
  qed
qed

text \<open>The sequence number at the end of the window has no node, so the search for the first one not delivered ends.\<close>

lemma am_nodes_skip:
  assumes l: "am_nodes M W sdu got D N l" and M: "W < M" "0 < W" and sn: "0 \<le> sn" "sn < M"
  shows "\<exists>sn'. skip_delivered l M (length l) sn = Inr sn' \<and> 0 \<le> sn' \<and> sn' < M"
proof -
  have pos: "0 < M"
    using M by simp
  obtain w where w: "int w = int N + W"
    using M(2) by (metis add_nonneg_nonneg nonneg_int_cases of_nat_0_le_iff order_less_imp_le)
  have "\<not> list_sdu_delivered l (int w mod M)"
  proof
    assume "list_sdu_delivered l (int w mod M)"
    then obtain p where p: "p \<in> set l" "p_sn p = int w mod M"
      using delivered_in_list by blast
    then have "sn_dist M (int N mod M) (int w mod M) < W"
      using am_nodes_dist(2) [OF l p(1)] by simp
    moreover have "sn_dist M (int N mod M) (int w mod M) = int w - int N"
      using w M by (intro sn_dist_num) auto
    ultimately show False
      using w by simp
  qed
  moreover have "int w mod M = (sn + int (nat ((int w - sn) mod M))) mod M"
    using pos by (simp add: mod_simps)
  ultimately have "returns (skip_delivered l M (length l) sn)"
    using skip_delivered_returns_iff [OF pos sn, of l] by metis
  then obtain sn' where "skip_delivered l M (length l) sn = Inr sn'"
    by (rule returnsE)
  then show ?thesis
    using skip_delivered_run [OF pos sn, where l = l and fuel = "length l"] pos by auto
qed

text \<open>A new piece, and the marking of a delivered SDU.\<close>

lemma am_nodes_add:
  assumes l: "am_nodes M W sdu got D N l" and n: "N \<le> n" "int n < int N + W" "n \<notin> D"
    and p: "piece_of (sdu n) p" "p_sn p = int n mod M"
    and sorted: "pdu_sorted (sn_dist M (int N mod M)) (nr_rlc_pdu_list_add cmp l p)"
  shows "am_nodes M W sdu (got(n := got n \<union> {p_so p..<p_so p + p_size p})) D N
    (nr_rlc_pdu_list_add cmp l p)" (is "am_nodes _ _ _ ?got _ _ ?l")
proof (rule am_nodesI)
  have M: "W \<le> M"
    using l by (rule am_nodes_M)
  show "W \<le> M" "pdu_sorted (sn_dist M (int N mod M)) ?l"
    by fact+
  show "\<exists>k. N \<le> k \<and> int k < int N + W \<and> p_sn q = int k mod M \<and> am_node_ok sdu D k q"
    if "q \<in> set ?l" for q
  proof (cases "q = p")
    case True
    then show ?thesis
      using n p by (intro exI [of _ n]) (auto simp: am_node_ok_def)
  next
    case False
    then have q: "q \<in> set l"
      using that by simp
    from l q show ?thesis
      by (rule am_nodesE) blast
  qed
  show "covers (filter (\<lambda>q. p_sn q = int k mod M) ?l) b \<longleftrightarrow> b \<in> ?got k"
    if k: "N \<le> k" "int k < int N + W" for k b
  proof (cases "k = n")
    case True
    then have "set (filter (\<lambda>q. p_sn q = int k mod M) ?l) =
        insert p (set (filter (\<lambda>q. p_sn q = int k mod M) l))"
      using p(2) by auto
    from covers_insert [OF this, of b] show ?thesis
      using True am_nodes_covers [OF l k, of b] by auto
  next
    case False
    then have "int k mod M \<noteq> int n mod M"
      using window_inj [OF M k n(1,2)] by blast
    then have "set (filter (\<lambda>q. p_sn q = int k mod M) ?l) = set (filter (\<lambda>q. p_sn q = int k mod M) l)"
      using p(2) by auto
    then have "covers (filter (\<lambda>q. p_sn q = int k mod M) ?l) b \<longleftrightarrow>
        covers (filter (\<lambda>q. p_sn q = int k mod M) l) b"
      by (simp add: covers_def)
    then show ?thesis
      using False am_nodes_covers [OF l k, of b] by simp
  qed
  show "?got k = {}" if "int N + W \<le> int k" for k
    using that n am_nodes_beyond [OF l that] by auto
qed

lemma filter_sn_map:
  "(\<And>p. p_sn (f p) = p_sn p) \<Longrightarrow> filter (\<lambda>p. p_sn p = sn) (map f l) = map f (filter (\<lambda>p. p_sn p = sn) l)"
  by (induction l) simp_all

lemma covers_map:
  "(\<And>p. p_so (f p) = p_so p \<and> p_size (f p) = p_size p) \<Longrightarrow> covers (map f l) b = covers l b"
  by (simp add: covers_def)

lemma am_nodes_mark:
  assumes l: "am_nodes M W sdu got D N l" and n: "N \<le> n" "int n < int N + W"
  defines "f \<equiv> \<lambda>p. if p_sn p = int n mod M then am_mark p else p"
  shows "am_nodes M W sdu got (insert n D) N (map f l)"
proof (rule am_nodesI)
  have f: "p_sn (f p) = p_sn p" "p_so (f p) = p_so p" "p_size (f p) = p_size p" for p
    by (simp_all add: f_def am_mark_def)
  have M: "W \<le> M"
    using l by (rule am_nodes_M)
  then show "W \<le> M" .
  show "pdu_sorted (sn_dist M (int N mod M)) (map f l)"
    using l f by (simp add: am_nodes_def pdu_sorted_def sorted_wrt_map)
  show "\<exists>k. N \<le> k \<and> int k < int N + W \<and> p_sn q = int k mod M \<and> am_node_ok sdu (insert n D) k q"
    if q: "q \<in> set (map f l)" for q
  proof -
    obtain p where p: "p \<in> set l" "q = f p"
      using q by auto
    from l p(1) obtain k where k: "N \<le> k" "int k < int N + W" "p_sn p = int k mod M"
      "am_node_ok sdu D k p"
      by (rule am_nodesE)
    have "am_node_ok sdu (insert n D) k q"
    proof (cases "k = n")
      case True
      then show ?thesis
        using k(3,4) p(2) by (auto simp: f_def am_mark_def am_node_ok_def piece_of_def split: if_splits)
    next
      case False
      then have "int k mod M \<noteq> int n mod M"
        using window_inj [OF M k(1,2) n] by blast
      then show ?thesis
        using False k(3,4) p(2) by (simp add: f_def am_node_ok_def)
    qed
    then show ?thesis
      using k f p(2) by auto
  qed
  show "covers (filter (\<lambda>q. p_sn q = int k mod M) (map f l)) b \<longleftrightarrow> b \<in> got k"
    if "N \<le> k" "int k < int N + W" for k b
    using am_nodes_covers [OF l that, of b] f by (simp add: filter_sn_map covers_map)
  show "got k = {}" if "int N + W \<le> int k" for k
    using l that by (rule am_nodes_beyond)
qed

section \<open>The receiver\<close>

definition complete :: "(nat \<Rightarrow> byte list) \<Rightarrow> (nat \<Rightarrow> int set) \<Rightarrow> nat \<Rightarrow> bool" where
  "complete sdu got n \<longleftrightarrow> {0..<int (length (sdu n))} \<subseteq> got n"

definition sdus_ok :: "(nat \<Rightarrow> byte list) \<Rightarrow> bool" where
  "sdus_ok sdu \<longleftrightarrow> (\<forall>n. sdu n \<noteq> [] \<and> int (length (sdu n)) \<le> NR_SDU_MAX)"

definition am_rx_inv ::
  "(nat \<Rightarrow> byte list) \<Rightarrow> (nat \<Rightarrow> int set) \<Rightarrow> nat \<Rightarrow> nr_rlc_entity_am \<Rightarrow> bool" where
  "am_rx_inv sdu got N e \<longleftrightarrow> am_config_ok e \<and> am_rx_next e = int N mod am_sn_modulus e \<and>
     am_sn_ok e (am_rx_highest_status e) \<and>
     am_nodes (am_sn_modulus e) (am_window_size e) sdu got (Collect (complete sdu got)) N
       (am_rx_list e) \<and>
     (\<forall>n < N. complete sdu got n) \<and> \<not> complete sdu got N \<and>
     am_rx_size e = unread_size (am_rx_list e)"

lemma complete_nonempty: "sdus_ok sdu \<Longrightarrow> complete sdu got n \<Longrightarrow> got n \<noteq> {}"
  by (auto simp: complete_def sdus_ok_def)

lemma unread_size_add:
  "unread_size (nr_rlc_pdu_list_add cmp l p) =
   (if p_data p = None then 0 else p_size p) + unread_size l"
  by (induction l) auto

lemma unread_size_mark:
  assumes "\<forall>p \<in> set l. p_sn p = sn \<longrightarrow> p_data p \<noteq> None"
  shows "unread_size (map (\<lambda>p. if p_sn p = sn then am_mark p else p) l) =
    unread_size l - sum_list (map p_size (filter (\<lambda>p. p_sn p = sn) l))"
  using assms by (induction l) (auto simp: am_mark_def)

text \<open>What else a received piece of \<open>k\<close> bytes may change: the fill level, by at most \<open>k\<close>.\<close>

definition am_rx_frame :: "nr_rlc_entity_am \<Rightarrow> nr_rlc_entity_am \<Rightarrow> int \<Rightarrow> bool" where
  "am_rx_frame e e' k \<longleftrightarrow> am_rx_maxsize e' = am_rx_maxsize e \<and>
     am_sn_field_length e' = am_sn_field_length e \<and> am_rx_size e' \<le> am_rx_size e + k"

lemma am_reassembly_timer_sel [simp]:
  "am_rx_list (am_reassembly_timer e) = am_rx_list e"
  "am_rx_size (am_reassembly_timer e) = am_rx_size e"
  "am_rx_maxsize (am_reassembly_timer e) = am_rx_maxsize e"
  "am_rx_next (am_reassembly_timer e) = am_rx_next e"
  "am_rx_highest_status (am_reassembly_timer e) = am_rx_highest_status e"
  "am_sn_modulus (am_reassembly_timer e) = am_sn_modulus e"
  "am_window_size (am_reassembly_timer e) = am_window_size e"
  "am_sn_field_length (am_reassembly_timer e) = am_sn_field_length e"
  "am_out (am_reassembly_timer e) = am_out e"
  by (simp_all add: am_reassembly_timer_def Let_def)

lemma am_rx_inv_cong:
  assumes "am_rx_list e' = am_rx_list e" "am_rx_size e' = am_rx_size e" "am_rx_next e' = am_rx_next e"
    "am_rx_highest_status e' = am_rx_highest_status e" "am_sn_modulus e' = am_sn_modulus e"
    "am_window_size e' = am_window_size e" "am_sn_field_length e' = am_sn_field_length e"
  shows "am_rx_inv sdu got N e' \<longleftrightarrow> am_rx_inv sdu got N e"
  using assms by (simp add: am_rx_inv_def am_config_ok_def am_sn_ok_def)

lemma am_nodes_pieces:
  assumes "am_nodes M W sdu got D N l" and "N \<le> n" "int n < int N + W" "n \<notin> D"
  shows "pieces l (int n mod M) (sdu n)"
  using am_nodes_at [OF assms(1-3)] assms(4) by (auto simp: pieces_def am_node_ok_def)

lemma am_nodes_sorted: "am_nodes M W sdu got D N l \<Longrightarrow> pdu_sorted (sn_dist M (int N mod M)) l"
  by (simp add: am_nodes_def)

lemma am_nodes_full:
  assumes l: "am_nodes M W sdu got D N l" and n: "N \<le> n" "int n < int N + W" "n \<notin> D"
    and "sdus_ok sdu"
  shows "list_sdu_full l (int n mod M) \<longleftrightarrow> complete sdu got n"
proof -
  have "sdu n \<noteq> []"
    using assms(5) by (simp add: sdus_ok_def)
  then show ?thesis
    using list_sdu_full_iff [OF am_nodes_sorted [OF l] am_nodes_pieces [OF l n]]
      am_nodes_covers [OF l n(1,2)] by (auto simp: complete_def)
qed

text \<open>The delivery of a complete SDU, up to the place where \<^verbatim>\<open>rx_next\<close> is updated.\<close>

lemma am_reassemble_ok:
  assumes l: "am_nodes (am_sn_modulus e) W sdu got D N (am_rx_list e)"
    and n: "N \<le> n" "int n < int N + W" "n \<notin> D" and sdu: "sdus_ok sdu" "complete sdu got n"
    and sz: "am_rx_size e = unread_size (am_rx_list e)"
  shows "\<exists>l'. am_reassemble_and_deliver e (int n mod am_sn_modulus e) =
      Inr (e\<lparr>am_rx_list := l', am_rx_size := unread_size l',
             am_out := am_out e @ [Deliver_sdu (sdu n)]\<rparr>) \<and>
    am_nodes (am_sn_modulus e) W sdu got (insert n D) N l' \<and> unread_size l' \<le> am_rx_size e"
proof -
  let ?M = "am_sn_modulus e" and ?sn = "int n mod am_sn_modulus e"
  let ?l' = "map (\<lambda>p. if p_sn p = ?sn then am_mark p else p) (am_rx_list e)"
  have pieces: "pieces (am_rx_list e) ?sn (sdu n)"
    using l n by (rule am_nodes_pieces)
  have "int (length (sdu n)) \<le> NR_SDU_MAX"
    using sdu(1) by (simp add: sdus_ok_def)
  moreover have "list_sdu_full (am_rx_list e) ?sn"
    using am_nodes_full [OF l n sdu(1)] sdu(2) by simp
  ultimately have "list_reassemble am_mark ?sn (am_rx_list e) (am_rx_size e) =
      Inr (?l', sdu n, False, am_rx_size e -
        sum_list (map p_size (filter (\<lambda>p. p_sn p = ?sn) (am_rx_list e))))"
    by (rule list_reassemble_ok [OF am_nodes_sorted [OF l] pieces])
  moreover have sz': "unread_size ?l' = am_rx_size e -
      sum_list (map p_size (filter (\<lambda>p. p_sn p = ?sn) (am_rx_list e)))"
    unfolding sz using pieces by (intro unread_size_mark) (auto simp: pieces_def piece_of_def)
  ultimately have "am_reassemble_and_deliver e ?sn =
      Inr (e\<lparr>am_rx_list := ?l', am_rx_size := unread_size ?l',
             am_out := am_out e @ [Deliver_sdu (sdu n)]\<rparr>)"
    by (simp add: am_reassemble_and_deliver_def Let_def)
  moreover have "0 \<le> sum_list (map p_size (filter (\<lambda>p. p_sn p = ?sn) (am_rx_list e)))"
    using pieces by (intro sum_list_nonneg) (auto simp: pieces_def piece_of_def order_less_imp_le)
  ultimately show ?thesis
    using am_nodes_mark [OF l n(1,2)] sz' by (intro exI [of _ ?l']) simp
qed

lemma am_highest_status_ok:
  assumes "am_nodes (am_sn_modulus e) W sdu got D N (am_rx_list e)" and "W < am_sn_modulus e" "0 < W"
    and "am_sn_ok e (am_rx_highest_status e)"
  shows "\<exists>hs. (if x = am_rx_highest_status e
       then rbind (am_skip_delivered e (am_rx_highest_status e))
              (\<lambda>sn. Inr (e\<lparr>am_rx_highest_status := sn\<rparr>))
       else Inr e) = Inr (e\<lparr>am_rx_highest_status := hs\<rparr>) \<and> am_sn_ok e hs"
proof (cases "x = am_rx_highest_status e")
  case True
  obtain h where "skip_delivered (am_rx_list e) (am_sn_modulus e) (length (am_rx_list e))
      (am_rx_highest_status e) = Inr h" "am_sn_ok e h"
    using am_nodes_skip [OF assms(1-3)] assms(4) by (auto simp: am_sn_ok_def)
  then show ?thesis
    using True by (intro exI [of _ h]) (simp add: am_skip_delivered_def)
next
  case False
  then show ?thesis
    using assms(4) by (intro exI [of _ "am_rx_highest_status e"]) simp
qed

lemma am_deliver_ok:
  assumes l: "am_nodes (am_sn_modulus e) (am_window_size e) sdu got D N (am_rx_list e)"
    and n: "N \<le> n" "int n < int N + am_window_size e" "n \<notin> D"
    and sdu: "sdus_ok sdu" "insert n D = Collect (complete sdu got)"
    and sz: "am_rx_size e = unread_size (am_rx_list e)"
    and e: "am_config_ok e" "am_rx_next e = int N mod am_sn_modulus e"
      "am_sn_ok e (am_rx_highest_status e)"
    and D: "\<forall>k < N. k \<in> D" "N \<notin> D"
  shows "\<exists>e' N'. am_deliver e (int n mod am_sn_modulus e) = Inr e' \<and> am_rx_inv sdu got N' e' \<and>
    am_out e' = am_out e @ [Deliver_sdu (sdu n)] \<and> am_rx_frame e e' 0"
proof -
  let ?M = "am_sn_modulus e" and ?W = "am_window_size e" and ?sn = "int n mod am_sn_modulus e"
  let ?C = "Collect (complete sdu got)"
  note pos = am_config_pos [OF e(1)]
  have W: "0 < ?W" "?W < ?M"
    using pos by auto
  have "complete sdu got n"
    using sdu(2) by blast
  then obtain l1 where l1: "am_reassemble_and_deliver e ?sn =
      Inr (e\<lparr>am_rx_list := l1, am_rx_size := unread_size l1,
             am_out := am_out e @ [Deliver_sdu (sdu n)]\<rparr>)" (is "_ = Inr ?e1")
    "am_nodes ?M ?W sdu got ?C N l1" "unread_size l1 \<le> am_rx_size e"
    using am_reassemble_ok [OF l n sdu(1) _ sz] sdu(2) by auto
  obtain hs where hs: "(if ?sn = am_rx_highest_status ?e1
       then rbind (am_skip_delivered ?e1 (am_rx_highest_status ?e1))
              (\<lambda>sn. Inr (?e1\<lparr>am_rx_highest_status := sn\<rparr>))
       else Inr ?e1) = Inr (?e1\<lparr>am_rx_highest_status := hs\<rparr>)" "am_sn_ok e hs"
    using am_highest_status_ok [of ?e1 ?W sdu got ?C N ?sn] l1(2) W e(3) by (auto simp: am_sn_ok_def)
  let ?e2 = "?e1\<lparr>am_rx_highest_status := hs\<rparr>"
  have eq: "?sn = am_rx_next e \<longleftrightarrow> n = N"
    using n(1,2) W e(2) window_inj [of ?W ?M N n N] by auto
  show ?thesis
  proof (cases "n = N")
    case True
    obtain N' l' where N': "am_free_delivered ?M l1 (int N mod ?M) = (l', int N' mod ?M)"
      "am_nodes ?M ?W sdu got ?C N' l'" "N \<le> N'" "{N..<N'} \<subseteq> ?C" "N' \<notin> ?C"
      "unread_size l' = unread_size l1"
      using am_free_delivered_ok [OF l1(2) W(1)] complete_nonempty [OF sdu(1)] by blast
    have "\<forall>k < N'. complete sdu got k"
      using D(1) N'(4) sdu(2) by (metis (mono_tags) atLeastLessThan_iff insert_iff linorder_not_le
          mem_Collect_eq subsetD)
    then have "am_rx_inv sdu got N' (?e2\<lparr>am_rx_list := l', am_rx_next := int N' mod ?M\<rparr>)"
      using N' hs e by (simp add: am_rx_inv_def am_sn_ok_def am_config_ok_def)
    moreover have "am_deliver e ?sn = Inr (?e2\<lparr>am_rx_list := l', am_rx_next := int N' mod ?M\<rparr>)"
      unfolding am_deliver_def l1(1) rbind_Inr hs(1) using True eq e(2) N'(1) by simp
    ultimately show ?thesis
      using l1(3) by (auto simp: am_rx_frame_def)
  next
    case False
    have "\<forall>k < N. complete sdu got k" "\<not> complete sdu got N"
      using D False sdu(2) by (auto simp: set_eq_iff)
    then have "am_rx_inv sdu got N ?e2"
      using l1(2) hs e by (simp add: am_rx_inv_def am_sn_ok_def am_config_ok_def)
    moreover have "am_deliver e ?sn = Inr ?e2"
      unfolding am_deliver_def l1(1) rbind_Inr hs(1) using False eq by simp
    ultimately show ?thesis
      using l1(3) by (auto simp: am_rx_frame_def)
  qed
qed

text \<open>The bytes a piece adds to what has been received.\<close>

definition got_add :: "(nat \<Rightarrow> int set) \<Rightarrow> nat \<Rightarrow> int \<Rightarrow> int \<Rightarrow> nat \<Rightarrow> int set" where
  "got_add got n so sz = got(n := got n \<union> {so..<so + sz})"

definition delivers ::
  "(nat \<Rightarrow> byte list) \<Rightarrow> (nat \<Rightarrow> int set) \<Rightarrow> (nat \<Rightarrow> int set) \<Rightarrow> nat \<Rightarrow> rlc_event list" where
  "delivers sdu got got' n =
     (if complete sdu got' n \<and> \<not> complete sdu got n then [Deliver_sdu (sdu n)] else [])"

lemma complete_got_add: "k \<noteq> n \<Longrightarrow> complete sdu (got_add got n so sz) k \<longleftrightarrow> complete sdu got k"
  by (simp add: complete_def got_add_def)

lemma got_add_complete:
  assumes "complete sdu got n" and "0 \<le> so" "so + sz \<le> int (length (sdu n))"
  shows "got_add got n so sz = got"
  using assms by (auto simp: got_add_def complete_def fun_eq_iff)

lemma delivers_same [simp]: "delivers sdu got got n = []"
  by (simp add: delivers_def)

lemma am_rx_invD:
  assumes "am_rx_inv sdu got N e"
  shows "am_config_ok e" "am_rx_next e = int N mod am_sn_modulus e" "am_sn_ok e (am_rx_next e)"
    "am_nodes (am_sn_modulus e) (am_window_size e) sdu got (Collect (complete sdu got)) N (am_rx_list e)"
    "\<forall>n < N. complete sdu got n" "\<not> complete sdu got N" "am_rx_size e = unread_size (am_rx_list e)"
    "am_sn_ok e (am_rx_highest_status e)"
  using assms am_config_pos [of e] by (auto simp: am_rx_inv_def am_sn_ok_def)

lemma am_dist_sorted:
  assumes e: "am_rx_inv sdu got N e" and "\<And>p. p \<in> set l \<Longrightarrow> am_sn_ok e (p_sn p)"
  shows "pdu_sorted (am_modulus_rx e) l \<longleftrightarrow>
    pdu_sorted (sn_dist (am_sn_modulus e) (int N mod am_sn_modulus e)) l"
proof -
  have "am_modulus_rx e (p_sn p) = sn_dist (am_sn_modulus e) (int N mod am_sn_modulus e) (p_sn p)"
    if "p \<in> set l" for p
    using am_modulus_dist(1) [of e "p_sn p"] am_rx_invD [OF e] assms(2) [OF that] by simp
  then show ?thesis
    by (auto elim!: pdu_sorted_cong)
qed

text \<open>A new piece in the window that is not covered yet.\<close>

lemma am_add_ok:
  assumes e: "am_rx_inv sdu got N e"
    and n: "N \<le> n" "int n < int N + am_window_size e" "\<not> complete sdu got n"
    and p: "piece_of (sdu n) p" "p_sn p = int n mod am_sn_modulus e"
  defines "l \<equiv> nr_rlc_pdu_list_add (am_sn_compare_rx e) (am_rx_list e) p"
  shows "am_nodes (am_sn_modulus e) (am_window_size e) sdu (got_add got n (p_so p) (p_size p))
      (Collect (complete sdu got)) N l" and "am_rx_size e + p_size p = unread_size l"
proof -
  let ?M = "am_sn_modulus e"
  note inv = am_rx_invD [OF e]
  note pos = am_config_pos [OF inv(1)]
  have sn: "am_sn_ok e (p_sn q)" if "q \<in> set l" for q
    using that am_nodes_dist(3,4) [OF inv(4), of q] p(2) pos by (auto simp: l_def am_sn_ok_def)
  have "pdu_sorted (am_modulus_rx e) (am_rx_list e)"
    using am_dist_sorted [OF e, of "am_rx_list e"] sn am_nodes_sorted [OF inv(4)] by (simp add: l_def)
  then have "pdu_sorted (am_modulus_rx e) l"
    unfolding l_def using sn inv(3) by (intro am_rx.pdu_list_add_sorted) (auto simp: l_def)
  then have "pdu_sorted (sn_dist ?M (int N mod ?M)) l"
    using am_dist_sorted [OF e, of l] sn by blast
  then show "am_nodes ?M (am_window_size e) sdu (got_add got n (p_so p) (p_size p))
      (Collect (complete sdu got)) N l"
    using am_nodes_add [OF inv(4) n(1,2) _ p, of "am_sn_compare_rx e"] n(3)
    by (simp add: l_def got_add_def)
  show "am_rx_size e + p_size p = unread_size l"
    using inv(7) p(1) by (simp add: l_def unread_size_add piece_of_def)
qed

text \<open>Delivery, if the piece completes its SDU.\<close>

lemma am_deliver_if_ok:
  assumes l: "am_nodes (am_sn_modulus e) (am_window_size e) sdu got' (Collect (complete sdu got)) N
      (am_rx_list e)"
    and n: "N \<le> n" "int n < int N + am_window_size e" "\<not> complete sdu got n" and sdu: "sdus_ok sdu"
    and other: "\<And>k. k \<noteq> n \<Longrightarrow> complete sdu got' k \<longleftrightarrow> complete sdu got k"
    and e: "am_config_ok e" "am_rx_next e = int N mod am_sn_modulus e"
      "am_sn_ok e (am_rx_highest_status e)" "am_rx_size e = unread_size (am_rx_list e)"
    and N: "\<forall>k < N. complete sdu got k" "\<not> complete sdu got N" and sn: "sn = int n mod am_sn_modulus e"
  shows "\<exists>e' N'. (if am_sdu_full e sn then am_deliver e sn else Inr e) = Inr e' \<and>
    am_rx_inv sdu got' N' e' \<and> am_out e' = am_out e @ delivers sdu got got' n \<and>
    am_rx_frame e e' 0"
proof -
  have full: "am_sdu_full e sn \<longleftrightarrow> complete sdu got' n"
    using am_nodes_full [OF l n(1,2) _ sdu] n(3) by (simp add: am_sdu_full_def sn)
  show ?thesis
  proof (cases "complete sdu got' n")
    case True
    have "insert n (Collect (complete sdu got)) = Collect (complete sdu got')"
    proof (rule set_eqI)
      fix k
      show "k \<in> insert n (Collect (complete sdu got)) \<longleftrightarrow> k \<in> Collect (complete sdu got')"
        using True other [of k] by (cases "k = n") auto
    qed
    then show ?thesis
      using am_deliver_ok [OF l n(1,2) _ sdu] e N n(3) True full
      by (simp add: delivers_def sn)
  next
    case False
    then have "complete sdu got' k \<longleftrightarrow> complete sdu got k" for k
      using other [of k] n(3) by (cases "k = n") auto
    then have "complete sdu got' = complete sdu got"
      by (rule ext)
    then have "am_rx_inv sdu got' N e"
      using l e N by (simp add: am_rx_inv_def)
    then show ?thesis
      using False full by (intro exI [of _ e] exI [of _ N]) (simp add: delivers_def am_rx_frame_def)
  qed
qed

lemma am_actions_ok:
  assumes e: "am_rx_inv sdu got N e" and sdu: "sdus_ok sdu"
    and n: "N \<le> n" "int n < int N + am_window_size e" "\<not> complete sdu got n"
    and p: "piece_of (sdu n) p" "p_sn p = int n mod am_sn_modulus e"
  defines "got' \<equiv> got_add got n (p_so p) (p_size p)"
  shows "\<exists>e' N'. am_reception_actions
      (e\<lparr>am_rx_size := am_rx_size e + p_size p,
         am_rx_list := nr_rlc_pdu_list_add (am_sn_compare_rx e) (am_rx_list e) p\<rparr>) (p_sn p) = Inr e' \<and>
    am_rx_inv sdu got' N' e' \<and> am_out e' = am_out e @ delivers sdu got got' n \<and>
    am_rx_frame e e' (p_size p)"
proof -
  note inv = am_rx_invD [OF e]
  note add = am_add_ok [OF e n p]
  define l where "l = nr_rlc_pdu_list_add (am_sn_compare_rx e) (am_rx_list e) p"
  define e1 where "e1 = (let a = e\<lparr>am_rx_size := am_rx_size e + p_size p, am_rx_list := l\<rparr> in
    if am_sn_compare_rx a (p_sn p) (am_rx_next_highest a) \<ge> 0
    then a\<lparr>am_rx_next_highest := c_rem (p_sn p + 1) (am_sn_modulus a)\<rparr> else a)"
  have e1: "am_rx_list e1 = l" "am_rx_size e1 = unread_size l" "am_sn_modulus e1 = am_sn_modulus e"
    "am_window_size e1 = am_window_size e" "am_rx_next e1 = int N mod am_sn_modulus e"
    "am_config_ok e1" "am_sn_ok e1 (am_rx_highest_status e1)" "am_out e1 = am_out e"
    "am_rx_frame e e1 (p_size p)"
    using inv add(2) by (auto simp: e1_def Let_def am_sn_ok_def am_config_ok_def l_def am_rx_frame_def)
  have run: "am_reception_actions (e\<lparr>am_rx_size := am_rx_size e + p_size p, am_rx_list := l\<rparr>) (p_sn p) =
      rbind (if am_sdu_full e1 (p_sn p) then am_deliver e1 (p_sn p) else Inr e1)
        (\<lambda>e. Inr (am_reassembly_timer e))"
    by (simp add: am_reception_actions_def e1_def Let_def)
  have other: "complete sdu got' k \<longleftrightarrow> complete sdu got k" if "k \<noteq> n" for k
    using that by (simp add: got'_def complete_got_add)
  obtain e' N' where e': "(if am_sdu_full e1 (p_sn p) then am_deliver e1 (p_sn p) else Inr e1) = Inr e'"
    "am_rx_inv sdu got' N' e'" "am_out e' = am_out e @ delivers sdu got got' n"
    "am_rx_frame e1 e' 0"
    using am_deliver_if_ok [of e1 sdu got' got N n "p_sn p"] add(1) n sdu other e1 inv(5,6) p(2)
    by (auto simp: l_def got'_def)
  have "am_rx_inv sdu got' N' (am_reassembly_timer e')"
    using e'(2) by (subst am_rx_inv_cong [of _ e']) simp_all
  then show ?thesis
    unfolding l_def [symmetric] run e'(1)
    using e'(3,4) e1(9)
    by (intro exI [of _ "am_reassembly_timer e'"] exI [of _ N']) (simp add: am_rx_frame_def)
qed

lemma am_poll_bit_sel [simp]:
  "am_out (am_poll_bit e p) = am_out e" "am_rx_maxsize (am_poll_bit e p) = am_rx_maxsize e"
  by (simp_all add: am_poll_bit_def)

lemma am_rx_frame_poll [simp]: "am_rx_frame e (am_poll_bit e' p) k \<longleftrightarrow> am_rx_frame e e' k"
  by (simp add: am_rx_frame_def am_poll_bit_def)

lemma am_rx_frame_refl [simp]: "0 \<le> k \<Longrightarrow> am_rx_frame e e k"
  by (simp add: am_rx_frame_def)

lemma am_rx_inv_poll [simp]: "am_rx_inv sdu got N (am_poll_bit e p) \<longleftrightarrow> am_rx_inv sdu got N e"
  by (rule am_rx_inv_cong) (simp_all add: am_poll_bit_def)

text \<open>The check for repeated segments sees exactly the bytes received.\<close>

lemma am_already_received:
  assumes e: "am_rx_inv sdu got N e" and n: "N \<le> n" "int n < int N + am_window_size e"
  shows "am_segment_already_received e (int n mod am_sn_modulus e) so sz \<longleftrightarrow> {so..<so + sz} \<subseteq> got n"
proof -
  let ?f = "filter (\<lambda>p. p_sn p = int n mod am_sn_modulus e) (am_rx_list e)"
  note inv = am_rx_invD [OF e]
  have "\<forall>p \<in> set ?f. p_sn p = int n mod am_sn_modulus e \<and> 0 < p_size p"
    using am_nodes_at [OF inv(4) n]
    by (cases "complete sdu got n") (auto simp: am_node_ok_def piece_of_def)
  then have "already_received_scan ?f (int n mod am_sn_modulus e) so sz \<le> 0 \<longleftrightarrow>
      (\<forall>b. so \<le> b \<and> b < so + sz \<longrightarrow> covers ?f b)"
    using sorted_so_filter [OF am_nodes_sorted [OF inv(4)]] by (intro already_received_scan_iff) auto
  then show ?thesis
    using am_nodes_covers [OF inv(4) n]
    by (auto simp: am_segment_already_received_def already_received_scan_filter [of "am_rx_list e"])
qed

lemma am_window:
  assumes e: "am_rx_inv sdu got N e" and n: "int N \<le> int n + am_window_size e"
    "int n < int N + am_window_size e"
  shows "am_sn_in_recv_window e (int n mod am_sn_modulus e) \<longleftrightarrow> N \<le> n"
proof -
  let ?M = "am_sn_modulus e"
  note inv = am_rx_invD [OF e]
  note pos = am_config_pos [OF inv(1)]
  have "am_modulus_rx e (int n mod ?M) = sn_dist ?M (int N mod ?M) (int n mod ?M)"
    using am_modulus_dist(1) [of e "int n mod ?M"] inv(2,3) pos(3) by (simp add: am_sn_ok_def)
  also have "\<dots> = (int n - int N) mod ?M"
    by (simp add: sn_dist_def mod_simps)
  finally have k: "am_modulus_rx e (int n mod ?M) = (int n - int N) mod ?M" .
  show ?thesis
  proof (cases "N \<le> n")
    case True
    then have "(int n - int N) mod ?M = int n - int N"
      using n pos by simp
    then show ?thesis
      using True n k by (simp add: am_sn_in_recv_window_def)
  next
    case False
    have "(int n - int N) mod ?M = (int n - int N + ?M) mod ?M"
      by simp
    also have "\<dots> = int n - int N + ?M"
      using False n pos by (intro mod_pos_pos_trivial) auto
    finally show ?thesis
      using False n k pos by (simp add: am_sn_in_recv_window_def)
  qed
qed

text \<open>A piece of an SDU the transmitter may send: the receiver ends up with exactly its bytes added.\<close>

lemma am_recv_segment_ok:
  assumes e: "am_rx_inv sdu got N e" and sdu: "sdus_ok sdu"
    and n: "int N \<le> int n + am_window_size e" "int n < int N + am_window_size e"
    and h: "h < length buffer"
    and p: "piece_of (sdu n) (nr_rlc_new_pdu sn so f l (drop h buffer))" "sn = int n mod am_sn_modulus e"
  defines "k \<equiv> int (length buffer) - int h"
  defines "got' \<equiv> if am_rx_size e + k \<le> am_rx_maxsize e then got_add got n so k else got"
  shows "\<exists>e' N'. am_recv_segment e buffer pb sn so f l h = Inr e' \<and> am_rx_inv sdu got' N' e' \<and>
    am_out e' = am_out e @ delivers sdu got got' n \<and> am_rx_frame e e' k"
proof -
  let ?p = "nr_rlc_new_pdu sn so f l (drop h buffer)"
  note inv = am_rx_invD [OF e]
  have ps: "p_size ?p = k" "p_so ?p = so" "p_sn ?p = sn" and k: "0 < k"
    using h by (simp_all add: nr_rlc_new_pdu_def k_def of_nat_diff)
  have win: "am_sn_in_recv_window e sn \<longleftrightarrow> N \<le> n"
    unfolding p(2) by (rule am_window [OF e n])
  have range: "0 \<le> so" "so + k \<le> int (length (sdu n))"
    using p(1) ps by (auto simp: piece_of_def)
  consider "am_rx_size e + k > am_rx_maxsize e"
    | "am_rx_size e + k \<le> am_rx_maxsize e" "got_add got n so k = got" "n < N"
    | "am_rx_size e + k \<le> am_rx_maxsize e" "N \<le> n" "{so..<so + k} \<subseteq> got n"
    | "am_rx_size e + k \<le> am_rx_maxsize e" "N \<le> n" "\<not> {so..<so + k} \<subseteq> got n"
    using got_add_complete [of sdu got n, OF _ range] inv(5) by (meson not_le)
  then show ?thesis
  proof cases
    case 1
    then show ?thesis
      using e k by (auto simp: am_recv_segment_def k_def got'_def)
  next
    case 2
    then show ?thesis
      using e k win by (auto simp: am_recv_segment_def k_def got'_def)
  next
    case 3
    then have "got_add got n so k = got"
      by (auto simp: got_add_def fun_eq_iff)
    moreover have "am_segment_already_received e sn so k"
      using am_already_received [OF e 3(2) n(2)] 3(3) p(2) by simp
    ultimately show ?thesis
      using 3 e k by (auto simp: am_recv_segment_def k_def got'_def Let_def)
  next
    case 4
    have "\<not> am_segment_already_received e sn so k"
      using am_already_received [OF e 4(2) n(2)] 4(3) p(2) by simp
    then have "am_recv_segment e buffer pb sn so f l h =
        rbind (am_reception_actions (e\<lparr>am_rx_size := am_rx_size e + p_size ?p,
          am_rx_list := nr_rlc_pdu_list_add (am_sn_compare_rx e) (am_rx_list e) ?p\<rparr>) (p_sn ?p))
          (\<lambda>e'. Inr (am_poll_bit e' pb))"
      using 4 k win unfolding ps by (simp add: am_recv_segment_def k_def)
    moreover have "{so..<so + k} \<subseteq> {0..<int (length (sdu n))}"
      using range by auto
    then have "\<not> complete sdu got n"
      using 4(3) unfolding complete_def by (meson order_trans)
    ultimately show ?thesis
      using am_actions_ok [OF e sdu 4(2) n(2) _ p(1)] p(2) ps 4(1) by (auto simp: got'_def)
  qed
qed

section \<open>Data PDUs\<close>

text \<open>The header of a data PDU, and the PDU of a piece of an SDU.\<close>

definition am_fields :: "nat \<Rightarrow> bool \<Rightarrow> int \<Rightarrow> int \<Rightarrow> bool \<Rightarrow> (int \<times> nat) list" where
  "am_fields len poll sn so is_last =
     [(1, 1), (of_bool poll, 1), (of_bool (so \<noteq> 0), 1), (of_bool (\<not> is_last), 1)] @
     (if len = 18 then [(0, 2)] else []) @ [(sn, len)] @ (if so \<noteq> 0 then [(so, 16)] else [])"

definition am_encodes ::
  "nat \<Rightarrow> byte list \<Rightarrow> bool \<Rightarrow> int \<Rightarrow> int \<Rightarrow> bool \<Rightarrow> byte list \<Rightarrow> bool" where
  "am_encodes len bytes poll sn so is_last d \<longleftrightarrow>
     (\<exists>hdr. bytes = hdr @ d \<and> bytes_bits hdr = fields_bits (am_fields len poll sn so is_last))"

lemma odd_of_bool [simp]: "odd (of_bool b :: int) \<longleftrightarrow> b"
  by simp

lemma am_recv_encoded:
  assumes len: "am_sn_field_length e \<in> {12, 18}"
    and enc: "am_encodes (am_sn_field_length e) bytes poll sn so l d"
    and ok: "d \<noteq> []" "0 \<le> sn" "sn < 2 ^ am_sn_field_length e" "0 \<le> so" "so < 2 ^ 16"
  shows "nr_rlc_entity_am_recv_pdu e bytes =
    am_recv_segment e bytes (of_bool poll) sn so (so = 0) l (length bytes - length d)"
proof -
  let ?len = "am_sn_field_length e"
  obtain hdr where bytes: "bytes = hdr @ d"
    and bits: "bytes_bits hdr = fields_bits (am_fields ?len poll sn so l)"
    using enc by (auto simp: am_encodes_def)
  have hlen: "8 * length hdr = sum_list (map snd (am_fields ?len poll sn so l))"
    using arg_cong [OF bits, of length] by (simp add: length_fields_bits)
  have rest: "bytes_bits bytes = fields_bits (am_fields ?len poll sn so l) @ bytes_bits d"
    by (simp add: bytes bits)
  have t: "take_bit ?len sn = sn" "take_bit 16 so = so"
    using ok by (simp_all add: take_bit_int_eq_self_iff)
  have h: "length bytes - length d = length hdr"
    by (simp add: bytes)
  show ?thesis
    unfolding h using len rest hlen t
    by (cases "so = 0")
       (auto simp: nr_rlc_entity_am_recv_pdu_def am_fields_def Let_def fields_bits_def d_byte_dec_skip
         bits_simps bits_val_Cons)
qed

text \<open>\<open>bytes\<close> is a PDU of \<open>k\<close> bytes at \<open>so\<close> of the SDU \<open>n\<close>.\<close>

definition am_pdu_of :: "nat \<Rightarrow> (nat \<Rightarrow> byte list) \<Rightarrow> byte list \<Rightarrow> nat \<Rightarrow> nat \<Rightarrow> nat \<Rightarrow> bool" where
  "am_pdu_of len sdu bytes n so k \<longleftrightarrow> 0 < k \<and> so + k \<le> length (sdu n) \<and>
     (\<exists>poll. am_encodes len bytes poll (int n mod 2 ^ len) (int so) (so + k = length (sdu n))
        (take k (drop so (sdu n))))"

text \<open>
  What the windows of the two sides guarantee: every SDU a whole window before \<open>n\<close> has been received,
  and not every SDU up to a window behind \<open>n\<close>.
\<close>

definition window_ok :: "nat \<Rightarrow> (nat \<Rightarrow> byte list) \<Rightarrow> (nat \<Rightarrow> int set) \<Rightarrow> nat \<Rightarrow> bool" where
  "window_ok W sdu got n \<longleftrightarrow>
     (\<forall>m. m + W \<le> n \<longrightarrow> complete sdu got m) \<and> (\<exists>m \<le> n + W. \<not> complete sdu got m)"

definition am_rx_at :: "(nat \<Rightarrow> byte list) \<Rightarrow> (nat \<Rightarrow> int set) \<Rightarrow> nr_rlc_entity_am \<Rightarrow> bool" where
  "am_rx_at sdu got e \<longleftrightarrow> (\<exists>N. am_rx_inv sdu got N e)"

lemma piece_of_slice:
  assumes "0 < k" and "so + k \<le> length x"
  shows "piece_of x (nr_rlc_new_pdu sn (int so) (int so = 0) (so + k = length x) (take k (drop so x)))"
  using assms by (auto simp: piece_of_def nr_rlc_new_pdu_def)

lemma am_window_ok:
  assumes e: "am_rx_inv sdu got N e" and w: "window_ok W sdu got n" and "int W = am_window_size e"
  shows "int N \<le> int n + am_window_size e" and "int n < int N + am_window_size e"
proof -
  note inv = am_rx_invD [OF e]
  obtain m where "m \<le> n + W" "\<not> complete sdu got m"
    using w by (auto simp: window_ok_def)
  then have "N \<le> n + W"
    using inv(5) by (meson leI order_trans)
  then show "int N \<le> int n + am_window_size e"
    using assms(3) by simp
  have "\<not> N + W \<le> n"
    using w inv(6) by (auto simp: window_ok_def)
  then show "int n < int N + am_window_size e"
    using assms(3) by simp
qed

lemma am_receive_pdu:
  assumes e: "am_rx_at sdu got e" and sdu: "sdus_ok sdu"
    and pdu: "am_pdu_of (am_sn_field_length e) sdu bytes n so k"
    and w: "window_ok (2 ^ (am_sn_field_length e - 1)) sdu got n"
  defines "got' \<equiv> if am_rx_size e + int k \<le> am_rx_maxsize e then got_add got n (int so) (int k) else got"
  shows "\<exists>e'. nr_rlc_entity_am_recv_pdu e bytes = Inr e' \<and> am_rx_at sdu got' e' \<and>
    am_out e' = am_out e @ delivers sdu got got' n \<and> am_rx_frame e e' (int k)"
proof -
  let ?len = "am_sn_field_length e" and ?x = "sdu n"
  obtain N where N: "am_rx_inv sdu got N e"
    using e by (auto simp: am_rx_at_def)
  have cfg: "?len \<in> {12, 18}" "am_sn_modulus e = 2 ^ ?len" "int (2 ^ (?len - 1)) = am_window_size e"
    using am_rx_invD(1) [OF N] by (auto simp: am_config_ok_def)
  obtain poll where k: "0 < k" "so + k \<le> length ?x" and
    enc: "am_encodes ?len bytes poll (int n mod 2 ^ ?len) (int so) (so + k = length ?x) (take k (drop so ?x))"
    using pdu by (auto simp: am_pdu_of_def)
  have "int (length ?x) \<le> NR_SDU_MAX"
    using sdu by (simp add: sdus_ok_def)
  then have so: "int so < 2 ^ 16"
    using k by (simp add: NR_SDU_MAX_def)
  let ?h = "length bytes - length (take k (drop so ?x))"
  have d: "drop ?h bytes = take k (drop so ?x)" "?h < length bytes" "int (length bytes) - int ?h = int k"
    using enc k by (auto simp: am_encodes_def)
  have "nr_rlc_entity_am_recv_pdu e bytes = am_recv_segment e bytes (of_bool poll) (int n mod 2 ^ ?len)
      (int so) (int so = 0) (so + k = length ?x) ?h"
    using k so by (intro am_recv_encoded [OF cfg(1) enc]) auto
  moreover have "piece_of ?x (nr_rlc_new_pdu (int n mod 2 ^ ?len) (int so) (int so = 0)
      (so + k = length ?x) (drop ?h bytes))"
    unfolding d(1) using k by (rule piece_of_slice)
  moreover have "int n mod 2 ^ ?len = int n mod am_sn_modulus e"
    by (simp add: cfg(2))
  ultimately show ?thesis
    using am_recv_segment_ok [OF N sdu am_window_ok [OF N w cfg(3)] d(2), of "int n mod 2 ^ ?len"
        "int so" "int so = 0" "so + k = length ?x" "of_bool poll"]
    unfolding d(3) got'_def am_rx_at_def by metis

qed

section \<open>Sequences of PDUs\<close>

text \<open>An arriving PDU and what it carries: the number of the SDU, the offset, and the number of bytes.\<close>

type_synonym am_arrival = "byte list \<times> nat \<times> nat \<times> nat"

fun am_rx_run :: "nr_rlc_entity_am \<Rightarrow> am_arrival list \<Rightarrow> nr_rlc_entity_am res" where
  "am_rx_run e [] = Inr e"
| "am_rx_run e ((bytes, _) # as) = rbind (nr_rlc_entity_am_recv_pdu e bytes) (\<lambda>e'. am_rx_run e' as)"

fun got_after :: "(nat \<Rightarrow> int set) \<Rightarrow> am_arrival list \<Rightarrow> nat \<Rightarrow> int set" where
  "got_after got [] = got"
| "got_after got ((_, n, so, k) # as) = got_after (got_add got n (int so) (int k)) as"

fun am_arrivals_ok :: "nat \<Rightarrow> (nat \<Rightarrow> byte list) \<Rightarrow> (nat \<Rightarrow> int set) \<Rightarrow> am_arrival list \<Rightarrow> bool" where
  "am_arrivals_ok len sdu got [] \<longleftrightarrow> True"
| "am_arrivals_ok len sdu got ((bytes, n, so, k) # as) \<longleftrightarrow>
     am_pdu_of len sdu bytes n so k \<and> window_ok (2 ^ (len - 1)) sdu got n \<and>
     am_arrivals_ok len sdu (got_add got n (int so) (int k)) as"

definition arrived :: "am_arrival list \<Rightarrow> nat \<Rightarrow> int \<Rightarrow> bool" where
  "arrived as n b \<longleftrightarrow> (\<exists>(bytes, m, so, k) \<in> set as. m = n \<and> int so \<le> b \<and> b < int so + int k)"

lemma arrived_simps [simp]:
  "\<not> arrived [] n b"
  "arrived ((bytes, m, so, k) # as) n b \<longleftrightarrow> m = n \<and> int so \<le> b \<and> b < int so + int k \<or> arrived as n b"
  by (simp_all add: arrived_def)

lemma got_add_iff: "b \<in> got_add got m so k n \<longleftrightarrow> b \<in> got n \<or> m = n \<and> so \<le> b \<and> b < so + k"
  by (auto simp: got_add_def)

lemma got_after_iff: "b \<in> got_after got as n \<longleftrightarrow> b \<in> got n \<or> arrived as n b"
  by (induction got as rule: got_after.induct) (simp_all add: got_add_iff)

definition delivered_in :: "(nat \<Rightarrow> byte list) \<Rightarrow> nat list \<Rightarrow> rlc_event list" where
  "delivered_in sdu ns = map (\<lambda>n. Deliver_sdu (sdu n)) ns"

lemma complete_mono: "complete sdu got m \<Longrightarrow> complete sdu (got_add got n so sz) m"
  by (auto simp: complete_def got_add_def)

lemma am_rx_run_ok:
  assumes "am_rx_at sdu got e" and "sdus_ok sdu" and "am_arrivals_ok (am_sn_field_length e) sdu got as"
    and "am_rx_size e + (\<Sum>(bytes, n, so, k) \<leftarrow> as. int k) \<le> am_rx_maxsize e"
  shows "\<exists>e' ns. am_rx_run e as = Inr e' \<and> am_rx_at sdu (got_after got as) e' \<and>
    am_out e' = am_out e @ delivered_in sdu ns \<and> distinct ns \<and>
    set ns = {n. complete sdu (got_after got as) n \<and> \<not> complete sdu got n}"
  using assms
proof (induction as arbitrary: got e)
  case Nil
  then show ?case
    by (auto simp: delivered_in_def intro!: exI [of _ "[]"])
next
  case (Cons a as)
  obtain bytes n so k where a: "a = (bytes, n, so, k)"
    by (cases a)
  let ?got = "got_add got n (int so) (int k)"
  have total: "0 \<le> (\<Sum>(bytes, n, so, k) \<leftarrow> as. int k)"
    by (intro sum_list_nonneg) auto
  have room: "am_rx_size e + int k \<le> am_rx_maxsize e"
    using Cons.prems(4) a total by simp
  obtain e1 where e1: "nr_rlc_entity_am_recv_pdu e bytes = Inr e1" "am_rx_at sdu ?got e1"
    "am_out e1 = am_out e @ delivers sdu got ?got n" "am_rx_frame e e1 (int k)"
    using am_receive_pdu [OF Cons.prems(1,2), of bytes n so k] Cons.prems(3) a room by auto
  have rest: "am_arrivals_ok (am_sn_field_length e1) sdu ?got as"
    "am_rx_size e1 + (\<Sum>(bytes, n, so, k) \<leftarrow> as. int k) \<le> am_rx_maxsize e1"
    using Cons.prems(3,4) a e1(4) by (auto simp: am_rx_frame_def)
  obtain e2 ns where e2: "am_rx_run e1 as = Inr e2" "am_rx_at sdu (got_after ?got as) e2"
    "am_out e2 = am_out e1 @ delivered_in sdu ns" "distinct ns"
    "set ns = {n. complete sdu (got_after ?got as) n \<and> \<not> complete sdu ?got n}"
    using Cons.IH [OF e1(2) Cons.prems(2) rest] by blast
  define new where "new = (if complete sdu ?got n \<and> \<not> complete sdu got n then [n] else [])"
  have out: "am_out e2 = am_out e @ delivered_in sdu (new @ ns)"
    using e1(3) e2(3) by (simp add: delivered_in_def delivers_def new_def)
  have mono: "complete sdu (got_after ?got as) m" if "complete sdu ?got m" for m
    using that got_after_iff [of _ ?got as m] by (auto simp: complete_def)
  have "m \<in> set (new @ ns) \<longleftrightarrow> complete sdu (got_after ?got as) m \<and> \<not> complete sdu got m" for m
    using e2(5) mono [of m] complete_mono [of sdu got m n "int so" "int k"]
      complete_got_add [of m n sdu got "int so" "int k"]
    by (cases "m = n") (auto simp: new_def)
  moreover have "distinct (new @ ns)"
    using e2(4,5) by (auto simp: new_def)
  ultimately show ?case
    using a e1(1) e2(1,2) out by (intro exI [of _ e2] exI [of _ "new @ ns"]) auto
qed

lemma am_rx_at_new:
  assumes "new_nr_rlc_entity_am rx_maxsize tx_maxsize t_poll t_reass t_status poll_pdu poll_byte retx len
      = Inr e" and "sdus_ok sdu"
  shows "am_rx_at sdu (\<lambda>_. {}) e" "am_rx_size e = 0" "am_out e = []" "am_sn_field_length e = len"
    "am_rx_maxsize e = rx_maxsize"
proof -
  have "\<not> complete sdu (\<lambda>_. {}) 0"
    using complete_nonempty [OF assms(2)] by blast
  moreover have "len \<in> {12, 18}"
    using assms(1) by (auto simp: new_nr_rlc_entity_am_def split: if_splits)
  then have "am_nodes (2 ^ len) (2 ^ len div 2) sdu (\<lambda>_. {}) D 0 []" for D
    by (intro am_nodesI) (auto simp: pdu_sorted_def)
  ultimately have "am_rx_inv sdu (\<lambda>_. {}) 0 e"
    using assms(1)
    by (auto simp: new_nr_rlc_entity_am_def am_rx_inv_def am_config_ok_def am_sn_ok_def push_bit_eq_mult
        split: if_splits)
  then show "am_rx_at sdu (\<lambda>_. {}) e"
    by (auto simp: am_rx_at_def)
  show "am_rx_size e = 0" "am_out e = []" "am_sn_field_length e = len" "am_rx_maxsize e = rx_maxsize"
    using assms(1) by (auto simp: new_nr_rlc_entity_am_def split: if_splits)
qed

text \<open>C5: the acknowledged mode receiver is exact. PDUs of the SDUs \<open>sdu 0, sdu 1, \<dots>\<close> arrive in any
  order, cut in any way, repeated and overlapping, with some missing, as long as the windows of the
  two sides keep their numbers apart and the receive buffer is large enough. Then no PDU makes the
  entity fail, every delivered SDU is one of the SDUs sent, none is delivered twice, and an SDU is
  delivered exactly if all of its bytes have arrived.\<close>

theorem am_receiver_exact:
  assumes "new_nr_rlc_entity_am rx_maxsize tx_maxsize t_poll t_reass t_status poll_pdu poll_byte retx len
      = Inr e"
    and "\<forall>n. sdu n \<noteq> [] \<and> int (length (sdu n)) \<le> NR_SDU_MAX"
    and "am_arrivals_ok len sdu (\<lambda>_. {}) as"
    and "(\<Sum>(bytes, n, so, k) \<leftarrow> as. int k) \<le> rx_maxsize"
  shows "\<exists>e' ns. am_rx_run e as = Inr e' \<and> am_out e' = map (\<lambda>n. Deliver_sdu (sdu n)) ns \<and> distinct ns \<and>
    set ns = {n. \<forall>b. 0 \<le> b \<and> b < int (length (sdu n)) \<longrightarrow> arrived as n b}"
proof -
  have sdu: "sdus_ok sdu"
    using assms(2) by (simp add: sdus_ok_def)
  note new = am_rx_at_new [OF assms(1) sdu]
  have "\<not> complete sdu (\<lambda>_. {}) n" for n
    using complete_nonempty [OF sdu] by blast
  moreover have "complete sdu (got_after (\<lambda>_. {}) as) n \<longleftrightarrow>
      (\<forall>b. 0 \<le> b \<and> b < int (length (sdu n)) \<longrightarrow> arrived as n b)" for n
    by (auto simp: complete_def got_after_iff)
  ultimately show ?thesis
    using am_rx_run_ok [OF new(1) sdu, of as] new(2-5) assms(3,4)
    by (auto simp: delivered_in_def)
qed

theorem am_receiver_exact_witness:
  "\<exists>e e'. new_nr_rlc_entity_am 1000 1000 45 35 0 (-1) (-1) 8 12 = Inr e \<and>
     am_rx_run e [([0xa0, 0, 0, 2, 3], 0, 2, 1), ([0x90, 0, 1, 2], 0, 0, 2)] = Inr e' \<and>
     am_out e' = [Deliver_sdu [1, 2, 3]]"
proof -
  let ?sdu = "\<lambda>n :: nat. [1, 2, 3 :: byte]"
  let ?as = "[([0xa0, 0, 0, 2, 3], 0, 2, 1), ([0x90, 0, 1, 2], 0, 0, 2)] :: am_arrival list"
  obtain e where e: "new_nr_rlc_entity_am 1000 1000 45 35 0 (-1) (-1) 8 12 = Inr e"
    by (simp add: new_nr_rlc_entity_am_def)
  have "am_encodes 12 [0xa0, 0, 0, 2, 3] False 0 2 True [3]"
    unfolding am_encodes_def by (intro exI [of _ "[0xa0, 0, 0, 2]"]) code_simp
  moreover have "am_encodes 12 [0x90, 0, 1, 2] False 0 0 False [1, 2]"
    unfolding am_encodes_def by (intro exI [of _ "[0x90, 0]"]) code_simp
  moreover have "window_ok 2048 ?sdu got 0" if "got 1 = {}" for got
    using that by (auto simp: window_ok_def complete_def intro!: exI [of _ 1])
  ultimately have "am_arrivals_ok 12 ?sdu (\<lambda>_. {}) ?as"
    by (auto simp: am_pdu_of_def got_add_def)
  then obtain e' ns where "am_rx_run e ?as = Inr e'" "am_out e' = map (\<lambda>n. Deliver_sdu (?sdu n)) ns"
    "distinct ns" "set ns = {n. \<forall>b. 0 \<le> b \<and> b < int (length (?sdu n)) \<longrightarrow> arrived ?as n b}"
    using am_receiver_exact [OF e, of ?sdu ?as] by (auto simp: NR_SDU_MAX_def)
  moreover have "{n. \<forall>b. 0 \<le> b \<and> b < int (length (?sdu n)) \<longrightarrow> arrived ?as n b} = {0}"
    by (auto intro: exI [of _ 0])
  ultimately have "am_rx_run e ?as = Inr e'" "am_out e' = map (\<lambda>n. Deliver_sdu (?sdu n)) ns"
    "distinct ns" "set ns = {0}"
    by simp_all
  moreover from this have "length ns = 1"
    by (metis card.empty card_insert_disjoint distinct_card finite.emptyI insert_absorb One_nat_def
        insert_not_empty)
  then have "map (\<lambda>n. Deliver_sdu (?sdu n)) ns = [Deliver_sdu [1, 2, 3]]"
    by (cases ns) auto
  ultimately show ?thesis
    using e by auto
qed

text \<open>C19: the check for repeated segments is exact. On a reception list ordered by sequence number and
  offset, a segment counts as already received exactly if each of its bytes is in a PDU of the list
  with that sequence number.\<close>

theorem am_repeat_check_exact:
  assumes "pdu_sorted key (am_rx_list e)" and "\<forall>p \<in> set (am_rx_list e). 0 < p_size p"
  shows "am_segment_already_received e sn so sz \<longleftrightarrow>
    (\<forall>b. so \<le> b \<and> b < so + sz \<longrightarrow>
       (\<exists>p \<in> set (am_rx_list e). p_sn p = sn \<and> p_so p \<le> b \<and> b < p_so p + p_size p))"
proof -
  let ?f = "filter (\<lambda>p. p_sn p = sn) (am_rx_list e)"
  have "already_received_scan ?f sn so sz \<le> 0 \<longleftrightarrow> (\<forall>b. so \<le> b \<and> b < so + sz \<longrightarrow> covers ?f b)"
    using assms(2) sorted_so_filter [OF assms(1)] by (intro already_received_scan_iff) auto
  then show ?thesis
    by (auto simp: am_segment_already_received_def already_received_scan_filter [of "am_rx_list e"]
        covers_def)
qed

theorem am_repeat_check_exact_witness:
  "\<exists>e. new_nr_rlc_entity_am 1000 1000 45 35 0 (-1) (-1) 8 12 = Inr e \<and>
     am_segment_already_received
       (e\<lparr>am_rx_list := [nr_rlc_new_pdu 0 0 True False [1, 2], nr_rlc_new_pdu 0 2 False False [3, 4]]\<rparr>) 0 1 2"
proof -
  let ?l = "[nr_rlc_new_pdu 0 0 True False [1, 2], nr_rlc_new_pdu 0 2 False False [3, 4]]"
  obtain e where e: "new_nr_rlc_entity_am 1000 1000 45 35 0 (-1) (-1) 8 12 = Inr e"
    by (simp add: new_nr_rlc_entity_am_def)
  have "pdu_sorted id ?l" "\<forall>p \<in> set ?l. 0 < p_size p"
    by (simp_all add: pdu_sorted_def sn_so_le_def nr_rlc_new_pdu_def)
  then show ?thesis
    using e am_repeat_check_exact [of id "e\<lparr>am_rx_list := ?l\<rparr>" 0 1 2]
    by (auto simp: nr_rlc_new_pdu_def)
qed

end
