(* ===== verification/NR_RLC_Am_Runs.thy ===== *)
theory NR_RLC_Am_Runs
  imports NR_RLC_Am_Report NR_RLC_Am_Rx
begin

text \<open>Runs of an acknowledged mode entity: the calls of the layers around it in any order.\<close>

section \<open>Sequences of calls\<close>

text \<open>
  The calls of the layers around an entity: SDUs from above, PDUs and transmission opportunities from
  below, the clock. The generated PDU is dropped, only the state counts here.
\<close>

datatype am_call = Recv_sdu "byte list" int | Recv_pdu "byte list" | Generate_pdu nat | Set_time "64 word"

fun am_do :: "am_call \<Rightarrow> nr_rlc_entity_am \<Rightarrow> nr_rlc_entity_am res" where
  "am_do (Recv_sdu buffer sdu_id) e = nr_rlc_entity_am_recv_sdu e buffer sdu_id"
| "am_do (Recv_pdu buffer) e = nr_rlc_entity_am_recv_pdu e buffer"
| "am_do (Generate_pdu n) e =
     rbind (nr_rlc_entity_am_generate_pdu e (replicate n 0)) (\<lambda>(_, _, e'). Inr e')"
| "am_do (Set_time now) e = nr_rlc_entity_am_set_time e now"

fun am_calls :: "am_call list \<Rightarrow> nr_rlc_entity_am \<Rightarrow> nr_rlc_entity_am res" where
  "am_calls [] e = Inr e"
| "am_calls (c # cs) e = rbind (am_do c e) (am_calls cs)"



end
