(* ===== verification/L2_Ring.thy ===== *)
theory L2_Ring
  imports L2_Prelude "HOL-Library.Multiset"
begin

text \<open>
  The two queues of \<^verbatim>\<open>nr_pdcp_oai_api.c\<close>, \<^verbatim>\<open>rlc_data_req_queue\<close> and \<^verbatim>\<open>pdcp_data_ind_queue\<close>: arrays used as
  rings, filled by any number of threads and emptied by one. The mutex makes the sections between
  \<^verbatim>\<open>pthread_mutex_lock\<close> and \<^verbatim>\<open>pthread_mutex_unlock\<close> atomic, so each is one step; the consumer works on its
  item outside the lock, through a pointer into the array. A producer that finds the ring full waits,
  that is, its step is not enabled.
\<close>

section \<open>The interface of a queue between threads\<close>

text \<open>
  \<open>enq\<close> is the producer's section, \<open>front\<close> what the consumer sees through the index it has taken, \<open>pop\<close>
  its closing section.
\<close>

locale thread_queue =
  fixes enq :: "'q \<Rightarrow> 'a \<Rightarrow> 'q option"
    and front :: "'q \<Rightarrow> 'a option"
    and pop :: "'q \<Rightarrow> 'q"
    and pending :: "'q \<Rightarrow> 'a list"
    and invar :: "'q \<Rightarrow> bool"
    and capacity :: nat
  assumes pending_enq: "invar q \<Longrightarrow> enq q x = Some q' \<Longrightarrow> pending q' = pending q @ [x]"
    and invar_enq: "invar q \<Longrightarrow> enq q x = Some q' \<Longrightarrow> invar q'"
    and enq_full: "invar q \<Longrightarrow> enq q x = None \<longleftrightarrow> length (pending q) = capacity"
    and front_hd: "invar q \<Longrightarrow> front q = (case pending q of [] \<Rightarrow> None | x # _ \<Rightarrow> Some x)"
    and pending_pop: "invar q \<Longrightarrow> pending q \<noteq> [] \<Longrightarrow> pending (pop q) = tl (pending q)"
    and invar_pop: "invar q \<Longrightarrow> pending q \<noteq> [] \<Longrightarrow> invar (pop q)"
begin

text \<open>
  A run: producers append, the consumer starts on the front item and later drops it. \<open>put\<close> is what has
  been appended, \<open>got\<close> what has been dropped, \<open>busy\<close> whether the consumer is at work.
\<close>

inductive run :: "'q \<Rightarrow> 'q \<Rightarrow> 'a list \<Rightarrow> 'a list \<Rightarrow> bool \<Rightarrow> bool" for q0 where
  run_start: "run q0 q0 [] [] False"
| run_enq: "run q0 q put got busy \<Longrightarrow> enq q x = Some q' \<Longrightarrow> run q0 q' (put @ [x]) got busy"
| run_take: "run q0 q put got False \<Longrightarrow> front q = Some x \<Longrightarrow> run q0 q put got True"
| run_pop: "run q0 q put got True \<Longrightarrow> front q = Some x \<Longrightarrow> run q0 (pop q) put (got @ [x]) False"

lemma run_inv:
  assumes "run q0 q put got busy" "invar q0" "pending q0 = []"
  shows "invar q \<and> put = got @ pending q \<and> (busy \<longrightarrow> pending q \<noteq> [])"
  using assms
proof (induction rule: run.induct)
  case (run_enq q put got busy x q')
  then have "invar q" "put = got @ pending q" "busy \<longrightarrow> pending q \<noteq> []"
    by auto
  then show ?case
    using run_enq.hyps(2) pending_enq invar_enq by simp
next
  case (run_take q put got x)
  then have i: "invar q" "put = got @ pending q"
    by auto
  then have "pending q \<noteq> []"
    using run_take.hyps(2) front_hd by auto
  then show ?case
    using i by simp
next
  case (run_pop q put got x)
  then have i: "invar q" "put = got @ pending q" "pending q \<noteq> []"
    by auto
  moreover from i have "x # tl (pending q) = pending q"
    using run_pop.hyps(2) front_hd by (auto split: list.splits)
  ultimately show ?case
    using pending_pop invar_pop by simp
qed simp

text \<open>The consumer sees each item once and in order, and the item it works on stays what it is.\<close>

lemma run_fifo:
  assumes "run q0 q put got busy" "invar q0" "pending q0 = []"
  shows "got = take (length got) put" "busy \<Longrightarrow> front q = Some (put ! length got)"
    "put = got @ pending q"
proof -
  have i: "invar q" "put = got @ pending q" "busy \<longrightarrow> pending q \<noteq> []"
    using run_inv [OF assms] by auto
  then show "got = take (length got) put" "put = got @ pending q"
    by simp_all
  show "front q = Some (put ! length got)" if busy
    using i that front_hd by (auto simp: nth_append split: list.splits)
qed

end

section \<open>The ring\<close>

record 'a ring =
  rg_q :: "'a list"
  rg_start :: nat
  rg_length :: nat

text \<open>The size of the array is the length of \<open>rg_q\<close>.\<close>

definition ring_enqueue :: "'a ring \<Rightarrow> 'a \<Rightarrow> 'a ring option" where
  "ring_enqueue r x =
     (let n = length (rg_q r) in
      if rg_length r = n then None
      else
        let i = (rg_start r + rg_length r) mod n
        in Some (r\<lparr>rg_length := rg_length r + 1, rg_q := (rg_q r)[i := x]\<rparr>))"

text \<open>The consumer's first section gives the index \<^verbatim>\<open>start\<close>; its item is read through that index.\<close>

definition ring_front :: "'a ring \<Rightarrow> 'a option" where
  "ring_front r = (if rg_length r = 0 then None else Some (rg_q r ! rg_start r))"

definition ring_release :: "'a ring \<Rightarrow> 'a ring" where
  "ring_release r =
     r\<lparr>rg_length := rg_length r - 1, rg_start := (rg_start r + 1) mod length (rg_q r)\<rparr>"

definition ring_items :: "'a ring \<Rightarrow> 'a list" where
  "ring_items r = map (\<lambda>k. rg_q r ! ((rg_start r + k) mod length (rg_q r))) [0..<rg_length r]"

definition ring_ok :: "nat \<Rightarrow> 'a ring \<Rightarrow> bool" where
  "ring_ok n r \<longleftrightarrow> 0 < n \<and> length (rg_q r) = n \<and> rg_start r < n \<and> rg_length r \<le> n"

lemma mod_add_inject_le:
  fixes a b s n :: nat
  assumes "(s + b) mod n = (s + a) mod n" "a \<le> b" "b < n"
  shows "a = b"
proof -
  have "n dvd (s + b) - (s + a)"
    using assms(1,2) by (subst mod_eq_dvd_iff_nat [symmetric]) auto
  then have "n dvd b - a"
    by simp
  then show ?thesis
    using assms(2,3) by (auto dest: dvd_imp_le)
qed

lemma mod_add_inject:
  fixes a b s n :: nat
  assumes "(s + a) mod n = (s + b) mod n" "a < n" "b < n"
  shows "a = b"
  using mod_add_inject_le [of s a n b] mod_add_inject_le [of s b n a] assms
  by (cases "a \<le> b") auto

lemma length_ring_items [simp]: "length (ring_items r) = rg_length r"
  by (simp add: ring_items_def)

lemma ring_items_enqueue:
  assumes ok: "ring_ok n r" and enq: "ring_enqueue r x = Some r'"
  shows "ring_items r' = ring_items r @ [x]" "ring_ok n r'"
proof -
  have n: "0 < n" "length (rg_q r) = n" "rg_length r < n"
    using ok enq by (auto simp: ring_ok_def ring_enqueue_def Let_def split: if_splits)
  have r': "r' = r\<lparr>rg_length := rg_length r + 1,
      rg_q := (rg_q r)[(rg_start r + rg_length r) mod n := x]\<rparr>"
    using enq n by (simp add: ring_enqueue_def Let_def)
  have other: "(rg_start r + rg_length r) mod n \<noteq> (rg_start r + k) mod n" if "k < rg_length r" for k
    using mod_add_inject [of "rg_start r" "rg_length r" n k] that n by auto
  show "ring_items r' = ring_items r @ [x]"
    using n other by (simp add: ring_items_def r')
  show "ring_ok n r'"
    using ok n by (simp add: ring_ok_def r')
qed

lemma ring_enqueue_None: "ring_ok n r \<Longrightarrow> ring_enqueue r x = None \<longleftrightarrow> length (ring_items r) = n"
  by (auto simp: ring_enqueue_def ring_ok_def Let_def)

lemma ring_items_front:
  assumes "ring_ok n r"
  shows "ring_front r = (case ring_items r of [] \<Rightarrow> None | x # _ \<Rightarrow> Some x)"
  using assms
  by (cases "rg_length r")
     (auto simp: ring_front_def ring_items_def ring_ok_def upt_conv_Cons simp del: upt_Suc)

lemma ring_items_release:
  assumes ok: "ring_ok n r" and ne: "ring_items r \<noteq> []"
  shows "ring_items (ring_release r) = tl (ring_items r)" "ring_ok n (ring_release r)"
proof -
  have n: "0 < n" "length (rg_q r) = n" "0 < rg_length r"
    using ok ne by (auto simp: ring_ok_def ring_items_def)
  show "ring_items (ring_release r) = tl (ring_items r)"
    using n by (intro nth_equalityI)
      (auto simp: ring_items_def ring_release_def nth_tl mod_add_left_eq)
  show "ring_ok n (ring_release r)"
    using ok n by (auto simp: ring_ok_def ring_release_def)
qed

interpretation tq: thread_queue ring_enqueue ring_front ring_release ring_items "ring_ok n" n for n
  by unfold_locales
    (auto simp: ring_items_enqueue ring_enqueue_None ring_items_front ring_items_release)

section \<open>The threads of a queue\<close>

text \<open>
  The consumer is outside the lock before its first section (\<open>C_run\<close>), waits on the condition variable
  (\<open>C_wait\<close>), or works on the item of the index it took (\<open>C_busy\<close>).
\<close>

datatype consumer = C_run | C_wait | C_busy nat

text \<open>
  \<open>qs_wait\<close> are the items of the producers asleep on the condition variable, \<open>qs_woken\<close> those of the
  producers that have been woken and test \<^verbatim>\<open>length == SIZE\<close> again. \<open>qs_put\<close> and \<open>qs_got\<close> record the items
  written into the ring and the items the consumer has worked on.
\<close>

record 'a qsys =
  qs_ring :: "'a ring"
  qs_cons :: consumer
  qs_wait :: "'a multiset"
  qs_woken :: "'a multiset"
  qs_put :: "'a list"
  qs_got :: "'a list"

definition qsys_init :: "'a ring \<Rightarrow> 'a qsys" where
  "qsys_init r = \<lparr>qs_ring = r, qs_cons = C_run, qs_wait = {#}, qs_woken = {#}, qs_put = [], qs_got = []\<rparr>"

text \<open>
  \<^verbatim>\<open>pthread_cond_signal\<close> wakes one of the threads asleep on the one condition variable the producers and
  the consumer share, whichever the scheduler takes, and does nothing when none sleeps.
\<close>

inductive cond_signal :: "'a qsys \<Rightarrow> 'a qsys \<Rightarrow> bool" where
  signal_none: "qs_cons s \<noteq> C_wait \<Longrightarrow> qs_wait s = {#} \<Longrightarrow> cond_signal s s"
| signal_cons: "qs_cons s = C_wait \<Longrightarrow> cond_signal s (s\<lparr>qs_cons := C_run\<rparr>)"
| signal_prod: "x \<in># qs_wait s \<Longrightarrow>
    cond_signal s (s\<lparr>qs_wait := qs_wait s - {#x#}, qs_woken := add_mset x (qs_woken s)\<rparr>)"

text \<open>
  One atomic section of a thread, with at most \<open>k\<close> producers inside the enqueue call at a time. The
  condition variable may also wake a thread without a signal.
\<close>

inductive qstep :: "nat \<Rightarrow> 'a qsys \<Rightarrow> 'a qsys \<Rightarrow> bool" for k where
  call_put: "size (qs_wait s) + size (qs_woken s) < k \<Longrightarrow> ring_enqueue (qs_ring s) x = Some r \<Longrightarrow>
    cond_signal (s\<lparr>qs_ring := r, qs_put := qs_put s @ [x]\<rparr>) s' \<Longrightarrow> qstep k s s'"
| call_wait: "size (qs_wait s) + size (qs_woken s) < k \<Longrightarrow> ring_enqueue (qs_ring s) x = None \<Longrightarrow>
    qstep k s (s\<lparr>qs_wait := add_mset x (qs_wait s)\<rparr>)"
| woken_put: "x \<in># qs_woken s \<Longrightarrow> ring_enqueue (qs_ring s) x = Some r \<Longrightarrow>
    cond_signal (s\<lparr>qs_ring := r, qs_put := qs_put s @ [x], qs_woken := qs_woken s - {#x#}\<rparr>) s' \<Longrightarrow>
    qstep k s s'"
| woken_wait: "x \<in># qs_woken s \<Longrightarrow> ring_enqueue (qs_ring s) x = None \<Longrightarrow>
    qstep k s (s\<lparr>qs_woken := qs_woken s - {#x#}, qs_wait := add_mset x (qs_wait s)\<rparr>)"
| spurious_prod: "x \<in># qs_wait s \<Longrightarrow>
    qstep k s (s\<lparr>qs_wait := qs_wait s - {#x#}, qs_woken := add_mset x (qs_woken s)\<rparr>)"
| spurious_cons: "qs_cons s = C_wait \<Longrightarrow> qstep k s (s\<lparr>qs_cons := C_run\<rparr>)"
| cons_wait: "qs_cons s = C_run \<Longrightarrow> rg_length (qs_ring s) = 0 \<Longrightarrow> qstep k s (s\<lparr>qs_cons := C_wait\<rparr>)"
| cons_take: "qs_cons s = C_run \<Longrightarrow> rg_length (qs_ring s) \<noteq> 0 \<Longrightarrow>
    qstep k s (s\<lparr>qs_cons := C_busy (rg_start (qs_ring s))\<rparr>)"
| cons_release: "qs_cons s = C_busy i \<Longrightarrow>
    cond_signal (s\<lparr>qs_ring := ring_release (qs_ring s), qs_got := qs_got s @ [rg_q (qs_ring s) ! i],
      qs_cons := C_run\<rparr>) s' \<Longrightarrow> qstep k s s'"

inductive_cases cond_signalE: "cond_signal s s'"

inductive qreach :: "nat \<Rightarrow> 'a ring \<Rightarrow> 'a qsys \<Rightarrow> bool" for k r0 where
  qreach_init: "qreach k r0 (qsys_init r0)"
| qreach_step: "qreach k r0 s \<Longrightarrow> qstep k s s' \<Longrightarrow> qreach k r0 s'"

subsection \<open>Order of the items and wakeups\<close>

definition q_inv :: "nat \<Rightarrow> nat \<Rightarrow> 'a qsys \<Rightarrow> bool" where
  "q_inv n k s \<longleftrightarrow>
     ring_ok n (qs_ring s) \<and>
     size (qs_wait s) + size (qs_woken s) \<le> k \<and>
     (qs_wait s \<noteq> {#} \<longrightarrow> n \<le> rg_length (qs_ring s) + size (qs_woken s)) \<and>
     (qs_cons s = C_wait \<longrightarrow> rg_length (qs_ring s) = 0 \<and> qs_wait s = {#}) \<and>
     (\<forall>i. qs_cons s = C_busy i \<longrightarrow> i = rg_start (qs_ring s) \<and> rg_length (qs_ring s) \<noteq> 0)"

lemma rg_length_enqueue:
  "ring_enqueue r x = Some r' \<Longrightarrow> rg_length r' = rg_length r + 1 \<and> rg_start r' = rg_start r"
  by (auto simp: ring_enqueue_def Let_def split: if_splits)

lemma rg_length_full:
  "ring_ok n r \<Longrightarrow> ring_enqueue r x = None \<Longrightarrow> rg_length r = n \<and> 0 < n"
  by (auto simp: ring_enqueue_def ring_ok_def Let_def split: if_splits)

text \<open>What the signal after an enqueue and after a release restores.\<close>

lemma q_inv_signal:
  assumes "cond_signal s s'"
    and "ring_ok n (qs_ring s)" "size (qs_wait s) + size (qs_woken s) \<le> k"
    and "qs_wait s \<noteq> {#} \<Longrightarrow> n \<le> rg_length (qs_ring s) + size (qs_woken s) + 1"
    and "qs_wait s \<noteq> {#} \<Longrightarrow> qs_cons s \<noteq> C_wait"
    and "\<And>i. qs_cons s = C_busy i \<Longrightarrow> i = rg_start (qs_ring s) \<and> rg_length (qs_ring s) \<noteq> 0"
  shows "q_inv n k s'"
  using assms(1)
proof (cases rule: cond_signal.cases)
  case signal_none
  then show ?thesis
    using assms(2-6) by (simp add: q_inv_def)
next
  case signal_cons
  then show ?thesis
    using assms(2-6) by (auto simp: q_inv_def)
next
  case (signal_prod x)
  then obtain W where "qs_wait s = add_mset x W"
    by (meson mset_add)
  then show ?thesis
    using assms(2-6) signal_prod(1) by (auto simp: q_inv_def)
qed

lemma q_inv_step:
  assumes "qstep k s s'" "q_inv n k s" "k < n"
  shows "q_inv n k s'"
  using assms
proof (induction rule: qstep.induct)
  case (call_put s x r s')
  then show ?case
    using ring_items_enqueue(2) [of n "qs_ring s" x r] rg_length_enqueue [of "qs_ring s" x r]
    by (intro q_inv_signal [OF call_put(3)]) (auto simp: q_inv_def)
next
  case (call_wait s x)
  then show ?case
    using rg_length_full [of n "qs_ring s" x] by (auto simp: q_inv_def)
next
  case (woken_put x s r s')
  then obtain V where "qs_woken s = add_mset x V"
    by (meson mset_add)
  then show ?case
    using woken_put ring_items_enqueue(2) [of n "qs_ring s" x r] rg_length_enqueue [of "qs_ring s" x r]
    by (intro q_inv_signal [OF woken_put(3)]) (auto simp: q_inv_def)
next
  case (woken_wait x s)
  then obtain V where "qs_woken s = add_mset x V"
    by (meson mset_add)
  then show ?case
    using woken_wait rg_length_full [of n "qs_ring s" x] by (auto simp: q_inv_def)
next
  case (spurious_prod x s)
  then obtain W where "qs_wait s = add_mset x W"
    by (meson mset_add)
  then show ?case
    using spurious_prod by (auto simp: q_inv_def)
next
  case (cons_release s i s')
  then have "rg_length (qs_ring s) \<noteq> 0" "ring_ok n (qs_ring s)"
    by (auto simp: q_inv_def)
  then have "ring_ok n (ring_release (qs_ring s))"
    using ring_items_release(2) length_ring_items by (metis list.size(3))
  then show ?case
    using cons_release
    by (intro q_inv_signal [OF cons_release(2)]) (auto simp: q_inv_def ring_release_def)
qed (auto simp: q_inv_def)

lemma q_inv_reach:
  assumes "qreach k r0 s" "ring_ok n r0" "k < n"
  shows "q_inv n k s"
  using assms
proof (induction rule: qreach.induct)
  case qreach_init
  then show ?case
    by (simp add: qsys_init_def q_inv_def)
next
  case (qreach_step s s')
  then show ?case
    using q_inv_step by blast
qed

lemma cond_signal_keeps:
  assumes "cond_signal s s'"
  shows "qs_ring s' = qs_ring s" "qs_put s' = qs_put s" "qs_got s' = qs_got s"
    "(\<exists>i. qs_cons s' = C_busy i) = (\<exists>i. qs_cons s = C_busy i)"
  using assms by (auto elim!: cond_signalE)

text \<open>Every run of the threads is a run of the abstract queue.\<close>

lemma qstep_run:
  assumes "qstep k s s'" "q_inv n k s"
    and "tq.run r0 (qs_ring s) (qs_put s) (qs_got s) (\<exists>i. qs_cons s = C_busy i)"
  shows "tq.run r0 (qs_ring s') (qs_put s') (qs_got s') (\<exists>i. qs_cons s' = C_busy i)"
  using assms
proof (induction rule: qstep.induct)
  case (call_put s x r s')
  then show ?case
    using cond_signal_keeps [OF call_put(3)] tq.run_enq by simp
next
  case (woken_put x s r s')
  then show ?case
    using cond_signal_keeps [OF woken_put(3)] tq.run_enq by simp
next
  case (cons_take s)
  then have "ring_front (qs_ring s) = Some (rg_q (qs_ring s) ! rg_start (qs_ring s))"
    by (simp add: ring_front_def)
  then show ?case
    using cons_take tq.run_take by simp
next
  case (cons_release s i s')
  then have "ring_front (qs_ring s) = Some (rg_q (qs_ring s) ! i)"
    by (simp add: ring_front_def q_inv_def)
  then show ?case
    using cons_release cond_signal_keeps [OF cons_release(2)] tq.run_pop by simp
qed simp_all

lemma qreach_run:
  assumes "qreach k r0 s" "ring_ok n r0" "k < n"
  shows "tq.run r0 (qs_ring s) (qs_put s) (qs_got s) (\<exists>i. qs_cons s = C_busy i)"
  using assms
proof (induction rule: qreach.induct)
  case qreach_init
  then show ?case
    by (simp add: qsys_init_def tq.run_start)
next
  case (qreach_step s s')
  then show ?case
    using qstep_run [of k s s' n r0] q_inv_reach [of k r0 s n] by simp
qed

section \<open>The two queues\<close>

record protocol_ctxt =
  cx_module_id :: int
  cx_enb_flag :: bool
  cx_instance :: int
  cx_rnti :: int
  cx_frame :: int
  cx_subframe :: int
  cx_eNB_index :: int
  cx_brOption :: bool

text \<open>A memory block and the size that goes with it are one byte list, \<open>sdu\<close>.\<close>

record rlc_data_req_queue_item =
  rq_ctxt :: protocol_ctxt
  rq_srb_flag :: bool
  rq_MBMS_flag :: bool
  rq_rb_id :: int
  rq_mui :: int
  rq_confirm :: int
  rq_sdu :: "byte list"

record pdcp_data_ind_queue_item =
  pq_ctxt :: protocol_ctxt
  pq_srb_flag :: bool
  pq_MBMS_flag :: bool
  pq_rb_id :: int
  pq_sdu :: "byte list"

definition RLC_DATA_REQ_QUEUE_SIZE :: nat where
  "RLC_DATA_REQ_QUEUE_SIZE = 10000"

definition PDCP_DATA_IND_QUEUE_SIZE :: nat where
  "PDCP_DATA_IND_QUEUE_SIZE = 10000"

text \<open>The queues are static objects, so every field starts as zero.\<close>

definition ctxt_zero :: protocol_ctxt where
  "ctxt_zero = \<lparr>cx_module_id = 0, cx_enb_flag = False, cx_instance = 0, cx_rnti = 0, cx_frame = 0,
     cx_subframe = 0, cx_eNB_index = 0, cx_brOption = False\<rparr>"

definition rlc_data_req_queue :: "rlc_data_req_queue_item ring" where
  "rlc_data_req_queue =
     \<lparr>rg_q = replicate RLC_DATA_REQ_QUEUE_SIZE
        \<lparr>rq_ctxt = ctxt_zero, rq_srb_flag = False, rq_MBMS_flag = False, rq_rb_id = 0, rq_mui = 0,
         rq_confirm = 0, rq_sdu = []\<rparr>,
      rg_start = 0, rg_length = 0\<rparr>"

definition pdcp_data_ind_queue :: "pdcp_data_ind_queue_item ring" where
  "pdcp_data_ind_queue =
     \<lparr>rg_q = replicate PDCP_DATA_IND_QUEUE_SIZE
        \<lparr>pq_ctxt = ctxt_zero, pq_srb_flag = False, pq_MBMS_flag = False, pq_rb_id = 0, pq_sdu = []\<rparr>,
      rg_start = 0, rg_length = 0\<rparr>"

definition enqueue_rlc_data_req ::
    "rlc_data_req_queue_item ring \<Rightarrow> rlc_data_req_queue_item \<Rightarrow> rlc_data_req_queue_item ring option" where
  "enqueue_rlc_data_req q x = ring_enqueue q x"

definition enqueue_pdcp_data_ind ::
    "pdcp_data_ind_queue_item ring \<Rightarrow> pdcp_data_ind_queue_item \<Rightarrow> pdcp_data_ind_queue_item ring option" where
  "enqueue_pdcp_data_ind q x = ring_enqueue q x"

lemma rlc_data_req_queue_ok: "ring_ok RLC_DATA_REQ_QUEUE_SIZE rlc_data_req_queue"
  by (simp add: ring_ok_def rlc_data_req_queue_def RLC_DATA_REQ_QUEUE_SIZE_def)

lemma rlc_data_req_queue_empty: "rg_length rlc_data_req_queue = 0" "4 < RLC_DATA_REQ_QUEUE_SIZE"
  by (simp_all add: rlc_data_req_queue_def RLC_DATA_REQ_QUEUE_SIZE_def)

lemma pdcp_data_ind_queue_ok: "ring_ok PDCP_DATA_IND_QUEUE_SIZE pdcp_data_ind_queue"
  by (simp add: ring_ok_def pdcp_data_ind_queue_def PDCP_DATA_IND_QUEUE_SIZE_def)

lemma ring_items_empty: "rg_length r = 0 \<Longrightarrow> ring_items r = []"
  by (simp add: ring_items_def)

text \<open>A producer writes an item, the consumer takes it, and the rest of the enqueue calls may follow.\<close>

definition queue_run :: "rlc_data_req_queue_item \<Rightarrow> rlc_data_req_queue_item qsys" where
  "queue_run x =
     (qsys_init rlc_data_req_queue)
       \<lparr>qs_ring := the (enqueue_rlc_data_req rlc_data_req_queue x), qs_put := [x], qs_cons := C_busy 0\<rparr>"

lemma queue_run_reach: "qreach 4 rlc_data_req_queue (queue_run x)"
proof -
  let ?r = "the (enqueue_rlc_data_req rlc_data_req_queue x)"
  let ?s = "(qsys_init rlc_data_req_queue)\<lparr>qs_ring := ?r, qs_put := [x]\<rparr>"
  have r: "ring_enqueue rlc_data_req_queue x = Some ?r"
    by (simp add: enqueue_rlc_data_req_def ring_enqueue_def rlc_data_req_queue_def
        RLC_DATA_REQ_QUEUE_SIZE_def Let_def)
  have sig: "cond_signal ?s ?s"
    by (rule signal_none) (simp_all add: qsys_init_def)
  have "qstep 4 (qsys_init rlc_data_req_queue) ?s"
    by (rule call_put [where x = x and r = ?r]) (use r sig in \<open>simp_all add: qsys_init_def\<close>)
  then have 1: "qreach 4 rlc_data_req_queue ?s"
    using qreach_init qreach_step by blast
  have len: "rg_length ?r = 1" "rg_start ?r = 0"
    using rg_length_enqueue [OF r] by (simp_all add: rlc_data_req_queue_def)
  have "qstep 4 ?s (?s\<lparr>qs_cons := C_busy (rg_start (qs_ring ?s))\<rparr>)"
    by (rule cons_take) (use len in \<open>simp_all add: qsys_init_def\<close>)
  then show ?thesis
    using 1 qreach_step len by (simp add: queue_run_def)
qed

section \<open>What the queues promise\<close>

text \<open>
  C24: In every state the producers, the consumer and the condition variable of a queue can reach from
  its empty ring, with fewer producers than slots, the consumer has worked on a prefix of the items in
  the order in which they were written, the ring holds exactly the rest, and the slot it works on
  outside the lock still holds its item: no producer overwrites it.
\<close>

theorem queue_fifo:
  assumes "ring_ok n r0" "rg_length r0 = 0" "k < n" "qreach k r0 s"
  shows "qs_put s = qs_got s @ ring_items (qs_ring s) \<and>
    (\<forall>i. qs_cons s = C_busy i \<longrightarrow> rg_q (qs_ring s) ! i = qs_put s ! length (qs_got s))"
proof -
  have run: "tq.run r0 (qs_ring s) (qs_put s) (qs_got s) (\<exists>i. qs_cons s = C_busy i)"
    using qreach_run assms by blast
  have inv: "q_inv n k s"
    using q_inv_reach assms by blast
  have "qs_put s = qs_got s @ ring_items (qs_ring s)"
    using tq.run_fifo(3) [OF run assms(1) ring_items_empty [OF assms(2)]] .
  moreover have "rg_q (qs_ring s) ! i = qs_put s ! length (qs_got s)" if "qs_cons s = C_busy i" for i
    using tq.run_fifo(2) [OF run assms(1) ring_items_empty [OF assms(2)]] that inv
    by (auto simp: q_inv_def ring_front_def)
  ultimately show ?thesis
    by blast
qed

theorem queue_fifo_witness:
  "\<exists>s. qreach 4 rlc_data_req_queue s \<and> qs_cons s = C_busy 0 \<and> rq_sdu (qs_put s ! 0) = [1, 2, 3] \<and>
     rq_sdu (rg_q (qs_ring s) ! 0) = [1, 2, 3]"
proof -
  let ?x = "\<lparr>rq_ctxt = ctxt_zero, rq_srb_flag = True, rq_MBMS_flag = False, rq_rb_id = 1, rq_mui = 7,
      rq_confirm = 0, rq_sdu = [1, 2, 3]\<rparr>"
  let ?s = "queue_run ?x"
  have "rg_q (qs_ring ?s) ! 0 = qs_put ?s ! length (qs_got ?s)"
    using queue_fifo [OF rlc_data_req_queue_ok _ _ queue_run_reach, of ?x]
    by (simp add: rlc_data_req_queue_def RLC_DATA_REQ_QUEUE_SIZE_def queue_run_def)
  then show ?thesis
    by (intro exI [of _ ?s]) (simp add: queue_run_reach, simp add: queue_run_def qsys_init_def)
qed

text \<open>
  C25: The producers and the consumer of a queue share one condition variable, and a signal may wake a
  thread of the wrong kind. With fewer producers than slots no wakeup is lost: whenever the ring holds
  an item, or a producer sleeps, the consumer does not sleep; and whenever a producer sleeps although
  there is room, another one has been woken.
\<close>

theorem queue_no_lost_wakeup:
  assumes "ring_ok n r0" "rg_length r0 = 0" "k < n" "qreach k r0 s"
  shows "(ring_items (qs_ring s) \<noteq> [] \<or> qs_wait s \<noteq> {#} \<longrightarrow> qs_cons s \<noteq> C_wait) \<and>
    (qs_wait s \<noteq> {#} \<and> length (ring_items (qs_ring s)) < n \<longrightarrow> qs_woken s \<noteq> {#})"
  using q_inv_reach [OF assms(4,1,3)] by (auto simp: q_inv_def ring_items_empty)

theorem queue_no_lost_wakeup_witness:
  "\<exists>s. qreach 4 rlc_data_req_queue s \<and> ring_items (qs_ring s) \<noteq> [] \<and> qs_cons s \<noteq> C_wait"
proof -
  let ?x = "\<lparr>rq_ctxt = ctxt_zero, rq_srb_flag = True, rq_MBMS_flag = False, rq_rb_id = 1, rq_mui = 7,
      rq_confirm = 0, rq_sdu = [1, 2, 3]\<rparr>"
  let ?s = "queue_run ?x"
  have "rg_length (qs_ring ?s) \<noteq> 0"
    by (simp add: queue_run_def enqueue_rlc_data_req_def ring_enqueue_def rlc_data_req_queue_def
        RLC_DATA_REQ_QUEUE_SIZE_def Let_def)
  then have "ring_items (qs_ring ?s) \<noteq> []"
    using length_ring_items by (metis list.size(3))
  then show ?thesis
    using queue_no_lost_wakeup [OF rlc_data_req_queue_ok rlc_data_req_queue_empty(1) _ queue_run_reach]
      rlc_data_req_queue_empty(2) queue_run_reach by blast
qed

end
