(* ===== verification/L2_Locks.thy ===== *)
theory L2_Locks
  imports L2_Ring
begin

text \<open>
  The locks of the two layers and the two queues between them. PDCP and RLC each have one lock, taken by every
  function another layer calls, and each has a thread that serves the queue the other layer fills. What the
  layers do with the data is left out; what matters here is that a function of one layer puts its output in the
  queue of the other layer while it holds the lock of its own, and waits there while that queue is full.
\<close>

section \<open>The threads\<close>

datatype layer = L_rlc | L_pdcp

fun other :: "layer \<Rightarrow> layer" where
  "other L_rlc = L_pdcp"
| "other L_pdcp = L_rlc"

text \<open>
  The thread of a queue waits for an item, wants the lock for the item it has taken, holds the lock with some
  output still to be handed over, or has released the lock and not yet the slot of the item.
\<close>

datatype 'x server = S_idle | S_taken | S_locked "'x list" | S_done

text \<open>
  \<open>ls_caller l\<close> is the output still to be handed over by the thread inside a function of the layer
  (\<^verbatim>\<open>mac_rlc_data_ind\<close>, \<^verbatim>\<open>pdcp_data_req_drb\<close>), \<open>None\<close> when there is no such thread: the lock admits one at a
  time.
\<close>

record 'x lsys =
  ls_queue :: "layer \<Rightarrow> 'x ring"
  ls_caller :: "layer \<Rightarrow> 'x list option"
  ls_server :: "layer \<Rightarrow> 'x server"

definition lsys_init :: "(layer \<Rightarrow> 'x ring) \<Rightarrow> 'x lsys" where
  "lsys_init q = \<lparr>ls_queue = q, ls_caller = (\<lambda>_. None), ls_server = (\<lambda>_. S_idle)\<rparr>"

definition locked :: "'x lsys \<Rightarrow> layer \<Rightarrow> bool" where
  "locked s l \<longleftrightarrow> ls_caller s l \<noteq> None \<or> (case ls_server s l of S_locked _ \<Rightarrow> True | _ \<Rightarrow> False)"

inductive lstep :: "'x lsys \<Rightarrow> 'x lsys \<Rightarrow> bool" where
  call_lock: "\<not> locked s l \<Longrightarrow> lstep s (s\<lparr>ls_caller := (ls_caller s)(l := Some xs)\<rparr>)"
| call_hand: "ls_caller s l = Some (x # xs) \<Longrightarrow> ring_enqueue (ls_queue s (other l)) x = Some q \<Longrightarrow>
    lstep s (s\<lparr>ls_queue := (ls_queue s)(other l := q), ls_caller := (ls_caller s)(l := Some xs)\<rparr>)"
| call_unlock: "ls_caller s l = Some [] \<Longrightarrow> lstep s (s\<lparr>ls_caller := (ls_caller s)(l := None)\<rparr>)"
| serve_take: "ls_server s l = S_idle \<Longrightarrow> ring_front (ls_queue s l) = Some x \<Longrightarrow>
    lstep s (s\<lparr>ls_server := (ls_server s)(l := S_taken)\<rparr>)"
| serve_lock: "ls_server s l = S_taken \<Longrightarrow> \<not> locked s l \<Longrightarrow>
    lstep s (s\<lparr>ls_server := (ls_server s)(l := S_locked xs)\<rparr>)"
| serve_hand: "ls_server s l = S_locked (x # xs) \<Longrightarrow> ring_enqueue (ls_queue s (other l)) x = Some q \<Longrightarrow>
    lstep s (s\<lparr>ls_queue := (ls_queue s)(other l := q), ls_server := (ls_server s)(l := S_locked xs)\<rparr>)"
| serve_unlock: "ls_server s l = S_locked [] \<Longrightarrow> lstep s (s\<lparr>ls_server := (ls_server s)(l := S_done)\<rparr>)"
| serve_release: "ls_server s l = S_done \<Longrightarrow>
    lstep s (s\<lparr>ls_queue := (ls_queue s)(l := ring_release (ls_queue s l)), ls_server := (ls_server s)(l := S_idle)\<rparr>)"

inductive_cases lstepE: "lstep s s'"

inductive lreach :: "(layer \<Rightarrow> 'x ring) \<Rightarrow> 'x lsys \<Rightarrow> bool" for q where
  lreach_init: "lreach q (lsys_init q)"
| lreach_step: "lreach q s \<Longrightarrow> lstep s s' \<Longrightarrow> lreach q s'"

definition lstuck :: "'x lsys \<Rightarrow> bool" where
  "lstuck s \<longleftrightarrow> (\<nexists>s'. lstep s s')"

section \<open>The rings\<close>

text \<open>An item stays in its slot while its thread is at work, so the slot released is never one of an empty ring.\<close>

definition lsys_ok :: "(layer \<Rightarrow> nat) \<Rightarrow> 'x lsys \<Rightarrow> bool" where
  "lsys_ok cap s \<longleftrightarrow> (\<forall>l. ring_ok (cap l) (ls_queue s l) \<and> (ls_server s l \<noteq> S_idle \<longrightarrow> ring_items (ls_queue s l) \<noteq> []))"

lemma ring_enqueue_ok:
  assumes "ring_ok n r" "ring_enqueue r x = Some q"
  shows "ring_ok n q" "ring_items q \<noteq> []"
  using ring_items_enqueue [OF assms] by simp_all

lemma lstep_ok:
  assumes "lstep s s'" "lsys_ok cap s"
  shows "lsys_ok cap s'"
  using assms
proof (induction rule: lstep.induct)
  case (serve_take s l x)
  then show ?case
    by (auto simp: lsys_ok_def ring_front_def ring_items_def split: if_splits)
next
  case (serve_release s l)
  then show ?case
    by (auto simp: lsys_ok_def ring_items_release)
next
  case (serve_hand s l x xs q)
  then show ?case
    using ring_enqueue_ok [of "cap (other l)" "ls_queue s (other l)" x q] by (cases l) (auto simp: lsys_ok_def)
next
  case (call_hand s l x xs q)
  then show ?case
    using ring_enqueue_ok [of "cap (other l)" "ls_queue s (other l)" x q] by (auto simp: lsys_ok_def)
qed (auto simp: lsys_ok_def)

lemma lreach_ok:
  assumes "lreach q s" "\<forall>l. ring_ok (cap l) (q l)"
  shows "lsys_ok cap s"
  using assms by (induction rule: lreach.induct) (auto simp: lstep_ok, auto simp: lsys_ok_def lsys_init_def)

text \<open>In a state without a step each lock is held by a thread that waits for room in the queue of the other layer.\<close>

lemma stuck_locked:
  assumes "lstuck s"
  shows "\<exists>x xs. (ls_caller s l = Some (x # xs) \<or> ls_server s l = S_locked (x # xs)) \<and>
    ring_enqueue (ls_queue s (other l)) x = None"
proof -
  have no: "\<not> lstep s s'" for s'
    using assms by (simp add: lstuck_def)
  have "locked s l"
    using no call_lock by blast
  then consider xs where "ls_caller s l = Some xs" | xs where "ls_server s l = S_locked xs"
    by (auto simp: locked_def split: server.splits)
  then show ?thesis
  proof cases
    case (1 xs)
    then show ?thesis
      using no call_unlock [of s l] call_hand [of s l] by (cases xs) (auto, fastforce)
  next
    case (2 xs)
    then show ?thesis
      using no serve_unlock [of s l] serve_hand [of s l] by (cases xs) (auto, fastforce)
  qed
qed

lemma other_other [simp]: "other (other l) = l"
  by (cases l) simp_all

section \<open>Filling the queues\<close>

definition lquiet :: "'x lsys \<Rightarrow> bool" where
  "lquiet s \<longleftrightarrow> ls_caller s = (\<lambda>_. None) \<and> ls_server s = (\<lambda>_. S_idle)"

text \<open>One call that hands over one item.\<close>

lemma call_once:
  assumes "lreach q s" "lquiet s" "ring_enqueue (ls_queue s l) x = Some r"
  shows "lreach q (s\<lparr>ls_queue := (ls_queue s)(l := r)\<rparr>)"
proof -
  let ?c = "ls_caller s" and ?m = "other l"
  let ?a = "s\<lparr>ls_caller := ?c(?m := Some [x])\<rparr>"
  let ?b = "?a\<lparr>ls_queue := (ls_queue ?a)(other ?m := r), ls_caller := (ls_caller ?a)(?m := Some [])\<rparr>"
  have "\<not> locked s ?m"
    using assms(2) by (simp add: locked_def lquiet_def)
  then have 1: "lreach q ?a"
    by (rule lreach_step [OF assms(1) call_lock])
  have a: "ls_caller ?a ?m = Some (x # [])" "ring_enqueue (ls_queue ?a (other ?m)) x = Some r"
    using assms(3) by simp_all
  have 2: "lreach q ?b"
    by (rule lreach_step [OF 1 call_hand [OF a]])
  have b: "ls_caller ?b ?m = Some []"
    by simp
  have "lreach q (?b\<lparr>ls_caller := (ls_caller ?b)(?m := None)\<rparr>)"
    by (rule lreach_step [OF 2 call_unlock [OF b]])
  moreover have "?b\<lparr>ls_caller := (ls_caller ?b)(?m := None)\<rparr> = s\<lparr>ls_queue := (ls_queue s)(l := r)\<rparr>"
    using assms(2) by (cases s) (auto simp: lquiet_def fun_eq_iff)
  ultimately show ?thesis
    by simp
qed

lemma fill_queue:
  assumes "lreach q s" "lquiet s" "ring_ok n (ls_queue s l)"
  shows "\<exists>r. lreach q (s\<lparr>ls_queue := (ls_queue s)(l := r)\<rparr>) \<and> ring_ok n r \<and> length (ring_items r) = n"
  using assms
proof (induction "n - length (ring_items (ls_queue s l))" arbitrary: s)
  case 0
  moreover have "length (ring_items (ls_queue s l)) \<le> n"
    using 0 by (simp add: ring_ok_def)
  ultimately show ?case
    by (intro exI [of _ "ls_queue s l"]) simp
next
  case (Suc k)
  obtain r where r: "ring_enqueue (ls_queue s l) undefined = Some r"
    using Suc.hyps(2) ring_enqueue_None [OF Suc.prems(3), of undefined] by fastforce
  let ?s = "s\<lparr>ls_queue := (ls_queue s)(l := r)\<rparr>"
  have i: "ring_items r = ring_items (ls_queue s l) @ [undefined]" "ring_ok n r"
    using ring_items_enqueue [OF Suc.prems(3) r] by simp_all
  have "lquiet ?s"
    using Suc.prems(2) by (simp add: lquiet_def)
  then show ?case
    using Suc.hyps(1) [of ?s] Suc.hyps(2) call_once [OF Suc.prems(1,2) r] i by simp
qed

text \<open>
  The state of the deadlock: each queue is full, each lock is held by a caller with one more item, and each
  thread has taken an item and wants the lock of its layer.
\<close>

definition embrace :: "(layer \<Rightarrow> 'x ring) \<Rightarrow> 'x \<Rightarrow> 'x lsys" where
  "embrace q x = \<lparr>ls_queue = q, ls_caller = (\<lambda>_. Some [x]), ls_server = (\<lambda>_. S_taken)\<rparr>"

lemma embrace_stuck:
  assumes "\<forall>l. ring_ok (cap l) (q l) \<and> length (ring_items (q l)) = cap l"
  shows "lstuck (embrace q x)"
proof -
  have full: "ring_enqueue (q l) y = None" for l y
    using assms ring_enqueue_None [of "cap l" "q l" y] by simp
  have "\<not> lstep (embrace q x) s'" for s'
  proof
    assume "lstep (embrace q x) s'"
    then show False
      by (rule lstepE) (simp_all add: embrace_def locked_def full)
  qed
  then show ?thesis
    by (simp add: lstuck_def)
qed

lemma layer_fun: "f = (\<lambda>_. c) \<longleftrightarrow> f L_rlc = c \<and> f L_pdcp = c"
proof
  assume "f L_rlc = c \<and> f L_pdcp = c"
  then have "f l = c" for l
    by (cases l) simp_all
  then show "f = (\<lambda>_. c)"
    by (rule ext)
qed simp

lemma embrace_reach:
  assumes "lreach q s" "lquiet s" "\<forall>l. ring_front (ls_queue s l) \<noteq> None"
  shows "lreach q (embrace (ls_queue s) x)"
proof -
  let ?a = "s\<lparr>ls_caller := (ls_caller s)(L_rlc := Some [x])\<rparr>"
  let ?b = "?a\<lparr>ls_caller := (ls_caller ?a)(L_pdcp := Some [x])\<rparr>"
  let ?c = "?b\<lparr>ls_server := (ls_server ?b)(L_rlc := S_taken)\<rparr>"
  let ?d = "?c\<lparr>ls_server := (ls_server ?c)(L_pdcp := S_taken)\<rparr>"
  obtain y z where y: "ring_front (ls_queue s L_rlc) = Some y" "ring_front (ls_queue s L_pdcp) = Some z"
    using assms(3) by blast
  have l: "\<not> locked s L_rlc" "\<not> locked ?a L_pdcp"
    using assms(2) by (simp_all add: locked_def lquiet_def)
  have 2: "lreach q ?b"
    by (rule lreach_step [OF lreach_step [OF assms(1) call_lock [OF l(1)]] call_lock [OF l(2)]])
  have b: "ls_server ?b L_rlc = S_idle" "ring_front (ls_queue ?b L_rlc) = Some y"
    and c: "ls_server ?c L_pdcp = S_idle" "ring_front (ls_queue ?c L_pdcp) = Some z"
    using assms(2) y by (simp_all add: lquiet_def)
  have "lreach q ?d"
    by (rule lreach_step [OF lreach_step [OF 2 serve_take [OF b]] serve_take [OF c]])
  moreover have "?d = embrace (ls_queue s) x"
    unfolding embrace_def by (cases s) (simp add: layer_fun)
  ultimately show ?thesis
    by simp
qed

section \<open>The deadlock\<close>

text \<open>
  C26: No thread of the two layers can be stuck while one of the two queues has room: if no step is possible,
  both queues are full. But such a state can be reached from the start, for queues of any size: a thread of
  MAC inside RLC waits for room in the queue of PDCP, the thread that serves that queue waits for the lock of
  PDCP, which a thread inside PDCP holds that waits for room in the queue of RLC, and the thread that serves
  that queue waits for the lock of RLC. No step is possible from there: the layers are deadlocked.
\<close>

theorem queue_deadlock:
  assumes "\<forall>l. ring_ok (cap l) (q l) \<and> rg_length (q l) = 0"
  shows "(\<forall>s. lreach q s \<and> lstuck s \<longrightarrow> (\<forall>l. length (ring_items (ls_queue s l)) = cap l)) \<and>
    (\<exists>s. lreach q s \<and> lstuck s)"
proof (intro conjI allI impI)
  fix s l
  assume s: "lreach q s \<and> lstuck s"
  obtain x where x: "ring_enqueue (ls_queue s l) x = None"
    using stuck_locked [of s "other l"] s by auto
  have "ring_ok (cap l) (ls_queue s l)"
    using lreach_ok [of q s cap] s assms by (simp add: lsys_ok_def)
  then show "length (ring_items (ls_queue s l)) = cap l"
    using ring_enqueue_None [of "cap l" "ls_queue s l" x] x by simp
next
  let ?i = "lsys_init q"
  have i: "lreach q ?i" "lquiet ?i" "ring_ok (cap l) (ls_queue ?i l)" for l
    by (rule lreach_init) (use assms in \<open>simp_all add: lquiet_def lsys_init_def\<close>)
  obtain r where r: "lreach q (?i\<lparr>ls_queue := (ls_queue ?i)(L_rlc := r)\<rparr>)" "ring_ok (cap L_rlc) r"
    "length (ring_items r) = cap L_rlc"
    using fill_queue [OF i(1,2,3), of L_rlc] by auto
  let ?s = "?i\<lparr>ls_queue := (ls_queue ?i)(L_rlc := r)\<rparr>"
  have "lquiet ?s" "ring_ok (cap L_pdcp) (ls_queue ?s L_pdcp)"
    using i(2,3) by (simp_all add: lquiet_def)
  from fill_queue [OF r(1) this] obtain r' where r': "lreach q (?s\<lparr>ls_queue := (ls_queue ?s)(L_pdcp := r')\<rparr>)"
    "ring_ok (cap L_pdcp) r'" "length (ring_items r') = cap L_pdcp"
    by blast
  let ?t = "?s\<lparr>ls_queue := (ls_queue ?s)(L_pdcp := r')\<rparr>"
  have full: "ring_ok (cap l) (ls_queue ?t l) \<and> length (ring_items (ls_queue ?t l)) = cap l" for l
    using r(2,3) r'(2,3) by (cases l) simp_all
  have "\<forall>l. ring_front (ls_queue ?t l) \<noteq> None"
  proof
    show "ring_front (ls_queue ?t l) \<noteq> None" for l
      using full [of l] unfolding ring_front_def ring_ok_def by auto
  qed
  moreover have "lquiet ?t"
    using i(2) by (simp add: lquiet_def)
  ultimately have "lreach q (embrace (ls_queue ?t) undefined)"
    by (intro embrace_reach [OF r'(1)])
  moreover have "lstuck (embrace (ls_queue ?t) undefined)"
    by (rule embrace_stuck [of cap]) (intro allI full)
  ultimately show "\<exists>s. lreach q s \<and> lstuck s"
    by blast
qed

theorem queue_deadlock_witness:
  "\<exists>s. lreach (\<lambda>_. \<lparr>rg_q = replicate RLC_DATA_REQ_QUEUE_SIZE (), rg_start = 0, rg_length = 0\<rparr>) s \<and> lstuck s"
proof -
  have "RLC_DATA_REQ_QUEUE_SIZE > 0"
    by (simp add: RLC_DATA_REQ_QUEUE_SIZE_def)
  then show ?thesis
    using queue_deadlock [of "\<lambda>_. RLC_DATA_REQ_QUEUE_SIZE"
        "\<lambda>_. \<lparr>rg_q = replicate RLC_DATA_REQ_QUEUE_SIZE (), rg_start = 0, rg_length = 0\<rparr>"]
    by (simp add: ring_ok_def)
qed

end
