(* ===== verification/NR_RLC_Tm.thy ===== *)
theory NR_RLC_Tm
  imports NR_RLC_Common
begin

text \<open>
  The transparent mode entity (\<^verbatim>\<open>nr_rlc_entity_tm.h\<close>, \<^verbatim>\<open>nr_rlc_entity_tm.c\<close> and its constructor in
  \<^verbatim>\<open>nr_rlc_entity.c\<close>): SDUs are queued and sent unchanged, a PDU received is delivered unchanged. The
  lemmas show that the transmitting side is a first-in first-out queue whose size counters are
  exact.
\<close>

section \<open>State\<close>

record nr_rlc_entity_tm =
  tm_t_current :: "64 word"
  tm_tx_list :: "nr_rlc_sdu_segment list"
  tm_tx_end :: "nat option"
  tm_tx_size :: int
  tm_tx_maxsize :: int
  tm_bstatus_tx_size :: int
  tm_heap :: sdu_heap
  tm_out :: "rlc_event list"

section \<open>Operations\<close>

definition new_nr_rlc_entity_tm :: "int \<Rightarrow> nr_rlc_entity_tm" where
  "new_nr_rlc_entity_tm tx_maxsize =
     \<lparr>tm_t_current = 0, tm_tx_list = [], tm_tx_end = None, tm_tx_size = 0,
      tm_tx_maxsize = tx_maxsize, tm_bstatus_tx_size = 0, tm_heap = empty_heap, tm_out = []\<rparr>"

definition nr_rlc_entity_tm_recv_pdu :: "nr_rlc_entity_tm \<Rightarrow> byte list \<Rightarrow> nr_rlc_entity_tm" where
  "nr_rlc_entity_tm_recv_pdu entity buffer =
     entity\<lparr>tm_out := tm_out entity @ [Deliver_sdu buffer]\<rparr>"

definition tm_generate_tx_pdu ::
  "nr_rlc_entity_tm \<Rightarrow> byte list \<Rightarrow> (int \<times> byte list \<times> nr_rlc_entity_tm) res" where
  "tm_generate_tx_pdu entity buffer =
     (case tm_tx_list entity of
        [] \<Rightarrow> Inr (0, buffer, entity)
      | sdu # rest \<Rightarrow>
          if g_size sdu > int (length buffer) then Inr (0, buffer, entity)
          else
            rbind (get_sdu (tm_heap entity) (g_sdu sdu)) (\<lambda>s.
            rbind (c_read (s_data s) 0 (g_size sdu)) (\<lambda>bs.
            rbind (c_write buffer 0 bs) (\<lambda>buffer'.
            rbind (nr_rlc_free_sdu_segment (tm_heap entity) sdu) (\<lambda>(_, heap').
              Inr (g_size sdu, buffer',
                   entity\<lparr>tm_tx_list := rest,
                          tm_tx_end := (if rest = [] then None else tm_tx_end entity),
                          tm_tx_size := tm_tx_size entity - g_size sdu,
                          tm_bstatus_tx_size := tm_bstatus_tx_size entity - g_size sdu,
                          tm_heap := heap'\<rparr>))))))"

definition nr_rlc_entity_tm_buffer_status ::
  "nr_rlc_entity_tm \<Rightarrow> int \<Rightarrow> nr_rlc_entity_buffer_status" where
  "nr_rlc_entity_tm_buffer_status entity maxsize =
     \<lparr>bs_status_size = 0, bs_tx_size = tm_bstatus_tx_size entity, bs_retx_size = 0\<rparr>"

definition nr_rlc_entity_tm_generate_pdu ::
  "nr_rlc_entity_tm \<Rightarrow> byte list \<Rightarrow> (int \<times> byte list \<times> nr_rlc_entity_tm) res" where
  "nr_rlc_entity_tm_generate_pdu entity buffer = tm_generate_tx_pdu entity buffer"

definition nr_rlc_entity_tm_recv_sdu ::
  "nr_rlc_entity_tm \<Rightarrow> byte list \<Rightarrow> int \<Rightarrow> nr_rlc_entity_tm res" where
  "nr_rlc_entity_tm_recv_sdu entity buffer sdu_id =
     (let size = int (length buffer) in
      if size > NR_SDU_MAX then Inl Exit_fatal
      else if tm_tx_size entity + size > tm_tx_maxsize entity then Inr entity
      else
        case nr_rlc_new_sdu (tm_heap entity) buffer sdu_id of (sdu, heap') \<Rightarrow>
          rbind (nr_rlc_sdu_segment_list_append (tm_tx_list entity) (tm_tx_end entity) sdu)
            (\<lambda>(l, e). Inr (entity\<lparr>tm_tx_size := tm_tx_size entity + size,
                                  tm_heap := heap',
                                  tm_tx_list := l, tm_tx_end := e,
                                  tm_bstatus_tx_size := tm_bstatus_tx_size entity + g_size sdu\<rparr>)))"

definition nr_rlc_entity_tm_set_time :: "nr_rlc_entity_tm \<Rightarrow> 64 word \<Rightarrow> nr_rlc_entity_tm" where
  "nr_rlc_entity_tm_set_time entity now = entity\<lparr>tm_t_current := now\<rparr>"

definition nr_rlc_entity_tm_discard_sdu :: "nr_rlc_entity_tm \<Rightarrow> int \<Rightarrow> nr_rlc_entity_tm" where
  "nr_rlc_entity_tm_discard_sdu entity sdu_id = entity"

definition tm_clear_entity :: "nr_rlc_entity_tm \<Rightarrow> nr_rlc_entity_tm res" where
  "tm_clear_entity entity =
     rbind (nr_rlc_free_sdu_segment_list (tm_heap entity) (tm_tx_list entity)) (\<lambda>heap'.
       Inr (entity\<lparr>tm_heap := heap', tm_tx_list := [], tm_tx_end := None, tm_tx_size := 0,
                   tm_bstatus_tx_size := 0\<rparr>))"

definition nr_rlc_entity_tm_reestablishment :: "nr_rlc_entity_tm \<Rightarrow> nr_rlc_entity_tm res" where
  "nr_rlc_entity_tm_reestablishment entity = tm_clear_entity entity"

text \<open>Deletion frees everything the entity owns and then the entity; what is left is its heap.\<close>

definition nr_rlc_entity_tm_delete :: "nr_rlc_entity_tm \<Rightarrow> sdu_heap res" where
  "nr_rlc_entity_tm_delete entity = rbind (tm_clear_entity entity) (\<lambda>e. Inr (tm_heap e))"

definition nr_rlc_entity_tm_available_tx_space :: "nr_rlc_entity_tm \<Rightarrow> int" where
  "nr_rlc_entity_tm_available_tx_space entity = tm_tx_maxsize entity - tm_tx_size entity"

section \<open>The queue it implements\<close>

definition tm_queue :: "nr_rlc_entity_tm \<Rightarrow> byte list list" where
  "tm_queue e = map (seg_bytes (tm_heap e)) (tm_tx_list e)"

definition whole :: "sdu_heap \<Rightarrow> nr_rlc_sdu_segment \<Rightarrow> bool" where
  "whole h g \<longleftrightarrow> (\<exists>s. h_sdu h (g_sdu g) = Some s \<and> g_so g = 0 \<and> g_size g = int (length (s_data s)))"

definition tm_inv :: "nr_rlc_entity_tm \<Rightarrow> bool" where
  "tm_inv e \<longleftrightarrow> heap_ok (tm_heap e) (tm_tx_list e) \<and> end_ok (tm_tx_list e) (tm_tx_end e) \<and>
     (\<forall>g \<in> set (tm_tx_list e). whole (tm_heap e) g) \<and> distinct (map g_sdu (tm_tx_list e)) \<and>
     tm_tx_size e = total_size (tm_tx_list e) \<and> tm_bstatus_tx_size e = tm_tx_size e"

lemma seg_bytes_whole: "h_sdu h (g_sdu g) = Some s \<Longrightarrow> whole h g \<Longrightarrow> seg_bytes h g = s_data s"
  by (auto simp: whole_def seg_bytes_def)

lemma tm_inv_new [simp]: "tm_inv (new_nr_rlc_entity_tm n)"
  by (simp add: tm_inv_def new_nr_rlc_entity_tm_def total_size_def)

lemma tm_recv_sdu_cases:
  assumes inv: "tm_inv e" and len: "int (length sdu) \<le> NR_SDU_MAX"
  shows "\<exists>e'. nr_rlc_entity_tm_recv_sdu e sdu i = Inr e' \<and> tm_inv e' \<and>
    tm_tx_maxsize e' = tm_tx_maxsize e \<and>
    tm_queue e' = tm_queue e @
      (if tm_tx_size e + int (length sdu) \<le> tm_tx_maxsize e then [sdu] else [])"
proof (cases "tm_tx_size e + int (length sdu) \<le> tm_tx_maxsize e")
  case False
  then show ?thesis
    using inv len by (simp add: nr_rlc_entity_tm_recv_sdu_def Let_def)
next
  case True
  obtain g h' where new: "nr_rlc_new_sdu (tm_heap e) sdu i = (g, h')"
    by (cases "nr_rlc_new_sdu (tm_heap e) sdu i")
  let ?l = "tm_tx_list e" and ?n = "h_next (tm_heap e)"
  have ok: "heap_ok (tm_heap e) ?l" "end_ok ?l (tm_tx_end e)" "distinct (map g_addr ?l)"
    "distinct (map g_sdu ?l)" and wh: "\<And>k. k \<in> set ?l \<Longrightarrow> whole (tm_heap e) k"
    using inv by (auto simp: tm_inv_def heap_ok_def)
  have g: "g_sdu g = ?n" "g_size g = int (length sdu)" "g_so g = 0"
    "h_sdu h' = (h_sdu (tm_heap e))(?n \<mapsto> the (h_sdu h' ?n))" "h_sdu h' ?n \<noteq> None"
    "s_data (the (h_sdu h' ?n)) = sdu"
    using new by (auto simp: nr_rlc_new_sdu_def Let_def)
  have old: "g_sdu k \<noteq> ?n" if "k \<in> set ?l" for k
    using heap_ok_sdu_bound [OF ok(1) that] by simp
  have keep: "h_sdu h' (g_sdu k) = h_sdu (tm_heap e) (g_sdu k)" if "k \<in> set ?l" for k
    using g(4) old [OF that] by (metis fun_upd_other)
  let ?e = "e\<lparr>tm_tx_size := tm_tx_size e + int (length sdu), tm_heap := h', tm_tx_list := ?l @ [g],
      tm_tx_end := Some (g_addr g), tm_bstatus_tx_size := tm_bstatus_tx_size e + g_size g\<rparr>"
  have "nr_rlc_entity_tm_recv_sdu e sdu i = Inr ?e"
    using True len new list_append_ok [OF ok(2,3), of g]
    by (simp add: nr_rlc_entity_tm_recv_sdu_def Let_def)
  moreover have "whole h' k" if "k \<in> set (?l @ [g])" for k
    using that g wh keep by (auto simp: whole_def)
  then have "tm_inv ?e"
    using inv heap_ok_new [OF ok(1) new] g(1,2)
    by (auto simp: tm_inv_def total_size_def dest: old)
  moreover have "seg_bytes h' g = sdu"
    using g by (auto simp: seg_bytes_def)
  moreover have "map (seg_bytes h') ?l = map (seg_bytes (tm_heap e)) ?l"
    using keep by (auto simp: seg_bytes_def)
  ultimately show ?thesis
    using True by (auto simp: tm_queue_def)
qed

lemma tm_generate_cases:
  assumes inv: "tm_inv e"
  shows "\<exists>ret buf' e'. nr_rlc_entity_tm_generate_pdu e buf = Inr (ret, buf', e') \<and> tm_inv e' \<and>
    length buf' = length buf \<and>
    (case tm_queue e of
       [] \<Rightarrow> ret = 0 \<and> e' = e
     | x # xs \<Rightarrow> if length x \<le> length buf
         then ret = int (length x) \<and> take (length x) buf' = x \<and> tm_queue e' = xs
         else ret = 0 \<and> e' = e)"
proof (cases "tm_tx_list e")
  case Nil
  then show ?thesis
    using inv by (simp add: nr_rlc_entity_tm_generate_pdu_def tm_generate_tx_pdu_def tm_queue_def)
next
  case (Cons g l)
  have ok: "heap_ok (tm_heap e) (g # l)" "distinct (map g_sdu (g # l))"
    "whole (tm_heap e) g" "\<forall>k \<in> set l. whole (tm_heap e) k"
    using inv Cons by (auto simp: tm_inv_def)
  obtain s where s: "h_sdu (tm_heap e) (g_sdu g) = Some s"
    using ok(3) by (auto simp: whole_def)
  have size: "g_size g = int (length (s_data s))" and x: "seg_bytes (tm_heap e) g = s_data s"
    using s ok(3) by (auto simp: whole_def seg_bytes_def)
  have "owners l (g_sdu g) = 0"
    using ok(2) by (auto simp: owners_def filter_empty_conv image_iff)
  then obtain h' where h': "nr_rlc_free_sdu_segment (tm_heap e) g = Inr (True, h')" "heap_ok h' l"
    using free_sdu_segment_ok [OF ok(1) s] by auto
  have keep: "h_sdu h' (g_sdu k) = h_sdu (tm_heap e) (g_sdu k)" if "k \<in> set l" for k
  proof (rule free_sdu_segment_frame [OF h'(1)])
    show "g_sdu k \<noteq> g_sdu g"
      using ok(2) that by (metis distinct.simps(2) image_eqI list.set_map list.simps(9))
  qed
  have q: "tm_queue e = s_data s # map (seg_bytes (tm_heap e)) l"
    using Cons x by (simp add: tm_queue_def)
  show ?thesis
  proof (cases "length (s_data s) \<le> length buf")
    case False
    then show ?thesis
      using inv Cons size q
      by (simp add: nr_rlc_entity_tm_generate_pdu_def tm_generate_tx_pdu_def)
  next
    case True
    let ?e = "e\<lparr>tm_tx_list := l, tm_tx_end := (if l = [] then None else tm_tx_end e),
        tm_tx_size := tm_tx_size e - g_size g,
        tm_bstatus_tx_size := tm_bstatus_tx_size e - g_size g, tm_heap := h'\<rparr>"
    have "nr_rlc_entity_tm_generate_pdu e buf =
        Inr (g_size g, s_data s @ drop (length (s_data s)) buf, ?e)"
      using True Cons s size h'
      by (simp add: nr_rlc_entity_tm_generate_pdu_def tm_generate_tx_pdu_def get_sdu_def)
    moreover have "tm_inv ?e"
      using inv Cons h'(2) ok keep
      by (auto simp: tm_inv_def whole_def total_size_def end_ok_def)
    moreover have "map (seg_bytes h') l = map (seg_bytes (tm_heap e)) l"
      using keep by (auto simp: seg_bytes_def)
    ultimately show ?thesis
      using True q size by (auto simp: tm_queue_def)
  qed
qed

interpretation tm_tx: rlc_tx tm_inv "\<lambda>_. True" nr_rlc_entity_tm_recv_sdu nr_rlc_entity_tm_generate_pdu
proof
  fix e :: nr_rlc_entity_tm and sdu :: "byte list" and i :: int
  assume "tm_inv e" and "int (length sdu) \<le> NR_SDU_MAX"
  then show "\<exists>e'. nr_rlc_entity_tm_recv_sdu e sdu i = Inr e' \<and> tm_inv e'"
    using tm_recv_sdu_cases by blast
next
  fix e :: nr_rlc_entity_tm and buf :: "byte list"
  assume "tm_inv e"
  then show "\<exists>ret buf' e'. nr_rlc_entity_tm_generate_pdu e buf = Inr (ret, buf', e') \<and> tm_inv e' \<and>
      0 \<le> ret \<and> ret \<le> int (length buf) \<and> length buf' = length buf"
    using tm_generate_cases [of e buf] by (fastforce split: list.splits if_splits)
qed

lemma tm_clear_ok:
  assumes "tm_inv e"
  shows "\<exists>e'. nr_rlc_entity_tm_reestablishment e = Inr e' \<and> tm_inv e' \<and> tm_queue e' = []"
  using assms free_sdu_segment_list_ok [of "tm_heap e" "tm_tx_list e" "[]"]
  by (auto simp: tm_inv_def nr_rlc_entity_tm_reestablishment_def tm_clear_entity_def tm_queue_def
      total_size_def)

section \<open>Properties\<close>

text \<open>The specification: a queue of SDUs, bounded by the total of their sizes, from which a grant
  takes the first SDU when it fits.\<close>

definition fifo_put :: "int \<Rightarrow> byte list list \<Rightarrow> byte list \<Rightarrow> byte list list" where
  "fifo_put maxsize q sdu =
     (if int (sum_list (map length q)) + int (length sdu) \<le> maxsize then q @ [sdu] else q)"

fun fifo_get :: "byte list list \<Rightarrow> nat \<Rightarrow> byte list \<times> byte list list" where
  "fifo_get [] n = ([], [])"
| "fifo_get (x # xs) n = (if length x \<le> n then (x, xs) else ([], x # xs))"

lemma tm_tx_size_queue:
  assumes "tm_inv e"
  shows "tm_tx_size e = int (sum_list (map length (tm_queue e)))"
proof -
  have "g_size g = int (length (seg_bytes (tm_heap e) g))" if "g \<in> set (tm_tx_list e)" for g
    using assms that by (auto simp: tm_inv_def whole_def seg_bytes_def)
  then have "total_size (tm_tx_list e) = int (sum_list (map length (tm_queue e)))"
    unfolding total_size_def tm_queue_def by (simp add: sum_list_map_cong_int comp_def)
  with assms show ?thesis
    by (simp add: tm_inv_def)
qed

text \<open>C20: the transparent mode entity implements the bounded queue: accepting an SDU and filling a
  grant return, keep the entity well formed, and do to the queued SDUs what the queue does, the
  bytes of the PDU included.\<close>

theorem tm_refines_fifo:
  assumes "tm_inv e" and "int (length sdu) \<le> NR_SDU_MAX"
  shows "(\<exists>e'. nr_rlc_entity_tm_recv_sdu e sdu i = Inr e' \<and> tm_inv e' \<and>
      tm_queue e' = fifo_put (tm_tx_maxsize e) (tm_queue e) sdu) \<and>
    (\<exists>ret buf' e'. nr_rlc_entity_tm_generate_pdu e buf = Inr (ret, buf', e') \<and> tm_inv e' \<and>
      (take (nat ret) buf', tm_queue e') = fifo_get (tm_queue e) (length buf))"
proof
  show "\<exists>e'. nr_rlc_entity_tm_recv_sdu e sdu i = Inr e' \<and> tm_inv e' \<and>
      tm_queue e' = fifo_put (tm_tx_maxsize e) (tm_queue e) sdu"
    using tm_recv_sdu_cases [OF assms, of i] tm_tx_size_queue [OF assms(1)]
    by (auto simp: fifo_put_def)
  show "\<exists>ret buf' e'. nr_rlc_entity_tm_generate_pdu e buf = Inr (ret, buf', e') \<and> tm_inv e' \<and>
      (take (nat ret) buf', tm_queue e') = fifo_get (tm_queue e) (length buf)"
    using tm_generate_cases [OF assms(1), of buf]
    by (cases "tm_queue e") (fastforce split: if_splits)+
qed

theorem tm_refines_fifo_witness:
  "\<exists>e'. nr_rlc_entity_tm_recv_sdu (new_nr_rlc_entity_tm 10) [1, 2] 7 = Inr e' \<and>
     tm_queue e' = [[1, 2]]"
proof -
  have "int (length [1 :: byte, 2]) \<le> NR_SDU_MAX"
    by (simp add: NR_SDU_MAX_def)
  from tm_refines_fifo [OF tm_inv_new this, of 10 7]
  have "\<exists>e'. nr_rlc_entity_tm_recv_sdu (new_nr_rlc_entity_tm 10) [1, 2] 7 = Inr e' \<and>
      tm_queue e' = fifo_put 10 [] [1, 2]"
    by (auto simp: tm_queue_def new_nr_rlc_entity_tm_def)
  then show ?thesis
    by (simp add: fifo_put_def)
qed

end
