(* ===== verification/NR_RLC_Um.thy ===== *)
theory NR_RLC_Um
  imports NR_RLC_Rx
begin

text \<open>
  The unacknowledged mode entity (\<^verbatim>\<open>nr_rlc_entity_um.h\<close>, \<^verbatim>\<open>nr_rlc_entity_um.c\<close> and its constructor in
  \<^verbatim>\<open>nr_rlc_entity.c\<close>): SDUs are sent whole or in numbered segments, received segments are kept until
  their SDU is complete, and a timer gives up on what stays incomplete. This theory holds the state
  and the operations.
\<close>

section \<open>State\<close>

record nr_rlc_entity_um =
  um_t_reassembly :: int
  um_sn_field_length :: nat
  um_sn_modulus :: int
  um_window_size :: int
  um_rx_next_highest :: int
  um_rx_next_reassembly :: int
  um_rx_timer_trigger :: int
  um_tx_next :: int
  um_t_current :: "64 word"
  um_t_reassembly_start :: "64 word"
  um_rx_list :: "nr_rlc_pdu list"
  um_rx_size :: int
  um_rx_maxsize :: int
  um_tx_list :: "nr_rlc_sdu_segment list"
  um_tx_end :: "nat option"
  um_tx_size :: int
  um_tx_maxsize :: int
  um_bstatus_tx_size :: int
  um_heap :: sdu_heap
  um_out :: "rlc_event list"

definition new_nr_rlc_entity_um :: "int \<Rightarrow> int \<Rightarrow> int \<Rightarrow> nat \<Rightarrow> nr_rlc_entity_um res" where
  "new_nr_rlc_entity_um rx_maxsize tx_maxsize t_reassembly sn_field_length =
     (if \<not> (sn_field_length = 6 \<or> sn_field_length = 12) then Inl Exit_fatal
      else Inr
        \<lparr>um_t_reassembly = t_reassembly, um_sn_field_length = sn_field_length,
         um_sn_modulus = push_bit sn_field_length 1,
         um_window_size = push_bit sn_field_length 1 div 2,
         um_rx_next_highest = 0, um_rx_next_reassembly = 0, um_rx_timer_trigger = 0,
         um_tx_next = 0, um_t_current = 0, um_t_reassembly_start = 0,
         um_rx_list = [], um_rx_size = 0, um_rx_maxsize = rx_maxsize,
         um_tx_list = [], um_tx_end = None, um_tx_size = 0, um_tx_maxsize = tx_maxsize,
         um_bstatus_tx_size = 0, um_heap = empty_heap, um_out = []\<rparr>)"

definition um_compute_pdu_header_size :: "nr_rlc_entity_um \<Rightarrow> nr_rlc_sdu_segment \<Rightarrow> int" where
  "um_compute_pdu_header_size entity sdu =
     (let header_size = 1;
          header_size = (if \<not> (g_is_first sdu \<and> g_is_last sdu) \<and> um_sn_field_length entity = 12
                         then header_size + 1 else header_size)
      in if \<not> g_is_first sdu then header_size + 2 else header_size)"

section \<open>Reception\<close>

definition um_modulus_rx :: "nr_rlc_entity_um \<Rightarrow> int \<Rightarrow> int" where
  "um_modulus_rx entity a =
     (let r = a - (um_rx_next_highest entity - um_window_size entity);
          r = (if r < 0 then r + um_sn_modulus entity else r)
      in c_rem r (um_sn_modulus entity))"

definition um_sn_compare_rx :: "nr_rlc_entity_um \<Rightarrow> int \<Rightarrow> int \<Rightarrow> int" where
  "um_sn_compare_rx entity a b = um_modulus_rx entity a - um_modulus_rx entity b"

definition um_sdu_full :: "nr_rlc_entity_um \<Rightarrow> int \<Rightarrow> bool" where
  "um_sdu_full entity sn = list_sdu_full (um_rx_list entity) sn"

definition um_sdu_delivered :: "nr_rlc_entity_um \<Rightarrow> int \<Rightarrow> bool" where
  "um_sdu_delivered entity sn = list_sdu_delivered (um_rx_list entity) sn"

definition um_sdu_has_missing_bytes :: "nr_rlc_entity_um \<Rightarrow> int \<Rightarrow> bool" where
  "um_sdu_has_missing_bytes entity sn = list_sdu_has_missing_bytes (um_rx_list entity) sn"

text \<open>A node that has been reassembled: no data, and size 0.\<close>

definition um_mark :: "nr_rlc_pdu \<Rightarrow> nr_rlc_pdu" where
  "um_mark p = p\<lparr>p_data := None, p_size := 0\<rparr>"

definition um_reassemble_and_deliver :: "nr_rlc_entity_um \<Rightarrow> int \<Rightarrow> nr_rlc_entity_um res" where
  "um_reassemble_and_deliver entity sn =
     rbind (list_reassemble um_mark sn (um_rx_list entity) (um_rx_size entity))
       (\<lambda>(rx_list', sdu, bad_sdu, rx_size').
          let entity' = entity\<lparr>um_rx_list := rx_list', um_rx_size := rx_size'\<rparr>
          in Inr (if bad_sdu then entity'
                  else entity'\<lparr>um_out := um_out entity' @ [Deliver_sdu sdu]\<rparr>))"

text \<open>\<^verbatim>\<open>while (sdu_delivered(entity, sn)) sn = (sn + 1) % sn_modulus;\<close>\<close>

definition um_skip_delivered :: "nr_rlc_entity_um \<Rightarrow> int \<Rightarrow> int res" where
  "um_skip_delivered entity sn =
     skip_delivered (um_rx_list entity) (um_sn_modulus entity) (length (um_rx_list entity)) sn"

text \<open>Freeing the nodes at the head of \<^verbatim>\<open>rx_list\<close> that have left the reassembly window.\<close>

fun um_discard_head :: "nr_rlc_entity_um \<Rightarrow> nr_rlc_pdu list \<Rightarrow> int \<Rightarrow> nr_rlc_pdu list \<times> int" where
  "um_discard_head entity [] rx_size = ([], rx_size)"
| "um_discard_head entity (p # l) rx_size =
     (if um_sn_compare_rx entity (p_sn p) (um_rx_next_highest entity) \<ge> 0
      then um_discard_head entity l (rx_size - p_size p) else (p # l, rx_size))"

definition um_advance_window :: "nr_rlc_entity_um \<Rightarrow> int \<Rightarrow> nr_rlc_entity_um res" where
  "um_advance_window entity x =
     (let e1 = entity\<lparr>um_rx_next_highest := c_rem (x + 1) (um_sn_modulus entity)\<rparr>;
          (l, s) = um_discard_head e1 (um_rx_list e1) (um_rx_size e1);
          e2 = e1\<lparr>um_rx_list := l, um_rx_size := s\<rparr>
      in if um_sn_compare_rx e2 (um_rx_next_reassembly e2) (um_rx_next_highest e2) \<ge> 0
         then rbind (um_skip_delivered e2
                       (c_rem (um_rx_next_highest e2 - um_window_size e2 + um_sn_modulus e2)
                              (um_sn_modulus e2)))
                (\<lambda>sn. Inr (e2\<lparr>um_rx_next_reassembly := sn\<rparr>))
         else Inr e2)"

definition um_reassembly_timer :: "nr_rlc_entity_um \<Rightarrow> nr_rlc_entity_um" where
  "um_reassembly_timer entity =
     (let next = c_rem (um_rx_next_reassembly entity + 1) (um_sn_modulus entity);
          e1 = (if um_t_reassembly_start entity \<noteq> 0 \<and>
                   (um_sn_compare_rx entity (um_rx_timer_trigger entity)
                                            (um_rx_next_reassembly entity) \<le> 0 \<or>
                    um_sn_compare_rx entity (um_rx_timer_trigger entity)
                                            (um_rx_next_highest entity) > 0 \<or>
                    (um_rx_next_highest entity = next \<and>
                     \<not> um_sdu_has_missing_bytes entity (um_rx_next_reassembly entity)))
                then entity\<lparr>um_t_reassembly_start := 0\<rparr> else entity)
      in if um_t_reassembly_start e1 = 0 \<and>
            (um_sn_compare_rx e1 (um_rx_next_highest e1) next > 0 \<or>
             (um_rx_next_highest e1 = next \<and>
              um_sdu_has_missing_bytes e1 (um_rx_next_reassembly e1)))
         then e1\<lparr>um_t_reassembly_start := um_t_current e1,
                 um_rx_timer_trigger := um_rx_next_highest e1\<rparr>
         else e1)"

definition um_reception_actions :: "nr_rlc_entity_um \<Rightarrow> int \<Rightarrow> nr_rlc_entity_um res" where
  "um_reception_actions entity x =
     rbind
       (if um_sdu_full entity x
        then rbind (um_reassemble_and_deliver entity x) (\<lambda>e.
               if x = um_rx_next_reassembly e
               then rbind (um_skip_delivered e (um_rx_next_reassembly e))
                      (\<lambda>sn. Inr (e\<lparr>um_rx_next_reassembly := sn\<rparr>))
               else Inr e)
        else if um_sn_compare_rx entity x (um_rx_next_highest entity) \<ge> 0
        then um_advance_window entity x
        else Inr entity)
       (\<lambda>e. Inr (um_reassembly_timer e))"

text \<open>The segment of an SDU, once its header is decoded.\<close>

definition um_recv_segment ::
  "nr_rlc_entity_um \<Rightarrow> byte list \<Rightarrow> int \<Rightarrow> int \<Rightarrow> bool \<Rightarrow> bool \<Rightarrow> nat \<Rightarrow> nr_rlc_entity_um res" where
  "um_recv_segment entity buffer sn so is_first is_last header =
     (let data_size = int (length buffer) - int header in
      if data_size \<le> 0 then Inr entity
      else if um_rx_size entity + data_size > um_rx_maxsize entity then Inr entity
      else if um_sn_compare_rx entity sn (um_rx_next_reassembly entity) < 0 then Inr entity
      else
        let pdu = nr_rlc_new_pdu sn so is_first is_last (drop header buffer);
            e = entity\<lparr>um_rx_size := um_rx_size entity + data_size,
                       um_rx_list := nr_rlc_pdu_list_add (um_sn_compare_rx entity)
                                       (um_rx_list entity) pdu\<rparr>
        in um_reception_actions e sn)"

definition nr_rlc_entity_um_recv_pdu :: "nr_rlc_entity_um \<Rightarrow> byte list \<Rightarrow> nr_rlc_entity_um res" where
  "nr_rlc_entity_um_recv_pdu entity buffer =
     (let err = Inr entity;
          segment = (\<lambda>is_first is_last d.
            get_R d (um_sn_field_length entity) err (\<lambda>sn d.
            if \<not> is_first
            then get_R d 16 err (\<lambda>so d.
                   if so = 0 then Inr entity
                   else um_recv_segment entity buffer sn so is_first is_last (d_byte d))
            else um_recv_segment entity buffer sn 0 is_first is_last (d_byte d)))
      in get_R (nr_rlc_pdu_decoder_init buffer) 2 err (\<lambda>si d.
           let is_first = (si AND 2 = 0); is_last = (si AND 1 = 0) in
           if is_first \<and> is_last
           then if length buffer < 2 then Inr entity
                else Inr (entity\<lparr>um_out := um_out entity @ [Deliver_sdu (drop 1 buffer)]\<rparr>)
           else if um_sn_field_length entity = 12
           then get_R d 2 err (\<lambda>_ d. segment is_first is_last d)
           else segment is_first is_last d))"

section \<open>Transmission\<close>

definition um_serialize_sdu ::
  "nr_rlc_entity_um \<Rightarrow> nr_rlc_sdu_segment \<Rightarrow> byte list \<Rightarrow> (int \<times> byte list) res" where
  "um_serialize_sdu entity sdu buffer =
     rbind (get_sdu (um_heap entity) (g_sdu sdu)) (\<lambda>s.
     rbind (nr_rlc_pdu_encoder_put_bits (nr_rlc_pdu_encoder_init buffer)
              (1 - of_bool (g_is_first sdu)) 1) (\<lambda>e.
     rbind (nr_rlc_pdu_encoder_put_bits e (1 - of_bool (g_is_last sdu)) 1) (\<lambda>e.
     rbind (if g_is_first sdu \<and> g_is_last sdu
            then nr_rlc_pdu_encoder_put_bits e 0 6
            else
              rbind (if um_sn_field_length entity = 12
                     then nr_rlc_pdu_encoder_put_bits e 0 2 else Inr e) (\<lambda>e.
              nr_rlc_pdu_encoder_put_bits e (s_sn s) (um_sn_field_length entity))) (\<lambda>e.
     rbind (if \<not> g_is_first sdu
            then nr_rlc_pdu_encoder_put_bits e (g_so sdu) 16 else Inr e) (\<lambda>e.
     rbind (c_read (s_data s) (g_so sdu) (g_size sdu)) (\<lambda>bs.
     rbind (c_write (e_buffer e) (int (e_byte e)) bs) (\<lambda>buffer'.
       Inr (int (e_byte e) + g_size sdu, buffer'))))))))"

text \<open>
  The segment as it is after the call, the new segment that covers the remaining bytes (None is the
  NULL returned when there is no room), and the heap.
\<close>

definition um_resegment ::
  "sdu_heap \<Rightarrow> nr_rlc_sdu_segment \<Rightarrow> nr_rlc_entity_um \<Rightarrow> int \<Rightarrow>
   (nr_rlc_sdu_segment \<times> nr_rlc_sdu_segment option \<times> sdu_heap) res" where
  "um_resegment h sdu entity pdu_size =
     rbind (get_sdu h (g_sdu sdu)) (\<lambda>s.
       let h' = put_sdu h (g_sdu sdu) (s\<lparr>s_ref_count := s_ref_count s + 1\<rparr>);
           pdu_header_size = um_compute_pdu_header_size entity (sdu\<lparr>g_is_last := False\<rparr>)
       in if pdu_header_size + 1 > pdu_size then Inr (sdu, None, h')
          else
            let over_size = pdu_header_size + g_size sdu - pdu_size;
                sdu' = sdu\<lparr>g_size := g_size sdu - over_size, g_is_last := False\<rparr>;
                nxt = sdu\<lparr>g_addr := h_next h', g_size := over_size,
                          g_so := g_so sdu' + g_size sdu', g_is_first := False\<rparr>
            in Inr (sdu', Some nxt, h'\<lparr>h_next := Suc (h_next h')\<rparr>))"

text \<open>The end of \<^verbatim>\<open>generate_tx_pdu\<close>: the segment fits, it is serialized and freed.\<close>

definition um_send_segment ::
  "nr_rlc_entity_um \<Rightarrow> nr_rlc_sdu_segment \<Rightarrow> byte list \<Rightarrow> (int \<times> byte list \<times> nr_rlc_entity_um) res" where
  "um_send_segment entity sdu buffer =
     (let e = (if \<not> g_is_first sdu \<and> g_is_last sdu
               then entity\<lparr>um_tx_next := c_rem (um_tx_next entity + 1) (um_sn_modulus entity)\<rparr>
               else entity)
      in rbind (um_serialize_sdu e sdu buffer) (\<lambda>(ret, buffer').
         rbind (nr_rlc_free_sdu_segment (um_heap e) sdu) (\<lambda>(_, h').
           Inr (ret, buffer', e\<lparr>um_tx_size := um_tx_size e - g_size sdu, um_heap := h'\<rparr>))))"

definition um_generate_tx_pdu ::
  "nr_rlc_entity_um \<Rightarrow> byte list \<Rightarrow> (int \<times> byte list \<times> nr_rlc_entity_um) res" where
  "um_generate_tx_pdu entity buffer =
     (case um_tx_list entity of
        [] \<Rightarrow> Inr (0, buffer, entity)
      | sdu # rest \<Rightarrow>
          let size = int (length buffer);
              pdu_header_size = um_compute_pdu_header_size entity sdu
          in if pdu_header_size + 1 > size then Inr (0, buffer, entity)
             else
               rbind (get_sdu (um_heap entity) (g_sdu sdu)) (\<lambda>s.
               let pdu_size = pdu_header_size + g_size sdu;
                   e1 = entity\<lparr>um_tx_list := rest,
                               um_tx_end := (if rest = [] then None else um_tx_end entity),
                               um_heap := put_sdu (um_heap entity) (g_sdu sdu)
                                            (s\<lparr>s_sn := um_tx_next entity\<rparr>),
                               um_bstatus_tx_size := um_bstatus_tx_size entity - pdu_size\<rparr>
               in if pdu_size > size
                  then rbind (um_resegment (um_heap e1) sdu e1 size) (\<lambda>(sdu', next_sdu, h').
                         case next_sdu of
                           None \<Rightarrow> Inr (0, buffer, e1\<lparr>um_heap := h'\<rparr>)
                         | Some nxt \<Rightarrow>
                             um_send_segment
                               (e1\<lparr>um_heap := h', um_tx_list := nxt # rest,
                                   um_tx_end := (if um_tx_end e1 = None then Some (g_addr nxt)
                                                 else um_tx_end e1),
                                   um_bstatus_tx_size := um_bstatus_tx_size e1 +
                                     um_compute_pdu_header_size e1 nxt + g_size nxt\<rparr>)
                               sdu' buffer)
                  else um_send_segment e1 sdu buffer))"

definition nr_rlc_entity_um_buffer_status ::
  "nr_rlc_entity_um \<Rightarrow> int \<Rightarrow> nr_rlc_entity_buffer_status" where
  "nr_rlc_entity_um_buffer_status entity maxsize =
     \<lparr>bs_status_size = 0, bs_tx_size = um_bstatus_tx_size entity, bs_retx_size = 0\<rparr>"

definition nr_rlc_entity_um_generate_pdu ::
  "nr_rlc_entity_um \<Rightarrow> byte list \<Rightarrow> (int \<times> byte list \<times> nr_rlc_entity_um) res" where
  "nr_rlc_entity_um_generate_pdu entity buffer = um_generate_tx_pdu entity buffer"

definition nr_rlc_entity_um_recv_sdu ::
  "nr_rlc_entity_um \<Rightarrow> byte list \<Rightarrow> int \<Rightarrow> nr_rlc_entity_um res" where
  "nr_rlc_entity_um_recv_sdu entity buffer sdu_id =
     (let size = int (length buffer) in
      if size > NR_SDU_MAX then Inl Exit_fatal
      else if um_tx_size entity + size > um_tx_maxsize entity then Inr entity
      else
        case nr_rlc_new_sdu (um_heap entity) buffer sdu_id of (sdu, heap') \<Rightarrow>
          rbind (nr_rlc_sdu_segment_list_append (um_tx_list entity) (um_tx_end entity) sdu)
            (\<lambda>(l, e). Inr (entity\<lparr>um_tx_size := um_tx_size entity + size,
                                  um_heap := heap', um_tx_list := l, um_tx_end := e,
                                  um_bstatus_tx_size := um_bstatus_tx_size entity +
                                    um_compute_pdu_header_size entity sdu + g_size sdu\<rparr>)))"

section \<open>Timers\<close>

fun um_discard_before :: "nr_rlc_entity_um \<Rightarrow> nr_rlc_pdu list \<Rightarrow> nr_rlc_pdu list" where
  "um_discard_before entity [] = []"
| "um_discard_before entity (p # l) =
     (if um_sn_compare_rx entity (p_sn p) (um_rx_next_reassembly entity) < 0
      then um_discard_before entity l else p # l)"

definition um_check_t_reassembly :: "nr_rlc_entity_um \<Rightarrow> nr_rlc_entity_um res" where
  "um_check_t_reassembly entity =
     (if um_t_reassembly_start entity = 0 \<or>
         um_t_current entity \<le> um_t_reassembly_start entity + word_of_int (um_t_reassembly entity)
      then Inr entity
      else
        rbind (um_skip_delivered entity (um_rx_timer_trigger entity)) (\<lambda>sn.
          let e1 = entity\<lparr>um_t_reassembly_start := 0, um_rx_next_reassembly := sn\<rparr>;
              e2 = e1\<lparr>um_rx_list := um_discard_before e1 (um_rx_list e1)\<rparr>
          in Inr (if um_sn_compare_rx e2 (um_rx_next_highest e2)
                       (c_rem (um_rx_next_reassembly e2 + 1) (um_sn_modulus e2)) > 0 \<or>
                     (um_rx_next_highest e2 = um_rx_next_reassembly e2 + 1 \<and>
                      um_sdu_has_missing_bytes e2 (um_rx_next_reassembly e2))
                  then e2\<lparr>um_t_reassembly_start := um_t_current e2,
                          um_rx_timer_trigger := um_rx_next_highest e2\<rparr>
                  else e2)))"

definition nr_rlc_entity_um_set_time :: "nr_rlc_entity_um \<Rightarrow> 64 word \<Rightarrow> nr_rlc_entity_um res" where
  "nr_rlc_entity_um_set_time entity now = um_check_t_reassembly (entity\<lparr>um_t_current := now\<rparr>)"

section \<open>Discard, re-establishment, deletion\<close>

definition nr_rlc_entity_um_discard_sdu :: "nr_rlc_entity_um \<Rightarrow> int \<Rightarrow> nr_rlc_entity_um res" where
  "nr_rlc_entity_um_discard_sdu entity sdu_id =
     rbind (find_sdu_id (um_heap entity) sdu_id (um_tx_list entity)) (\<lambda>(before, rest).
       case rest of
         [] \<Rightarrow> Inr entity
       | cur # after \<Rightarrow>
           if \<not> g_is_first cur \<or> \<not> g_is_last cur then Inr entity
           else
             rbind (nr_rlc_free_sdu_segment (um_heap entity) cur) (\<lambda>(_, h').
               Inr (entity\<lparr>um_tx_list := before @ after,
                           um_tx_end := (if um_tx_end entity = Some (g_addr cur)
                                         then if before \<noteq> [] then Some (g_addr (last before))
                                              else None
                                         else um_tx_end entity),
                           um_bstatus_tx_size := um_bstatus_tx_size entity -
                             (um_compute_pdu_header_size entity cur + g_size cur),
                           um_heap := h'\<rparr>)))"

definition um_clear_entity :: "nr_rlc_entity_um \<Rightarrow> nr_rlc_entity_um res" where
  "um_clear_entity entity =
     rbind (nr_rlc_free_sdu_segment_list (um_heap entity) (um_tx_list entity)) (\<lambda>h'.
       Inr (entity\<lparr>um_rx_next_highest := 0, um_rx_next_reassembly := 0, um_rx_timer_trigger := 0,
                   um_tx_next := 0, um_t_current := 0, um_t_reassembly_start := 0,
                   um_rx_list := [], um_rx_size := 0, um_heap := h', um_tx_list := [],
                   um_tx_end := None, um_tx_size := 0, um_bstatus_tx_size := 0\<rparr>))"

definition nr_rlc_entity_um_reestablishment :: "nr_rlc_entity_um \<Rightarrow> nr_rlc_entity_um res" where
  "nr_rlc_entity_um_reestablishment entity = um_clear_entity entity"

definition nr_rlc_entity_um_delete :: "nr_rlc_entity_um \<Rightarrow> sdu_heap res" where
  "nr_rlc_entity_um_delete entity = rbind (um_clear_entity entity) (\<lambda>e. Inr (um_heap e))"

definition nr_rlc_entity_um_available_tx_space :: "nr_rlc_entity_um \<Rightarrow> int" where
  "nr_rlc_entity_um_available_tx_space entity = um_tx_maxsize entity - um_tx_size entity"

end
