(* ===== verification/NR_RLC_Entity.thy ===== *)
theory NR_RLC_Entity
  imports NR_RLC_Tm NR_RLC_Um NR_RLC_Am_Tx
begin

text \<open>
  The entity interface of RLC, \<^verbatim>\<open>nr_rlc_entity.h\<close>: a table of functions that each of the three modes fills
  in \<^verbatim>\<open>nr_rlc_entity.c\<close>. The table a pointer leads to is the constructor of the entity, so a call through
  the table is a case distinction.
\<close>

datatype nr_rlc_entity =
    E_tm nr_rlc_entity_tm
  | E_um nr_rlc_entity_um
  | E_am nr_rlc_entity_am

fun rlc_recv_pdu :: "nr_rlc_entity \<Rightarrow> byte list \<Rightarrow> nr_rlc_entity res" where
  "rlc_recv_pdu (E_tm e) buffer = Inr (E_tm (nr_rlc_entity_tm_recv_pdu e buffer))"
| "rlc_recv_pdu (E_um e) buffer = rbind (nr_rlc_entity_um_recv_pdu e buffer) (\<lambda>e. Inr (E_um e))"
| "rlc_recv_pdu (E_am e) buffer = rbind (nr_rlc_entity_am_recv_pdu e buffer) (\<lambda>e. Inr (E_am e))"

fun rlc_buffer_status :: "nr_rlc_entity \<Rightarrow> int \<Rightarrow> nr_rlc_entity_buffer_status" where
  "rlc_buffer_status (E_tm e) maxsize = nr_rlc_entity_tm_buffer_status e maxsize"
| "rlc_buffer_status (E_um e) maxsize = nr_rlc_entity_um_buffer_status e maxsize"
| "rlc_buffer_status (E_am e) maxsize = nr_rlc_entity_am_buffer_status e maxsize"

fun rlc_generate_pdu :: "nr_rlc_entity \<Rightarrow> byte list \<Rightarrow> (int \<times> byte list \<times> nr_rlc_entity) res" where
  "rlc_generate_pdu (E_tm e) buffer =
     rbind (nr_rlc_entity_tm_generate_pdu e buffer) (\<lambda>(ret, buffer, e). Inr (ret, buffer, E_tm e))"
| "rlc_generate_pdu (E_um e) buffer =
     rbind (nr_rlc_entity_um_generate_pdu e buffer) (\<lambda>(ret, buffer, e). Inr (ret, buffer, E_um e))"
| "rlc_generate_pdu (E_am e) buffer =
     rbind (nr_rlc_entity_am_generate_pdu e buffer) (\<lambda>(ret, buffer, e). Inr (ret, buffer, E_am e))"

fun rlc_recv_sdu :: "nr_rlc_entity \<Rightarrow> byte list \<Rightarrow> int \<Rightarrow> nr_rlc_entity res" where
  "rlc_recv_sdu (E_tm e) buffer sdu_id = rbind (nr_rlc_entity_tm_recv_sdu e buffer sdu_id) (\<lambda>e. Inr (E_tm e))"
| "rlc_recv_sdu (E_um e) buffer sdu_id = rbind (nr_rlc_entity_um_recv_sdu e buffer sdu_id) (\<lambda>e. Inr (E_um e))"
| "rlc_recv_sdu (E_am e) buffer sdu_id = rbind (nr_rlc_entity_am_recv_sdu e buffer sdu_id) (\<lambda>e. Inr (E_am e))"

fun rlc_set_time :: "nr_rlc_entity \<Rightarrow> 64 word \<Rightarrow> nr_rlc_entity res" where
  "rlc_set_time (E_tm e) now = Inr (E_tm (nr_rlc_entity_tm_set_time e now))"
| "rlc_set_time (E_um e) now = rbind (nr_rlc_entity_um_set_time e now) (\<lambda>e. Inr (E_um e))"
| "rlc_set_time (E_am e) now = rbind (nr_rlc_entity_am_set_time e now) (\<lambda>e. Inr (E_am e))"

fun rlc_discard_sdu :: "nr_rlc_entity \<Rightarrow> int \<Rightarrow> nr_rlc_entity res" where
  "rlc_discard_sdu (E_tm e) sdu_id = Inr (E_tm (nr_rlc_entity_tm_discard_sdu e sdu_id))"
| "rlc_discard_sdu (E_um e) sdu_id = rbind (nr_rlc_entity_um_discard_sdu e sdu_id) (\<lambda>e. Inr (E_um e))"
| "rlc_discard_sdu (E_am e) sdu_id = rbind (nr_rlc_entity_am_discard_sdu e sdu_id) (\<lambda>e. Inr (E_am e))"

fun rlc_reestablishment :: "nr_rlc_entity \<Rightarrow> nr_rlc_entity res" where
  "rlc_reestablishment (E_tm e) = rbind (nr_rlc_entity_tm_reestablishment e) (\<lambda>e. Inr (E_tm e))"
| "rlc_reestablishment (E_um e) = rbind (nr_rlc_entity_um_reestablishment e) (\<lambda>e. Inr (E_um e))"
| "rlc_reestablishment (E_am e) = rbind (nr_rlc_entity_am_reestablishment e) (\<lambda>e. Inr (E_am e))"

text \<open>Deletion releases the entity; what it leaves in memory is of no use to anyone.\<close>

fun rlc_delete :: "nr_rlc_entity \<Rightarrow> unit res" where
  "rlc_delete (E_tm e) = rbind (nr_rlc_entity_tm_delete e) (\<lambda>_. Inr ())"
| "rlc_delete (E_um e) = rbind (nr_rlc_entity_um_delete e) (\<lambda>_. Inr ())"
| "rlc_delete (E_am e) = rbind (nr_rlc_entity_am_delete e) (\<lambda>_. Inr ())"

fun rlc_available_tx_space :: "nr_rlc_entity \<Rightarrow> int" where
  "rlc_available_tx_space (E_tm e) = nr_rlc_entity_tm_available_tx_space e"
| "rlc_available_tx_space (E_um e) = nr_rlc_entity_um_available_tx_space e"
| "rlc_available_tx_space (E_am e) = nr_rlc_entity_am_available_tx_space e"

text \<open>The callbacks an entity has made, and the entity once they are carried out.\<close>

fun rlc_out :: "nr_rlc_entity \<Rightarrow> rlc_event list" where
  "rlc_out (E_tm e) = tm_out e"
| "rlc_out (E_um e) = um_out e"
| "rlc_out (E_am e) = am_out e"

fun rlc_clear_out :: "nr_rlc_entity \<Rightarrow> nr_rlc_entity" where
  "rlc_clear_out (E_tm e) = E_tm (e\<lparr>tm_out := []\<rparr>)"
| "rlc_clear_out (E_um e) = E_um (e\<lparr>um_out := []\<rparr>)"
| "rlc_clear_out (E_am e) = E_am (e\<lparr>am_out := []\<rparr>)"

lemma rlc_out_clear [simp]: "rlc_out (rlc_clear_out e) = []"
  by (cases e) simp_all

end
