(* ===== verification/L2_Ue.thy ===== *)
theory L2_Ue
  imports L2_Prelude
begin

text \<open>
  The tables of UEs, \<^verbatim>\<open>nr_rlc_ue_manager.c\<close> and \<^verbatim>\<open>nr_pdcp_ue_manager.c\<close>: the same code for two types of
  entity, so here for any type \<open>'e\<close>. A pointer to a UE is its index in \<^verbatim>\<open>ue_list\<close>; it is only used under
  the manager's lock, so nothing moves in between. The contract the layers above rely on is the locale
  \<open>ue_table\<close>: a finite map from RNTIs to UEs.
\<close>

section \<open>The contract\<close>

locale ue_table =
  fixes get_ue :: "'m \<Rightarrow> int \<Rightarrow> 'm \<times> nat"
    and deref :: "'m \<Rightarrow> nat \<Rightarrow> 'u option"
    and assign :: "'m \<Rightarrow> nat \<Rightarrow> 'u \<Rightarrow> 'm"
    and remove_ue :: "'m \<Rightarrow> int \<Rightarrow> 'm res"
    and table :: "'m \<Rightarrow> int \<Rightarrow> 'u option"
    and key :: "'u \<Rightarrow> int"
    and fresh :: "int \<Rightarrow> 'u"
    and invar :: "'m \<Rightarrow> bool"
  assumes get_law: "invar m \<Longrightarrow> get_ue m r = (m', i) \<Longrightarrow>
      invar m' \<and> deref m' i = table m' r \<and>
      table m' = (table m)(r \<mapsto> (case table m r of None \<Rightarrow> fresh r | Some u \<Rightarrow> u))"
    and assign_law: "invar m \<Longrightarrow> deref m i = Some u \<Longrightarrow> key u' = key u \<Longrightarrow>
      invar (assign m i u') \<and> table (assign m i u') = (table m)(key u \<mapsto> u')"
    and table_key: "invar m \<Longrightarrow> table m r = Some u \<Longrightarrow> key u = r"
    and remove_law: "invar m \<Longrightarrow> remove_ue m r = Inr m' \<Longrightarrow> invar m' \<and> table m' = (table m)(r := None)"
begin

text \<open>
  What every operation of the two layers does: look the UE up, creating it if needed, and change what is
  behind the pointer.
\<close>

definition on_ue :: "'m \<Rightarrow> int \<Rightarrow> ('u \<Rightarrow> ('u \<times> 'a) res) \<Rightarrow> ('m \<times> 'a) res" where
  "on_ue m r f =
     (case get_ue m r of (m', i) \<Rightarrow>
        case deref m' i of None \<Rightarrow> Inl Null_pointer
        | Some u \<Rightarrow> rbind (f u) (\<lambda>(u', a). Inr (assign m' i u', a)))"

definition found :: "'m \<Rightarrow> int \<Rightarrow> 'u" where
  "found m r = (case table m r of None \<Rightarrow> fresh r | Some u \<Rightarrow> u)"

lemma get_found:
  assumes "invar m" "get_ue m r = (m', i)"
  shows "invar m'" "deref m' i = Some (found m r)" "table m' = (table m)(r \<mapsto> found m r)"
    "key (found m r) = r"
proof -
  show "invar m'" "deref m' i = Some (found m r)" "table m' = (table m)(r \<mapsto> found m r)"
    using get_law [OF assms] by (simp_all add: found_def)
  then show "key (found m r) = r"
    using table_key by simp
qed

text \<open>Such an operation acts on the map at the one RNTI, and never meets a null pointer.\<close>

lemma on_ue_eq:
  assumes "invar m" "\<And>u u' b. f u = Inr (u', b) \<Longrightarrow> key u' = key u"
  shows "on_ue m r f = Inr (m', a) \<Longrightarrow>
      invar m' \<and> (\<exists>u'. f (found m r) = Inr (u', a) \<and> table m' = (table m)(r \<mapsto> u'))"
    and "on_ue m r f = Inl e \<Longrightarrow> f (found m r) = Inl e"
proof -
  obtain m1 i where g: "get_ue m r = (m1, i)"
    by (rule prod.exhaust)
  note u = get_found [OF assms(1) g]
  show "f (found m r) = Inl e" if "on_ue m r f = Inl e"
    using that u by (auto simp: on_ue_def g rbind_def split: sum.splits)
  assume "on_ue m r f = Inr (m', a)"
  then obtain u' where f: "f (found m r) = Inr (u', a)" and m': "m' = assign m1 i u'"
    using u by (auto simp: on_ue_def g rbind_def split: sum.splits)
  show "invar m' \<and> (\<exists>u'. f (found m r) = Inr (u', a) \<and> table m' = (table m)(r \<mapsto> u'))"
    using assign_law [OF u(1,2) assms(2) [OF f]] u(3,4) f m' by simp
qed

lemma on_ue_others:
  assumes "invar m" "\<And>u u' b. f u = Inr (u', b) \<Longrightarrow> key u' = key u" "on_ue m r f = Inr (m', a)" "r' \<noteq> r"
  shows "table m' r' = table m r'"
proof -
  obtain u' where "table m' = (table m)(r \<mapsto> u')"
    using on_ue_eq(1) [OF assms(1) _ assms(3)] assms(2) by blast
  then show ?thesis
    using assms(4) by simp
qed

end

section \<open>The managers\<close>

record 'e ue =
  ue_rnti :: int
  ue_srb :: "'e option list"
  ue_drb :: "'e option list"

record 'e ue_manager =
  mg_list :: "'e ue list"
  mg_enb_flag :: bool

text \<open>What \<^verbatim>\<open>calloc\<close> and the assignment of \<^verbatim>\<open>rnti\<close> give.\<close>

definition new_ue :: "int \<Rightarrow> 'e ue" where
  "new_ue rnti = \<lparr>ue_rnti = rnti, ue_srb = replicate 3 None, ue_drb = replicate 5 None\<rparr>"

definition new_ue_manager :: "bool \<Rightarrow> 'e ue_manager" where
  "new_ue_manager enb_flag = \<lparr>mg_list = [], mg_enb_flag = enb_flag\<rparr>"

text \<open>The search loop: the index of the UE, or \<^verbatim>\<open>ue_count\<close>.\<close>

fun find_ue :: "'e ue list \<Rightarrow> int \<Rightarrow> nat" where
  "find_ue [] rnti = 0"
| "find_ue (ue # l) rnti = (if ue_rnti ue = rnti then 0 else Suc (find_ue l rnti))"

definition manager_get_ue :: "'e ue_manager \<Rightarrow> int \<Rightarrow> 'e ue_manager \<times> nat" where
  "manager_get_ue m rnti =
     (let i = find_ue (mg_list m) rnti in
      if i < length (mg_list m) then (m, i)
      else (m\<lparr>mg_list := mg_list m @ [new_ue rnti]\<rparr>, i))"

text \<open>The entities of a UE are deleted one by one; \<open>delete\<close> is the entity's own function.\<close>

fun delete_entities :: "('e \<Rightarrow> unit res) \<Rightarrow> 'e option list \<Rightarrow> unit res" where
  "delete_entities delete [] = Inr ()"
| "delete_entities delete (None # l) = delete_entities delete l"
| "delete_entities delete (Some rb # l) = rbind (delete rb) (\<lambda>_. delete_entities delete l)"

definition manager_remove_ue :: "('e \<Rightarrow> unit res) \<Rightarrow> 'e ue_manager \<Rightarrow> int \<Rightarrow> 'e ue_manager res" where
  "manager_remove_ue delete m rnti =
     (let l = mg_list m; i = find_ue l rnti in
      if i = length l then Inr m
      else
        rbind (delete_entities delete (take 2 (ue_srb (l ! i)))) (\<lambda>_.
        rbind (delete_entities delete (take 5 (ue_drb (l ! i)))) (\<lambda>_.
          Inr (m\<lparr>mg_list := take i l @ drop (i + 1) l\<rparr>))))"

definition ue_add_srb_entity :: "'e ue \<Rightarrow> int \<Rightarrow> 'e \<Rightarrow> 'e ue res" where
  "ue_add_srb_entity ue srb_id entity =
     (if srb_id < 1 \<or> srb_id > 2 then Inl Exit_fatal
      else
        let i = nat (srb_id - 1) in
        if ue_srb ue ! i \<noteq> None then Inl Exit_fatal
        else Inr (ue\<lparr>ue_srb := (ue_srb ue)[i := Some entity]\<rparr>))"

definition ue_add_drb_entity :: "'e ue \<Rightarrow> int \<Rightarrow> 'e \<Rightarrow> 'e ue res" where
  "ue_add_drb_entity ue drb_id entity =
     (if drb_id < 1 \<or> drb_id > 5 then Inl Exit_fatal
      else
        let i = nat (drb_id - 1) in
        if ue_drb ue ! i \<noteq> None then Inl Exit_fatal
        else Inr (ue\<lparr>ue_drb := (ue_drb ue)[i := Some entity]\<rparr>))"

definition manager_get_first_rnti :: "'e ue_manager \<Rightarrow> int" where
  "manager_get_first_rnti m = (case mg_list m of [] \<Rightarrow> - 1 | ue # _ \<Rightarrow> ue_rnti ue)"

text \<open>What a pointer to a UE reads, and an assignment through it.\<close>

definition manager_ue :: "'e ue_manager \<Rightarrow> nat \<Rightarrow> 'e ue option" where
  "manager_ue m i = (if i < length (mg_list m) then Some (mg_list m ! i) else None)"

definition manager_set_ue :: "'e ue_manager \<Rightarrow> nat \<Rightarrow> 'e ue \<Rightarrow> 'e ue_manager" where
  "manager_set_ue m i ue = m\<lparr>mg_list := (mg_list m)[i := ue]\<rparr>"

section \<open>The managers meet the contract\<close>

definition ue_ok :: "'e ue \<Rightarrow> bool" where
  "ue_ok ue \<longleftrightarrow> length (ue_srb ue) = 3 \<and> length (ue_drb ue) = 5 \<and> ue_srb ue ! 2 = None"

definition manager_ok :: "'e ue_manager \<Rightarrow> bool" where
  "manager_ok m \<longleftrightarrow> distinct (map ue_rnti (mg_list m))"

definition manager_table :: "'e ue_manager \<Rightarrow> int \<Rightarrow> 'e ue option" where
  "manager_table m = map_of (map (\<lambda>ue. (ue_rnti ue, ue)) (mg_list m))"

lemma find_ue_le: "find_ue l r \<le> length l"
  by (induction l) auto

lemma find_ue_some: "find_ue l r < length l \<Longrightarrow> ue_rnti (l ! find_ue l r) = r"
  by (induction l) auto

lemma find_ue_none: "find_ue l r = length l \<longleftrightarrow> r \<notin> ue_rnti ` set l"
  by (induction l) auto

lemma map_of_find:
  "map_of (map (\<lambda>ue. (ue_rnti ue, ue)) l) r = (if find_ue l r < length l then Some (l ! find_ue l r) else None)"
  by (induction l) auto

lemma map_of_table: "manager_table m r = manager_ue m (find_ue (mg_list m) r)"
  by (simp add: manager_table_def manager_ue_def map_of_find)

lemma manager_get_law:
  assumes "manager_ok m" "manager_get_ue m r = (m', i)"
  shows "manager_ok m' \<and> manager_ue m' i = manager_table m' r \<and>
    manager_table m' = (manager_table m)(r \<mapsto> (case manager_table m r of None \<Rightarrow> new_ue r | Some u \<Rightarrow> u))"
proof (cases "find_ue (mg_list m) r < length (mg_list m)")
  case True
  then have "m' = m" "i = find_ue (mg_list m) r"
    using assms(2) by (auto simp: manager_get_ue_def)
  moreover have "manager_table m r = Some (mg_list m ! find_ue (mg_list m) r)"
    using True by (simp add: map_of_table manager_ue_def)
  ultimately show ?thesis
    using assms(1) by (auto simp: map_of_table fun_upd_idem_iff)
next
  case False
  then have f: "find_ue (mg_list m) r = length (mg_list m)" "r \<notin> ue_rnti ` set (mg_list m)"
    using find_ue_le [of "mg_list m" r] find_ue_none [of "mg_list m" r] by auto
  then have m': "m' = m\<lparr>mg_list := mg_list m @ [new_ue r]\<rparr>" "i = length (mg_list m)"
    using assms(2) by (auto simp: manager_get_ue_def)
  have none: "manager_table m r = None"
    using f by (simp add: map_of_table manager_ue_def)
  have "manager_ok m'"
    using assms(1) f by (simp add: m' manager_ok_def new_ue_def)
  moreover have "manager_table m' = (manager_table m)(r \<mapsto> new_ue r)"
    using none by (auto simp: m' manager_table_def fun_eq_iff map_add_def new_ue_def split: option.splits)
  ultimately show ?thesis
    using none by (simp add: m' manager_ue_def)
qed

lemma map_of_update:
  "distinct (map ue_rnti l) \<Longrightarrow> i < length l \<Longrightarrow> ue_rnti u = ue_rnti (l ! i) \<Longrightarrow>
   map_of (map (\<lambda>ue. (ue_rnti ue, ue)) (l[i := u])) =
   (map_of (map (\<lambda>ue. (ue_rnti ue, ue)) l))(ue_rnti u \<mapsto> u)"
proof (induction l arbitrary: i)
  case (Cons x l)
  show ?case
  proof (cases i)
    case (Suc j)
    then have "ue_rnti u \<noteq> ue_rnti x"
      using Cons.prems by (metis distinct.simps(2) image_eqI list.set_map list.simps(9) nth_Cons_Suc
          nth_mem length_Cons Suc_less_eq)
    then show ?thesis
      using Cons Suc by (auto simp: fun_upd_twist)
  qed (use Cons.prems in auto)
qed simp

lemma manager_assign_law:
  assumes "manager_ok m" "manager_ue m i = Some u" "ue_rnti u' = ue_rnti u"
  shows "manager_ok (manager_set_ue m i u') \<and>
    manager_table (manager_set_ue m i u') = (manager_table m)(ue_rnti u \<mapsto> u')"
proof -
  have i: "i < length (mg_list m)" "mg_list m ! i = u"
    using assms(2) by (auto simp: manager_ue_def split: if_splits)
  have rn: "map ue_rnti ((mg_list m)[i := u']) = map ue_rnti (mg_list m)"
    using i assms(3) by (metis list_update_id map_update nth_map)
  then have ok: "manager_ok (manager_set_ue m i u')"
    using assms(1) by (simp add: manager_ok_def manager_set_ue_def)
  then show ?thesis
    using ok map_of_update [OF assms(1) [unfolded manager_ok_def] i(1), of u'] assms(3) i(2)
    by (simp add: manager_table_def manager_set_ue_def)
qed

lemma manager_table_key: "manager_table m r = Some u \<Longrightarrow> ue_rnti u = r"
  using find_ue_some by (auto simp: map_of_table manager_ue_def split: if_splits)

lemma map_of_remove:
  "distinct (map ue_rnti l) \<Longrightarrow> find_ue l r < length l \<Longrightarrow>
   map_of (map (\<lambda>ue. (ue_rnti ue, ue)) (take (find_ue l r) l @ drop (find_ue l r + 1) l)) =
   (map_of (map (\<lambda>ue. (ue_rnti ue, ue)) l))(r := None)"
proof (induction l)
  case (Cons x l)
  show ?case
  proof (cases "ue_rnti x = r")
    case True
    then have "map_of (map (\<lambda>ue. (ue_rnti ue, ue)) l) r = None"
      using Cons.prems(1) find_ue_none [of l r] by (simp add: map_of_find)
    then show ?thesis
      using True by (auto simp: fun_eq_iff)
  next
    case False
    then show ?thesis
      using Cons by (auto simp: fun_upd_twist)
  qed
qed simp

lemma distinct_remove_nth:
  assumes "distinct xs"
  shows "distinct (take i xs @ drop (Suc i) xs)"
proof -
  have "set (take i xs) \<inter> set (drop i xs) = {}"
    using assms by (metis append_take_drop_id distinct_append)
  moreover have "set (drop (Suc i) xs) \<subseteq> set (drop i xs)"
    by (simp add: set_drop_subset_set_drop)
  ultimately show ?thesis
    using assms by auto
qed

lemma manager_remove_law:
  assumes "manager_ok m" "manager_remove_ue delete m r = Inr m'"
  shows "manager_ok m' \<and> manager_table m' = (manager_table m)(r := None)"
proof (cases "find_ue (mg_list m) r < length (mg_list m)")
  case True
  let ?l = "take (find_ue (mg_list m) r) (mg_list m) @ drop (find_ue (mg_list m) r + 1) (mg_list m)"
  have m': "m' = m\<lparr>mg_list := ?l\<rparr>"
    using assms(2) True by (auto simp: manager_remove_ue_def Let_def rbind_def split: sum.splits)
  have "distinct (map ue_rnti ?l)"
    using distinct_remove_nth [of "map ue_rnti (mg_list m)" "find_ue (mg_list m) r"] assms(1)
    by (simp add: manager_ok_def take_map drop_map)
  then show ?thesis
    using map_of_remove [OF assms(1) [unfolded manager_ok_def] True]
    by (simp add: m' manager_ok_def manager_table_def)
next
  case False
  then have "find_ue (mg_list m) r = length (mg_list m)"
    using find_ue_le [of "mg_list m" r] by simp
  then have "m' = m" "manager_table m r = None"
    using assms(2) by (auto simp: manager_remove_ue_def map_of_table manager_ue_def)
  then show ?thesis
    using assms(1) by (auto simp: fun_eq_iff)
qed

interpretation um: ue_table manager_get_ue manager_ue manager_set_ue "manager_remove_ue delete"
    manager_table ue_rnti new_ue manager_ok for delete
  by unfold_locales
    (use manager_get_law manager_assign_law manager_table_key manager_remove_law in blast)+

text \<open>The lookup and the use of its result, as one operation.\<close>

definition with_ue :: "'e ue_manager \<Rightarrow> int \<Rightarrow> ('e ue \<Rightarrow> ('e ue \<times> 'a) res) \<Rightarrow> ('e ue_manager \<times> 'a) res" where
  "with_ue m rnti f =
     (case manager_get_ue m rnti of (m', i) \<Rightarrow>
        case manager_ue m' i of None \<Rightarrow> Inl Null_pointer
        | Some ue \<Rightarrow> rbind (f ue) (\<lambda>(ue', a). Inr (manager_set_ue m' i ue', a)))"

text \<open>The UE an operation meets: the one of the table, or a new one.\<close>

definition ue_of :: "'e ue_manager \<Rightarrow> int \<Rightarrow> 'e ue" where
  "ue_of m rnti = (case manager_table m rnti of None \<Rightarrow> new_ue rnti | Some ue \<Rightarrow> ue)"

lemma with_ue_on_ue: "with_ue m r f = um.on_ue m r f"
  by (simp add: with_ue_def um.on_ue_def)

lemma ue_of_found: "ue_of m r = um.found m r"
  by (simp add: ue_of_def um.found_def)

lemma ue_of_rnti: "manager_ok m \<Longrightarrow> ue_rnti (ue_of m r) = r"
  by (cases "manager_get_ue m r") (simp add: ue_of_found um.get_found(4))

definition keeps_rnti :: "('e ue \<Rightarrow> ('e ue \<times> 'a) res) \<Rightarrow> bool" where
  "keeps_rnti f \<longleftrightarrow> (\<forall>u u' a. f u = Inr (u', a) \<longrightarrow> ue_rnti u' = ue_rnti u)"

lemma with_ue_table:
  assumes "manager_ok m" "keeps_rnti f" "with_ue m r f = Inr (m', a)"
  obtains u' where "manager_ok m'" "f (ue_of m r) = Inr (u', a)" "manager_table m' = (manager_table m)(r \<mapsto> u')"
  using um.on_ue_eq(1) [OF assms(1), of f r m' a] assms(2,3) that
  unfolding with_ue_on_ue ue_of_found keeps_rnti_def by blast

lemma with_ue_fault:
  assumes "manager_ok m" "keeps_rnti f" "with_ue m r f = Inl e"
  shows "f (ue_of m r) = Inl e"
  using um.on_ue_eq(2) [OF assms(1), of f r e] assms(2,3)
  unfolding with_ue_on_ue ue_of_found keeps_rnti_def by blast

lemma with_ue_frame:
  "with_ue m r f = Inr (m', a) \<Longrightarrow> mg_enb_flag m' = mg_enb_flag m"
  by (auto simp: with_ue_def manager_get_ue_def manager_set_ue_def Let_def rbind_def
      split: if_splits option.splits sum.splits)

lemma with_ue_run:
  assumes "manager_ok m" "keeps_rnti f" "manager_table m r = Some u" "f u = Inr (u', a)"
  obtains m' where "with_ue m r f = Inr (m', a)" "manager_ok m'" "manager_table m' = (manager_table m)(r \<mapsto> u')"
    "mg_enb_flag m' = mg_enb_flag m"
proof -
  have u: "ue_of m r = u"
    using assms(3) by (simp add: ue_of_def)
  obtain m' a' where w: "with_ue m r f = Inr (m', a')"
    using with_ue_fault [OF assms(1,2), of r] assms(4) u by (cases "with_ue m r f") auto
  show thesis
    by (rule with_ue_table [OF assms(1,2) w]) (use that w with_ue_frame [OF w] assms(4) u in auto)
qed

section \<open>Radio bearers of a UE\<close>

text \<open>The slot of a radio bearer: SRBs 1 and 2, DRBs 1 to 5.\<close>

definition rb_slot :: "bool \<Rightarrow> int \<Rightarrow> nat option" where
  "rb_slot srb_flag rb_id =
     (if rb_id < 1 \<or> rb_id > (if srb_flag then 2 else 5) then None else Some (nat (rb_id - 1)))"

definition ue_rbs :: "bool \<Rightarrow> 'e ue \<Rightarrow> 'e option list" where
  "ue_rbs srb_flag ue = (if srb_flag then ue_srb ue else ue_drb ue)"

definition ue_set_rb :: "bool \<Rightarrow> 'e ue \<Rightarrow> nat \<Rightarrow> 'e \<Rightarrow> 'e ue" where
  "ue_set_rb srb_flag ue i rb =
     (if srb_flag then ue\<lparr>ue_srb := (ue_srb ue)[i := Some rb]\<rparr> else ue\<lparr>ue_drb := (ue_drb ue)[i := Some rb]\<rparr>)"

text \<open>
  An index into the \<^verbatim>\<open>srb\<close> or \<^verbatim>\<open>drb\<close> array of a UE taken from the configuration, before any test of its range.
\<close>

definition ue_rb_present :: "'e option list \<Rightarrow> int \<Rightarrow> bool res" where
  "ue_rb_present rbs rb_id =
     (if 1 \<le> rb_id \<and> rb_id \<le> int (length rbs) then Inr (rbs ! nat (rb_id - 1) \<noteq> None) else Inl Out_of_bounds)"

section \<open>Well-formed tables\<close>

lemma rb_slot_Some: "rb_slot srb_flag rb_id = Some i \<longleftrightarrow>
    1 \<le> rb_id \<and> rb_id \<le> (if srb_flag then 2 else 5) \<and> i = nat (rb_id - 1)"
  by (auto simp: rb_slot_def)

lemma ue_set_rb_rnti [simp]: "ue_rnti (ue_set_rb f ue i rb) = ue_rnti ue"
  by (simp add: ue_set_rb_def)

lemma ue_rb_present_range: "ue_rb_present rbs rb_id = Inr x \<Longrightarrow> 1 \<le> rb_id"
  by (auto simp: ue_rb_present_def split: if_splits)

text \<open>Every entity of a UE, of a table, satisfies \<open>P\<close> for its slot.\<close>

definition ue_all :: "(bool \<Rightarrow> nat \<Rightarrow> 'e \<Rightarrow> bool) \<Rightarrow> 'e ue \<Rightarrow> bool" where
  "ue_all P u \<longleftrightarrow> ue_ok u \<and>
     (\<forall>srb_flag i e. i < length (ue_rbs srb_flag u) \<longrightarrow> ue_rbs srb_flag u ! i = Some e \<longrightarrow> P srb_flag i e)"

definition manager_all :: "(bool \<Rightarrow> nat \<Rightarrow> 'e \<Rightarrow> bool) \<Rightarrow> 'e ue_manager \<Rightarrow> bool" where
  "manager_all P m \<longleftrightarrow> manager_ok m \<and> (\<forall>r u. manager_table m r = Some u \<longrightarrow> ue_all P u)"

lemma new_ue_all: "ue_all P (new_ue r)"
  by (auto simp: ue_all_def ue_ok_def new_ue_def ue_rbs_def nth_Cons' numeral_3_eq_3 split: if_splits)

lemma new_manager_all: "manager_all P (new_ue_manager f)"
  by (simp add: manager_all_def manager_ok_def manager_table_def new_ue_manager_def)

lemma manager_all_ok: "manager_all P m \<Longrightarrow> manager_ok m"
  by (simp add: manager_all_def)

lemma ue_of_all: "manager_all P m \<Longrightarrow> ue_all P (ue_of m r)"
  by (auto simp: manager_all_def ue_of_def new_ue_all split: option.splits)

lemma manager_all_upd:
  "manager_all P m \<Longrightarrow> manager_ok m' \<Longrightarrow> manager_table m' = (manager_table m)(r \<mapsto> u) \<Longrightarrow> ue_all P u \<Longrightarrow>
   manager_all P m'"
  by (auto simp: manager_all_def)

lemma with_ue_all:
  assumes "manager_all P m" "keeps_rnti f" "with_ue m r f = Inr (m', a)"
    and "\<And>u u' a. ue_all P u \<Longrightarrow> f u = Inr (u', a) \<Longrightarrow> ue_all P u'"
  obtains u' where "manager_all P m'" "f (ue_of m r) = Inr (u', a)" "ue_all P u'"
    "manager_table m' = (manager_table m)(r \<mapsto> u')"
proof -
  obtain u' where u': "manager_ok m'" "f (ue_of m r) = Inr (u', a)" "manager_table m' = (manager_table m)(r \<mapsto> u')"
    by (rule with_ue_table [OF manager_all_ok [OF assms(1)] assms(2,3)])
  then have "ue_all P u'"
    using assms(4) ue_of_all [OF assms(1)] by blast
  then show thesis
    using that [OF manager_all_upd [OF assms(1) u'(1,3)] u'(2) _ u'(3)] by blast
qed

lemma remove_ue_all:
  assumes "manager_all P m" "manager_remove_ue delete m r = Inr m'"
  shows "manager_all P m'"
  using manager_remove_law [OF manager_all_ok [OF assms(1)] assms(2)] assms(1) by (auto simp: manager_all_def)

lemma ue_set_rb_all:
  assumes "ue_all P u" "P srb_flag i rb" "i < (if srb_flag then 2 else 5)"
  shows "ue_all P (ue_set_rb srb_flag u i rb)"
  using assms by (auto simp: ue_all_def ue_ok_def ue_set_rb_def ue_rbs_def nth_list_update split: if_splits)

lemma ue_all_rb:
  assumes "ue_all P u" "i < (if srb_flag then 3 else 5)" "ue_rbs srb_flag u ! i = Some e"
  shows "P srb_flag i e" "i < (if srb_flag then 2 else 5)"
proof -
  show "P srb_flag i e"
    using assms by (auto simp: ue_all_def ue_ok_def ue_rbs_def split: if_splits)
  show "i < (if srb_flag then 2 else 5)"
    using assms less_Suc_eq [of i 2] by (auto simp: ue_all_def ue_ok_def ue_rbs_def eval_nat_numeral split: if_splits)
qed

lemma add_entity_all:
  assumes "ue_all P u" "P srb_flag (nat (rb_id - 1)) e"
    and "(if srb_flag then ue_add_srb_entity else ue_add_drb_entity) u rb_id e = Inr u'"
  shows "ue_all P u'" "ue_rnti u' = ue_rnti u"
proof -
  have u': "u' = ue_set_rb srb_flag u (nat (rb_id - 1)) e" "nat (rb_id - 1) < (if srb_flag then 2 else 5)"
    using assms(3) by (auto simp: ue_add_srb_entity_def ue_add_drb_entity_def ue_set_rb_def Let_def split: if_splits)
  then show "ue_all P u'" "ue_rnti u' = ue_rnti u"
    using ue_set_rb_all [OF assms(1,2)] by simp_all
qed

end
