(* ===== verification/L2_Config.thy ===== *)
theory L2_Config
  imports L2_Prelude
begin

text \<open>
  The tables that turn ASN.1 enumeration values into numbers (\<^verbatim>\<open>nr_rlc/asn1_utils.c\<close>,
  \<^verbatim>\<open>nr_pdcp/asn1_utils.c\<close>). A value outside a table ends the program. The entries that a table's
  initialiser leaves out are zero, as C has it. \<open>int32\<close> reduces a product to the width of an \<^verbatim>\<open>int\<close>.
\<close>

definition decode_tab :: "int list \<Rightarrow> int \<Rightarrow> int res" where
  "decode_tab tab v = (if v < 0 \<or> v > int (length tab) - 1 then Inl Exit_fatal else Inr (tab ! nat v))"

definition int32 :: "int \<Rightarrow> int" where
  "int32 x = signed_take_bit 31 x"

section \<open>RLC\<close>

definition decode_t_reassembly :: "int \<Rightarrow> int res" where
  "decode_t_reassembly = decode_tab
     [0, 5, 10, 15, 20, 25, 30, 35, 40, 45, 50, 55, 60, 65, 70, 75, 80, 85, 90,
      95, 100, 110, 120, 130, 140, 150, 160, 170, 180, 190, 200]"

definition decode_t_status_prohibit :: "int \<Rightarrow> int res" where
  "decode_t_status_prohibit = decode_tab
     [0, 5, 10, 15, 20, 25, 30, 35, 40, 45, 50, 55, 60, 65, 70, 75, 80, 85, 90,
      95, 100, 105, 110, 115, 120, 125, 130, 135, 140, 145, 150, 155, 160, 165,
      170, 175, 180, 185, 190, 195, 200, 205, 210, 215, 220, 225, 230, 235, 240,
      245, 250, 300, 350, 400, 450, 500, 800, 1000, 1200, 1600, 2000, 2400]"

definition decode_t_poll_retransmit :: "int \<Rightarrow> int res" where
  "decode_t_poll_retransmit = decode_tab
     [5, 10, 15, 20, 25, 30, 35, 40, 45, 50, 55, 60, 65, 70, 75, 80, 85, 90, 95,
      100, 105, 110, 115, 120, 125, 130, 135, 140, 145, 150, 155, 160, 165, 170,
      175, 180, 185, 190, 195, 200, 205, 210, 215, 220, 225, 230, 235, 240, 245,
      250, 300, 350, 400, 450, 500, 800, 1000, 2000, 4000]"

text \<open>The initialiser has 23 entries, the last one is \<open>65536 -1\<close>; the table has 24.\<close>

definition decode_poll_pdu :: "int \<Rightarrow> int res" where
  "decode_poll_pdu = decode_tab
     [4, 8, 16, 32, 64, 128, 256, 512, 1024, 2048, 4096, 6144, 8192, 12288,
      16384, 20480, 24576, 28672, 32768, 40960, 49152, 57344, 65536
      - 1, 0]"

definition decode_poll_byte :: "int \<Rightarrow> int res" where
  "decode_poll_byte v =
     rbind (decode_tab
       [1024 * 1,    1024 * 2,    1024 * 5,    1024 * 8,    1024 * 10,
        1024 * 15,   1024 * 25,   1024 * 50,   1024 * 75,   1024 * 100,
        1024 * 125,  1024 * 250,  1024 * 375,  1024 * 500,  1024 * 750,
        1024 * 1000, 1024 * 1250, 1024 * 1500, 1024 * 2000, 1024 * 3000,
        1024 * 4000, 1024 * 4500, 1024 * 5000, 1024 * 5500, 1024 * 6000,
        1024 * 6500, 1024 * 7000, 1024 * 7500,
        1024 * 1024 * 8,  1024 * 1024 * 9,  1024 * 1024 * 10, 1024 * 1024 * 11,
        1024 * 1024 * 12, 1024 * 1024 * 13, 1024 * 1024 * 14, 1024 * 1024 * 15,
        1024 * 1024 * 16, 1024 * 1024 * 17, 1024 * 1024 * 18, 1024 * 1024 * 20,
        1024 * 1024 * 25, 1024 * 1024 * 30, 1024 * 1024 * 40,
        -1] v) (\<lambda>t. if t = -1 then Inr (-1) else Inr (int32 (t * 1024)))"

definition decode_max_retx_threshold :: "int \<Rightarrow> int res" where
  "decode_max_retx_threshold = decode_tab [1, 2, 3, 4, 6, 8, 16, 32]"

definition decode_sn_field_length_um :: "int \<Rightarrow> int res" where
  "decode_sn_field_length_um = decode_tab [6, 12]"

definition decode_sn_field_length_am :: "int \<Rightarrow> int res" where
  "decode_sn_field_length_am = decode_tab [12, 18]"

section \<open>PDCP\<close>

definition decode_t_reordering :: "int \<Rightarrow> int res" where
  "decode_t_reordering = decode_tab
     [0, 1, 2, 4, 5, 8, 10, 15, 20, 30, 40, 50, 60, 80, 100, 120, 140, 160, 180,
      200, 220, 240, 260, 280, 300, 500, 750, 1000, 1250, 1500, 1750, 2000,
      2250, 2500, 2750, 3000]"

definition decode_sn_size_ul :: "int \<Rightarrow> int res" where
  "decode_sn_size_ul s = (if s = 0 then Inr 12 else if s = 1 then Inr 18 else Inl Exit_fatal)"

definition decode_sn_size_dl :: "int \<Rightarrow> int res" where
  "decode_sn_size_dl s = (if s = 0 then Inr 12 else if s = 1 then Inr 18 else Inl Exit_fatal)"

definition decode_discard_timer :: "int \<Rightarrow> int res" where
  "decode_discard_timer = decode_tab
     [10, 20, 30, 40, 50, 60, 75, 100, 150, 200, 250, 300, 500, 750, 1500, -1]"

section \<open>Ranges\<close>

lemma decode_tab_range: "decode_tab tab v = Inr x \<Longrightarrow> x \<in> set tab"
  by (auto simp: decode_tab_def split: if_splits)

lemma decode_t_reassembly_range: "decode_t_reassembly v = Inr x \<Longrightarrow> 0 \<le> x \<and> x \<le> 200"
  unfolding decode_t_reassembly_def by (drule decode_tab_range) auto

lemma decode_t_reordering_range: "decode_t_reordering v = Inr x \<Longrightarrow> 0 \<le> x \<and> x \<le> 3000"
  unfolding decode_t_reordering_def by (drule decode_tab_range) auto

lemma decode_sn_field_length_um_range: "decode_sn_field_length_um v = Inr x \<Longrightarrow> x \<in> {6, 12}"
  unfolding decode_sn_field_length_um_def by (drule decode_tab_range) auto

lemma decode_sn_field_length_am_range: "decode_sn_field_length_am v = Inr x \<Longrightarrow> x \<in> {12, 18}"
  unfolding decode_sn_field_length_am_def by (drule decode_tab_range) auto

lemma decode_sn_size_range: "decode_sn_size_dl v = Inr x \<Longrightarrow> x \<in> {12, 18}"
  by (auto simp: decode_sn_size_dl_def split: if_splits)

section \<open>Deviations\<close>

text \<open>
  The infinite poll interval is lost: the comma before the last entry of the table is missing, so the
  value for 65536 PDUs means 65535, and the value for infinity means 0, after which every PDU polls.
\<close>

lemma poll_pdu_infinity_lost: "decode_poll_pdu 22 = Inr 65535 \<and> decode_poll_pdu 23 = Inr 0"
  by (simp add: decode_poll_pdu_def decode_tab_def)

text \<open>
  The poll interval in bytes is 1024 times too large: the table already holds bytes and is multiplied
  once more, one kilobyte means one megabyte; from 3000 kilobytes on the product does not fit an \<^verbatim>\<open>int\<close>,
  and reduced to its width it is negative there and zero at 8 megabytes.
\<close>

theorem poll_byte_scaled_twice:
  "decode_poll_byte 0 = Inr (1024 * 1024) \<and> 1024 * 3000 * 1024 > (2 ^ 31 :: int) \<and>
   decode_poll_byte 19 = Inr (1024 * 3000 * 1024 - 2 ^ 32) \<and> decode_poll_byte 28 = Inr 0"
  by (simp add: decode_poll_byte_def decode_tab_def int32_def signed_take_bit_eq_take_bit_minus)

end
