(* ===== verification/L2_Asn1.thy ===== *)
theory L2_Asn1
  imports L2_Prelude
begin

text \<open>
  The fields of the decoded RRC configuration the two layers read. The C structures are generated from
  the ASN.1 specification at build time and are not part of the sources; each record holds what
  \<^verbatim>\<open>nr_pdcp_oai_api.c\<close> and \<^verbatim>\<open>nr_rlc_oai_api.c\<close> read of one structure. An optional field is a pointer, \<open>None\<close>
  when it is null; a chain of pointers read to its end is one option.
\<close>

record pdcp_config_drb =
  dc_SN_SizeUL :: "int option"
  dc_SN_SizeDL :: "int option"
  dc_discardTimer :: "int option"
  dc_integrityProtection :: bool

record pdcp_config =
  pc_drb :: "pdcp_config_drb option"
  pc_t_Reordering :: "int option"
  pc_cipheringDisabled :: bool

record srb_to_add =
  sa_srb_Identity :: int
  sa_pdcp_Config :: "pdcp_config option"

text \<open>\<open>sc_mappedQoS_FlowsToAdd\<close> are the elements of the list, each behind a pointer of its own.\<close>

record sdap_config =
  sc_pdu_Session :: int
  sc_HeaderUL_present :: bool
  sc_HeaderDL_present :: bool
  sc_defaultDRB :: bool
  sc_mappedQoS_FlowsToAdd :: "int list option"

datatype cn_association =
    CN_NOTHING
  | CN_eps_BearerIdentity int
  | CN_sdap_Config "sdap_config option"

record drb_to_add =
  da_drb_Identity :: int
  da_pdcp_Config :: "pdcp_config option"
  da_cnAssociation :: "cn_association option"

record rlc_config_am =
  rca_t_Reassembly :: int
  rca_t_StatusProhibit :: int
  rca_t_PollRetransmit :: int
  rca_pollPDU :: int
  rca_pollByte :: int
  rca_maxRetxThreshold :: int
  rca_dl_sn_FieldLength :: "int option"
  rca_ul_sn_FieldLength :: "int option"

record rlc_config_um =
  rcu_t_Reassembly :: int
  rcu_dl_sn_FieldLength :: "int option"
  rcu_ul_sn_FieldLength :: "int option"

text \<open>\<open>RLC_other\<close> stands for the values of \<^verbatim>\<open>present\<close> the code does not name.\<close>

datatype rlc_config =
    RLC_am rlc_config_am
  | RLC_um_Bi_Directional rlc_config_um
  | RLC_other

datatype served_radio_bearer = Served_srb int | Served_drb int | Served_nothing

record rlc_bearer_config =
  bc_logicalChannelIdentity :: int
  bc_servedRadioBearer :: "served_radio_bearer option"
  bc_rlc_Config :: "rlc_config option"
  bc_logicalChannelGroup :: "int option"

text \<open>What the process is: the node type and the command-line flags that select a path.\<close>

record node =
  nd_is_cu :: bool
  nd_is_du :: bool
  nd_tun :: bool

text \<open>Reading through a pointer.\<close>

definition deref :: "'a option \<Rightarrow> 'a res" where
  "deref = of_opt Null_pointer"

end
