(* ===== verification/NR_RLC_Api.thy ===== *)
theory NR_RLC_Api
  imports NR_RLC_Entity L2_Ue L2_Ring L2_Config L2_Asn1
begin

text \<open>
  The interface of the RLC layer, \<^verbatim>\<open>nr_rlc_oai_api.c\<close>, with its table of UEs, \<^verbatim>\<open>nr_rlc_ue_manager.c\<close>: what
  MAC, PDCP and RRC call, and the callbacks of the entities.

  Each function takes the manager's lock around its work, so it is one step on the state. The callbacks an
  entity makes while it works are in its list of events; they are carried out when its function returns, in
  their order. They hand data to other layers and never come back to RLC, so the two orders give the same
  state.
\<close>

section \<open>State\<close>

text \<open>Messages to the tasks of a split gNB: on a DU what is received goes to the CU.\<close>

datatype rlc_msg =
    F1ap_ul_rrc_message int int "byte list"
  | Gtpv1u_gnb_tunnel_data_req int int "byte list"

text \<open>\<open>ra_pdcp_ind\<close> are the calls of \<^verbatim>\<open>pdcp_data_ind\<close>, which puts its arguments in a queue.\<close>

record rlc_api =
  ra_manager :: "nr_rlc_entity ue_manager"
  ra_current_time :: "64 word"
  ra_last_frame :: int
  ra_last_subframe :: int
  ra_inited :: bool
  ra_inited_ue :: bool
  ra_pdcp_ind :: "pdcp_data_ind_queue_item list"
  ra_msgs :: "rlc_msg list"

definition rlc_start :: rlc_api where
  "rlc_start = \<lparr>ra_manager = new_ue_manager False, ra_current_time = 0, ra_last_frame = 0, ra_last_subframe = 0,
     ra_inited = False, ra_inited_ue = False, ra_pdcp_ind = [], ra_msgs = []\<rparr>"

section \<open>The table of UEs\<close>

text \<open>The same code as for PDCP; the entities are deleted by the function in their table.\<close>

definition new_nr_rlc_ue_manager :: "bool \<Rightarrow> nr_rlc_entity ue_manager" where
  "new_nr_rlc_ue_manager = new_ue_manager"

definition nr_rlc_manager_get_enb_flag :: "nr_rlc_entity ue_manager \<Rightarrow> bool" where
  "nr_rlc_manager_get_enb_flag = mg_enb_flag"

definition nr_rlc_manager_remove_ue :: "nr_rlc_entity ue_manager \<Rightarrow> int \<Rightarrow> nr_rlc_entity ue_manager res" where
  "nr_rlc_manager_remove_ue = manager_remove_ue rlc_delete"

definition nr_rlc_ue_add_srb_rlc_entity ::
  "nr_rlc_entity ue \<Rightarrow> int \<Rightarrow> nr_rlc_entity \<Rightarrow> nr_rlc_entity ue res" where
  "nr_rlc_ue_add_srb_rlc_entity = ue_add_srb_entity"

definition nr_rlc_ue_add_drb_rlc_entity ::
  "nr_rlc_entity ue \<Rightarrow> int \<Rightarrow> nr_rlc_entity \<Rightarrow> nr_rlc_entity ue res" where
  "nr_rlc_ue_add_drb_rlc_entity = ue_add_drb_entity"

text \<open>
  Look the UE up, creating it if it is not there, and change what is behind the pointer: every call of
  \<^verbatim>\<open>nr_rlc_manager_get_ue\<close> is of this form.
\<close>

definition nr_rlc_manager_get_ue ::
  "nr_rlc_entity ue_manager \<Rightarrow> int \<Rightarrow> (nr_rlc_entity ue \<Rightarrow> (nr_rlc_entity ue \<times> 'a) res) \<Rightarrow>
   (nr_rlc_entity ue_manager \<times> 'a) res" where
  "nr_rlc_manager_get_ue = with_ue"

definition rlc_module_init :: "int \<Rightarrow> rlc_api \<Rightarrow> rlc_api res" where
  "rlc_module_init enb_flag s =
     (if enb_flag = 1 \<and> ra_inited s then Inl Exit_fatal
      else if enb_flag = 0 \<and> ra_inited_ue s then Inl Exit_fatal
      else
        let s = (if enb_flag = 1 then s\<lparr>ra_inited := True\<rparr> else s);
            s = (if enb_flag = 0 then s\<lparr>ra_inited_ue := True\<rparr> else s)
        in Inr (s\<lparr>ra_manager := new_nr_rlc_ue_manager (enb_flag \<noteq> 0)\<rparr>))"

section \<open>Logical channels\<close>

text \<open>Channels 1 to 3 are the SRBs, 4 to 8 the DRBs.\<close>

definition channel_slot :: "int \<Rightarrow> (bool \<times> nat) option" where
  "channel_slot channel_id =
     (if 1 \<le> channel_id \<and> channel_id \<le> 3 then Some (True, nat (channel_id - 1))
      else if 4 \<le> channel_id \<and> channel_id \<le> 8 then Some (False, nat (channel_id - 4))
      else None)"

text \<open>
  Run a function of the entity in a slot, \<open>None\<close> when there is none, and take its events out for the
  callbacks, with the UE's RNTI and the place of the entity, which the callbacks search for.
\<close>

definition rlc_on_slot ::
  "(nr_rlc_entity \<Rightarrow> (nr_rlc_entity \<times> 'a) res) \<Rightarrow> (bool \<times> nat) option \<Rightarrow> nr_rlc_entity ue \<Rightarrow>
   (nr_rlc_entity ue \<times> (int \<times> bool \<times> nat \<times> rlc_event list \<times> 'a) option) res" where
  "rlc_on_slot f slot ue =
     (case slot of
        None \<Rightarrow> Inr (ue, None)
      | Some (srb_flag, i) \<Rightarrow>
          (case ue_rbs srb_flag ue ! i of
             None \<Rightarrow> Inr (ue, None)
           | Some rb \<Rightarrow>
               rbind (f rb) (\<lambda>(rb, a).
                 Inr (ue_set_rb srb_flag ue i (rlc_clear_out rb), Some (ue_rnti ue, srb_flag, i, rlc_out rb, a)))))"

section \<open>Callbacks\<close>

definition deliver_sdu :: "node \<Rightarrow> int \<Rightarrow> bool \<Rightarrow> int \<Rightarrow> byte list \<Rightarrow> rlc_api \<Rightarrow> rlc_api res" where
  "deliver_sdu node rnti is_srb rb_id buf s =
     (let is_enb = nr_rlc_manager_get_enb_flag (ra_manager s);
          ctx = \<lparr>cx_module_id = 0, cx_enb_flag = is_enb, cx_instance = 0, cx_rnti = rnti, cx_frame = 0,
                 cx_subframe = 0, cx_eNB_index = 0, cx_brOption = False\<rparr>
      in if is_enb \<and> nd_is_cu node then Inl Exit_fatal
         else if is_enb \<and> nd_is_du node
         then Inr (s\<lparr>ra_msgs := ra_msgs s @
                [if is_srb then F1ap_ul_rrc_message rnti rb_id buf
                 else Gtpv1u_gnb_tunnel_data_req rnti rb_id buf]\<rparr>)
         else Inr (s\<lparr>ra_pdcp_ind := ra_pdcp_ind s @
                [\<lparr>pq_ctxt = ctx, pq_srb_flag = is_srb, pq_MBMS_flag = False, pq_rb_id = rb_id, pq_sdu = buf\<rparr>]\<rparr>))"

text \<open>The other two callbacks only log: what they would send to RRC is not compiled.\<close>

definition successful_delivery :: "int \<Rightarrow> rlc_api \<Rightarrow> rlc_api res" where
  "successful_delivery sdu_id s = Inr s"

definition max_retx_reached :: "rlc_api \<Rightarrow> rlc_api res" where
  "max_retx_reached s = Inr s"

fun rlc_callbacks :: "node \<Rightarrow> int \<Rightarrow> bool \<Rightarrow> nat \<Rightarrow> rlc_event list \<Rightarrow> rlc_api \<Rightarrow> rlc_api res" where
  "rlc_callbacks node rnti is_srb i [] s = Inr s"
| "rlc_callbacks node rnti is_srb i (Deliver_sdu buf # evs) s =
     rbind (deliver_sdu node rnti is_srb (int i + 1) buf s) (rlc_callbacks node rnti is_srb i evs)"
| "rlc_callbacks node rnti is_srb i (Sdu_successful_delivery sdu_id # evs) s =
     rbind (successful_delivery sdu_id s) (rlc_callbacks node rnti is_srb i evs)"
| "rlc_callbacks node rnti is_srb i (Max_retx_reached # evs) s =
     rbind (max_retx_reached s) (rlc_callbacks node rnti is_srb i evs)"

text \<open>One use of the entity of a bearer: the lookup, the function, the callbacks.\<close>

definition rlc_on_rb ::
  "node \<Rightarrow> (nr_rlc_entity \<Rightarrow> (nr_rlc_entity \<times> 'a) res) \<Rightarrow> int \<Rightarrow> (bool \<times> nat) option \<Rightarrow> rlc_api \<Rightarrow>
   (rlc_api \<times> 'a option) res" where
  "rlc_on_rb node f rnti slot s =
     rbind (nr_rlc_manager_get_ue (ra_manager s) rnti (rlc_on_slot f slot)) (\<lambda>(m, r).
       let s = s\<lparr>ra_manager := m\<rparr> in
       case r of
         None \<Rightarrow> Inr (s, None)
       | Some (rnti, is_srb, i, evs, a) \<Rightarrow>
           rbind (rlc_callbacks node rnti is_srb i evs s) (\<lambda>s. Inr (s, Some a)))"

section \<open>Data\<close>

definition mac_rlc_data_ind ::
  "node \<Rightarrow> int \<Rightarrow> int \<Rightarrow> int \<Rightarrow> bool \<Rightarrow> int \<Rightarrow> byte list \<Rightarrow> rlc_api \<Rightarrow> rlc_api res" where
  "mac_rlc_data_ind node module_id rnti eNB_index MBMS_flag channel_id buffer s =
     (if module_id \<noteq> 0 \<or> eNB_index \<noteq> 0 \<or> MBMS_flag then Inl Exit_fatal
      else
        rbind (rlc_on_rb node
                 (\<lambda>rb. rbind (rlc_set_time rb (ra_current_time s)) (\<lambda>rb.
                         rbind (rlc_recv_pdu rb buffer) (\<lambda>rb. Inr (rb, ()))))
                 rnti (channel_slot channel_id) s) (\<lambda>(s, _). Inr s))"

text \<open>The number of bytes written, and the buffer.\<close>

definition mac_rlc_data_req ::
  "node \<Rightarrow> int \<Rightarrow> int \<Rightarrow> byte list \<Rightarrow> rlc_api \<Rightarrow> (int \<times> byte list \<times> rlc_api) res" where
  "mac_rlc_data_req node rnti channel_id buffer s =
     rbind (rlc_on_rb node
              (\<lambda>rb. rbind (rlc_set_time rb (ra_current_time s)) (\<lambda>rb.
                      rbind (rlc_generate_pdu rb buffer) (\<lambda>(ret, buffer, rb). Inr (rb, (ret, buffer)))))
              rnti (channel_slot channel_id) s) (\<lambda>(s, r).
       case r of None \<Rightarrow> Inr (0, buffer, s) | Some (ret, buffer) \<Rightarrow> Inr (ret, buffer, s))"

text \<open>Bytes waiting in a bearer.\<close>

definition rlc_bytes_in_buffer ::
  "node \<Rightarrow> int \<Rightarrow> int \<Rightarrow> rlc_api \<Rightarrow> (int \<times> rlc_api) res" where
  "rlc_bytes_in_buffer node rnti channel_id s =
     rbind (rlc_on_rb node
              (\<lambda>rb. rbind (rlc_set_time rb (ra_current_time s)) (\<lambda>rb.
                      let buf_stat = rlc_buffer_status rb (1000 * 1000)
                      in Inr (rb, bs_status_size buf_stat + bs_retx_size buf_stat + bs_tx_size buf_stat)))
              rnti (channel_slot channel_id) s) (\<lambda>(s, r).
       case r of None \<Rightarrow> Inr (0, s) | Some n \<Rightarrow> Inr (n, s))"

record mac_rlc_status_resp =
  sr_bytes_in_buffer :: int
  sr_pdus_in_buffer :: int
  sr_head_sdu_creation_time :: int
  sr_head_sdu_remaining_size_to_send :: int
  sr_head_sdu_is_segmented :: bool

definition mac_rlc_status_ind :: "node \<Rightarrow> int \<Rightarrow> int \<Rightarrow> rlc_api \<Rightarrow> (mac_rlc_status_resp \<times> rlc_api) res" where
  "mac_rlc_status_ind node rnti channel_id s =
     rbind (rlc_bytes_in_buffer node rnti channel_id s) (\<lambda>(n, s).
       Inr (\<lparr>sr_bytes_in_buffer = n, sr_pdus_in_buffer = 0, sr_head_sdu_creation_time = 0,
             sr_head_sdu_remaining_size_to_send = 0, sr_head_sdu_is_segmented = False\<rparr>, s))"

text \<open>The time of the layer: it advances when the frame or the subframe has changed.\<close>

definition nr_rlc_tick :: "int \<Rightarrow> int \<Rightarrow> rlc_api \<Rightarrow> rlc_api" where
  "nr_rlc_tick frame subframe s =
     (if frame \<noteq> ra_last_frame s \<or> subframe \<noteq> ra_last_subframe s
      then s\<lparr>ra_last_frame := frame, ra_last_subframe := subframe, ra_current_time := ra_current_time s + 1\<rparr>
      else s)"

definition mac_rlc_get_buffer_occupancy_ind ::
  "node \<Rightarrow> int \<Rightarrow> int \<Rightarrow> int \<Rightarrow> bool \<Rightarrow> int \<Rightarrow> rlc_api \<Rightarrow> (int \<times> rlc_api) res" where
  "mac_rlc_get_buffer_occupancy_ind node rnti frame subframe enb_flag channel_id s =
     (if enb_flag then Inl Exit_fatal
      else rlc_bytes_in_buffer node rnti channel_id (nr_rlc_tick frame subframe s))"

definition rlc_data_req ::
  "node \<Rightarrow> protocol_ctxt \<Rightarrow> bool \<Rightarrow> int \<Rightarrow> int \<Rightarrow> byte list \<Rightarrow> rlc_api \<Rightarrow> rlc_api res" where
  "rlc_data_req node ctxt srb_flag rb_id mui sdu s =
     rbind (rlc_on_rb node
              (\<lambda>rb. rbind (rlc_set_time rb (ra_current_time s)) (\<lambda>rb.
                      rbind (rlc_recv_sdu rb sdu mui) (\<lambda>rb. Inr (rb, ()))))
              (cx_rnti ctxt) (map_option (Pair srb_flag) (rb_slot srb_flag rb_id)) s) (\<lambda>(s, _). Inr s)"

definition nr_rlc_get_available_tx_space :: "node \<Rightarrow> int \<Rightarrow> int \<Rightarrow> rlc_api \<Rightarrow> (int \<times> rlc_api) res" where
  "nr_rlc_get_available_tx_space node rnti channel_id s =
     rbind (rlc_on_rb node (\<lambda>rb. Inr (rb, rlc_available_tx_space rb)) rnti (channel_slot channel_id) s) (\<lambda>(s, r).
       case r of None \<Rightarrow> Inr (-1, s) | Some n \<Rightarrow> Inr (n, s))"

section \<open>Configuration\<close>

text \<open>The parameters of an AM bearer; a chain of pointers that ends in a null pointer is undefined behaviour.\<close>

record am_params =
  ap_t_poll_retransmit :: int
  ap_t_reassembly :: int
  ap_t_status_prohibit :: int
  ap_poll_pdu :: int
  ap_poll_byte :: int
  ap_max_retx_threshold :: int
  ap_sn_field_length :: int

definition am_params_of :: "rlc_config option \<Rightarrow> am_params res" where
  "am_params_of r =
     rbind (deref r) (\<lambda>r.
       case r of
         RLC_am am \<Rightarrow>
           rbind (decode_t_reassembly (rca_t_Reassembly am)) (\<lambda>t_reassembly.
           rbind (decode_t_status_prohibit (rca_t_StatusProhibit am)) (\<lambda>t_status_prohibit.
           rbind (decode_t_poll_retransmit (rca_t_PollRetransmit am)) (\<lambda>t_poll_retransmit.
           rbind (decode_poll_pdu (rca_pollPDU am)) (\<lambda>poll_pdu.
           rbind (decode_poll_byte (rca_pollByte am)) (\<lambda>poll_byte.
           rbind (decode_max_retx_threshold (rca_maxRetxThreshold am)) (\<lambda>max_retx_threshold.
           rbind (deref (rca_dl_sn_FieldLength am)) (\<lambda>dl.
           rbind (deref (rca_ul_sn_FieldLength am)) (\<lambda>ul.
             if dl \<noteq> ul then Inl Exit_fatal
             else rbind (decode_sn_field_length_am dl) (\<lambda>sn_field_length.
               Inr \<lparr>ap_t_poll_retransmit = t_poll_retransmit, ap_t_reassembly = t_reassembly,
                    ap_t_status_prohibit = t_status_prohibit, ap_poll_pdu = poll_pdu, ap_poll_byte = poll_byte,
                    ap_max_retx_threshold = max_retx_threshold, ap_sn_field_length = sn_field_length\<rparr>)))))))))
       | _ \<Rightarrow> Inl Exit_fatal)"

definition new_am ::
  "int \<Rightarrow> am_params \<Rightarrow> nr_rlc_entity res" where
  "new_am maxsize p =
     rbind (new_nr_rlc_entity_am maxsize maxsize (ap_t_poll_retransmit p) (ap_t_reassembly p)
              (ap_t_status_prohibit p) (ap_poll_pdu p) (ap_poll_byte p) (ap_max_retx_threshold p)
              (nat (ap_sn_field_length p))) (\<lambda>e. Inr (E_am e))"

text \<open>
  What the configuration does to the UE: nothing when the bearer exists, else store the new entity in its
  slot. The identity has been checked before.
\<close>

definition rlc_add_rb ::
  "bool \<Rightarrow> int \<Rightarrow> nr_rlc_entity res \<Rightarrow> nr_rlc_entity ue \<Rightarrow> (nr_rlc_entity ue \<times> unit) res" where
  "rlc_add_rb srb_flag rb_id new ue =
     rbind (ue_rb_present (ue_rbs srb_flag ue) rb_id) (\<lambda>present.
       if present then Inr (ue, ())
       else rbind new (\<lambda>entity.
         rbind ((if srb_flag then nr_rlc_ue_add_srb_rlc_entity else nr_rlc_ue_add_drb_rlc_entity) ue rb_id entity)
           (\<lambda>ue. Inr (ue, ()))))"

text \<open>What is decoded from the configuration of an SRB is replaced by constants.\<close>

definition srb_am_params :: am_params where
  "srb_am_params = \<lparr>ap_t_poll_retransmit = 45, ap_t_reassembly = 35, ap_t_status_prohibit = 0, ap_poll_pdu = -1,
     ap_poll_byte = -1, ap_max_retx_threshold = 8, ap_sn_field_length = 12\<rparr>"

definition add_rlc_srb :: "int \<Rightarrow> srb_to_add \<Rightarrow> rlc_bearer_config \<Rightarrow> rlc_api \<Rightarrow> rlc_api res" where
  "add_rlc_srb rnti sr b s =
     (let srb_id = sa_srb_Identity sr in
      if srb_id \<noteq> 1 \<and> srb_id \<noteq> 2 then Inl Exit_fatal
      else if bc_logicalChannelIdentity b \<noteq> srb_id then Inl Exit_fatal
      else
        rbind (deref (bc_logicalChannelGroup b)) (\<lambda>logical_channel_group.
        if logical_channel_group \<noteq> 0 then Inl Exit_fatal
        else
          rbind (am_params_of (bc_rlc_Config b)) (\<lambda>_.
          rbind (nr_rlc_manager_get_ue (ra_manager s) rnti
                   (rlc_add_rb True srb_id (new_am 10000000 srb_am_params))) (\<lambda>(m, _).
            Inr (s\<lparr>ra_manager := m\<rparr>)))))"

text \<open>An AM bearer in the wrong logical channel group is only logged.\<close>

definition rlc_add_drb_am :: "int \<Rightarrow> drb_to_add \<Rightarrow> rlc_bearer_config \<Rightarrow> rlc_api \<Rightarrow> rlc_api res" where
  "rlc_add_drb_am rnti d b s =
     (let drb_id = da_drb_Identity d in
      if \<not> (drb_id \<ge> 1 \<and> drb_id \<le> 5) then Inl Exit_fatal
      else if bc_logicalChannelIdentity b \<noteq> drb_id + 3 then Inl Exit_fatal
      else
        rbind (deref (bc_logicalChannelGroup b)) (\<lambda>_.
        rbind (am_params_of (bc_rlc_Config b)) (\<lambda>p.
        rbind (nr_rlc_manager_get_ue (ra_manager s) rnti (rlc_add_rb False drb_id (new_am 100000000 p))) (\<lambda>(m, _).
          Inr (s\<lparr>ra_manager := m\<rparr>)))))"

text \<open>The reassembly timer and the length of the sequence numbers of a UM bearer.\<close>

definition um_params_of :: "rlc_config option \<Rightarrow> (int \<times> int) res" where
  "um_params_of r =
     rbind (deref r) (\<lambda>r.
       case r of
         RLC_um_Bi_Directional um \<Rightarrow>
           rbind (decode_t_reassembly (rcu_t_Reassembly um)) (\<lambda>t_reassembly.
           rbind (deref (rcu_dl_sn_FieldLength um)) (\<lambda>dl.
           rbind (deref (rcu_ul_sn_FieldLength um)) (\<lambda>ul.
             if dl \<noteq> ul then Inl Exit_fatal
             else rbind (decode_sn_field_length_um dl) (\<lambda>sn_field_length. Inr (t_reassembly, sn_field_length)))))
       | _ \<Rightarrow> Inl Exit_fatal)"

definition rlc_add_drb_um :: "int \<Rightarrow> drb_to_add \<Rightarrow> rlc_bearer_config \<Rightarrow> rlc_api \<Rightarrow> rlc_api res" where
  "rlc_add_drb_um rnti d b s =
     (let drb_id = da_drb_Identity d in
      if \<not> (drb_id \<ge> 1 \<and> drb_id \<le> 5) then Inl Exit_fatal
      else if bc_logicalChannelIdentity b \<noteq> drb_id + 3 then Inl Exit_fatal
      else
        rbind (deref (bc_logicalChannelGroup b)) (\<lambda>logical_channel_group.
        if logical_channel_group \<noteq> 1 then Inl Exit_fatal
        else
          rbind (um_params_of (bc_rlc_Config b)) (\<lambda>(t_reassembly, sn_field_length).
          rbind (nr_rlc_manager_get_ue (ra_manager s) rnti
                   (rlc_add_rb False drb_id
                     (rbind (new_nr_rlc_entity_um 100000000 100000000 t_reassembly (nat sn_field_length)) (\<lambda>e.
                        Inr (E_um e))))) (\<lambda>(m, _).
            Inr (s\<lparr>ra_manager := m\<rparr>)))))"

definition rlc_add_drb :: "int \<Rightarrow> drb_to_add \<Rightarrow> rlc_bearer_config \<Rightarrow> rlc_api \<Rightarrow> rlc_api res" where
  "rlc_add_drb rnti d b s =
     rbind (deref (bc_rlc_Config b)) (\<lambda>r.
       case r of
         RLC_am _ \<Rightarrow> rlc_add_drb_am rnti d b s
       | RLC_um_Bi_Directional _ \<Rightarrow> rlc_add_drb_um rnti d b s
       | RLC_other \<Rightarrow> Inl Exit_fatal)"

text \<open>The inner loops of the configuration: all the RLC bearers that serve a radio bearer.\<close>

fun rlc_serve_srb :: "int \<Rightarrow> srb_to_add \<Rightarrow> rlc_bearer_config list \<Rightarrow> rlc_api \<Rightarrow> rlc_api res" where
  "rlc_serve_srb rnti sr [] s = Inr s"
| "rlc_serve_srb rnti sr (b # bs) s =
     rbind (if bc_servedRadioBearer b = Some (Served_srb (sa_srb_Identity sr)) then add_rlc_srb rnti sr b s else Inr s)
       (rlc_serve_srb rnti sr bs)"

fun rlc_serve_drb :: "int \<Rightarrow> drb_to_add \<Rightarrow> rlc_bearer_config list \<Rightarrow> rlc_api \<Rightarrow> rlc_api res" where
  "rlc_serve_drb rnti d [] s = Inr s"
| "rlc_serve_drb rnti d (b # bs) s =
     rbind (if bc_servedRadioBearer b = Some (Served_drb (da_drb_Identity d)) then rlc_add_drb rnti d b s else Inr s)
       (rlc_serve_drb rnti d bs)"

fun rlc_serve_srbs :: "int \<Rightarrow> srb_to_add list \<Rightarrow> rlc_bearer_config list \<Rightarrow> rlc_api \<Rightarrow> rlc_api res" where
  "rlc_serve_srbs rnti [] bs s = Inr s"
| "rlc_serve_srbs rnti (sr # l) bs s = rbind (rlc_serve_srb rnti sr bs s) (rlc_serve_srbs rnti l bs)"

fun rlc_serve_drbs :: "int \<Rightarrow> drb_to_add list \<Rightarrow> rlc_bearer_config list \<Rightarrow> rlc_api \<Rightarrow> rlc_api res" where
  "rlc_serve_drbs rnti [] bs s = Inr s"
| "rlc_serve_drbs rnti (d # l) bs s = rbind (rlc_serve_drb rnti d bs s) (rlc_serve_drbs rnti l bs)"

definition nr_rrc_rlc_config_asn1_req ::
  "protocol_ctxt \<Rightarrow> srb_to_add list option \<Rightarrow> drb_to_add list option \<Rightarrow> bool \<Rightarrow> rlc_bearer_config list option \<Rightarrow>
   rlc_api \<Rightarrow> rlc_api res" where
  "nr_rrc_rlc_config_asn1_req ctxt srb2add drb2add pmch_InfoList rlc_bearer2add s =
     (let rnti = cx_rnti ctxt in
      if cx_module_id ctxt \<noteq> 0 \<or> pmch_InfoList then Inl Exit_fatal
      else
        case rlc_bearer2add of
          None \<Rightarrow> Inr s
        | Some bs \<Rightarrow>
            rbind (case srb2add of None \<Rightarrow> Inr s | Some l \<Rightarrow> rlc_serve_srbs rnti l bs s) (\<lambda>s.
              case drb2add of None \<Rightarrow> Inr s | Some l \<Rightarrow> rlc_serve_drbs rnti l bs s))"

section \<open>Removal\<close>

definition ue_clear_rb :: "bool \<Rightarrow> nr_rlc_entity ue \<Rightarrow> nat \<Rightarrow> nr_rlc_entity ue" where
  "ue_clear_rb srb_flag ue i =
     (if srb_flag then ue\<lparr>ue_srb := (ue_srb ue)[i := None]\<rparr> else ue\<lparr>ue_drb := (ue_drb ue)[i := None]\<rparr>)"

definition ue_has_rb :: "nr_rlc_entity ue \<Rightarrow> bool" where
  "ue_has_rb ue \<longleftrightarrow> list_ex (\<lambda>x. x \<noteq> None) (take 2 (ue_srb ue)) \<or> list_ex (\<lambda>x. x \<noteq> None) (take 5 (ue_drb ue))"

definition rlc_remove_rb ::
  "bool \<Rightarrow> nat \<Rightarrow> nr_rlc_entity ue \<Rightarrow> (nr_rlc_entity ue \<times> bool) res" where
  "rlc_remove_rb srb_flag i ue =
     rbind (case ue_rbs srb_flag ue ! i of
              None \<Rightarrow> Inr ue
            | Some rb \<Rightarrow> rbind (rlc_delete rb) (\<lambda>_. Inr (ue_clear_rb srb_flag ue i))) (\<lambda>ue.
       Inr (ue, ue_has_rb ue))"

text \<open>\<open>remove\<close> says whether the action is \<^verbatim>\<open>CONFIG_ACTION_REMOVE\<close>, the only one there is.\<close>

definition rrc_rlc_config_req :: "protocol_ctxt \<Rightarrow> bool \<Rightarrow> bool \<Rightarrow> bool \<Rightarrow> int \<Rightarrow> rlc_api \<Rightarrow> rlc_api res" where
  "rrc_rlc_config_req ctxt srb_flag mbms_flag remove rb_id s =
     (if mbms_flag then Inl Exit_fatal
      else if \<not> remove then Inl Exit_fatal
      else if cx_module_id ctxt \<noteq> 0 then Inl Exit_fatal
      else
        case rb_slot srb_flag rb_id of
          None \<Rightarrow> Inl Exit_fatal
        | Some i \<Rightarrow>
            rbind (nr_rlc_manager_get_ue (ra_manager s) (cx_rnti ctxt) (rlc_remove_rb srb_flag i)) (\<lambda>(m, has_rb).
            rbind (if has_rb then Inr m else nr_rlc_manager_remove_ue m (cx_rnti ctxt)) (\<lambda>m.
              Inr (s\<lparr>ra_manager := m\<rparr>))))"

definition rrc_rlc_remove_ue :: "protocol_ctxt \<Rightarrow> rlc_api \<Rightarrow> rlc_api res" where
  "rrc_rlc_remove_ue ctxt s =
     rbind (nr_rlc_manager_remove_ue (ra_manager s) (cx_rnti ctxt)) (\<lambda>m. Inr (s\<lparr>ra_manager := m\<rparr>))"

section \<open>Default configurations\<close>

text \<open>
  The enumeration values are the positions in the ASN.1 types. \<^verbatim>\<open>calloc\<close> leaves the choice of the RLC mode at
  nothing and the uplink parameters at a null pointer.
\<close>

definition nr_rlc_bearer_init :: "bool \<Rightarrow> rlc_bearer_config" where
  "nr_rlc_bearer_init is_drb =
     \<lparr>bc_logicalChannelIdentity = (if is_drb then 4 else 1),
      bc_servedRadioBearer = Some (if is_drb then Served_drb 1 else Served_srb 1),
      bc_rlc_Config = Some RLC_other, bc_logicalChannelGroup = None\<rparr>"

definition nr_rlc_bearer_init_ul_spec :: "rlc_bearer_config \<Rightarrow> rlc_bearer_config" where
  "nr_rlc_bearer_init_ul_spec b = b\<lparr>bc_logicalChannelGroup := Some 1\<rparr>"

datatype rlc_config_pr = PR_um_Bi_Directional | PR_am | PR_other

fun nr_drb_config :: "rlc_config_pr \<Rightarrow> rlc_config res" where
  "nr_drb_config PR_um_Bi_Directional =
     Inr (RLC_um_Bi_Directional \<lparr>rcu_t_Reassembly = 3, rcu_dl_sn_FieldLength = Some 1, rcu_ul_sn_FieldLength = Some 1\<rparr>)"
| "nr_drb_config PR_am =
     Inr (RLC_am \<lparr>rca_t_Reassembly = 3, rca_t_StatusProhibit = 3, rca_t_PollRetransmit = 8, rca_pollPDU = 4,
       rca_pollByte = 13, rca_maxRetxThreshold = 7, rca_dl_sn_FieldLength = Some 1, rca_ul_sn_FieldLength = Some 1\<rparr>)"
| "nr_drb_config PR_other = Inl Exit_fatal"

end
