(* ===== verification/NR_RLC_Um_Tx.thy ===== *)
theory NR_RLC_Um_Tx
  imports NR_RLC_Um
begin

text \<open>
  The transmitting side of the unacknowledged mode entity. The PDUs on the air are described by
  \<open>um_msg\<close>, and \<open>um_encodes\<close> says which bytes stand for which message; what the entity holds is
  described by the queue of SDUs with the offset already sent. The lemmas show that generating a PDU
  takes the next piece of the first SDU that fits the grant, and that the size counters are exact.
\<close>

section \<open>The PDUs on the air\<close>

datatype um_msg =
    Um_whole "byte list"
  | Um_segment (um_seg_sn: int) (um_seg_so: int) (um_seg_last: bool) (um_seg_data: "byte list")

fun um_msg_data :: "um_msg \<Rightarrow> byte list" where
  "um_msg_data (Um_whole d) = d"
| "um_msg_data (Um_segment sn so l d) = d"

fun um_msg_fields :: "nat \<Rightarrow> um_msg \<Rightarrow> (int \<times> nat) list" where
  "um_msg_fields len (Um_whole d) = [(0, 1), (0, 1), (0, 6)]"
| "um_msg_fields len (Um_segment sn so l d) =
     [(1 - of_bool (so = 0), 1), (1 - of_bool l, 1)] @ (if len = 12 then [(0, 2)] else []) @
     [(sn, len)] @ (if so = 0 then [] else [(so, 16)])"

definition um_encodes :: "nat \<Rightarrow> byte list \<Rightarrow> um_msg \<Rightarrow> bool" where
  "um_encodes len bytes msg \<longleftrightarrow>
     (\<exists>hdr. bytes = hdr @ um_msg_data msg \<and> bytes_bits hdr = fields_bits (um_msg_fields len msg))"

section \<open>The queue\<close>

definition um_queue :: "nr_rlc_entity_um \<Rightarrow> (byte list \<times> nat) list" where
  "um_queue e = map (\<lambda>g. (sdu_bytes (um_heap e) g, nat (g_so g))) (um_tx_list e)"

definition um_config_ok :: "nr_rlc_entity_um \<Rightarrow> bool" where
  "um_config_ok e \<longleftrightarrow> um_sn_field_length e \<in> {6, 12} \<and>
     um_sn_modulus e = 2 ^ um_sn_field_length e \<and> um_window_size e = um_sn_modulus e div 2"

definition um_pdu_size :: "nr_rlc_entity_um \<Rightarrow> nr_rlc_sdu_segment \<Rightarrow> int" where
  "um_pdu_size e g = um_compute_pdu_header_size e g + g_size g"

definition um_seg_inv :: "sdu_heap \<Rightarrow> nr_rlc_sdu_segment \<Rightarrow> bool" where
  "um_seg_inv h g \<longleftrightarrow> g_is_last g \<and> (g_so g = 0 \<or> 0 < g_size g) \<and>
     int (length (sdu_bytes h g)) \<le> NR_SDU_MAX"

definition um_tx_inv :: "nr_rlc_entity_um \<Rightarrow> bool" where
  "um_tx_inv e \<longleftrightarrow> um_config_ok e \<and> heap_ok (um_heap e) (um_tx_list e) \<and>
     end_ok (um_tx_list e) (um_tx_end e) \<and> distinct (map g_sdu (um_tx_list e)) \<and>
     (\<forall>g \<in> set (um_tx_list e). um_seg_inv (um_heap e) g) \<and>
     (\<forall>g \<in> set (tl (um_tx_list e)). g_so g = 0) \<and>
     0 \<le> um_tx_next e \<and> um_tx_next e < um_sn_modulus e \<and>
     um_tx_size e = total_size (um_tx_list e) \<and>
     um_bstatus_tx_size e = sum_list (map (um_pdu_size e) (um_tx_list e))"

text \<open>The specification: the next piece for a grant of \<open>n\<close> bytes, and the queue after it.\<close>

definition um_header :: "nat \<Rightarrow> bool \<Rightarrow> nat \<Rightarrow> nat" where
  "um_header len whole so = 1 + (if \<not> whole \<and> len = 12 then 1 else 0) + (if so = 0 then 0 else 2)"

fun um_next ::
  "nat \<Rightarrow> int \<Rightarrow> (byte list \<times> nat) list \<Rightarrow> nat \<Rightarrow> (um_msg \<times> (byte list \<times> nat) list \<times> int) option"
where
  "um_next len sn [] n = None"
| "um_next len sn ((x, so) # q) n =
     (let rest = drop so x; whole = um_header len (so = 0) so; seg = um_header len False so in
      if n < whole + 1 then None
      else if whole + length rest \<le> n
      then Some (if so = 0 then (Um_whole x, q, sn)
                 else (Um_segment sn (int so) True rest, q, (sn + 1) mod 2 ^ len))
      else Some (Um_segment sn (int so) False (take (n - seg) rest), (x, so + (n - seg)) # q, sn))"

lemma um_header_size:
  assumes "g_is_first g \<longleftrightarrow> g_so g = 0" and "0 \<le> g_so g"
  shows "um_compute_pdu_header_size e g =
    int (um_header (um_sn_field_length e) (g_so g = 0 \<and> g_is_last g) (nat (g_so g)))"
  using assms by (auto simp: um_compute_pdu_header_size_def um_header_def Let_def)

definition seg_msg :: "int \<Rightarrow> sdu_heap \<Rightarrow> nr_rlc_sdu_segment \<Rightarrow> um_msg" where
  "seg_msg sn h g = (let d = take (nat (g_size g)) (drop (nat (g_so g)) (sdu_bytes h g)) in
     if g_so g = 0 \<and> g_is_last g then Um_whole d else Um_segment sn (g_so g) (g_is_last g) d)"

text \<open>A segment that fits is serialized to the message it stands for.\<close>

lemma um_serialize_ok:
  assumes cfg: "um_config_ok e" and seg: "seg_ok (um_heap e) g"
    and s: "h_sdu (um_heap e) (g_sdu g) = Some s" and fit: "um_pdu_size e g \<le> int (length buf)"
  shows "\<exists>bytes. um_serialize_sdu e g buf =
      Inr (um_pdu_size e g, bytes @ drop (length bytes) buf) \<and>
    int (length bytes) = um_pdu_size e g \<and>
    um_encodes (um_sn_field_length e) bytes (seg_msg (s_sn s) (um_heap e) g)"
proof -
  let ?len = "um_sn_field_length e"
  define msg where "msg = seg_msg (s_sn s) (um_heap e) g"
  define fs where "fs = um_msg_fields ?len msg"
  define n where "n = nat (um_compute_pdu_header_size e g)"
  define bs where "bs = take (nat (g_size g)) (drop (nat (g_so g)) (s_data s))"
  have g: "0 \<le> g_so g" "0 \<le> g_size g" "g_so g + g_size g \<le> int (length (s_data s))"
    "g_is_first g \<longleftrightarrow> g_so g = 0"
    using seg s by (auto simp: seg_ok_def)
  have read: "c_read (s_data s) (g_so g) (g_size g) = Inr bs" and lbs: "int (length bs) = g_size g"
    using g by (auto simp: bs_def)
  have len: "?len = 6 \<or> ?len = 12"
    using cfg by (auto simp: um_config_ok_def)
  have n: "int n = um_compute_pdu_header_size e g"
    by (simp add: n_def um_compute_pdu_header_size_def Let_def)
  have "list_all (\<lambda>(v, c). c \<le> 31) fs" "sum_list (map snd fs) = 8 * n"
    using len g by (auto simp: fs_def msg_def seg_msg_def Let_def n_def um_compute_pdu_header_size_def)
  moreover have "n + length bs \<le> length buf"
    using fit n lbs by (simp add: um_pdu_size_def)
  ultimately obtain enc hdr where enc: "put_fields (nr_rlc_pdu_encoder_init buf) fs = Inr enc"
    "e_byte enc = n" "length hdr = n" "bytes_bits hdr = fields_bits fs"
    "c_write (e_buffer enc) (int n) bs = Inr (hdr @ bs @ drop (n + length bs) buf)"
    using put_header [of fs n bs buf] by blast
  have "um_serialize_sdu e g buf =
      rbind (put_fields (nr_rlc_pdu_encoder_init buf) fs) (\<lambda>e'.
        rbind (c_write (e_buffer e') (int (e_byte e')) bs) (\<lambda>b. Inr (int (e_byte e') + g_size g, b)))"
    using s read g(4)
    by (simp add: um_serialize_sdu_def get_sdu_def fs_def msg_def seg_msg_def Let_def rbind_assoc)
  then have "um_serialize_sdu e g buf =
      Inr (um_pdu_size e g, (hdr @ bs) @ drop (length (hdr @ bs)) buf)"
    using enc n by (simp add: um_pdu_size_def)
  moreover have "um_msg_data msg = bs"
    using s by (simp add: msg_def seg_msg_def Let_def bs_def sdu_bytes_def)
  then have "um_encodes ?len (hdr @ bs) msg"
    using enc(4) by (auto simp: um_encodes_def fs_def)
  ultimately show ?thesis
    using enc(3) n lbs by (intro exI [of _ "hdr @ bs"]) (simp add: um_pdu_size_def msg_def)
qed

lemma um_send_ok:
  assumes cfg: "um_config_ok e" and ok: "heap_ok (um_heap e) (g # um_tx_list e)"
    and s: "h_sdu (um_heap e) (g_sdu g) = Some s" and fit: "um_pdu_size e g \<le> int (length buf)"
    and tx: "0 \<le> um_tx_next e"
  shows "\<exists>bytes h'. um_send_segment e g buf =
      Inr (um_pdu_size e g, bytes @ drop (length bytes) buf,
        e\<lparr>um_tx_next := (if g_so g \<noteq> 0 \<and> g_is_last g then (um_tx_next e + 1) mod um_sn_modulus e
                       else um_tx_next e),
          um_tx_size := um_tx_size e - g_size g, um_heap := h'\<rparr>) \<and>
    int (length bytes) = um_pdu_size e g \<and>
    um_encodes (um_sn_field_length e) bytes (seg_msg (s_sn s) (um_heap e) g) \<and>
    heap_ok h' (um_tx_list e) \<and>
    (\<forall>k \<in> set (um_tx_list e). sdu_bytes h' k = sdu_bytes (um_heap e) k)"
proof -
  have seg: "seg_ok (um_heap e) g"
    using ok by (simp add: heap_ok_def)
  then have first: "g_is_first g \<longleftrightarrow> g_so g = 0"
    using s by (auto simp: seg_ok_def)
  define e1 where "e1 = (if \<not> g_is_first g \<and> g_is_last g
    then e\<lparr>um_tx_next := c_rem (um_tx_next e + 1) (um_sn_modulus e)\<rparr> else e)"
  have e1: "um_heap e1 = um_heap e" "um_sn_field_length e1 = um_sn_field_length e"
    "um_pdu_size e1 g = um_pdu_size e g" "um_config_ok e1"
    using cfg by (auto simp: e1_def um_pdu_size_def um_compute_pdu_header_size_def um_config_ok_def)
  obtain bytes where bytes: "um_serialize_sdu e1 g buf =
      Inr (um_pdu_size e g, bytes @ drop (length bytes) buf)"
    "int (length bytes) = um_pdu_size e g"
    "um_encodes (um_sn_field_length e) bytes (seg_msg (s_sn s) (um_heap e) g)"
    using um_serialize_ok [of e1 g s buf] seg s fit e1 by auto
  obtain b h' where h': "nr_rlc_free_sdu_segment (um_heap e) g = Inr (b, h')"
    "heap_ok h' (um_tx_list e)"
    using free_sdu_segment_ok [OF ok s] by blast
  moreover have "um_send_segment e g buf = Inr (um_pdu_size e g, bytes @ drop (length bytes) buf,
      e1\<lparr>um_tx_size := um_tx_size e1 - g_size g, um_heap := h'\<rparr>)"
    using bytes(1) h'(1) e1(1) by (simp add: um_send_segment_def e1_def Let_def)
  ultimately show ?thesis
    using bytes(2,3) free_sdu_segment_bytes [OF h'] first tx
    by (intro exI [of _ bytes] exI [of _ h']) (auto simp: e1_def)
qed

lemma um_tx_invD:
  assumes "um_tx_inv e" and "um_tx_list e = g # l"
  obtains s where "h_sdu (um_heap e) (g_sdu g) = Some s" and "seg_ok (um_heap e) g"
    and "sdu_bytes (um_heap e) g = s_data s"
    and "g_is_last g" and "0 \<le> g_so g" and "g_is_first g \<longleftrightarrow> g_so g = 0"
    and "g_size g = int (length (s_data s)) - g_so g" and "g_so g = 0 \<or> 0 < g_size g"
    and "s_size s = int (length (s_data s))" and "int (length (s_data s)) \<le> NR_SDU_MAX"
proof -
  have ok: "heap_ok (um_heap e) (g # l)" "um_seg_inv (um_heap e) g"
    using assms by (auto simp: um_tx_inv_def)
  then obtain s where s: "h_sdu (um_heap e) (g_sdu g) = Some s" "s_size s = int (length (s_data s))"
    "0 \<le> g_so g" "g_is_first g \<longleftrightarrow> g_so g = 0" "g_is_last g \<longleftrightarrow> g_so g + g_size g = s_size s"
    by (auto elim: heap_okD)
  have "seg_ok (um_heap e) g"
    using ok(1) by (simp add: heap_ok_def)
  with s ok(2) show thesis
    by (intro that [of s]) (auto simp: um_seg_inv_def sdu_bytes_def)
qed

text \<open>What a generated PDU says of the entity before and after.\<close>

definition um_sent ::
  "nr_rlc_entity_um \<Rightarrow> byte list \<Rightarrow> int \<times> byte list \<times> nr_rlc_entity_um \<Rightarrow>
   (um_msg \<times> (byte list \<times> nat) list \<times> int) option \<Rightarrow> bool" where
  "um_sent e buf r spec \<longleftrightarrow> (case r of (ret, buf', e') \<Rightarrow>
     um_tx_inv e' \<and> length buf' = length buf \<and> ret \<le> int (length buf) \<and>
     um_sn_field_length e' = um_sn_field_length e \<and> um_tx_maxsize e' = um_tx_maxsize e \<and>
     (case spec of
        None \<Rightarrow> ret = 0 \<and> buf' = buf \<and> e' = e
      | Some (msg, q, sn) \<Rightarrow> 0 < ret \<and> um_queue e' = q \<and> um_tx_next e' = sn \<and>
          um_encodes (um_sn_field_length e) (take (nat ret) buf') msg))"

lemma um_compute_pdu_header_size_upd [simp]:
  "um_compute_pdu_header_size (e\<lparr>um_tx_list := l\<rparr>) = um_compute_pdu_header_size e"
  "um_compute_pdu_header_size (e\<lparr>um_tx_end := n\<rparr>) = um_compute_pdu_header_size e"
  "um_compute_pdu_header_size (e\<lparr>um_tx_size := i\<rparr>) = um_compute_pdu_header_size e"
  "um_compute_pdu_header_size (e\<lparr>um_tx_next := i\<rparr>) = um_compute_pdu_header_size e"
  "um_compute_pdu_header_size (e\<lparr>um_bstatus_tx_size := i\<rparr>) = um_compute_pdu_header_size e"
  "um_compute_pdu_header_size (e\<lparr>um_heap := h\<rparr>) = um_compute_pdu_header_size e"
  by (simp_all add: um_compute_pdu_header_size_def fun_eq_iff)

lemma um_pdu_size_upd [simp]:
  "um_pdu_size (e\<lparr>um_tx_list := l\<rparr>) = um_pdu_size e"
  "um_pdu_size (e\<lparr>um_tx_end := n\<rparr>) = um_pdu_size e"
  "um_pdu_size (e\<lparr>um_tx_size := i\<rparr>) = um_pdu_size e"
  "um_pdu_size (e\<lparr>um_tx_next := i\<rparr>) = um_pdu_size e"
  "um_pdu_size (e\<lparr>um_bstatus_tx_size := i\<rparr>) = um_pdu_size e"
  "um_pdu_size (e\<lparr>um_heap := h\<rparr>) = um_pdu_size e"
  by (simp_all add: um_pdu_size_def fun_eq_iff)

lemma um_config_cong:
  "um_sn_field_length e' = um_sn_field_length e \<Longrightarrow> um_sn_modulus e' = um_sn_modulus e \<Longrightarrow>
   um_window_size e' = um_window_size e \<Longrightarrow> um_config_ok e' = um_config_ok e"
  by (simp add: um_config_ok_def)

lemma um_header_pos: "0 < um_compute_pdu_header_size e g"
  by (simp add: um_compute_pdu_header_size_def Let_def)

text \<open>The first step of \<^verbatim>\<open>generate_tx_pdu\<close>: the head leaves the list and gets its number.\<close>

definition um_take_head :: "nr_rlc_entity_um \<Rightarrow> nr_rlc_sdu_segment \<Rightarrow> nr_rlc_sdu_segment list \<Rightarrow>
    nr_rlc_sdu \<Rightarrow> nr_rlc_entity_um" where
  "um_take_head e g l s = e\<lparr>um_tx_list := l, um_tx_end := (if l = [] then None else um_tx_end e),
     um_heap := put_sdu (um_heap e) (g_sdu g) (s\<lparr>s_sn := um_tx_next e\<rparr>),
     um_bstatus_tx_size := um_bstatus_tx_size e - um_pdu_size e g\<rparr>"

lemma sdu_bytes_put:
  "h_sdu h a = Some s \<Longrightarrow> s_data s' = s_data s \<Longrightarrow> sdu_bytes (put_sdu h a s') = sdu_bytes h"
  by (auto simp: sdu_bytes_def put_sdu_def fun_eq_iff)

lemma um_generate_fits:
  assumes inv: "um_tx_inv e" and l: "um_tx_list e = g # l"
    and room: "um_compute_pdu_header_size e g + 1 \<le> int (length buf)"
    and fit: "um_pdu_size e g \<le> int (length buf)"
  shows "\<exists>r. um_generate_tx_pdu e buf = Inr r \<and>
    um_sent e buf r (um_next (um_sn_field_length e) (um_tx_next e) (um_queue e) (length buf))"
proof -
  obtain s where s: "h_sdu (um_heap e) (g_sdu g) = Some s" "sdu_bytes (um_heap e) g = s_data s"
    "g_is_last g" "0 \<le> g_so g" "g_is_first g \<longleftrightarrow> g_so g = 0"
    "g_size g = int (length (s_data s)) - g_so g" "g_so g = 0 \<or> 0 < g_size g"
    using inv l by (rule um_tx_invD)
  have ok: "heap_ok (um_heap e) (g # l)" and cfg: "um_config_ok e"
    and tx: "0 \<le> um_tx_next e" "um_tx_next e < um_sn_modulus e"
    and M: "um_sn_modulus e = 2 ^ um_sn_field_length e"
    using inv l by (auto simp: um_tx_inv_def um_config_ok_def)
  let ?e = "um_take_head e g l s"
  let ?s = "s\<lparr>s_sn := um_tx_next e\<rparr>"
  have ok1: "heap_ok (um_heap ?e) (g # um_tx_list ?e)"
    using heap_ok_put [OF ok s(1), of ?s] by (simp add: um_take_head_def)
  have s1: "h_sdu (um_heap ?e) (g_sdu g) = Some ?s"
    by (simp add: um_take_head_def put_sdu_def)
  have bytes1: "sdu_bytes (um_heap ?e) = sdu_bytes (um_heap e)"
    using sdu_bytes_put [OF s(1), of ?s] by (simp add: um_take_head_def)
  have c: "um_pdu_size ?e = um_pdu_size e" "um_config_ok ?e"
    using cfg by (auto simp: um_take_head_def um_pdu_size_def um_compute_pdu_header_size_def
        um_config_ok_def)
  obtain bytes h' where snd: "um_send_segment ?e g buf =
      Inr (um_pdu_size ?e g, bytes @ drop (length bytes) buf,
        ?e\<lparr>um_tx_next := (if g_so g \<noteq> 0 \<and> g_is_last g
             then (um_tx_next ?e + 1) mod um_sn_modulus ?e else um_tx_next ?e),
          um_tx_size := um_tx_size ?e - g_size g, um_heap := h'\<rparr>)" (is "_ = Inr (_, _, ?e')")
    and len: "int (length bytes) = um_pdu_size ?e g"
    and enc: "um_encodes (um_sn_field_length ?e) bytes (seg_msg (s_sn ?s) (um_heap ?e) g)"
    and ok2: "heap_ok h' (um_tx_list ?e)"
    and bytes2: "\<forall>k \<in> set (um_tx_list ?e). sdu_bytes h' k = sdu_bytes (um_heap ?e) k"
    using um_send_ok [OF c(2) ok1 s1, of buf] fit tx(1) c(1) by (auto simp: um_take_head_def)
  have run: "um_generate_tx_pdu e buf = Inr (um_pdu_size e g, bytes @ drop (length bytes) buf, ?e')"
    using l s(1) room fit snd c(1)
    by (simp add: um_generate_tx_pdu_def get_sdu_def Let_def um_take_head_def um_pdu_size_def)
  have rest: "\<forall>k \<in> set l. g_so k = 0" "\<forall>k \<in> set l. um_seg_inv (um_heap e) k"
    "\<forall>k \<in> set l. sdu_bytes h' k = sdu_bytes (um_heap e) k"
    using inv l bytes1 bytes2 by (auto simp: um_tx_inv_def um_take_head_def)
  then have seg: "\<forall>k \<in> set l. um_seg_inv h' k"
    by (auto simp: um_seg_inv_def)
  have "(um_tx_next e + 1) mod um_sn_modulus e < um_sn_modulus e"
    using M by simp
  then have "um_tx_inv ?e'"
    using inv l ok2 rest seg tx M
    by (auto simp: um_tx_inv_def um_take_head_def um_config_ok_def end_ok_def total_size_def
        dest: list.set_sel(2))
  moreover have "um_queue ?e' = map (\<lambda>k. (sdu_bytes (um_heap e) k, nat (g_so k))) l"
    using rest(3) by (simp add: um_queue_def um_take_head_def)
  moreover have "int (um_header (um_sn_field_length e) (g_so g = 0) (nat (g_so g))) +
      int (length (drop (nat (g_so g)) (s_data s))) = um_pdu_size e g"
    using s um_header_size [of g e] by (auto simp: um_pdu_size_def)
  moreover have "int (um_header (um_sn_field_length e) (g_so g = 0) (nat (g_so g))) =
      um_compute_pdu_header_size e g"
    using s um_header_size [of g e] by auto
  ultimately show ?thesis
    using run len enc fit room l s c(1) bytes1 M um_header_pos [of e g]
    by (intro exI [of _ "(um_pdu_size e g, bytes @ drop (length bytes) buf, ?e')"])
       (auto simp: um_sent_def um_queue_def seg_msg_def um_take_head_def Let_def um_pdu_size_def
         nat_le_iff)
qed

text \<open>Cutting the head for a grant: the two parts, and that they are ranges of the same SDU.\<close>

definition um_cut_first :: "nr_rlc_sdu_segment \<Rightarrow> int \<Rightarrow> nr_rlc_sdu_segment" where
  "um_cut_first g k = g\<lparr>g_size := k, g_is_last := False\<rparr>"

definition um_cut_second :: "nat \<Rightarrow> nr_rlc_sdu_segment \<Rightarrow> int \<Rightarrow> nr_rlc_sdu_segment" where
  "um_cut_second a g k = g\<lparr>g_addr := a, g_size := g_size g - k, g_so := g_so g + k,
     g_is_first := False\<rparr>"

lemma um_resegment_cut:
  assumes "h_sdu h (g_sdu g) = Some s" and "hs = um_compute_pdu_header_size e (g\<lparr>g_is_last := False\<rparr>)"
    and "hs + 1 \<le> n"
  shows "um_resegment h g e n = Inr (um_cut_first g (n - hs), Some (um_cut_second (h_next h) g (n - hs)),
    (put_sdu h (g_sdu g) (s\<lparr>s_ref_count := s_ref_count s + 1\<rparr>))\<lparr>h_next := Suc (h_next h)\<rparr>)"
  using assms by (simp add: um_resegment_def get_sdu_def Let_def um_cut_first_def um_cut_second_def
      put_sdu_def algebra_simps)

lemma um_cut_ok:
  assumes "seg_ok h g" and "g_is_last g" and "0 < k" and "k < g_size g"
  shows "seg_ok h (um_cut_first g k)" and "seg_ok h (um_cut_second a g k)"
  using assms by (auto simp: seg_ok_def um_cut_first_def um_cut_second_def split: option.splits)

text \<open>The entity once the second part is back at the head of the list.\<close>

definition um_put_back :: "nr_rlc_entity_um \<Rightarrow> nr_rlc_sdu_segment \<Rightarrow> nr_rlc_sdu_segment list \<Rightarrow>
    nr_rlc_sdu \<Rightarrow> int \<Rightarrow> nr_rlc_entity_um" where
  "um_put_back e g l s k =
     (let e1 = um_take_head e g l s; nxt = um_cut_second (h_next (um_heap e1)) g k
      in e1\<lparr>um_heap := put_sdu (um_heap e1) (g_sdu g)
                        (s\<lparr>s_sn := um_tx_next e, s_ref_count := s_ref_count s + 1\<rparr>)
                        \<lparr>h_next := Suc (h_next (um_heap e1))\<rparr>,
            um_tx_list := nxt # l,
            um_tx_end := (if um_tx_end e1 = None then Some (g_addr nxt) else um_tx_end e1),
            um_bstatus_tx_size := um_bstatus_tx_size e1 + um_compute_pdu_header_size e1 nxt + g_size nxt\<rparr>)"

lemma um_put_back_sel [simp]:
  "um_tx_list (um_put_back e g l s k) = um_cut_second (h_next (um_heap e)) g k # l"
  "um_tx_next (um_put_back e g l s k) = um_tx_next e"
  "um_tx_size (um_put_back e g l s k) = um_tx_size e"
  "um_sn_field_length (um_put_back e g l s k) = um_sn_field_length e"
  "um_sn_modulus (um_put_back e g l s k) = um_sn_modulus e"
  "um_window_size (um_put_back e g l s k) = um_window_size e"
  "um_tx_maxsize (um_put_back e g l s k) = um_tx_maxsize e"
  "um_pdu_size (um_put_back e g l s k) = um_pdu_size e"
  "um_tx_end (um_put_back e g l s k) = (if l = [] \<or> um_tx_end e = None
     then Some (h_next (um_heap e)) else um_tx_end e)"
  "um_bstatus_tx_size (um_put_back e g l s k) = um_bstatus_tx_size e - um_pdu_size e g +
     um_pdu_size e (um_cut_second (h_next (um_heap e)) g k)"
  by (simp_all add: um_put_back_def um_take_head_def Let_def put_sdu_def um_cut_second_def
      um_pdu_size_def um_compute_pdu_header_size_def fun_eq_iff)

lemma um_generate_cut_eq:
  assumes "um_tx_list e = g # l" and s: "h_sdu (um_heap e) (g_sdu g) = Some s"
    and "um_compute_pdu_header_size e g + 1 \<le> int (length buf)"
    and "\<not> um_pdu_size e g \<le> int (length buf)"
    and "hs = um_compute_pdu_header_size e (g\<lparr>g_is_last := False\<rparr>)" and "hs + 1 \<le> int (length buf)"
  shows "um_generate_tx_pdu e buf = um_send_segment (um_put_back e g l s (int (length buf) - hs))
    (um_cut_first g (int (length buf) - hs)) buf"
proof -
  let ?e = "um_take_head e g l s"
  have "um_generate_tx_pdu e buf = rbind (um_resegment (um_heap ?e) g ?e (int (length buf)))
      (\<lambda>(sdu', next_sdu, h'). case next_sdu of None \<Rightarrow> Inr (0, buf, ?e\<lparr>um_heap := h'\<rparr>)
       | Some nxt \<Rightarrow> um_send_segment (?e\<lparr>um_heap := h', um_tx_list := nxt # l,
           um_tx_end := (if um_tx_end ?e = None then Some (g_addr nxt) else um_tx_end ?e),
           um_bstatus_tx_size := um_bstatus_tx_size ?e + um_compute_pdu_header_size ?e nxt +
             g_size nxt\<rparr>) sdu' buf)"
    using assms(1-4)
    unfolding um_generate_tx_pdu_def Let_def um_take_head_def um_pdu_size_def
    by (simp add: get_sdu_def)
  moreover have "h_sdu (um_heap ?e) (g_sdu g) = Some (s\<lparr>s_sn := um_tx_next e\<rparr>)"
    "hs = um_compute_pdu_header_size ?e (g\<lparr>g_is_last := False\<rparr>)"
    using assms(5) by (simp_all add: um_take_head_def put_sdu_def)
  ultimately show ?thesis
    using um_resegment_cut [of "um_heap ?e" g "s\<lparr>s_sn := um_tx_next e\<rparr>" hs ?e] assms(6)
    by (simp add: um_put_back_def Let_def)
qed

lemma um_put_back_ok:
  assumes inv: "um_tx_inv e" and l: "um_tx_list e = g # l"
    and s: "h_sdu (um_heap e) (g_sdu g) = Some s" and last: "g_is_last g" and k: "0 < k" "k < g_size g"
  defines "e2 \<equiv> um_put_back e g l s k"
  shows "heap_ok (um_heap e2) (um_cut_first g k # um_tx_list e2)"
    and "h_sdu (um_heap e2) (g_sdu g) = Some (s\<lparr>s_sn := um_tx_next e, s_ref_count := s_ref_count s + 1\<rparr>)"
    and "sdu_bytes (um_heap e2) j = sdu_bytes (um_heap e) j"
proof -
  let ?s = "s\<lparr>s_sn := um_tx_next e\<rparr>" and ?h = "um_heap (um_take_head e g l s)"
  have ok: "heap_ok ?h (g # l)" "seg_ok ?h g"
    using inv l heap_ok_put [OF _ s, of "g # l" ?s]
    by (auto simp: um_tx_inv_def um_take_head_def heap_ok_def)
  have s1: "h_sdu ?h (g_sdu g) = Some ?s"
    by (simp add: um_take_head_def put_sdu_def)
  have h: "um_heap e2 = put_sdu ?h (g_sdu g) (s\<lparr>s_sn := um_tx_next e, s_ref_count := s_ref_count s + 1\<rparr>)
      \<lparr>h_next := Suc (h_next ?h)\<rparr>" and n: "h_next ?h = h_next (um_heap e)"
    by (simp_all add: e2_def um_put_back_def Let_def um_take_head_def put_sdu_def)
  have "heap_ok (um_heap e2) (um_cut_first g k # um_cut_second (h_next ?h) g k # l)"
    using heap_ok_cut [OF ok(1) s1 um_cut_ok(1) [OF ok(2) last k] _ _ um_cut_ok(2) [OF ok(2) last k]] h
    by (simp add: um_cut_first_def um_cut_second_def)
  then show "heap_ok (um_heap e2) (um_cut_first g k # um_tx_list e2)"
    using n by (simp add: e2_def)
  show "h_sdu (um_heap e2) (g_sdu g) = Some (s\<lparr>s_sn := um_tx_next e, s_ref_count := s_ref_count s + 1\<rparr>)"
    by (simp add: h put_sdu_def)
  show "sdu_bytes (um_heap e2) j = sdu_bytes (um_heap e) j"
    using s by (auto simp: h sdu_bytes_def put_sdu_def um_take_head_def)
qed

lemma um_cut_inv:
  assumes inv: "um_tx_inv e" and l: "um_tx_list e = g # l"
    and "sdu_bytes (um_heap e) g = s_data s" and "g_is_last g"
    and "g_size g = int (length (s_data s)) - g_so g" and "int (length (s_data s)) \<le> NR_SDU_MAX"
    and k: "0 < k" "k < g_size g"
    and h': "heap_ok h' (um_cut_second (h_next (um_heap e)) g k # l)"
    and nxt: "sdu_bytes h' (um_cut_second (h_next (um_heap e)) g k) = s_data s"
    and rest: "\<forall>j \<in> set l. sdu_bytes h' j = sdu_bytes (um_heap e) j"
  shows "um_tx_inv (um_put_back e g l s k\<lparr>um_tx_size := um_tx_size e - k, um_heap := h'\<rparr>)"
proof -
  let ?nxt = "um_cut_second (h_next (um_heap e)) g k"
  have "um_seg_inv h' ?nxt"
    unfolding um_seg_inv_def nxt using assms by (simp add: um_cut_second_def)
  then have "\<forall>j \<in> set (?nxt # l). um_seg_inv h' j"
    using inv l rest by (simp add: um_tx_inv_def um_seg_inv_def)
  moreover have "end_ok (?nxt # l) (um_tx_end (um_put_back e g l s k))"
    using inv l by (auto simp: um_tx_inv_def end_ok_def um_cut_second_def)
  moreover have "distinct (map g_sdu (?nxt # l))"
    using inv l by (auto simp: um_tx_inv_def um_cut_second_def)
  moreover have "total_size (?nxt # l) = total_size (g # l) - k"
    by (simp add: total_size_def um_cut_second_def)
  ultimately show ?thesis
    using inv l h' unfolding um_tx_inv_def by (simp add: um_config_ok_def)
qed

lemma um_generate_cuts:
  assumes inv: "um_tx_inv e" and l: "um_tx_list e = g # l"
    and room: "um_compute_pdu_header_size e g + 1 \<le> int (length buf)"
    and fit: "\<not> um_pdu_size e g \<le> int (length buf)" and two: "length buf \<noteq> 2"
  shows "\<exists>r. um_generate_tx_pdu e buf = Inr r \<and>
    um_sent e buf r (um_next (um_sn_field_length e) (um_tx_next e) (um_queue e) (length buf))"
proof -
  obtain s where s: "h_sdu (um_heap e) (g_sdu g) = Some s" "sdu_bytes (um_heap e) g = s_data s"
    "g_is_last g" "0 \<le> g_so g" "g_is_first g \<longleftrightarrow> g_so g = 0"
    "g_size g = int (length (s_data s)) - g_so g" "int (length (s_data s)) \<le> NR_SDU_MAX"
    using inv l by (rule um_tx_invD)
  have cfg: "um_config_ok e" and tx: "0 \<le> um_tx_next e"
    using inv by (auto simp: um_tx_inv_def)
  define hs where "hs = um_compute_pdu_header_size e (g\<lparr>g_is_last := False\<rparr>)"
  define k where "k = int (length buf) - hs"
  define e2 where "e2 = um_put_back e g l s k"
  let ?g = "um_cut_first g k" and ?nxt = "um_cut_second (h_next (um_heap e)) g k"
  have hs: "hs = int (um_header (um_sn_field_length e) False (nat (g_so g)))"
    "hs + 1 \<le> int (length buf)" "um_compute_pdu_header_size e g \<le> hs"
    using s room two cfg
    by (auto simp: hs_def um_compute_pdu_header_size_def um_header_def Let_def um_config_ok_def
        split: if_splits)
  then have k: "0 < k" "k < g_size g"
    using fit by (auto simp: k_def um_pdu_size_def)
  note put_back = um_put_back_ok [OF inv l s(1,3) k, folded e2_def]
  have s2: "h_sdu (um_heap e2) (g_sdu ?g) = Some (s\<lparr>s_sn := um_tx_next e, s_ref_count := s_ref_count s + 1\<rparr>)"
    using put_back(2) by (simp add: um_cut_first_def)
  have size: "um_pdu_size e ?g = int (length buf)"
    by (simp add: um_pdu_size_def k_def hs_def um_cut_first_def um_compute_pdu_header_size_def)
  have cfg2: "um_config_ok e2"
    using cfg by (simp add: e2_def um_config_ok_def)
  define e' where "e' h = e2\<lparr>um_tx_size := um_tx_size e - k, um_heap := h\<rparr>" for h
  have upd: "e2\<lparr>um_tx_next := (if g_so ?g \<noteq> 0 \<and> g_is_last ?g
        then (um_tx_next e2 + 1) mod um_sn_modulus e2 else um_tx_next e2),
      um_tx_size := um_tx_size e2 - g_size ?g, um_heap := h'\<rparr> = e' h'" for h'
    by (simp add: e'_def e2_def um_cut_first_def)
  have fit2: "um_pdu_size e2 ?g = int (length buf)"
    using size by (simp add: e2_def)
  have tx2: "0 \<le> um_tx_next e2"
    using tx by (simp add: e2_def)
  obtain bytes h' where snd: "um_send_segment e2 ?g buf =
        Inr (int (length buf), bytes @ drop (length bytes) buf, e' h')"
    and len: "int (length bytes) = int (length buf)"
    and enc: "um_encodes (um_sn_field_length e2) bytes (seg_msg (um_tx_next e) (um_heap e2) ?g)"
    and ok3: "heap_ok h' (um_tx_list e2)"
    and bytes3: "\<forall>j \<in> set (um_tx_list e2). sdu_bytes h' j = sdu_bytes (um_heap e2) j"
    using um_send_ok [OF cfg2 put_back(1) s2 _ tx2, of buf] unfolding upd fit2 by auto
  have run: "um_generate_tx_pdu e buf = Inr (int (length buf), bytes @ drop (length bytes) buf, e' h')"
    using um_generate_cut_eq [OF l s(1) room fit hs_def hs(2)] snd by (simp add: e2_def k_def)
  have bytes: "sdu_bytes h' ?nxt = s_data s" "\<forall>j \<in> set l. sdu_bytes h' j = sdu_bytes (um_heap e) j"
    using bytes3 put_back(3) s(2) by (auto simp: e2_def um_cut_second_def sdu_bytes_def)
  have inv': "um_tx_inv (e' h')"
    using um_cut_inv [OF inv l s(2,3,6,7) k] ok3 bytes by (simp add: e'_def e2_def)
  have q: "um_queue (e' h') = (s_data s, nat (g_so g) + nat k) #
      map (\<lambda>j. (sdu_bytes (um_heap e) j, nat (g_so j))) l"
    using bytes k s(4) by (auto simp: um_queue_def e'_def e2_def um_cut_second_def nat_add_distrib)
  have nk: "nat k = length buf - um_header (um_sn_field_length e) False (nat (g_so g))"
    using hs k by (simp add: k_def)
  have hd: "int (um_header (um_sn_field_length e) (g_so g = 0) (nat (g_so g))) =
      um_compute_pdu_header_size e g"
    using s um_header_size [of g e] by auto
  let ?msg = "Um_segment (um_tx_next e) (g_so g) False (take (nat k) (drop (nat (g_so g)) (s_data s)))"
  have msg: "seg_msg (um_tx_next e) (um_heap e2) ?g = ?msg"
    using s(2) put_back(3) [of g] by (simp add: seg_msg_def um_cut_first_def sdu_bytes_def)
  have "um_next (um_sn_field_length e) (um_tx_next e) (um_queue e) (length buf) =
      Some (?msg, (s_data s, nat (g_so g) + nat k) #
        map (\<lambda>j. (sdu_bytes (um_heap e) j, nat (g_so j))) l, um_tx_next e)"
    using nk hd l s room fit
    by (auto simp: um_queue_def Let_def um_pdu_size_def nat_le_iff)
  moreover have "buf \<noteq> []"
    using hs(1,2) by auto
  ultimately have "um_sent e buf (int (length buf), bytes @ drop (length bytes) buf, e' h')
      (um_next (um_sn_field_length e) (um_tx_next e) (um_queue e) (length buf))"
    using enc msg len inv' q by (simp add: um_sent_def e'_def e2_def)
  with run show ?thesis
    by blast
qed

lemma um_generate_ok:
  assumes "um_tx_inv e" and "length buf \<noteq> 2"
  shows "\<exists>r. um_generate_tx_pdu e buf = Inr r \<and>
    um_sent e buf r (um_next (um_sn_field_length e) (um_tx_next e) (um_queue e) (length buf))"
proof (cases "um_tx_list e")
  case Nil
  then show ?thesis
    using assms(1) by (simp add: um_generate_tx_pdu_def um_sent_def um_queue_def)
next
  case (Cons g l)
  obtain s :: nr_rlc_sdu where s: "sdu_bytes (um_heap e) g = s_data s" "g_is_last g" "0 \<le> g_so g"
    "g_is_first g \<longleftrightarrow> g_so g = 0"
    using assms(1) Cons by (rule um_tx_invD)
  show ?thesis
  proof (cases "um_compute_pdu_header_size e g + 1 \<le> int (length buf)")
    case True
    then show ?thesis
      using um_generate_fits [OF assms(1) Cons True] um_generate_cuts [OF assms(1) Cons True _ assms(2)]
      by blast
  next
    case False
    moreover have "int (um_header (um_sn_field_length e) (g_so g = 0) (nat (g_so g))) =
        um_compute_pdu_header_size e g"
      using s um_header_size [of g e] by auto
    ultimately show ?thesis
      using Cons assms(1) s
      by (auto simp: um_generate_tx_pdu_def um_sent_def um_queue_def Let_def)
  qed
qed

lemma um_recv_sdu_ok:
  assumes inv: "um_tx_inv e" and len: "int (length sdu) \<le> NR_SDU_MAX"
  shows "\<exists>e'. nr_rlc_entity_um_recv_sdu e sdu i = Inr e' \<and> um_tx_inv e' \<and>
    um_sn_field_length e' = um_sn_field_length e \<and> um_tx_maxsize e' = um_tx_maxsize e \<and>
    um_tx_next e' = um_tx_next e \<and>
    um_queue e' = um_queue e @
      (if um_tx_size e + int (length sdu) \<le> um_tx_maxsize e then [(sdu, 0)] else [])"
proof (cases "um_tx_size e + int (length sdu) \<le> um_tx_maxsize e")
  case False
  then show ?thesis
    using inv len by (simp add: nr_rlc_entity_um_recv_sdu_def Let_def)
next
  case True
  obtain g h' where new: "nr_rlc_new_sdu (um_heap e) sdu i = (g, h')"
    by (cases "nr_rlc_new_sdu (um_heap e) sdu i")
  let ?l = "um_tx_list e" and ?n = "h_next (um_heap e)"
  have ok: "heap_ok (um_heap e) ?l" "end_ok ?l (um_tx_end e)" "distinct (map g_addr ?l)"
    "distinct (map g_sdu ?l)" "\<forall>k \<in> set ?l. um_seg_inv (um_heap e) k" "\<forall>k \<in> set (tl ?l). g_so k = 0"
    using inv by (auto simp: um_tx_inv_def heap_ok_def)
  have g: "g_sdu g = ?n" "g_size g = int (length sdu)" "g_so g = 0" "g_is_last g"
    "sdu_bytes h' g = sdu" "\<And>a. a \<noteq> ?n \<Longrightarrow> h_sdu h' a = h_sdu (um_heap e) a"
    using new by (auto simp: nr_rlc_new_sdu_def Let_def sdu_bytes_def)
  have old: "g_sdu k \<noteq> ?n" if "k \<in> set ?l" for k
    using heap_ok_sdu_bound [OF ok(1) that] by simp
  then have keep: "\<forall>k \<in> set ?l. sdu_bytes h' k = sdu_bytes (um_heap e) k"
    using g(6) by (auto simp: sdu_bytes_def)
  let ?e = "e\<lparr>um_tx_size := um_tx_size e + int (length sdu), um_heap := h', um_tx_list := ?l @ [g],
      um_tx_end := Some (g_addr g),
      um_bstatus_tx_size := um_bstatus_tx_size e + um_compute_pdu_header_size e g + g_size g\<rparr>"
  have run: "nr_rlc_entity_um_recv_sdu e sdu i = Inr ?e"
    using True len new list_append_ok [OF ok(2,3), of g]
    by (simp add: nr_rlc_entity_um_recv_sdu_def Let_def)
  have "\<forall>k \<in> set (?l @ [g]). um_seg_inv h' k"
    using ok(5) keep g len by (auto simp: um_seg_inv_def)
  moreover have "\<forall>k \<in> set (tl (?l @ [g])). g_so k = 0"
    using ok(6) g(3) by (cases ?l) auto
  moreover have "distinct (map g_sdu (?l @ [g]))"
    using ok(4) g(1) by (auto dest: old)
  ultimately have "um_tx_inv ?e"
    using inv heap_ok_new [OF ok(1) new] g(2) unfolding um_tx_inv_def
    by (simp add: total_size_def um_pdu_size_def um_config_ok_def)
  with run True keep g(3,5) show ?thesis
    by (simp add: um_queue_def)
qed

interpretation um_tx: rlc_tx um_tx_inv "\<lambda>n. n \<noteq> 2" nr_rlc_entity_um_recv_sdu
  nr_rlc_entity_um_generate_pdu
proof
  fix e :: nr_rlc_entity_um and sdu :: "byte list" and i :: int
  assume "um_tx_inv e" and "int (length sdu) \<le> NR_SDU_MAX"
  then show "\<exists>e'. nr_rlc_entity_um_recv_sdu e sdu i = Inr e' \<and> um_tx_inv e'"
    using um_recv_sdu_ok by blast
next
  fix e :: nr_rlc_entity_um and buf :: "byte list"
  assume "um_tx_inv e" and "length buf \<noteq> 2"
  then obtain r where "um_generate_tx_pdu e buf = Inr r"
    "um_sent e buf r (um_next (um_sn_field_length e) (um_tx_next e) (um_queue e) (length buf))"
    using um_generate_ok by blast
  then show "\<exists>ret buf' e'. nr_rlc_entity_um_generate_pdu e buf = Inr (ret, buf', e') \<and> um_tx_inv e' \<and>
      0 \<le> ret \<and> ret \<le> int (length buf) \<and> length buf' = length buf"
    by (cases r) (auto simp: nr_rlc_entity_um_generate_pdu_def um_sent_def split: option.splits)
qed

section \<open>Discarding an SDU\<close>

lemma find_sdu_id_split:
  assumes "\<forall>g \<in> set (before @ g # after). seg_live h g"
    and "\<forall>k \<in> set before. s_upper_layer_id (the (h_sdu h (g_sdu k))) \<noteq> i"
    and "s_upper_layer_id (the (h_sdu h (g_sdu g))) = i"
  shows "find_sdu_id h i (before @ g # after) = Inr (before, g # after)"
  using assms by (induction before) (auto simp: seg_live_def get_sdu_def)

section \<open>Properties\<close>


lemma um_tx_inv_new:
  assumes "new_nr_rlc_entity_um rx tx tr len = Inr e"
  shows "um_tx_inv e"
  using assms
  by (auto simp: new_nr_rlc_entity_um_def um_tx_inv_def um_config_ok_def total_size_def
      split: if_splits)


text \<open>No interleaving of SDUs of legal size and of grants, none of two bytes, makes the entity
  abort, follow a bad pointer or write outside a buffer, and every PDU fits its grant.\<close>

lemma um_tx_run_ok:
  assumes "new_nr_rlc_entity_um rx tx tr len = Inr e"
    and "\<forall>c \<in> set cs. tx_cmd_ok (\<lambda>n. n \<noteq> 2) c"
  shows "\<exists>pdus e'. tx_run nr_rlc_entity_um_recv_sdu nr_rlc_entity_um_generate_pdu e cs = Inr (pdus, e') \<and>
    um_tx_inv e' \<and> list_all2 pdu_fits cs pdus"
  using um_tx_inv_new [OF assms(1)] assms(2) by (rule um_tx.tx_run_ok)

text \<open>A grant of two bytes loses an SDU. With 12-bit sequence numbers and an SDU of at least two
  bytes at the head of the queue, generating a PDU for a grant of exactly two bytes sends nothing,
  yet takes the SDU out of the queue; its bytes stay counted in the buffer and its memory is never
  released.\<close>

lemma um_two_byte_grant_loses_sdu:
  assumes "um_tx_inv e" and "um_sn_field_length e = 12" and "um_tx_list e = g # l"
    and "g_so g = 0" and "2 \<le> g_size g" and "length buf = 2"
  shows "\<exists>e'. nr_rlc_entity_um_generate_pdu e buf = Inr (0, buf, e') \<and>
    um_tx_list e' = l \<and> um_tx_size e' = total_size (um_tx_list e') + g_size g \<and>
    h_sdu (um_heap e') (g_sdu g) \<noteq> None \<and> owners (um_tx_list e') (g_sdu g) = 0"
proof -
  obtain s where s: "h_sdu (um_heap e) (g_sdu g) = Some s" "g_is_last g" "g_is_first g \<longleftrightarrow> g_so g = 0"
    using assms(1,3) by (rule um_tx_invD)
  have "owners l (g_sdu g) = 0"
    using assms(1,3) by (auto simp: um_tx_inv_def owners_def filter_empty_conv image_iff)
  moreover have "um_tx_size e = total_size l + g_size g"
    using assms(1,3) by (simp add: um_tx_inv_def total_size_def)
  moreover have "um_compute_pdu_header_size e g = 1"
    "um_compute_pdu_header_size (e\<lparr>um_tx_list := l\<rparr>) (g\<lparr>g_is_last := False\<rparr>) = 2"
    using s assms(2,4) by (simp_all add: um_compute_pdu_header_size_def)
  ultimately show ?thesis
    using s assms(2-6)
    by (auto simp: nr_rlc_entity_um_generate_pdu_def um_generate_tx_pdu_def get_sdu_def Let_def
        um_resegment_def put_sdu_def)
qed

text \<open>Discarding an SDU that is still whole takes it out of the queue and frees it, but its size
  stays counted in the transmission buffer: the space is never given back.\<close>

lemma um_discard_keeps_size:
  assumes "um_tx_inv e" and "um_tx_list e = before @ g # after" and "g_so g = 0"
    and "\<forall>k \<in> set before. s_upper_layer_id (the (h_sdu (um_heap e) (g_sdu k))) \<noteq> i"
    and "s_upper_layer_id (the (h_sdu (um_heap e) (g_sdu g))) = i"
  shows "\<exists>e'. nr_rlc_entity_um_discard_sdu e i = Inr e' \<and> um_tx_list e' = before @ after \<and>
    end_ok (before @ after) (um_tx_end e') \<and> heap_ok (um_heap e') (before @ after) \<and>
    um_bstatus_tx_size e' = sum_list (map (um_pdu_size e) (before @ after)) \<and>
    um_tx_size e' = total_size (before @ after) + g_size g \<and>
    nr_rlc_entity_um_available_tx_space e' = nr_rlc_entity_um_available_tx_space e"
proof -
  have ok: "heap_ok (um_heap e) (before @ g # after)" "end_ok (before @ g # after) (um_tx_end e)"
    and addr: "distinct (map g_addr (before @ g # after))"
    using assms(1,2) by (auto simp: um_tx_inv_def heap_ok_def)
  then have ok1: "heap_ok (um_heap e) (g # before @ after)"
    by (subst heap_ok_mset [of _ "before @ g # after"]) auto
  have find: "find_sdu_id (um_heap e) i (um_tx_list e) = Inr (before, g # after)"
    unfolding assms(2) using heap_ok_live [OF ok(1)] assms(4,5) by (intro find_sdu_id_split) auto
  obtain s where s: "h_sdu (um_heap e) (g_sdu g) = Some s"
    using ok1 by (auto elim: heap_okD)
  then have fl: "g_is_first g" "g_is_last g"
    using assms(1-3) ok1 by (auto simp: um_tx_inv_def um_seg_inv_def heap_ok_def seg_ok_def)
  obtain b h' where h': "nr_rlc_free_sdu_segment (um_heap e) g = Inr (b, h')" "heap_ok h' (before @ after)"
    using free_sdu_segment_ok [OF ok1 s] by blast
  define end' where "end' = (if um_tx_end e = Some (g_addr g)
    then if before \<noteq> [] then Some (g_addr (last before)) else None else um_tx_end e)"
  have "end_ok (before @ after) end'"
  proof (cases after rule: rev_cases)
    case Nil
    then show ?thesis
      using ok(2) by (auto simp: end'_def end_ok_def)
  next
    case (snoc k z)
    then have "g_addr z \<noteq> g_addr g"
      using addr by auto
    with snoc show ?thesis
      using ok(2) by (auto simp: end'_def end_ok_def)
  qed
  moreover have "nr_rlc_entity_um_discard_sdu e i = Inr (e\<lparr>um_tx_list := before @ after,
      um_tx_end := end', um_bstatus_tx_size := um_bstatus_tx_size e - um_pdu_size e g, um_heap := h'\<rparr>)"
    using find fl h'(1) by (simp add: nr_rlc_entity_um_discard_sdu_def end'_def um_pdu_size_def)
  ultimately show ?thesis
    using assms(1,2) h'(2)
    by (simp add: um_tx_inv_def total_size_def nr_rlc_entity_um_available_tx_space_def)
qed

end
