(* ===== verification/NR_RLC_Um_Link.thy ===== *)
theory NR_RLC_Um_Link
  imports NR_RLC_Um_Tx
begin

text \<open>
  The receiving side of the unacknowledged mode entity, and a transmitting and a receiving entity
  connected by a channel that loses nothing and keeps the order. The lemmas decode what the
  transmitter encodes, relate the comparison of sequence numbers to distances from the start of the
  reassembly window, and carry an invariant of the connected pair through every step.
\<close>

section \<open>Decoding\<close>

text \<open>What is done with a decoded segment.\<close>

definition um_store :: "nr_rlc_entity_um \<Rightarrow> nr_rlc_pdu \<Rightarrow> nr_rlc_entity_um res" where
  "um_store e pdu =
     (if um_rx_size e + p_size pdu > um_rx_maxsize e then Inr e
      else if um_sn_compare_rx e (p_sn pdu) (um_rx_next_reassembly e) < 0 then Inr e
      else um_reception_actions
        (e\<lparr>um_rx_size := um_rx_size e + p_size pdu,
           um_rx_list := nr_rlc_pdu_list_add (um_sn_compare_rx e) (um_rx_list e) pdu\<rparr>) (p_sn pdu))"

fun um_receive :: "nr_rlc_entity_um \<Rightarrow> um_msg \<Rightarrow> nr_rlc_entity_um res" where
  "um_receive e (Um_whole d) = Inr (e\<lparr>um_out := um_out e @ [Deliver_sdu d]\<rparr>)"
| "um_receive e (Um_segment sn so l d) = um_store e (nr_rlc_new_pdu sn so (so = 0) l d)"

fun um_msg_ok :: "nat \<Rightarrow> um_msg \<Rightarrow> bool" where
  "um_msg_ok len (Um_whole d) \<longleftrightarrow> d \<noteq> []"
| "um_msg_ok len (Um_segment sn so l d) \<longleftrightarrow> d \<noteq> [] \<and> 0 \<le> sn \<and> sn < 2 ^ len \<and> 0 \<le> so \<and>
     so < 2 ^ 16 \<and> \<not> (so = 0 \<and> l)"

lemma um_recv_segment_store:
  assumes "header < length buffer"
  shows "um_recv_segment e buffer sn so f l header =
    um_store e (nr_rlc_new_pdu sn so f l (drop header buffer))"
  using assms by (simp add: um_recv_segment_def um_store_def nr_rlc_new_pdu_def Let_def of_nat_diff)

lemma um_recv_encoded:
  assumes len: "um_sn_field_length e \<in> {6, 12}" and enc: "um_encodes (um_sn_field_length e) bytes msg"
    and ok: "um_msg_ok (um_sn_field_length e) msg"
  shows "nr_rlc_entity_um_recv_pdu e bytes = um_receive e msg"
proof -
  let ?len = "um_sn_field_length e"
  obtain hdr where bytes: "bytes = hdr @ um_msg_data msg"
    and bits: "bytes_bits hdr = fields_bits (um_msg_fields ?len msg)"
    using enc by (auto simp: um_encodes_def)
  have hlen: "8 * length hdr = sum_list (map snd (um_msg_fields ?len msg))"
    using arg_cong [OF bits, of length] by (simp add: length_fields_bits)
  have rest: "bytes_bits bytes = fields_bits (um_msg_fields ?len msg) @ bytes_bits (um_msg_data msg)"
    by (simp add: bytes bits)
  show ?thesis
  proof (cases msg)
    case (Um_whole d)
    then have "length hdr = 1" "d \<noteq> []"
      using hlen ok by auto
    then show ?thesis
      using Um_whole rest bytes
      by (cases hdr) (auto simp: nr_rlc_entity_um_recv_pdu_def Let_def fields_bits_def bits_simps)
  next
    case (Um_segment sn so l d)
    then have m: "d \<noteq> []" "0 \<le> sn" "sn < 2 ^ ?len" "0 \<le> so" "so < 2 ^ 16" "\<not> (so = 0 \<and> l)"
      using ok by auto
    then have t: "take_bit ?len sn = sn" "take_bit 16 so = so"
      by (simp_all add: take_bit_int_eq_self_iff)
    have store: "um_recv_segment e bytes i j f k n = um_store e (nr_rlc_new_pdu i j f k d)"
      if "length hdr = n" for i j f k n
      using that bytes m(1) Um_segment by (auto simp: um_recv_segment_store)
    show ?thesis
      using Um_segment rest hlen m(6) t len
      by (cases "so = 0")
         (auto simp: nr_rlc_entity_um_recv_pdu_def Let_def fields_bits_def d_byte_dec_skip store
           bits_simps)
  qed
qed

section \<open>The reassembly window\<close>

text \<open>The distance of a sequence number from the start of the window.\<close>

definition um_key :: "nr_rlc_entity_um \<Rightarrow> int \<Rightarrow> int" where
  "um_key e a = (a - um_rx_next_highest e + um_window_size e) mod um_sn_modulus e"

definition um_sn_ok :: "nr_rlc_entity_um \<Rightarrow> int \<Rightarrow> bool" where
  "um_sn_ok e sn \<longleftrightarrow> 0 \<le> sn \<and> sn < um_sn_modulus e"

definition um_rx_config :: "nr_rlc_entity_um \<Rightarrow> bool" where
  "um_rx_config e \<longleftrightarrow> um_config_ok e \<and> um_sn_ok e (um_rx_next_highest e) \<and>
     um_sn_ok e (um_rx_next_reassembly e)"

lemma um_config_pos:
  assumes "um_config_ok e"
  shows "2 \<le> um_sn_modulus e" "2 * um_window_size e = um_sn_modulus e" "0 < um_window_size e"
    "um_window_size e + 2 < um_sn_modulus e"
  using assms by (auto simp: um_config_ok_def)

lemma um_modulus_key:
  assumes "um_config_ok e" and "um_sn_ok e (um_rx_next_highest e)" and "um_sn_ok e a"
  shows "um_modulus_rx e a = um_key e a"
proof -
  let ?r = "a - (um_rx_next_highest e - um_window_size e)" and ?M = "um_sn_modulus e"
  have "?r + ?M \<ge> 0"
    using assms um_config_pos [OF assms(1)] by (auto simp: um_sn_ok_def)
  then have "um_modulus_rx e a = ?r mod ?M"
    unfolding um_modulus_rx_def Let_def by (auto simp: c_rem_def)
  then show ?thesis
    by (simp add: um_key_def algebra_simps)
qed

lemma mod_sub_add: "(a - b mod M + c) mod M = (a - b + c) mod (M :: int)"
  by (metis mod_add_left_eq mod_diff_right_eq)

lemma mod_add_sub: "(a mod M - b + c) mod M = (a - b + c) mod (M :: int)"
  by (metis mod_add_left_eq mod_diff_left_eq)

lemma um_key_range: "um_config_ok e \<Longrightarrow> 0 \<le> um_key e a \<and> um_key e a < um_sn_modulus e"
  using um_config_pos [of e] by (simp add: um_key_def)

lemma um_key_inj:
  assumes "um_config_ok e" and "um_sn_ok e a" "um_sn_ok e b" and "um_key e a = um_key e b"
  shows "a = b"
proof -
  let ?c = "- um_rx_next_highest e + um_window_size e"
  have "(a + ?c) mod um_sn_modulus e = (b + ?c) mod um_sn_modulus e"
    using assms(4) by (simp add: um_key_def algebra_simps)
  then have "a mod um_sn_modulus e = b mod um_sn_modulus e"
    by (metis add_diff_cancel_right' mod_diff_left_eq)
  then show ?thesis
    using assms(2,3) by (simp add: um_sn_ok_def)
qed

lemma um_compare_key:
  assumes "um_config_ok e" and "um_sn_ok e (um_rx_next_highest e)" and "um_sn_ok e a" "um_sn_ok e b"
  shows "um_sn_compare_rx e a b = um_key e a - um_key e b"
  using assms by (simp add: um_sn_compare_rx_def um_modulus_key)

interpretation um_rx: sn_order "um_sn_compare_rx e" "um_modulus_rx e"
  "\<lambda>sn. um_config_ok e \<and> um_sn_ok e (um_rx_next_highest e) \<and> um_sn_ok e sn" for e
proof
  fix a b
  show "um_sn_compare_rx e a b = um_modulus_rx e a - um_modulus_rx e b"
    by (simp add: um_sn_compare_rx_def)
  assume "um_config_ok e \<and> um_sn_ok e (um_rx_next_highest e) \<and> um_sn_ok e a"
    "um_config_ok e \<and> um_sn_ok e (um_rx_next_highest e) \<and> um_sn_ok e b"
    "um_modulus_rx e a = um_modulus_rx e b"
  then show "a = b"
    by (metis um_modulus_key um_key_inj)
qed

text \<open>Moving the window by one.\<close>

lemma um_key_advance:
  assumes "um_config_ok e" and "0 < um_key e a"
    and "um_rx_next_highest e' = (um_rx_next_highest e + 1) mod um_sn_modulus e"
    and "um_window_size e' = um_window_size e" "um_sn_modulus e' = um_sn_modulus e"
  shows "um_key e' a = um_key e a - 1"
proof -
  let ?M = "um_sn_modulus e"
  have "um_key e' a = ((a - um_rx_next_highest e + um_window_size e) - 1) mod ?M"
    using assms(3-5) by (simp add: um_key_def mod_simps algebra_simps)
  also have "\<dots> = (um_key e a - 1) mod ?M"
    by (simp add: um_key_def mod_simps)
  also have "\<dots> = um_key e a - 1"
    using assms(2) um_key_range [OF assms(1), of a] by simp
  finally show ?thesis .
qed

lemma um_key_leave:
  assumes "um_config_ok e" and "um_key e a = 0"
    and "um_rx_next_highest e' = (um_rx_next_highest e + 1) mod um_sn_modulus e"
    and "um_window_size e' = um_window_size e" "um_sn_modulus e' = um_sn_modulus e"
  shows "um_key e' a = um_sn_modulus e - 1"
proof -
  let ?M = "um_sn_modulus e"
  have "um_key e' a = ((a - um_rx_next_highest e + um_window_size e) - 1) mod ?M"
    using assms(3-5) by (simp add: um_key_def mod_simps algebra_simps)
  also have "\<dots> = (um_key e a - 1) mod ?M"
    by (simp add: um_key_def mod_simps)
  finally show ?thesis
    using assms(2) um_config_pos [OF assms(1)] by (simp add: zmod_minus1)
qed

lemma um_key_highest:
  assumes "um_config_ok e"
  shows "um_key e (um_rx_next_highest e) = um_window_size e"
  using um_config_pos [OF assms] by (simp add: um_key_def)

section \<open>A receiver in step with its transmitter\<close>

text \<open>
  The receiver expects sequence number \<open>n\<close> and has received exactly the first \<open>so\<close> bytes of the SDU
  \<open>x\<close> with that number; all other nodes of its list are left over from SDUs already delivered.
\<close>

definition um_node_ok :: "nr_rlc_entity_um \<Rightarrow> int \<Rightarrow> byte list \<Rightarrow> nr_rlc_pdu \<Rightarrow> bool" where
  "um_node_ok r n x p \<longleftrightarrow> um_sn_ok r (p_sn p) \<and> um_key r (p_sn p) < um_window_size r \<and>
     (if p_sn p = n then piece_of x p else p_data p = None \<and> p_size p = 0)"

definition um_got :: "nr_rlc_pdu list \<Rightarrow> int \<Rightarrow> nat \<Rightarrow> bool" where
  "um_got l n so \<longleftrightarrow>
     (\<forall>b. covers (filter (\<lambda>p. p_sn p = n) l) b \<longleftrightarrow> 0 \<le> b \<and> b < int so) \<and>
     sum_list (map p_size (filter (\<lambda>p. p_sn p = n) l)) = int so"

definition um_rx_at :: "nr_rlc_entity_um \<Rightarrow> int \<Rightarrow> byte list \<Rightarrow> nat \<Rightarrow> bool" where
  "um_rx_at r n x so \<longleftrightarrow> um_config_ok r \<and> um_sn_ok r n \<and> um_rx_next_reassembly r = n \<and>
     um_rx_next_highest r = (if so = 0 then n else (n + 1) mod um_sn_modulus r) \<and>
     um_t_reassembly_start r = 0 \<and> um_rx_size r = int so \<and> NR_SDU_MAX \<le> um_rx_maxsize r \<and>
     pdu_sorted (um_modulus_rx r) (um_rx_list r) \<and>
     (\<forall>p \<in> set (um_rx_list r). um_node_ok r n x p) \<and> um_got (um_rx_list r) n so"

lemma um_rx_at_highest: "um_rx_at r n x so \<Longrightarrow> um_sn_ok r (um_rx_next_highest r)"
  using um_config_pos [of r] by (auto simp: um_rx_at_def um_sn_ok_def)

lemma um_rx_at_key:
  assumes "um_rx_at r n x so"
  shows "um_key r n = (if so = 0 then um_window_size r else um_window_size r - 1)"
proof (cases "so = 0")
  case True
  then show ?thesis
    using assms um_key_highest [of r] by (auto simp: um_rx_at_def)
next
  case False
  then have "um_key r n = (n - (n + 1) + um_window_size r) mod um_sn_modulus r"
    using assms by (simp add: um_rx_at_def um_key_def mod_sub_add)
  then show ?thesis
    using False assms um_config_pos [of r] by (auto simp: um_rx_at_def)
qed

lemma um_window_upd [simp]:
  "um_modulus_rx (r\<lparr>um_rx_list := l\<rparr>) = um_modulus_rx r"
  "um_modulus_rx (r\<lparr>um_rx_size := i\<rparr>) = um_modulus_rx r"
  "um_modulus_rx (r\<lparr>um_out := o'\<rparr>) = um_modulus_rx r"
  "um_modulus_rx (r\<lparr>um_rx_next_reassembly := i\<rparr>) = um_modulus_rx r"
  "um_key (r\<lparr>um_rx_list := l\<rparr>) = um_key r"
  "um_key (r\<lparr>um_rx_size := i\<rparr>) = um_key r"
  "um_key (r\<lparr>um_out := o'\<rparr>) = um_key r"
  "um_key (r\<lparr>um_rx_next_reassembly := i\<rparr>) = um_key r"
  "um_sn_compare_rx (r\<lparr>um_rx_list := l\<rparr>) = um_sn_compare_rx r"
  "um_sn_compare_rx (r\<lparr>um_rx_size := i\<rparr>) = um_sn_compare_rx r"
  "um_sn_compare_rx (r\<lparr>um_out := o'\<rparr>) = um_sn_compare_rx r"
  "um_sn_compare_rx (r\<lparr>um_rx_next_reassembly := i\<rparr>) = um_sn_compare_rx r"
  by (simp_all add: um_modulus_rx_def um_key_def um_sn_compare_rx_def fun_eq_iff Let_def)

lemma um_got_add:
  assumes "um_got l n so" and "p_sn p = n" and "p_so p = int so" and "p_size p = int k"
  shows "um_got (nr_rlc_pdu_list_add cmp l p) n (so + k)"
proof -
  let ?f = "filter (\<lambda>p. p_sn p = n)"
  have "set (?f (nr_rlc_pdu_list_add cmp l p)) = insert p (set (?f l))"
    using assms(2) by auto
  from covers_insert [OF this] have "covers (?f (nr_rlc_pdu_list_add cmp l p)) b \<longleftrightarrow>
      0 \<le> b \<and> b < int (so + k)" for b
    using assms by (auto simp: um_got_def)
  moreover have "sum_list (map p_size (?f (nr_rlc_pdu_list_add cmp l p))) =
      p_size p + sum_list (map p_size (?f l))"
    using assms(2) by (induction l) auto
  ultimately show ?thesis
    using assms by (simp add: um_got_def)
qed

text \<open>The list with the next piece in it.\<close>

lemma um_add_ok:
  assumes at: "um_rx_at r n x so" and d: "0 < k" "so + k \<le> length x"
    and last: "l \<longleftrightarrow> so + k = length x"
  defines "p \<equiv> nr_rlc_new_pdu n (int so) (so = 0) l (take k (drop so x))"
  defines "rl \<equiv> nr_rlc_pdu_list_add (um_sn_compare_rx r) (um_rx_list r) p"
  shows "pdu_sorted (um_modulus_rx r) rl" and "pieces rl n x" and "um_got rl n (so + k)"
    and "list_sdu_full rl n \<longleftrightarrow> l" and "\<not> list_sdu_has_missing_bytes rl n"
    and "\<forall>q \<in> set rl. if p_sn q = n then piece_of x q else um_node_ok r n x q"
proof -
  have p: "p_sn p = n" "p_so p = int so" "p_size p = int k" "piece_of x p"
    using d last by (auto simp: p_def nr_rlc_new_pdu_def piece_of_def)
  have nodes: "\<forall>q \<in> set (um_rx_list r). um_node_ok r n x q"
    and cfg: "um_config_ok r" "um_sn_ok r n" and sorted: "pdu_sorted (um_modulus_rx r) (um_rx_list r)"
    and got: "um_got (um_rx_list r) n so"
    using at by (auto simp: um_rx_at_def)
  show 1: "pdu_sorted (um_modulus_rx r) rl"
    unfolding rl_def using nodes cfg sorted p(1) um_rx_at_highest [OF at]
    by (intro um_rx.pdu_list_add_sorted) (auto simp: um_node_ok_def)
  show 2: "\<forall>q \<in> set rl. if p_sn q = n then piece_of x q else um_node_ok r n x q"
    using nodes p by (auto simp: rl_def um_node_ok_def)
  then show 3: "pieces rl n x"
    by (auto simp: pieces_def)
  show 4: "um_got rl n (so + k)"
    unfolding rl_def using got p(1-3) by (rule um_got_add)
  have cov: "covers (filter (\<lambda>p. p_sn p = n) rl) b \<longleftrightarrow> 0 \<le> b \<and> b < int (so + k)" for b
    using 4 by (simp add: um_got_def)
  have "x \<noteq> []"
    using d by auto
  then have "list_sdu_full rl n \<longleftrightarrow> (\<forall>b. 0 \<le> b \<and> b < int (length x) \<longrightarrow> b < int (so + k))"
    using list_sdu_full_iff [OF 1 3] cov by simp
  also have "\<dots> \<longleftrightarrow> l"
  proof (cases "so + k = length x")
    case False
    then have "\<not> (int (so + k) < int (length x) \<longrightarrow> int (so + k) < int (so + k))"
      using d(2) by simp
    then show ?thesis
      using False last by (metis of_nat_0_le_iff)
  qed (simp add: last)
  finally show "list_sdu_full rl n \<longleftrightarrow> l" .
  have "\<not> (\<exists>b. 0 \<le> b \<and> b < p_so q \<and> \<not> covers (filter (\<lambda>p. p_sn p = n) rl) b)"
    if "q \<in> set (filter (\<lambda>p. p_sn p = n) rl)" for q
  proof -
    have "covers (filter (\<lambda>p. p_sn p = n) rl) (p_so q)"
      using 3 that by (auto simp: covers_def pieces_def piece_of_def intro!: bexI [of _ q])
    then show ?thesis
      using cov by auto
  qed
  then show "\<not> list_sdu_has_missing_bytes rl n"
    using list_missing_iff [OF 1 3] by blast
qed

text \<open>The reassembly timer does not start while nothing is missing.\<close>

lemma um_timer_idle:
  assumes "um_config_ok r" and "um_t_reassembly_start r = 0"
    and "um_sn_ok r (um_rx_next_highest r)"
    and "um_rx_next_highest r = um_rx_next_reassembly r \<or>
      um_rx_next_highest r = (um_rx_next_reassembly r + 1) mod um_sn_modulus r \<and>
      \<not> um_sdu_has_missing_bytes r (um_rx_next_reassembly r) \<and> 0 \<le> um_rx_next_reassembly r"
  shows "um_reassembly_timer r = r"
  using assms(4)
proof
  let ?h = "um_rx_next_highest r" and ?M = "um_sn_modulus r"
  assume h: "um_rx_next_highest r = um_rx_next_reassembly r"
  have cfg: "2 \<le> ?M" "um_window_size r + 2 < ?M" "0 < um_window_size r"
    using um_config_pos [OF assms(1)] by auto
  have hb: "0 \<le> ?h" "?h < ?M"
    using assms(3) by (auto simp: um_sn_ok_def)
  have "um_key r ((?h + 1) mod ?M) = (1 + um_window_size r) mod ?M"
    by (simp add: um_key_def mod_add_sub)
  then have "um_key r ((?h + 1) mod ?M) = um_window_size r + 1"
    using cfg by simp
  moreover have "um_sn_ok r ((?h + 1) mod ?M)"
    using cfg by (simp add: um_sn_ok_def)
  ultimately have "um_sn_compare_rx r ?h ((?h + 1) mod ?M) = -1"
    using assms(1,3) by (simp add: um_compare_key um_key_highest)
  moreover have "?h \<noteq> (?h + 1) mod ?M"
    using hb cfg by (cases "?h + 1 = ?M") auto
  ultimately show ?thesis
    using h hb assms(2) by (simp add: um_reassembly_timer_def Let_def)
next
  assume "um_rx_next_highest r = (um_rx_next_reassembly r + 1) mod um_sn_modulus r \<and>
      \<not> um_sdu_has_missing_bytes r (um_rx_next_reassembly r) \<and> 0 \<le> um_rx_next_reassembly r"
  then show ?thesis
    using assms(2) by (simp add: um_reassembly_timer_def Let_def um_sn_compare_rx_def)
qed

lemma pdu_sorted_map:
  "(\<And>p. p_sn (f p) = p_sn p \<and> p_so (f p) = p_so p) \<Longrightarrow> pdu_sorted key (map f l) = pdu_sorted key l"
  by (simp add: pdu_sorted_def sorted_wrt_map)

lemma um_got_none:
  assumes "n \<notin> p_sn ` set l"
  shows "um_got l n 0"
proof -
  have "filter (\<lambda>p. p_sn p = n) l = []"
    using assms by (auto simp: filter_empty_conv)
  then show ?thesis
    by (simp add: um_got_def)
qed

lemma seek_sn_map:
  "(\<And>p. p_sn (f p) = p_sn p) \<Longrightarrow> seek_sn sn (map f l) = map f (seek_sn sn l)"
  by (simp add: seek_sn_def dropWhile_map comp_def)

text \<open>The last piece completes the SDU.\<close>

lemma um_complete:
  assumes at: "um_rx_at r n x so" and d: "0 < k" "so + k = length x" "so \<noteq> 0"
    and len: "int (length x) \<le> NR_SDU_MAX"
  defines "p \<equiv> nr_rlc_new_pdu n (int so) False True (take k (drop so x))"
  defines "rl \<equiv> nr_rlc_pdu_list_add (um_sn_compare_rx r) (um_rx_list r) p"
  shows "\<exists>r'. um_reception_actions (r\<lparr>um_rx_size := int (so + k), um_rx_list := rl\<rparr>) n = Inr r' \<and>
    um_rx_at r' ((n + 1) mod um_sn_modulus r) y 0 \<and> um_out r' = um_out r @ [Deliver_sdu x] \<and>
    um_sn_field_length r' = um_sn_field_length r"
proof -
  let ?M = "um_sn_modulus r" and ?mark = "\<lambda>p. if p_sn p = n then um_mark p else p"
  let ?r1 = "r\<lparr>um_rx_size := int (so + k), um_rx_list := rl\<rparr>"
  let ?l2 = "map ?mark rl"
  have cfg: "um_config_ok r" "um_sn_ok r n" "um_rx_next_reassembly r = n"
    "um_rx_next_highest r = (n + 1) mod ?M" "um_t_reassembly_start r = 0" "NR_SDU_MAX \<le> um_rx_maxsize r"
    using at d(3) by (auto simp: um_rx_at_def)
  note pos = um_config_pos [OF cfg(1)]
  have 1: "pdu_sorted (um_modulus_rx r) rl" "pieces rl n x" "um_got rl n (so + k)" "list_sdu_full rl n"
    "\<forall>q \<in> set rl. if p_sn q = n then piece_of x q else um_node_ok r n x q"
    using um_add_ok [OF at d(1), of True] d unfolding p_def rl_def by auto
  have re: "list_reassemble um_mark n rl (int (so + k)) = Inr (?l2, x, False, 0)"
    using list_reassemble_ok [OF 1(1,2) len 1(4)] 1(3) by (simp add: um_got_def)
  have hi: "um_sn_ok r ((n + 1) mod ?M)"
    using pos by (simp add: um_sn_ok_def)
  have kn: "um_key r ((n + 1) mod ?M) = um_window_size r"
    using um_key_highest [OF cfg(1)] cfg(4) by simp
  have keys: "um_sn_ok r (p_sn q) \<and> um_key r (p_sn q) < um_window_size r" if "q \<in> set rl" for q
    using 1(5) that cfg(2) um_rx_at_key [OF at] d(3)
    by (cases "p_sn q = n") (auto simp: um_node_ok_def)
  then have fresh: "(n + 1) mod ?M \<notin> p_sn ` set rl"
    using kn by fastforce
  have d2: "\<not> list_sdu_delivered ?l2 ((n + 1) mod ?M)"
    using fresh delivered_in_list [of ?l2 "(n + 1) mod ?M"] by (force simp: um_mark_def)
  obtain q0 k0 where q0: "seek_sn n rl = q0 # k0" "p_sn q0 = n" "q0 \<in> set rl"
    using 1(4) seek_sn_Cons by (fastforce simp: list_sdu_full_def split: list.splits)
  have "seek_sn n ?l2 = map ?mark (seek_sn n rl)"
    by (rule seek_sn_map) (simp add: um_mark_def)
  with q0 have d1: "list_sdu_delivered ?l2 n"
    by (simp add: list_sdu_delivered_def um_mark_def)
  obtain m where m: "length rl = Suc m"
    using q0(3) by (cases rl) auto
  have skip: "skip_delivered ?l2 ?M (length ?l2) n = Inr ((n + 1) mod ?M)"
    using d1 d2 m cfg(2) by (cases m) (simp_all add: um_sn_ok_def)
  let ?r' = "r\<lparr>um_rx_list := ?l2, um_rx_size := 0, um_out := um_out r @ [Deliver_sdu x],
      um_rx_next_reassembly := (n + 1) mod ?M\<rparr>"
  have "um_reception_actions ?r1 n = Inr (um_reassembly_timer ?r')"
    using 1(4) re skip cfg(3)
    by (simp add: um_reception_actions_def um_sdu_full_def um_reassemble_and_deliver_def Let_def
        um_skip_delivered_def)
  also have "um_reassembly_timer ?r' = ?r'"
    using cfg hi by (intro um_timer_idle) (auto simp: um_config_ok_def um_sn_ok_def)
  finally have run: "um_reception_actions ?r1 n = Inr ?r'" .
  have "um_node_ok ?r' ((n + 1) mod ?M) y q" if q: "q \<in> set ?l2" for q
  proof -
    obtain q0 where q0: "q0 \<in> set rl" "q = ?mark q0"
      using q by auto
    then have "p_sn q = p_sn q0" "p_data q = None \<and> p_size q = 0"
      using 1(5) by (auto simp: um_mark_def um_node_ok_def)
    moreover have "p_sn q0 \<noteq> (n + 1) mod ?M"
      using fresh q0(1) by (metis image_eqI)
    ultimately show ?thesis
      using keys [OF q0(1)] by (auto simp: um_node_ok_def um_sn_ok_def)
  qed
  moreover have "um_got ?l2 ((n + 1) mod ?M) 0"
    using fresh by (intro um_got_none) (force simp: um_mark_def)
  moreover have "pdu_sorted (um_modulus_rx r) ?l2"
    using 1(1) by (subst pdu_sorted_map) (auto simp: um_mark_def)
  ultimately have "um_rx_at ?r' ((n + 1) mod ?M) y 0"
    using cfg hi by (simp add: um_rx_at_def um_config_ok_def um_sn_ok_def)
  with run show ?thesis
    by (intro exI [of _ ?r']) simp
qed

text \<open>The first piece opens the window for the SDU.\<close>

lemma um_discard_head_eq:
  "um_discard_head e l s =
     (let P = (\<lambda>p. um_sn_compare_rx e (p_sn p) (um_rx_next_highest e) \<ge> 0)
      in (dropWhile P l, s - sum_list (map p_size (takeWhile P l))))"
  by (induction l arbitrary: s) (auto simp: Let_def)

lemma sorted_dropWhile_zero:
  assumes "pdu_sorted key l" and "\<forall>p \<in> set l. 0 \<le> key (p_sn p)"
  shows "\<forall>p \<in> set (dropWhile (\<lambda>p. key (p_sn p) = 0) l). 0 < key (p_sn p)"
  using assms
proof (induction l)
  case (Cons p l)
  show ?case
  proof (cases "key (p_sn p) = 0")
    case True
    then show ?thesis
      using Cons by (simp add: pdu_sorted_def)
  next
    case False
    then have "0 < key (p_sn p)"
      using Cons.prems(2) by auto
    then have "0 < key (p_sn q)" if "q \<in> set l" for q
      using Cons.prems(1) that by (fastforce simp: pdu_sorted_def sn_so_le_def)
    with False \<open>0 < key (p_sn p)\<close> show ?thesis
      by simp
  qed
qed simp

lemma pdu_sorted_shift:
  assumes "pdu_sorted key l" and "\<forall>p \<in> set l. key' (p_sn p) = key (p_sn p) - (c :: int)"
  shows "pdu_sorted key' l"
  using assms by (induction l) (auto simp: pdu_sorted_def sn_so_le_def)

lemma pdu_sorted_dropWhile: "pdu_sorted key l \<Longrightarrow> pdu_sorted key (dropWhile P l)"
  unfolding pdu_sorted_def by (rule sorted_wrt_dropWhile)

lemma seek_sn_dropWhile:
  "(\<And>p. p \<in> set l \<Longrightarrow> P p \<Longrightarrow> p_sn p \<noteq> sn) \<Longrightarrow> seek_sn sn (dropWhile P l) = seek_sn sn l"
  by (induction l) (auto simp: seek_sn_def)

lemma filter_dropWhile:
  "(\<And>p. p \<in> set l \<Longrightarrow> P p \<Longrightarrow> \<not> Q p) \<Longrightarrow> filter Q (dropWhile P l) = filter Q l"
  by (induction l) auto

lemma sum_takeWhile_zero:
  "(\<And>p. p \<in> set l \<Longrightarrow> P p \<Longrightarrow> f p = (0 :: int)) \<Longrightarrow> sum_list (map f (takeWhile P l)) = 0"
  by (induction l) auto

lemma um_open:
  assumes at: "um_rx_at r n x 0" and d: "0 < k" "k < length x"
  defines "p \<equiv> nr_rlc_new_pdu n 0 True False (take k x)"
  defines "rl \<equiv> nr_rlc_pdu_list_add (um_sn_compare_rx r) (um_rx_list r) p"
  shows "\<exists>r'. um_reception_actions (r\<lparr>um_rx_size := int k, um_rx_list := rl\<rparr>) n = Inr r' \<and>
    um_rx_at r' n x k \<and> um_out r' = um_out r \<and> um_sn_field_length r' = um_sn_field_length r"
proof -
  let ?M = "um_sn_modulus r" and ?w = "um_window_size r" and ?P = "\<lambda>p. um_modulus_rx r (p_sn p) = 0"
  let ?r1 = "r\<lparr>um_rx_size := int k, um_rx_list := rl\<rparr>"
  let ?e1 = "?r1\<lparr>um_rx_next_highest := (n + 1) mod ?M\<rparr>"
  have cfg: "um_config_ok r" "um_sn_ok r n" "um_rx_next_reassembly r = n"
    "um_rx_next_highest r = n" "um_t_reassembly_start r = 0" "NR_SDU_MAX \<le> um_rx_maxsize r"
    using at by (auto simp: um_rx_at_def)
  note pos = um_config_pos [OF cfg(1)]
  have 1: "pdu_sorted (um_modulus_rx r) rl" "um_got rl n k" "\<not> list_sdu_full rl n"
    "\<not> list_sdu_has_missing_bytes rl n"
    "\<forall>q \<in> set rl. if p_sn q = n then piece_of x q else um_node_ok r n x q"
    using um_add_ok [OF at d(1), of False] d unfolding p_def rl_def by auto
  have hi: "um_sn_ok r ((n + 1) mod ?M)" "um_sn_ok r n"
    using pos cfg(2) by (simp_all add: um_sn_ok_def)
  have ok: "um_sn_ok r (p_sn q)" if "q \<in> set rl" for q
    using 1(5) that cfg(2) by (cases "p_sn q = n") (auto simp: um_node_ok_def)
  have key: "um_modulus_rx r (p_sn q) = um_key r (p_sn q)" if "q \<in> set rl" for q
    using um_modulus_key [of r] cfg ok [OF that] by simp
  have kn: "um_key r n = ?w"
    using um_rx_at_key [OF at] by simp
  have rng: "0 \<le> um_key r (p_sn q) \<and> um_key r (p_sn q) \<le> ?w" if "q \<in> set rl" for q
    using 1(5) that kn um_key_range [OF cfg(1), of "p_sn q"]
    by (cases "p_sn q = n") (auto simp: um_node_ok_def)
  have e1: "um_config_ok ?e1" "um_sn_ok ?e1 (um_rx_next_highest ?e1)"
    using cfg(1) hi by (simp_all add: um_config_ok_def um_sn_ok_def)
  have adv: "um_key ?e1 a = um_key r a - 1" if "0 < um_key r a" for a
    using um_key_advance [OF cfg(1) that, of ?e1] cfg(4) by simp
  have kh: "um_key ?e1 ((n + 1) mod ?M) = ?w"
    using um_key_highest [OF e1(1)] by simp
  have cmp: "um_sn_compare_rx ?e1 a ((n + 1) mod ?M) = um_key ?e1 a - ?w" if "um_sn_ok r a" for a
    using um_compare_key [OF e1, of a "(n + 1) mod ?M"] that hi kh by (simp add: um_sn_ok_def)
  have P: "um_sn_compare_rx ?e1 (p_sn q) ((n + 1) mod ?M) \<ge> 0 \<longleftrightarrow> ?P q" if "q \<in> set rl" for q
  proof (cases "um_key r (p_sn q) = 0")
    case True
    then have "um_key ?e1 (p_sn q) = ?M - 1"
      using um_key_leave [OF cfg(1) True, of ?e1] cfg(4) by simp
    then show ?thesis
      using True cmp [OF ok [OF that]] key [OF that] pos by simp
  next
    case False
    then show ?thesis
      using cmp [OF ok [OF that]] key [OF that] rng [OF that] adv [of "p_sn q"] by simp
  qed
  define l2 where "l2 = dropWhile ?P rl"
  have zero: "p_size q = 0 \<and> p_sn q \<noteq> n" if "q \<in> set rl" "?P q" for q
    using 1(5) that key [OF that(1)] kn pos by (cases "p_sn q = n") (auto simp: um_node_ok_def)
  have disc: "um_discard_head ?e1 rl (int k) = (l2, int k)"
    unfolding um_discard_head_eq l2_def
    using P zero by (simp add: Let_def sum_takeWhile_zero cong: dropWhile_cong takeWhile_cong)
  define r' where "r' = ?e1\<lparr>um_rx_list := l2, um_rx_size := int k\<rparr>"
  have cfg': "um_config_ok r'" "um_sn_ok r' (um_rx_next_highest r')"
    using e1 by (simp_all add: r'_def um_config_ok_def um_sn_ok_def)
  have keq: "um_key r' = um_key ?e1" "um_sn_compare_rx r' = um_sn_compare_rx ?e1"
    by (simp_all add: r'_def um_key_def um_sn_compare_rx_def um_modulus_rx_def Let_def fun_eq_iff)
  have "um_sn_compare_rx ?e1 n ((n + 1) mod ?M) = -1"
    using cmp [OF cfg(2)] adv [of n] kn pos by simp
  then have "um_advance_window ?r1 n = Inr r'"
    using disc keq cfg(2,3) by (simp add: um_advance_window_def r'_def Let_def um_sn_ok_def)
  then have "um_reception_actions ?r1 n = Inr (um_reassembly_timer r')"
    using 1(3) cfg(4) by (simp add: um_reception_actions_def um_sdu_full_def um_sn_compare_rx_def)
  moreover have miss: "\<not> um_sdu_has_missing_bytes r' n"
    using 1(4) seek_sn_dropWhile [of rl ?P n] zero
    by (auto simp: um_sdu_has_missing_bytes_def list_sdu_has_missing_bytes_def r'_def l2_def)
  then have "um_reassembly_timer r' = r'"
    using cfg' cfg by (intro um_timer_idle) (auto simp: r'_def um_sn_ok_def)
  ultimately have run: "um_reception_actions ?r1 n = Inr r'"
    by simp
  have pos2: "0 < um_modulus_rx r (p_sn q)" if "q \<in> set l2" for q
    using sorted_dropWhile_zero [OF 1(1)] rng key that unfolding l2_def by auto
  have l2: "q \<in> set rl" if "q \<in> set l2" for q
    using that unfolding l2_def by (rule set_dropWhileD)
  have key2: "um_key r' (p_sn q) = um_modulus_rx r (p_sn q) - 1" if "q \<in> set l2" for q
    using adv [of "p_sn q"] pos2 [OF that] key [OF l2 [OF that]] keq by simp
  have "um_modulus_rx r' (p_sn q) = um_modulus_rx r (p_sn q) - 1" if "q \<in> set l2" for q
    using um_modulus_key [OF cfg', of "p_sn q"] key2 [OF that] ok [OF l2 [OF that]]
    by (simp add: r'_def um_sn_ok_def)
  then have "pdu_sorted (um_modulus_rx r') l2"
    using pdu_sorted_shift [of "um_modulus_rx r" l2 "um_modulus_rx r'" 1]
      pdu_sorted_dropWhile [OF 1(1), of ?P] by (simp add: l2_def)
  moreover have "um_node_ok r' n x q" if "q \<in> set l2" for q
    using 1(5) l2 [OF that] key2 [OF that] key [OF l2 [OF that]] rng [OF l2 [OF that]] ok [OF l2 [OF that]]
    by (cases "p_sn q = n") (auto simp: um_node_ok_def r'_def um_sn_ok_def)
  moreover have "um_got l2 n k"
    using 1(2) filter_dropWhile [of rl ?P "\<lambda>p. p_sn p = n"] zero by (auto simp: um_got_def l2_def)
  ultimately have "um_rx_at r' n x k"
    using cfg cfg' hi d by (simp add: um_rx_at_def r'_def um_config_ok_def um_sn_ok_def)
  with run show ?thesis
    by (intro exI [of _ r']) (simp add: r'_def)
qed

text \<open>A piece in the middle is kept.\<close>

lemma um_middle:
  assumes at: "um_rx_at r n x so" and d: "0 < k" "so + k < length x" "so \<noteq> 0"
  defines "p \<equiv> nr_rlc_new_pdu n (int so) False False (take k (drop so x))"
  defines "rl \<equiv> nr_rlc_pdu_list_add (um_sn_compare_rx r) (um_rx_list r) p"
  shows "\<exists>r'. um_reception_actions (r\<lparr>um_rx_size := int (so + k), um_rx_list := rl\<rparr>) n = Inr r' \<and>
    um_rx_at r' n x (so + k) \<and> um_out r' = um_out r \<and> um_sn_field_length r' = um_sn_field_length r"
proof -
  let ?r1 = "r\<lparr>um_rx_size := int (so + k), um_rx_list := rl\<rparr>"
  have cfg: "um_config_ok r" "um_sn_ok r n" "um_rx_next_reassembly r = n"
    "um_rx_next_highest r = (n + 1) mod um_sn_modulus r" "um_t_reassembly_start r = 0"
    "NR_SDU_MAX \<le> um_rx_maxsize r"
    using at d(3) by (auto simp: um_rx_at_def)
  have 1: "pdu_sorted (um_modulus_rx r) rl" "um_got rl n (so + k)" "\<not> list_sdu_full rl n"
    "\<not> list_sdu_has_missing_bytes rl n"
    "\<forall>q \<in> set rl. if p_sn q = n then piece_of x q else um_node_ok r n x q"
    using um_add_ok [OF at d(1), of False] d unfolding p_def rl_def by auto
  have hi: "um_sn_ok r (um_rx_next_highest r)"
    using at by (rule um_rx_at_highest)
  have kn: "um_key r n = um_window_size r - 1"
    using um_rx_at_key [OF at] d(3) by simp
  have "um_sn_compare_rx r n (um_rx_next_highest r) = -1"
    using um_compare_key [OF cfg(1) hi cfg(2) hi] kn um_key_highest [OF cfg(1)] by simp
  then have "um_reception_actions ?r1 n = Inr (um_reassembly_timer ?r1)"
    using 1(3) by (simp add: um_reception_actions_def um_sdu_full_def)
  also have "um_reassembly_timer ?r1 = ?r1"
    using cfg hi 1(4) by (intro um_timer_idle)
      (auto simp: um_config_ok_def um_sn_ok_def um_sdu_has_missing_bytes_def)
  finally have run: "um_reception_actions ?r1 n = Inr ?r1" .
  have "um_node_ok ?r1 n x q" if "q \<in> set rl" for q
    using 1(5) that kn cfg(2) um_config_pos [OF cfg(1)]
    by (cases "p_sn q = n") (auto simp: um_node_ok_def um_sn_ok_def)
  then have "um_rx_at ?r1 n x (so + k)"
    using cfg 1 d by (simp add: um_rx_at_def um_config_ok_def um_sn_ok_def)
  with run show ?thesis
    by (intro exI [of _ ?r1]) simp
qed

lemma um_store_next:
  assumes at: "um_rx_at r n x so" and d: "0 < k" "so + k \<le> length x" "\<not> (so = 0 \<and> l)"
    and last: "l \<longleftrightarrow> so + k = length x" and len: "int (length x) \<le> NR_SDU_MAX"
  shows "\<exists>r'. um_store r (nr_rlc_new_pdu n (int so) (so = 0) l (take k (drop so x))) = Inr r' \<and>
    um_sn_field_length r' = um_sn_field_length r \<and>
    (if l then um_rx_at r' ((n + 1) mod um_sn_modulus r) y 0 \<and> um_out r' = um_out r @ [Deliver_sdu x]
     else um_rx_at r' n x (so + k) \<and> um_out r' = um_out r)"
proof -
  have "um_rx_size r + int k \<le> um_rx_maxsize r" "um_rx_next_reassembly r = n" "um_rx_size r = int so"
    using at d(2) len by (auto simp: um_rx_at_def)
  moreover have "min (length x - so) k = k"
    using d(2) by simp
  ultimately have store: "um_store r (nr_rlc_new_pdu n (int so) (so = 0) l (take k (drop so x))) =
      um_reception_actions (r\<lparr>um_rx_size := int (so + k), um_rx_list :=
        nr_rlc_pdu_list_add (um_sn_compare_rx r) (um_rx_list r)
          (nr_rlc_new_pdu n (int so) (so = 0) l (take k (drop so x)))\<rparr>) n"
    by (simp add: um_store_def nr_rlc_new_pdu_def um_sn_compare_rx_def)
  consider "l" "so \<noteq> 0" | "\<not> l" "so = 0" | "\<not> l" "so \<noteq> 0"
    using d(3) by (cases l; cases "so = 0") simp_all
  then show ?thesis
  proof cases
    case 1
    then show ?thesis
      using um_complete [OF at d(1) _ _ len, of y] last unfolding store by auto
  next
    case 2
    then show ?thesis
      using um_open [of r n x k] at d(1,2) last unfolding store by auto
  next
    case 3
    then show ?thesis
      using um_middle [OF at d(1)] d(2) last unfolding store by auto
  qed
qed

section \<open>The connected pair\<close>

text \<open>One command of the layers around the pair; a PDU goes straight to the receiver.\<close>

fun um_link_step ::
  "nr_rlc_entity_um \<times> nr_rlc_entity_um \<Rightarrow> tx_cmd \<Rightarrow> (nr_rlc_entity_um \<times> nr_rlc_entity_um) res" where
  "um_link_step (t, r) (Sdu sdu i) =
     rbind (nr_rlc_entity_um_recv_sdu t sdu i) (\<lambda>t'. Inr (t', r))"
| "um_link_step (t, r) (Grant buf) =
     rbind (nr_rlc_entity_um_generate_pdu t buf) (\<lambda>(ret, buf', t').
       if ret = 0 then Inr (t', r)
       else rbind (nr_rlc_entity_um_recv_pdu r (take (nat ret) buf')) (\<lambda>r'. Inr (t', r')))"

fun um_link_run ::
  "nr_rlc_entity_um \<times> nr_rlc_entity_um \<Rightarrow> tx_cmd list \<Rightarrow> (nr_rlc_entity_um \<times> nr_rlc_entity_um) res"
where
  "um_link_run s [] = Inr s"
| "um_link_run s (c # cs) = rbind (um_link_step s c) (\<lambda>s'. um_link_run s' cs)"

fun delivered :: "rlc_event list \<Rightarrow> byte list list" where
  "delivered [] = []"
| "delivered (Deliver_sdu x # es) = x # delivered es"
| "delivered (_ # es) = delivered es"

fun offered :: "tx_cmd list \<Rightarrow> byte list list" where
  "offered [] = []"
| "offered (Sdu x i # cs) = x # offered cs"
| "offered (Grant buf # cs) = offered cs"

fun link_cmd_ok :: "tx_cmd \<Rightarrow> bool" where
  "link_cmd_ok (Sdu x i) \<longleftrightarrow> x \<noteq> [] \<and> int (length x) \<le> NR_SDU_MAX"
| "link_cmd_ok (Grant buf) \<longleftrightarrow> length buf \<noteq> 2"

lemma delivered_append [simp]: "delivered (as @ bs) = delivered as @ delivered bs"
  by (induction as rule: delivered.induct) auto

text \<open>The pair in step: the receiver expects what the transmitter sends next.\<close>

definition um_link_inv :: "nr_rlc_entity_um \<Rightarrow> nr_rlc_entity_um \<Rightarrow> bool" where
  "um_link_inv t r \<longleftrightarrow> um_tx_inv t \<and> um_sn_field_length r = um_sn_field_length t \<and>
     (\<forall>(x, so) \<in> set (um_queue t). so < length x \<and> int (length x) \<le> NR_SDU_MAX) \<and>
     (case um_queue t of [] \<Rightarrow> um_rx_at r (um_tx_next t) [] 0
      | (x, so) # q \<Rightarrow> um_rx_at r (um_tx_next t) x so)"

lemma um_rx_at_any:
  assumes "um_rx_at r n x 0"
  shows "um_rx_at r n y 0"
proof -
  have "um_node_ok r n y p" if "p \<in> set (um_rx_list r)" for p
    using assms that um_rx_at_key [OF assms] by (fastforce simp: um_rx_at_def um_node_ok_def)
  then show ?thesis
    using assms by (simp add: um_rx_at_def)
qed

lemma um_rx_at_out: "um_rx_at (r\<lparr>um_out := o'\<rparr>) n x so = um_rx_at r n x so"
  by (simp add: um_rx_at_def um_config_ok_def um_sn_ok_def um_node_ok_def)

text \<open>The bytes still to be sent.\<close>

definition um_pending :: "(byte list \<times> nat) list \<Rightarrow> nat" where
  "um_pending q = sum_list (map (\<lambda>(x, so). length x - so) q)"

lemma um_tx_size_pending:
  assumes "um_tx_inv t"
  shows "um_tx_size t = int (um_pending (um_queue t))"
proof -
  have "g_size g = int (length (sdu_bytes (um_heap t) g) - nat (g_so g))" if "g \<in> set (um_tx_list t)" for g
  proof -
    have "heap_ok (um_heap t) (um_tx_list t)" "g_is_last g"
      using assms that by (auto simp: um_tx_inv_def um_seg_inv_def)
    then obtain s where "h_sdu (um_heap t) (g_sdu g) = Some s" "s_size s = int (length (s_data s))"
      "0 \<le> g_so g" "0 \<le> g_size g" "g_so g + g_size g = s_size s"
      using \<open>g \<in> set (um_tx_list t)\<close> by (auto elim: heap_okD)
    then show ?thesis
      by (simp add: sdu_bytes_def)
  qed
  then have "total_size (um_tx_list t) = int (um_pending (um_queue t))"
    unfolding total_size_def um_pending_def um_queue_def map_map comp_def
    by (simp add: sum_list_map_cong_int)
  with assms show ?thesis
    by (simp add: um_tx_inv_def)
qed

lemma um_link_sdu:
  assumes inv: "um_link_inv t r" and "link_cmd_ok (Sdu x i)"
    and room: "um_tx_size t + int (length x) \<le> um_tx_maxsize t"
  shows "\<exists>t'. um_link_step (t, r) (Sdu x i) = Inr (t', r) \<and> um_link_inv t' r \<and>
    map fst (um_queue t') = map fst (um_queue t) @ [x] \<and> um_tx_maxsize t' = um_tx_maxsize t \<and>
    um_tx_size t' = um_tx_size t + int (length x)"
proof -
  have len: "int (length x) \<le> NR_SDU_MAX" "x \<noteq> []" and tx: "um_tx_inv t"
    using assms by (auto simp: um_link_inv_def)
  obtain t' where t': "nr_rlc_entity_um_recv_sdu t x i = Inr t'" "um_tx_inv t'"
    "um_sn_field_length t' = um_sn_field_length t" "um_tx_maxsize t' = um_tx_maxsize t"
    "um_tx_next t' = um_tx_next t" "um_queue t' = um_queue t @ [(x, 0)]"
    using um_recv_sdu_ok [OF tx len(1), of i] room by auto
  have "um_link_inv t' r"
    using inv t' len by (cases "um_queue t") (auto simp: um_link_inv_def intro: um_rx_at_any)
  moreover have "um_tx_size t' = um_tx_size t + int (length x)"
    using um_tx_size_pending [OF tx] um_tx_size_pending [OF t'(2)] t'(6) by (simp add: um_pending_def)
  ultimately show ?thesis
    using t' by auto
qed

lemma um_queue_tail_zero: "um_tx_inv t \<Longrightarrow> um_queue t = y # q \<Longrightarrow> \<forall>z \<in> set q. snd z = 0"
  by (auto simp: um_tx_inv_def um_queue_def)

text \<open>The receiver follows the message the specification chooses.\<close>

lemma um_link_message:
  assumes inv: "um_link_inv t r" and two: "n \<noteq> 2"
    and next_msg: "um_next (um_sn_field_length t) (um_tx_next t) (um_queue t) n = Some (msg, q, sn)"
  shows "um_msg_ok (um_sn_field_length t) msg \<and> (\<exists>r'. um_receive r msg = Inr r' \<and>
    um_sn_field_length r' = um_sn_field_length t \<and>
    delivered (um_out r') @ map fst q = delivered (um_out r) @ map fst (um_queue t) \<and>
    (\<forall>(x, so) \<in> set q. so < length x \<and> int (length x) \<le> NR_SDU_MAX) \<and>
    (case q of [] \<Rightarrow> um_rx_at r' sn [] 0 | (x, so) # _ \<Rightarrow> um_rx_at r' sn x so))"
proof -
  let ?len = "um_sn_field_length t" and ?n = "um_tx_next t"
  obtain x so q0 where q0: "um_queue t = (x, so) # q0"
    using next_msg by (cases "um_queue t") auto
  have x: "so < length x" "int (length x) \<le> NR_SDU_MAX"
    and rest: "\<forall>(x, so) \<in> set q0. so < length x \<and> int (length x) \<le> NR_SDU_MAX"
    and at: "um_rx_at r ?n x so" and flen: "um_sn_field_length r = ?len"
    and tx: "0 \<le> ?n" "?n < 2 ^ ?len" and len: "?len \<in> {6, 12}" and zero: "\<forall>y \<in> set q0. snd y = 0"
    using inv q0 um_queue_tail_zero [OF _ q0]
    by (auto simp: um_link_inv_def um_tx_inv_def um_config_ok_def)
  have M: "um_sn_modulus r = 2 ^ ?len"
    using at flen by (simp add: um_rx_at_def um_config_ok_def)
  have so: "int so < 2 ^ 16"
    using x by (simp add: NR_SDU_MAX_def)
  have next_at: "case q0 of [] \<Rightarrow> um_rx_at r' m [] 0 | (x, so) # _ \<Rightarrow> um_rx_at r' m x so"
    if "um_rx_at r' m y 0" for r' m y
    using that zero by (cases q0) (auto intro: um_rx_at_any)
  let ?whole = "um_header ?len (so = 0) so" and ?seg = "um_header ?len False so"
  consider "so = 0" "?whole + length (drop so x) \<le> n"
    | "so \<noteq> 0" "?whole + length (drop so x) \<le> n"
    | "\<not> ?whole + length (drop so x) \<le> n" "?whole + 1 \<le> n"
    using next_msg q0 by (auto simp: Let_def split: if_splits)
  then show ?thesis
  proof cases
    case 1
    then have "msg = Um_whole x" "q = q0" "sn = ?n"
      using next_msg q0 x by (auto simp: Let_def split: if_splits)
    then show ?thesis
      using 1(1) x rest at flen q0 next_at [of "r\<lparr>um_out := um_out r @ [Deliver_sdu x]\<rparr>" ?n x]
      by (auto simp: um_rx_at_out)
  next
    case 2
    then have m: "msg = Um_segment ?n (int so) True (drop so x)" "q = q0" "sn = (?n + 1) mod 2 ^ ?len"
      using next_msg q0 x by (auto simp: Let_def split: if_splits)
    have "take (length x - so) (drop so x) = drop so x"
      by simp
    then obtain r' where "um_store r (nr_rlc_new_pdu ?n (int so) False True (drop so x)) = Inr r'"
      "um_sn_field_length r' = ?len" "um_rx_at r' ((?n + 1) mod 2 ^ ?len) [] 0"
      "um_out r' = um_out r @ [Deliver_sdu x]"
      using um_store_next [OF at, of "length x - so" True "[]"] x 2(1) flen M by auto
    then show ?thesis
      using m 2(1) x rest q0 tx so next_at by auto
  next
    case 3
    define k where "k = n - ?seg"
    have m: "msg = Um_segment ?n (int so) False (take k (drop so x))" "q = (x, so + k) # q0" "sn = ?n"
      using next_msg q0 3 by (auto simp: Let_def k_def split: if_splits)
    have k: "0 < k" "so + k < length x"
      using 3 x len two by (auto simp: k_def um_header_def split: if_splits)
    obtain r' where "um_store r (nr_rlc_new_pdu ?n (int so) (so = 0) False (take k (drop so x))) = Inr r'"
      "um_sn_field_length r' = ?len" "um_rx_at r' ?n x (so + k)" "um_out r' = um_out r"
      using um_store_next [OF at k(1), of False "[]"] x k flen by auto
    then show ?thesis
      using m k x rest q0 tx so by auto
  qed
qed

lemma um_next_pending:
  assumes "um_link_inv t r" and "n \<noteq> 2"
    and "um_next (um_sn_field_length t) (um_tx_next t) (um_queue t) n = Some (msg, q, sn)"
  shows "um_pending q < um_pending (um_queue t)"
proof -
  obtain x so q0 where q0: "um_queue t = (x, so) # q0"
    using assms(3) by (cases "um_queue t") auto
  have "so < length x" "um_sn_field_length t \<in> {6, 12}"
    using assms(1) q0 by (auto simp: um_link_inv_def um_tx_inv_def um_config_ok_def)
  then show ?thesis
    using assms(2,3) q0 by (auto simp: um_pending_def Let_def um_header_def split: if_splits)
qed

lemma um_next_room: "5 \<le> n \<Longrightarrow> um_next len sn q n = None \<Longrightarrow> q = []"
  by (cases q) (auto simp: Let_def um_header_def split: if_splits)

lemma um_link_grant:
  assumes inv: "um_link_inv t r" and two: "length buf \<noteq> 2"
  shows "\<exists>t' r'. um_link_step (t, r) (Grant buf) = Inr (t', r') \<and> um_link_inv t' r' \<and>
    delivered (um_out r') @ map fst (um_queue t') = delivered (um_out r) @ map fst (um_queue t) \<and>
    um_tx_maxsize t' = um_tx_maxsize t \<and> um_pending (um_queue t') \<le> um_pending (um_queue t) \<and>
    (5 \<le> length buf \<and> um_queue t \<noteq> [] \<longrightarrow> um_pending (um_queue t') < um_pending (um_queue t))"
proof -
  have tx: "um_tx_inv t" and flen: "um_sn_field_length r = um_sn_field_length t"
    using inv by (auto simp: um_link_inv_def)
  let ?len = "um_sn_field_length t" and ?n = "um_tx_next t"
  obtain ret buf' t' where gen: "um_generate_tx_pdu t buf = Inr (ret, buf', t')"
    and sent: "um_sent t buf (ret, buf', t') (um_next ?len ?n (um_queue t) (length buf))"
    using um_generate_ok [OF tx two] by (metis prod_cases3)
  show ?thesis
  proof (cases "um_next ?len ?n (um_queue t) (length buf)")
    case None
    then show ?thesis
      using gen sent inv um_next_room [of "length buf" ?len ?n "um_queue t"]
      by (auto simp: um_sent_def nr_rlc_entity_um_generate_pdu_def)
  next
    case (Some m)
    obtain msg q sn where m: "m = (msg, q, sn)"
      by (cases m)
    have s: "0 < ret" "um_queue t' = q" "um_tx_next t' = sn" "um_tx_inv t'"
      "um_encodes ?len (take (nat ret) buf') msg" "um_sn_field_length t' = ?len"
      "um_tx_maxsize t' = um_tx_maxsize t"
      using sent Some m by (auto simp: um_sent_def)
    obtain r' where r': "um_msg_ok ?len msg" "um_receive r msg = Inr r'" "um_sn_field_length r' = ?len"
      "delivered (um_out r') @ map fst q = delivered (um_out r) @ map fst (um_queue t)"
      "\<forall>(x, so) \<in> set q. so < length x \<and> int (length x) \<le> NR_SDU_MAX"
      "case q of [] \<Rightarrow> um_rx_at r' sn [] 0 | (x, so) # _ \<Rightarrow> um_rx_at r' sn x so"
      using um_link_message [OF inv two Some [unfolded m]] by blast
    have "nr_rlc_entity_um_recv_pdu r (take (nat ret) buf') = Inr r'"
      using um_recv_encoded [of r "take (nat ret) buf'" msg] r'(1,2) s(5) flen tx
      by (simp add: um_tx_inv_def um_config_ok_def)
    then have "um_link_step (t, r) (Grant buf) = Inr (t', r')"
      using gen s(1) by (simp add: nr_rlc_entity_um_generate_pdu_def)
    moreover have "um_link_inv t' r'"
      using s(4,6) r' unfolding um_link_inv_def s(2,3) by simp
    moreover have "um_pending q < um_pending (um_queue t)"
      using um_next_pending [OF inv two Some [unfolded m]] .
    ultimately show ?thesis
      using s r' Some by auto
  qed
qed

lemma um_link_run_ok:
  assumes "um_link_inv t r" and "\<forall>c \<in> set cs. link_cmd_ok c"
    and "um_tx_size t + int (sum_list (map length (offered cs))) \<le> um_tx_maxsize t"
  shows "\<exists>t' r'. um_link_run (t, r) cs = Inr (t', r') \<and> um_link_inv t' r' \<and>
    delivered (um_out r') @ map fst (um_queue t') =
      delivered (um_out r) @ map fst (um_queue t) @ offered cs"
  using assms
proof (induction cs arbitrary: t r)
  case (Cons c cs)
  note size = um_tx_size_pending [of t]
  show ?case
  proof (cases c)
    case (Sdu x i)
    then obtain t' where t': "um_link_step (t, r) c = Inr (t', r)" "um_link_inv t' r"
      "map fst (um_queue t') = map fst (um_queue t) @ [x]" "um_tx_maxsize t' = um_tx_maxsize t"
      "um_tx_size t' = um_tx_size t + int (length x)"
      using um_link_sdu [of t r x i] Cons.prems by auto
    with Cons.IH [of t' r] Cons.prems Sdu show ?thesis
      by auto
  next
    case (Grant buf)
    then obtain t' r' where t': "um_link_step (t, r) c = Inr (t', r')" "um_link_inv t' r'"
      "delivered (um_out r') @ map fst (um_queue t') = delivered (um_out r) @ map fst (um_queue t)"
      "um_tx_maxsize t' = um_tx_maxsize t" "um_pending (um_queue t') \<le> um_pending (um_queue t)"
      using um_link_grant [of t r buf] Cons.prems by auto
    then have "um_tx_size t' \<le> um_tx_size t"
      using um_tx_size_pending [of t] um_tx_size_pending [of t'] Cons.prems(1)
      by (simp add: um_link_inv_def)
    with Cons.IH [of t' r'] Cons.prems Grant t' show ?thesis
      by auto
  qed
qed simp

lemma um_link_run_append:
  "um_link_run s (as @ bs) = rbind (um_link_run s as) (\<lambda>s'. um_link_run s' bs)"
  by (induction as arbitrary: s) (simp_all add: rbind_assoc)

lemma um_link_drain:
  assumes "um_link_inv t r" and "\<forall>b \<in> set bufs. 5 \<le> length b"
    and "um_pending (um_queue t) \<le> length bufs"
  shows "\<exists>t' r'. um_link_run (t, r) (map Grant bufs) = Inr (t', r') \<and> um_queue t' = [] \<and>
    delivered (um_out r') = delivered (um_out r) @ map fst (um_queue t)"
  using assms
proof (induction bufs arbitrary: t r)
  case Nil
  then have "um_queue t = []"
    by (cases "um_queue t") (auto simp: um_link_inv_def um_pending_def)
  then show ?case
    by simp
next
  case (Cons b bufs)
  have b: "length b \<noteq> 2" "5 \<le> length b"
    using Cons.prems(2) by auto
  obtain t' r' where t': "um_link_step (t, r) (Grant b) = Inr (t', r')" "um_link_inv t' r'"
    "delivered (um_out r') @ map fst (um_queue t') = delivered (um_out r) @ map fst (um_queue t)"
    "um_pending (um_queue t') \<le> um_pending (um_queue t)"
    "um_queue t \<noteq> [] \<longrightarrow> um_pending (um_queue t') < um_pending (um_queue t)"
    using um_link_grant [OF Cons.prems(1) b(1)] b(2) by auto
  have "um_pending (um_queue t') \<le> length bufs"
  proof (cases "um_queue t = []")
    case True
    then have "um_pending (um_queue t) = 0"
      by (simp add: um_pending_def)
    then show ?thesis
      using t'(4) by simp
  next
    case False
    then show ?thesis
      using t'(5) Cons.prems(3) by simp
  qed
  then obtain t2 r2 where "um_link_run (t', r') (map Grant bufs) = Inr (t2, r2)" "um_queue t2 = []"
    "delivered (um_out r2) = delivered (um_out r') @ map fst (um_queue t')"
    using Cons.IH [OF t'(2)] Cons.prems(2) by auto
  with t' show ?case
    by auto
qed

lemma um_new_config:
  assumes "new_nr_rlc_entity_um rx tx tr len = Inr e"
  shows "um_tx_inv e" "um_queue e = []" "um_out e = []" "um_tx_size e = 0" "um_tx_maxsize e = tx"
    "um_sn_field_length e = len" "um_tx_next e = 0" "NR_SDU_MAX \<le> rx \<Longrightarrow> um_rx_at e 0 x 0"
  using assms
  by (auto simp: new_nr_rlc_entity_um_def um_tx_inv_def um_config_ok_def um_queue_def total_size_def
      um_rx_at_def um_sn_ok_def pdu_sorted_def um_got_def split: if_splits)

section \<open>Properties\<close>





text \<open>C11: what the transmitter sends, the receiver decodes: the PDU generated for the message the
  segmentation chooses is received as that message, header and data, by any entity of the same
  configuration.\<close>

theorem um_pdu_roundtrip:
  assumes "um_tx_inv e" and "length buf \<noteq> 2" and "um_sn_field_length r = um_sn_field_length e"
    and "um_next (um_sn_field_length e) (um_tx_next e) (um_queue e) (length buf) = Some (msg, q, sn)"
    and "um_msg_ok (um_sn_field_length e) msg"
  shows "\<exists>ret buf' e'. nr_rlc_entity_um_generate_pdu e buf = Inr (ret, buf', e') \<and>
    nr_rlc_entity_um_recv_pdu r (take (nat ret) buf') = um_receive r msg"
proof -
  obtain ret buf' e' where "um_generate_tx_pdu e buf = Inr (ret, buf', e')"
    "um_encodes (um_sn_field_length e) (take (nat ret) buf') msg"
    using um_generate_ok [OF assms(1,2)] assms(4) by (auto simp: um_sent_def)
  moreover have "um_sn_field_length r \<in> {6, 12}"
    using assms(1,3) by (simp add: um_tx_inv_def um_config_ok_def)
  ultimately show ?thesis
    using um_recv_encoded [of r "take (nat ret) buf'" msg] assms(3,5)
    by (auto simp: nr_rlc_entity_um_generate_pdu_def)
qed

theorem um_pdu_roundtrip_witness:
  "\<exists>e ret buf' e'. um_tx_inv e \<and>
     nr_rlc_entity_um_generate_pdu e [0, 0, 0, 0, 0] = Inr (ret, buf', e') \<and>
     nr_rlc_entity_um_recv_pdu e (take (nat ret) buf') = um_receive e (Um_whole [1, 2, 3])"
proof -
  obtain e where e: "new_nr_rlc_entity_um 20000 100 35 6 = Inr e"
    by (simp add: new_nr_rlc_entity_um_def)
  note n = um_new_config [OF e]
  obtain e' where e': "um_tx_inv e'" "um_sn_field_length e' = 6" "um_tx_next e' = 0"
    "um_queue e' = [([1, 2, 3], 0)]"
    using um_recv_sdu_ok [OF n(1), of "[1, 2, 3]" 0] n by (auto simp: NR_SDU_MAX_def)
  show ?thesis
    using um_pdu_roundtrip [OF e'(1), of "[0, 0, 0, 0, 0]" e'] e' by (force simp: um_header_def)
qed


end
