(* ===== verification/NR_RLC_Node.thy ===== *)
theory NR_RLC_Node
  imports NR_RLC_Api NR_RLC_Um_Link
begin

text \<open>
  The RLC layer of a node as a whole: what a use of one bearer does to the table of UEs and what it hands
  to PDCP, and what holds in every state the layer can reach.
\<close>

section \<open>One use of a bearer\<close>

text \<open>What \<^verbatim>\<open>deliver_sdu\<close> passes to \<^verbatim>\<open>pdcp_data_ind\<close>.\<close>

definition rlc_item :: "bool \<Rightarrow> int \<Rightarrow> bool \<Rightarrow> nat \<Rightarrow> byte list \<Rightarrow> pdcp_data_ind_queue_item" where
  "rlc_item is_enb rnti is_srb i buf =
     \<lparr>pq_ctxt = \<lparr>cx_module_id = 0, cx_enb_flag = is_enb, cx_instance = 0, cx_rnti = rnti, cx_frame = 0,
                 cx_subframe = 0, cx_eNB_index = 0, cx_brOption = False\<rparr>,
      pq_srb_flag = is_srb, pq_MBMS_flag = False, pq_rb_id = int i + 1, pq_sdu = buf\<rparr>"

lemma rlc_item_simps [simp]:
  "cx_rnti (pq_ctxt (rlc_item e r b i x)) = r" "pq_srb_flag (rlc_item e r b i x) = b"
  "pq_rb_id (rlc_item e r b i x) = int i + 1" "pq_sdu (rlc_item e r b i x) = x"
  by (simp_all add: rlc_item_def)

text \<open>What it sends on a DU.\<close>

definition rlc_du_msg :: "int \<Rightarrow> bool \<Rightarrow> nat \<Rightarrow> byte list \<Rightarrow> rlc_msg" where
  "rlc_du_msg rnti is_srb i buf =
     (if is_srb then F1ap_ul_rrc_message rnti (int i + 1) buf else Gtpv1u_gnb_tunnel_data_req rnti (int i + 1) buf)"

lemma rlc_callbacks_eq:
  "rlc_callbacks node rnti b i evs s =
    (if mg_enb_flag (ra_manager s) \<and> nd_is_cu node then if delivered evs = [] then Inr s else Inl Exit_fatal
     else if mg_enb_flag (ra_manager s) \<and> nd_is_du node
     then Inr (s\<lparr>ra_msgs := ra_msgs s @ map (rlc_du_msg rnti b i) (delivered evs)\<rparr>)
     else Inr (s\<lparr>ra_pdcp_ind :=
       ra_pdcp_ind s @ map (rlc_item (mg_enb_flag (ra_manager s)) rnti b i) (delivered evs)\<rparr>))"
  by (induction evs arbitrary: s rule: delivered.induct)
    (simp_all add: deliver_sdu_def Let_def rlc_item_def rlc_du_msg_def nr_rlc_manager_get_enb_flag_def
      successful_delivery_def max_retx_reached_def)

lemma rlc_on_slot_rnti: "keeps_rnti (rlc_on_slot f slot)"
  by (auto simp: keeps_rnti_def rlc_on_slot_def ue_set_rb_def rbind_def split: option.splits sum.splits)

text \<open>A use of a bearer: one UE changes, and what is handed over carries the address of the bearer.\<close>

lemma rlc_on_rb_cases:
  assumes ok: "manager_ok (ra_manager s)" and on: "rlc_on_rb node f rnti slot s = Inr (s', r)"
  obtains (none) u' where "r = None" "rlc_on_slot f slot (ue_of (ra_manager s) rnti) = Inr (u', None)"
      "manager_ok (ra_manager s')" "manager_table (ra_manager s') = (manager_table (ra_manager s))(rnti \<mapsto> u')"
      "s' = s\<lparr>ra_manager := ra_manager s'\<rparr>"
    | (some) u' b i rb rb' a m where "r = Some a" "slot = Some (b, i)"
      "ue_rbs b (ue_of (ra_manager s) rnti) ! i = Some rb" "f rb = Inr (rb', a)"
      "u' = ue_set_rb b (ue_of (ra_manager s) rnti) i (rlc_clear_out rb')"
      "manager_ok m" "manager_table m = (manager_table (ra_manager s))(rnti \<mapsto> u')"
      "mg_enb_flag m = mg_enb_flag (ra_manager s)"
      "rlc_callbacks node rnti b i (rlc_out rb') (s\<lparr>ra_manager := m\<rparr>) = Inr s'"
proof -
  obtain m q where w: "with_ue (ra_manager s) rnti (rlc_on_slot f slot) = Inr (m, q)"
    and q: "(case q of None \<Rightarrow> Inr (s\<lparr>ra_manager := m\<rparr>, None)
      | Some (rnti, b, i, evs, a) \<Rightarrow>
          rbind (rlc_callbacks node rnti b i evs (s\<lparr>ra_manager := m\<rparr>)) (\<lambda>s. Inr (s, Some a))) = Inr (s', r)"
    using on by (auto simp: rlc_on_rb_def nr_rlc_manager_get_ue_def Let_def elim!: rbind_InrE)
  obtain u' where u': "manager_ok m" "rlc_on_slot f slot (ue_of (ra_manager s) rnti) = Inr (u', q)"
    "manager_table m = (manager_table (ra_manager s))(rnti \<mapsto> u')"
    by (rule with_ue_table [OF ok rlc_on_slot_rnti w])
  show ?thesis
  proof (cases q)
    case None
    then show ?thesis
      using q u' none by auto
  next
    case (Some z)
    obtain b i rb rb' a where z: "slot = Some (b, i)" "ue_rbs b (ue_of (ra_manager s) rnti) ! i = Some rb"
      "f rb = Inr (rb', a)" "u' = ue_set_rb b (ue_of (ra_manager s) rnti) i (rlc_clear_out rb')"
      "z = (rnti, b, i, rlc_out rb', a)"
      using u'(2) Some ue_of_rnti [OF ok, of rnti]
      by (auto simp: rlc_on_slot_def rbind_def split: option.splits sum.splits)
    have "r = Some a" "rlc_callbacks node rnti b i (rlc_out rb') (s\<lparr>ra_manager := m\<rparr>) = Inr s'"
      using q Some z(5) by (auto elim: rbind_InrE)
    then show ?thesis
      by (rule some [OF _ z(1-4) u'(1,3) with_ue_frame [OF w]])
  qed
qed

lemma rlc_on_rb_run:
  assumes "manager_ok (ra_manager s)" "manager_table (ra_manager s) rnti = Some u" "ue_rbs b u ! i = Some rb"
    and "f rb = Inr (rb', a)" "\<not> (mg_enb_flag (ra_manager s) \<and> (nd_is_cu node \<or> nd_is_du node))"
  obtains m where "rlc_on_rb node f rnti (Some (b, i)) s = Inr (s\<lparr>ra_manager := m, ra_pdcp_ind := ra_pdcp_ind s @
      map (rlc_item (mg_enb_flag (ra_manager s)) rnti b i) (delivered (rlc_out rb'))\<rparr>, Some a)"
    "manager_ok m" "manager_table m = (manager_table (ra_manager s))(rnti \<mapsto> ue_set_rb b u i (rlc_clear_out rb'))"
    "mg_enb_flag m = mg_enb_flag (ra_manager s)"
proof -
  have r: "ue_rnti u = rnti"
    using manager_table_key [OF assms(2)] .
  have "rlc_on_slot f (Some (b, i)) u = Inr (ue_set_rb b u i (rlc_clear_out rb'), Some (rnti, b, i, rlc_out rb', a))"
    using assms(3,4) r by (simp add: rlc_on_slot_def)
  then obtain m where m: "with_ue (ra_manager s) rnti (rlc_on_slot f (Some (b, i))) =
      Inr (m, Some (rnti, b, i, rlc_out rb', a))" "manager_ok m"
    "manager_table m = (manager_table (ra_manager s))(rnti \<mapsto> ue_set_rb b u i (rlc_clear_out rb'))"
    "mg_enb_flag m = mg_enb_flag (ra_manager s)"
    by (rule with_ue_run [OF assms(1) rlc_on_slot_rnti assms(2)])
  show thesis
    by (rule that [OF _ m(2-4)])
      (use m(1,4) assms(5) in \<open>auto simp: rlc_on_rb_def nr_rlc_manager_get_ue_def rlc_callbacks_eq\<close>)
qed

text \<open>What the three data functions do when the entity of the bearer returns.\<close>

definition rlc_local :: "node \<Rightarrow> rlc_api \<Rightarrow> bool" where
  "rlc_local node s \<longleftrightarrow> manager_ok (ra_manager s) \<and> \<not> (mg_enb_flag (ra_manager s) \<and> (nd_is_cu node \<or> nd_is_du node))"

definition rlc_handed :: "rlc_api \<Rightarrow> int \<Rightarrow> bool \<Rightarrow> nat \<Rightarrow> nr_rlc_entity \<Rightarrow> rlc_api \<Rightarrow> bool" where
  "rlc_handed s rnti b i rb s' \<longleftrightarrow>
     (\<exists>m. s' = s\<lparr>ra_manager := m, ra_pdcp_ind := ra_pdcp_ind s @
        map (rlc_item (mg_enb_flag (ra_manager s)) rnti b i) (delivered (rlc_out rb))\<rparr> \<and>
      manager_ok m \<and> mg_enb_flag m = mg_enb_flag (ra_manager s) \<and>
      manager_table m = (manager_table (ra_manager s))
        (rnti \<mapsto> ue_set_rb b (the (manager_table (ra_manager s) rnti)) i (rlc_clear_out rb)))"

lemma rlc_on_rb_handed:
  assumes "rlc_local node s" "manager_table (ra_manager s) rnti = Some u" "ue_rbs b u ! i = Some rb"
    and "f rb = Inr (rb', a)"
  obtains s' where "rlc_on_rb node f rnti (Some (b, i)) s = Inr (s', Some a)" "rlc_handed s rnti b i rb' s'"
proof (rule rlc_on_rb_run [OF _ assms(2,3), where f = f and node = node])
  show "manager_ok (ra_manager s)" "\<not> (mg_enb_flag (ra_manager s) \<and> (nd_is_cu node \<or> nd_is_du node))"
    "f rb = Inr (rb', a)"
    using assms(1,4) by (simp_all add: rlc_local_def)
qed (use assms(2) in \<open>auto simp: rlc_handed_def intro: that\<close>)

lemma mac_rlc_data_ind_run:
  assumes "rlc_local node s" "manager_table (ra_manager s) rnti = Some u" "ue_rbs b u ! i = Some rb"
    and "channel_slot c = Some (b, i)" "rlc_set_time rb (ra_current_time s) = Inr rb1" "rlc_recv_pdu rb1 buffer = Inr rb2"
  obtains s' where "mac_rlc_data_ind node 0 rnti 0 False c buffer s = Inr s'" "rlc_handed s rnti b i rb2 s'"
proof (rule rlc_on_rb_handed [OF assms(1-3)])
  show "rbind (rlc_set_time rb (ra_current_time s)) (\<lambda>rb. rbind (rlc_recv_pdu rb buffer) (\<lambda>rb. Inr (rb, ()))) =
      Inr (rb2, ())"
    using assms(5,6) by simp
qed (use assms(4) that in \<open>simp add: mac_rlc_data_ind_def\<close>)

lemma mac_rlc_data_req_run:
  assumes "rlc_local node s" "manager_table (ra_manager s) rnti = Some u" "ue_rbs b u ! i = Some rb"
    and "channel_slot c = Some (b, i)" "rlc_set_time rb (ra_current_time s) = Inr rb1"
    and "rlc_generate_pdu rb1 buffer = Inr (ret, buffer', rb2)"
  obtains s' where "mac_rlc_data_req node rnti c buffer s = Inr (ret, buffer', s')" "rlc_handed s rnti b i rb2 s'"
proof (rule rlc_on_rb_handed [OF assms(1-3)])
  show "rbind (rlc_set_time rb (ra_current_time s)) (\<lambda>rb. rbind (rlc_generate_pdu rb buffer) (\<lambda>(ret, buffer, rb).
      Inr (rb, (ret, buffer)))) = Inr (rb2, (ret, buffer'))"
    using assms(5,6) by simp
qed (use assms(4) that in \<open>simp add: mac_rlc_data_req_def\<close>)

lemma rlc_data_req_run:
  assumes "rlc_local node s" "manager_table (ra_manager s) (cx_rnti ctxt) = Some u" "ue_rbs b u ! i = Some rb"
    and "rb_slot b rb_id = Some i" "rlc_set_time rb (ra_current_time s) = Inr rb1" "rlc_recv_sdu rb1 sdu mui = Inr rb2"
  obtains s' where "rlc_data_req node ctxt b rb_id mui sdu s = Inr s'" "rlc_handed s (cx_rnti ctxt) b i rb2 s'"
proof (rule rlc_on_rb_handed [OF assms(1-3)])
  show "rbind (rlc_set_time rb (ra_current_time s)) (\<lambda>rb. rbind (rlc_recv_sdu rb sdu mui) (\<lambda>rb. Inr (rb, ()))) =
      Inr (rb2, ())"
    using assms(5,6) by simp
qed (use assms(4) that in \<open>simp add: rlc_data_req_def\<close>)

section \<open>Well-formed UEs\<close>

fun same_mode :: "nr_rlc_entity \<Rightarrow> nr_rlc_entity \<Rightarrow> bool" where
  "same_mode (E_tm _) (E_tm _) \<longleftrightarrow> True"
| "same_mode (E_um _) (E_um _) \<longleftrightarrow> True"
| "same_mode (E_am _) (E_am _) \<longleftrightarrow> True"
| "same_mode _ _ \<longleftrightarrow> False"

text \<open>SRBs are in acknowledged mode, DRBs in acknowledged or unacknowledged mode; no callback is left over.\<close>

definition rlc_rb_ok :: "bool \<Rightarrow> nat \<Rightarrow> nr_rlc_entity \<Rightarrow> bool" where
  "rlc_rb_ok srb_flag i e \<longleftrightarrow> rlc_out e = [] \<and>
     (case e of E_tm _ \<Rightarrow> False | E_um _ \<Rightarrow> \<not> srb_flag | E_am _ \<Rightarrow> True)"

text \<open>What is on its way to PDCP is addressed to a bearer PDCP can have, in a context it accepts.\<close>

definition rlc_item_ok :: "pdcp_data_ind_queue_item \<Rightarrow> bool" where
  "rlc_item_ok x \<longleftrightarrow> rb_slot (pq_srb_flag x) (pq_rb_id x) \<noteq> None \<and> cx_module_id (pq_ctxt x) = 0 \<and>
     cx_instance (pq_ctxt x) = 0 \<and> cx_eNB_index (pq_ctxt x) = 0 \<and> \<not> cx_brOption (pq_ctxt x)"

definition rlc_ok :: "rlc_api \<Rightarrow> bool" where
  "rlc_ok s \<longleftrightarrow> manager_all rlc_rb_ok (ra_manager s) \<and> (\<forall>x \<in> set (ra_pdcp_ind s). rlc_item_ok x)"

lemma same_mode_refl [simp]: "same_mode e e"
  by (cases e) simp_all

lemma same_mode_trans: "same_mode a b \<Longrightarrow> same_mode b c \<Longrightarrow> same_mode a c"
  by (cases a; cases b; cases c) simp_all

lemma rlc_mode_kept:
  "rlc_set_time e t = Inr e' \<Longrightarrow> same_mode e e'" "rlc_recv_pdu e b = Inr e' \<Longrightarrow> same_mode e e'"
  "rlc_recv_sdu e b i = Inr e' \<Longrightarrow> same_mode e e'" "rlc_generate_pdu e b = Inr (n, b', e') \<Longrightarrow> same_mode e e'"
  by (cases e; auto simp: rbind_eq_Inr)+

lemma rb_ok_mode: "rlc_rb_ok b i e \<Longrightarrow> same_mode e e' \<Longrightarrow> rlc_rb_ok b i (rlc_clear_out e')"
  by (cases e; cases e') (auto simp: rlc_rb_ok_def)

lemma channel_slot_Some:
  assumes "channel_slot c = Some (b, i)"
  shows "i < (if b then 3 else 5)" "b \<longleftrightarrow> c \<le> 3" "int i + 1 = (if c \<le> 3 then c else c - 3)"
  using assms by (auto simp: channel_slot_def split: if_splits)

definition mode_kept :: "(nr_rlc_entity \<Rightarrow> (nr_rlc_entity \<times> 'a) res) \<Rightarrow> bool" where
  "mode_kept f \<longleftrightarrow> (\<forall>e e' a. f e = Inr (e', a) \<longrightarrow> same_mode e e')"

lemma rlc_item_ok_slot: "i < (if b then 2 else 5) \<Longrightarrow> rlc_item_ok (rlc_item g r b i x)"
  by (auto simp: rlc_item_ok_def rlc_item_def rb_slot_def)

lemma rlc_on_rb_ok:
  assumes ok: "rlc_ok s" and f: "mode_kept f" and on: "rlc_on_rb node f rnti slot s = Inr (s', r)"
    and slot: "\<And>b i. slot = Some (b, i) \<Longrightarrow> i < (if b then 3 else 5)"
  shows "rlc_ok s'"
proof -
  have m: "manager_all rlc_rb_ok (ra_manager s)"
    using ok by (simp add: rlc_ok_def)
  note u = ue_of_all [OF m, of rnti]
  show ?thesis
  proof (cases rule: rlc_on_rb_cases [OF manager_all_ok [OF m] on])
    case (1 u')
    then have "u' = ue_of (ra_manager s) rnti"
      by (auto simp: rlc_on_slot_def rbind_eq_Inr split: option.splits)
    then have "manager_all rlc_rb_ok (ra_manager s')"
      using manager_all_upd [OF m 1(3,4)] u by simp
    moreover have "ra_pdcp_ind s' = ra_pdcp_ind s"
      using arg_cong [OF 1(5), of ra_pdcp_ind] by simp
    ultimately show ?thesis
      using ok by (simp add: rlc_ok_def)
  next
    case (2 u' b i rb rb' a m')
    note rb = ue_all_rb [OF u slot [OF 2(2)] 2(3)]
    have "rlc_rb_ok b i (rlc_clear_out rb')"
      using f 2(4) rb_ok_mode [OF rb(1)] by (auto simp: mode_kept_def)
    then have "ue_all rlc_rb_ok u'"
      using ue_set_rb_all [OF u _ rb(2)] 2(5) by simp
    then have "manager_all rlc_rb_ok m'"
      by (rule manager_all_upd [OF m 2(6,7)])
    then show ?thesis
      using 2(9) ok rlc_item_ok_slot [OF rb(2)] unfolding rlc_callbacks_eq
      by (auto simp: rlc_ok_def split: if_splits)
  qed
qed

section \<open>Every operation keeps them\<close>

lemma rb_slot_bound: "map_option (Pair f) (rb_slot f rb_id) = Some (b, i) \<Longrightarrow> i < (if b then 3 else 5)"
  by (auto simp: rb_slot_Some split: if_splits)

lemma mode_kept_time: "mode_kept f \<Longrightarrow> mode_kept (\<lambda>rb. rbind (rlc_set_time rb t) f)"
  unfolding mode_kept_def using rlc_mode_kept(1) same_mode_trans by (fastforce simp: rbind_eq_Inr)

lemma mode_kept_fun [simp]:
  "mode_kept (\<lambda>rb. rbind (rlc_recv_pdu rb b) (\<lambda>rb. Inr (rb, a)))"
  "mode_kept (\<lambda>rb. rbind (rlc_recv_sdu rb b i) (\<lambda>rb. Inr (rb, a)))"
  "mode_kept (\<lambda>rb. rbind (rlc_generate_pdu rb b) (\<lambda>(ret, buffer, rb). Inr (rb, (ret, buffer))))"
  "mode_kept (\<lambda>rb. Inr (rb, g rb))"
  by (auto simp: mode_kept_def rbind_eq_Inr dest: rlc_mode_kept)

lemma rlc_on_channel_ok:
  assumes "rlc_ok s" "mode_kept f" "rlc_on_rb node f rnti (channel_slot c) s = Inr (s', r)"
  shows "rlc_ok s'"
  by (rule rlc_on_rb_ok [OF assms channel_slot_Some(1)])

lemmas mode_kept_timed = mode_kept_fun [THEN mode_kept_time]

lemma mac_rlc_data_ind_ok:
  assumes "rlc_ok s" "mac_rlc_data_ind node module_id rnti eNB_index MBMS_flag c buffer s = Inr s'"
  shows "rlc_ok s'"
  using assms(2) rlc_on_channel_ok [OF assms(1) mode_kept_timed(1)]
  by (auto simp: mac_rlc_data_ind_def rbind_eq_Inr split: if_splits)

lemma mac_rlc_data_req_ok:
  assumes "rlc_ok s" "mac_rlc_data_req node rnti c buffer s = Inr (n, b, s')"
  shows "rlc_ok s'"
proof -
  obtain r where "rlc_on_rb node (\<lambda>rb. rbind (rlc_set_time rb (ra_current_time s)) (\<lambda>rb.
      rbind (rlc_generate_pdu rb buffer) (\<lambda>(ret, buffer, rb). Inr (rb, (ret, buffer))))) rnti (channel_slot c) s =
      Inr (s', r)"
    using assms(2) by (auto simp: mac_rlc_data_req_def rbind_eq_Inr [of "rlc_on_rb _ _ _ _ _"] split: option.splits)
  then show ?thesis
    by (rule rlc_on_channel_ok [OF assms(1) mode_kept_timed(3)])
qed

lemma rlc_bytes_in_buffer_ok:
  assumes "rlc_ok s" "rlc_bytes_in_buffer node rnti c s = Inr (n, s')"
  shows "rlc_ok s'"
proof -
  define g where "g rb = (let buf_stat = rlc_buffer_status rb (1000 * 1000)
    in Inr (rb, bs_status_size buf_stat + bs_retx_size buf_stat + bs_tx_size buf_stat) :: (nr_rlc_entity \<times> int) res)" for rb
  have "mode_kept g"
    by (auto simp: mode_kept_def g_def Let_def)
  moreover obtain r where "rlc_on_rb node (\<lambda>rb. rbind (rlc_set_time rb (ra_current_time s)) g) rnti (channel_slot c) s =
      Inr (s', r)"
    using assms(2) unfolding rlc_bytes_in_buffer_def g_def [symmetric]
    by (auto simp: rbind_eq_Inr [of "rlc_on_rb _ _ _ _ _"] split: option.splits)
  ultimately show ?thesis
    using rlc_on_channel_ok [OF assms(1) mode_kept_time] by blast
qed

lemma rlc_data_req_ok:
  assumes "rlc_ok s" "rlc_data_req node ctxt b rb_id mui sdu s = Inr s'"
  shows "rlc_ok s'"
proof -
  obtain r where "rlc_on_rb node (\<lambda>rb. rbind (rlc_set_time rb (ra_current_time s)) (\<lambda>rb.
      rbind (rlc_recv_sdu rb sdu mui) (\<lambda>rb. Inr (rb, ())))) (cx_rnti ctxt) (map_option (Pair b) (rb_slot b rb_id)) s =
      Inr (s', r)"
    using assms(2) by (auto simp: rlc_data_req_def rbind_eq_Inr [of "rlc_on_rb _ _ _ _ _"])
  then show ?thesis
    by (rule rlc_on_rb_ok [OF assms(1) mode_kept_timed(2)]) (rule rb_slot_bound)
qed

lemma rlc_space_ok:
  assumes "rlc_ok s" "nr_rlc_get_available_tx_space node rnti c s = Inr (n, s')"
  shows "rlc_ok s'"
  using assms(2) rlc_on_channel_ok [OF assms(1) mode_kept_fun(4)]
  by (auto simp: nr_rlc_get_available_tx_space_def rbind_eq_Inr [of "rlc_on_rb _ _ _ _ _"] split: option.splits)

lemma rlc_tick_ok: "rlc_ok (nr_rlc_tick frame subframe s) = rlc_ok s"
  by (simp add: nr_rlc_tick_def rlc_ok_def)

lemma rlc_init_ok: "rlc_ok s \<Longrightarrow> rlc_module_init enb_flag s = Inr s' \<Longrightarrow> rlc_ok s'"
  by (auto simp: rlc_module_init_def Let_def rlc_ok_def new_nr_rlc_ue_manager_def new_manager_all split: if_splits)

lemma rlc_add_rb_rnti: "keeps_rnti (rlc_add_rb b rb_id new)"
  unfolding keeps_rnti_def rlc_add_rb_def nr_rlc_ue_add_srb_rlc_entity_def nr_rlc_ue_add_drb_rlc_entity_def
  by (auto simp: rbind_eq_Inr ue_add_srb_entity_def ue_add_drb_entity_def Let_def split: if_splits)

lemma rlc_add_rb_all:
  assumes "ue_all rlc_rb_ok u" "rlc_add_rb b rb_id new u = Inr (u', x)"
    and new: "\<And>e. new = Inr e \<Longrightarrow> rlc_rb_ok b (nat (rb_id - 1)) e"
  shows "ue_all rlc_rb_ok u'"
proof -
  obtain present where p: "ue_rb_present (ue_rbs b u) rb_id = Inr present"
    using assms(2) by (auto simp: rlc_add_rb_def rbind_eq_Inr)
  show ?thesis
  proof (cases present)
    case False
    then obtain e where "new = Inr e" "(if b then ue_add_srb_entity else ue_add_drb_entity) u rb_id e = Inr u'"
      using assms(2) p
      unfolding rlc_add_rb_def nr_rlc_ue_add_srb_rlc_entity_def nr_rlc_ue_add_drb_rlc_entity_def
      by (auto simp: rbind_eq_Inr split del: if_split)
    then show ?thesis
      using add_entity_all(1) [OF assms(1) new] by blast
  qed (use assms p in \<open>simp add: rlc_add_rb_def\<close>)
qed

lemma rlc_add_rb_ok:
  assumes "rlc_ok s" "nr_rlc_manager_get_ue (ra_manager s) rnti (rlc_add_rb b rb_id new) = Inr (m, x)"
    and new: "\<And>e. new = Inr e \<Longrightarrow> rlc_rb_ok b (nat (rb_id - 1)) e"
  shows "rlc_ok (s\<lparr>ra_manager := m\<rparr>)"
proof -
  have m: "manager_all rlc_rb_ok (ra_manager s)"
    using assms(1) by (simp add: rlc_ok_def)
  have "manager_all rlc_rb_ok m"
  proof (rule with_ue_all [OF m rlc_add_rb_rnti assms(2) [unfolded nr_rlc_manager_get_ue_def]])
    show "ue_all rlc_rb_ok u'" if "ue_all rlc_rb_ok u" "rlc_add_rb b rb_id new u = Inr (u', a)" for u u' a
      using rlc_add_rb_all [OF that new] .
  qed
  then show ?thesis
    using assms(1) by (simp add: rlc_ok_def)
qed

lemma new_am_rb_ok: "new_am n p = Inr e \<Longrightarrow> rlc_rb_ok b i e"
  by (auto simp: new_am_def new_nr_rlc_entity_am_def rbind_eq_Inr rlc_rb_ok_def split: if_splits)

lemma new_um_rb_ok: "new_nr_rlc_entity_um rx tx t len = Inr e \<Longrightarrow> rlc_rb_ok False i (E_um e)"
  by (auto simp: rlc_rb_ok_def um_new_config(3))

lemma add_rlc_srb_ok: "rlc_ok s \<Longrightarrow> add_rlc_srb rnti sr b s = Inr s' \<Longrightarrow> rlc_ok s'"
  by (auto simp: add_rlc_srb_def Let_def rbind_eq_Inr new_am_rb_ok intro: rlc_add_rb_ok split: if_splits)

lemma rlc_add_drb_am_ok: "rlc_ok s \<Longrightarrow> rlc_add_drb_am rnti d b s = Inr s' \<Longrightarrow> rlc_ok s'"
  by (auto simp: rlc_add_drb_am_def Let_def rbind_eq_Inr new_am_rb_ok intro: rlc_add_rb_ok split: if_splits)

lemma rlc_add_drb_um_ok: "rlc_ok s \<Longrightarrow> rlc_add_drb_um rnti d b s = Inr s' \<Longrightarrow> rlc_ok s'"
  by (auto simp: rlc_add_drb_um_def Let_def rbind_eq_Inr new_um_rb_ok intro!: rlc_add_rb_ok split: if_splits)

lemma rlc_add_drb_ok:
  assumes "rlc_ok s" "rlc_add_drb rnti d b s = Inr s'"
  shows "rlc_ok s'"
proof -
  have "bc_rlc_Config b \<noteq> None"
    using assms(2) unfolding rlc_add_drb_def by (intro notI) (simp add: deref_def)
  then obtain r where r: "bc_rlc_Config b = Some r"
    by blast
  then have "(case r of RLC_am _ \<Rightarrow> rlc_add_drb_am rnti d b s | RLC_um_Bi_Directional _ \<Rightarrow> rlc_add_drb_um rnti d b s
      | RLC_other \<Rightarrow> Inl Exit_fatal) = Inr s'"
    using assms(2) unfolding rlc_add_drb_def by (simp add: deref_def)
  then show ?thesis
    using rlc_add_drb_am_ok [OF assms(1)] rlc_add_drb_um_ok [OF assms(1)] by (cases r) simp_all
qed

lemma rlc_serve_srb_ok: "rlc_ok s \<Longrightarrow> rlc_serve_srb rnti sr bs s = Inr s' \<Longrightarrow> rlc_ok s'"
  by (induction bs arbitrary: s) (auto simp: rbind_eq_Inr dest: add_rlc_srb_ok split: if_splits)

lemma rlc_serve_drb_ok: "rlc_ok s \<Longrightarrow> rlc_serve_drb rnti d bs s = Inr s' \<Longrightarrow> rlc_ok s'"
  by (induction bs arbitrary: s) (auto simp: rbind_eq_Inr dest: rlc_add_drb_ok split: if_splits)

lemma rlc_serve_srbs_ok: "rlc_ok s \<Longrightarrow> rlc_serve_srbs rnti l bs s = Inr s' \<Longrightarrow> rlc_ok s'"
  by (induction l arbitrary: s) (auto simp: rbind_eq_Inr dest: rlc_serve_srb_ok)

lemma rlc_serve_drbs_ok: "rlc_ok s \<Longrightarrow> rlc_serve_drbs rnti l bs s = Inr s' \<Longrightarrow> rlc_ok s'"
  by (induction l arbitrary: s) (auto simp: rbind_eq_Inr dest: rlc_serve_drb_ok)

lemma rlc_config_ok:
  assumes "rlc_ok s" "nr_rrc_rlc_config_asn1_req ctxt srbs drbs pmch bs s = Inr s'"
  shows "rlc_ok s'"
  using assms
  by (auto simp: nr_rrc_rlc_config_asn1_req_def Let_def rbind_eq_Inr dest: rlc_serve_srbs_ok rlc_serve_drbs_ok
      split: if_splits option.splits)

lemma rlc_remove_rb_rnti: "keeps_rnti (rlc_remove_rb b i)"
  by (auto simp: keeps_rnti_def rlc_remove_rb_def rbind_eq_Inr ue_clear_rb_def split: option.splits)

lemma nth_clear: "j < length xs \<Longrightarrow> xs[i := None] ! j = Some e \<Longrightarrow> xs ! j = Some e"
  by (cases "i = j") auto

lemma ue_clear_rb_all:
  assumes "ue_all P u"
  shows "ue_all P (ue_clear_rb b u i)"
proof -
  have eq: "ue_rbs f (ue_clear_rb b u i) = (if f = b then (ue_rbs f u)[i := None] else ue_rbs f u)" for f
    by (auto simp: ue_clear_rb_def ue_rbs_def)
  have "ue_ok (ue_clear_rb b u i)"
    using assms by (cases "i = 2") (auto simp: ue_all_def ue_ok_def ue_clear_rb_def)
  moreover have "P f j e" if "j < length (ue_rbs f (ue_clear_rb b u i))" "ue_rbs f (ue_clear_rb b u i) ! j = Some e" for f j e
  proof -
    have "j < length (ue_rbs f u)" "ue_rbs f u ! j = Some e"
      using that nth_clear [of j "ue_rbs f u" i e] by (auto simp: eq split: if_splits)
    then show ?thesis
      using assms by (simp add: ue_all_def)
  qed
  ultimately show ?thesis
    by (simp add: ue_all_def)
qed

lemma rlc_remove_ok:
  assumes "rlc_ok s" "rrc_rlc_config_req ctxt b mbms remove rb_id s = Inr s'"
  shows "rlc_ok s'"
proof -
  obtain i m h m' where w: "with_ue (ra_manager s) (cx_rnti ctxt) (rlc_remove_rb b i) = Inr (m, h)"
    and m': "m' = m \<or> manager_remove_ue rlc_delete m (cx_rnti ctxt) = Inr m'" "s' = s\<lparr>ra_manager := m'\<rparr>"
    using assms(2)
    by (auto simp: rrc_rlc_config_req_def rbind_eq_Inr nr_rlc_manager_get_ue_def nr_rlc_manager_remove_ue_def
        split: if_splits option.splits)
  have ok: "manager_all rlc_rb_ok (ra_manager s)"
    using assms(1) by (simp add: rlc_ok_def)
  have "manager_all rlc_rb_ok m"
  proof (rule with_ue_all [OF ok rlc_remove_rb_rnti w])
    show "ue_all rlc_rb_ok u'" if "ue_all rlc_rb_ok u" "rlc_remove_rb b i u = Inr (u', a)" for u u' a
      using that ue_clear_rb_all by (auto simp: rlc_remove_rb_def rbind_eq_Inr split: option.splits)
  qed
  then have "manager_all rlc_rb_ok m'"
    using m'(1) remove_ue_all [of rlc_rb_ok m rlc_delete "cx_rnti ctxt" m'] by blast
  then show ?thesis
    using m'(2) assms(1) by (simp add: rlc_ok_def)
qed

lemma rlc_remove_ue_ok:
  assumes "rlc_ok s" "rrc_rlc_remove_ue ctxt s = Inr s'"
  shows "rlc_ok s'"
proof -
  obtain m where m: "manager_remove_ue rlc_delete (ra_manager s) (cx_rnti ctxt) = Inr m" "s' = s\<lparr>ra_manager := m\<rparr>"
    using assms(2) by (auto simp: rrc_rlc_remove_ue_def rbind_eq_Inr nr_rlc_manager_remove_ue_def)
  then show ?thesis
    using remove_ue_all [OF _ m(1)] assms(1) by (simp add: rlc_ok_def)
qed

section \<open>Reachable states\<close>

text \<open>The states of the layer under any use of its interface; PDCP empties its queue at any time.\<close>

inductive rlc_reach :: "node \<Rightarrow> rlc_api \<Rightarrow> bool" for node :: node where
  start: "rlc_reach node rlc_start"
| module_init: "rlc_reach node s \<Longrightarrow> rlc_module_init enb_flag s = Inr s' \<Longrightarrow> rlc_reach node s'"
| data_ind: "rlc_reach node s \<Longrightarrow>
    mac_rlc_data_ind node module_id rnti eNB_index MBMS_flag c buffer s = Inr s' \<Longrightarrow> rlc_reach node s'"
| data_req: "rlc_reach node s \<Longrightarrow> mac_rlc_data_req node rnti c buffer s = Inr (n, b, s') \<Longrightarrow> rlc_reach node s'"
| status_ind: "rlc_reach node s \<Longrightarrow> mac_rlc_status_ind node rnti c s = Inr (st, s') \<Longrightarrow> rlc_reach node s'"
| occupancy: "rlc_reach node s \<Longrightarrow>
    mac_rlc_get_buffer_occupancy_ind node rnti frame subframe enb_flag c s = Inr (n, s') \<Longrightarrow> rlc_reach node s'"
| sdu: "rlc_reach node s \<Longrightarrow> rlc_data_req node ctxt srb_flag rb_id mui sdu s = Inr s' \<Longrightarrow> rlc_reach node s'"
| space: "rlc_reach node s \<Longrightarrow> nr_rlc_get_available_tx_space node rnti c s = Inr (n, s') \<Longrightarrow> rlc_reach node s'"
| config: "rlc_reach node s \<Longrightarrow> nr_rrc_rlc_config_asn1_req ctxt srbs drbs pmch bs s = Inr s' \<Longrightarrow> rlc_reach node s'"
| remove_rb: "rlc_reach node s \<Longrightarrow> rrc_rlc_config_req ctxt srb_flag mbms remove rb_id s = Inr s' \<Longrightarrow> rlc_reach node s'"
| remove_ue: "rlc_reach node s \<Longrightarrow> rrc_rlc_remove_ue ctxt s = Inr s' \<Longrightarrow> rlc_reach node s'"
| tick: "rlc_reach node s \<Longrightarrow> rlc_reach node (nr_rlc_tick frame subframe s)"
| taken: "rlc_reach node s \<Longrightarrow> rlc_reach node (s\<lparr>ra_pdcp_ind := tl (ra_pdcp_ind s)\<rparr>)"

lemma rlc_start_ok: "rlc_ok rlc_start"
  by (simp add: rlc_ok_def rlc_start_def new_manager_all)

lemma rlc_reach_ok: "rlc_reach node s \<Longrightarrow> rlc_ok s"
proof (induction rule: rlc_reach.induct)
  case (status_ind s rnti c st s')
  then show ?case
    by (auto simp: mac_rlc_status_ind_def rbind_eq_Inr dest: rlc_bytes_in_buffer_ok)
next
  case (occupancy s rnti frame subframe enb_flag c n s')
  then show ?case
    using rlc_bytes_in_buffer_ok [of "nr_rlc_tick frame subframe s"]
    by (auto simp: mac_rlc_get_buffer_occupancy_ind_def rlc_tick_ok split: if_splits)
next
  case (taken s)
  then show ?case
    by (cases "ra_pdcp_ind s") (auto simp: rlc_ok_def)
qed (auto simp: rlc_start_ok rlc_tick_ok intro: rlc_init_ok mac_rlc_data_ind_ok mac_rlc_data_req_ok rlc_data_req_ok
    rlc_space_ok rlc_config_ok rlc_remove_ok rlc_remove_ue_ok)

section \<open>Properties\<close>

text \<open>A node with one bearer in unacknowledged mode, the DRB 1 of one UE.\<close>

definition rlc_sample_drb :: drb_to_add where
  "rlc_sample_drb = \<lparr>da_drb_Identity = 1, da_pdcp_Config = None, da_cnAssociation = None\<rparr>"

definition rlc_sample_bearer :: rlc_bearer_config where
  "rlc_sample_bearer = nr_rlc_bearer_init_ul_spec ((nr_rlc_bearer_init True)\<lparr>bc_rlc_Config :=
     Some (RLC_um_Bi_Directional \<lparr>rcu_t_Reassembly = 3, rcu_dl_sn_FieldLength = Some 1, rcu_ul_sn_FieldLength = Some 1\<rparr>)\<rparr>)"

definition rlc_sample_node :: node where
  "rlc_sample_node = \<lparr>nd_is_cu = False, nd_is_du = False, nd_tun = True\<rparr>"

definition rlc_sample :: "rlc_api res" where
  "rlc_sample = rbind (rlc_module_init 1 rlc_start) (\<lambda>s.
     nr_rrc_rlc_config_asn1_req (ctxt_zero\<lparr>cx_rnti := 7\<rparr>) None (Some [rlc_sample_drb]) False (Some [rlc_sample_bearer]) s)"

lemma rlc_sample_reach: "rlc_sample = Inr s \<Longrightarrow> rlc_reach node s"
  unfolding rlc_sample_def by (elim rbind_InrE) (rule rlc_reach.config, rule rlc_reach.module_init, rule rlc_reach.start)

text \<open>
  C27: However the RLC layer of a node is used, it has one UE for each RNTI, its SRBs are in acknowledged
  mode and its DRBs in acknowledged or unacknowledged mode, no callback is lost between two calls, and
  everything it hands to PDCP is addressed to one of the bearers PDCP can have.
\<close>

theorem rlc_node_well_formed:
  assumes "rlc_reach node s"
  shows "distinct (map ue_rnti (mg_list (ra_manager s))) \<and>
    (\<forall>r u srb_flag i e. manager_table (ra_manager s) r = Some u \<and> i < length (ue_rbs srb_flag u) \<and>
       ue_rbs srb_flag u ! i = Some e \<longrightarrow>
       rlc_out e = [] \<and> i < (if srb_flag then 2 else 5) \<and> (case e of E_tm _ \<Rightarrow> False | E_um _ \<Rightarrow> \<not> srb_flag | E_am _ \<Rightarrow> True)) \<and>
    (\<forall>x \<in> set (ra_pdcp_ind s). rb_slot (pq_srb_flag x) (pq_rb_id x) \<noteq> None)"
proof (intro conjI allI impI)
  have ok: "manager_all rlc_rb_ok (ra_manager s)" "\<forall>x \<in> set (ra_pdcp_ind s). rlc_item_ok x"
    using rlc_reach_ok [OF assms] by (simp_all add: rlc_ok_def)
  show "distinct (map ue_rnti (mg_list (ra_manager s)))"
    using manager_all_ok [OF ok(1)] by (simp add: manager_ok_def)
  show "\<forall>x \<in> set (ra_pdcp_ind s). rb_slot (pq_srb_flag x) (pq_rb_id x) \<noteq> None"
    using ok(2) by (simp add: rlc_item_ok_def)
  fix r u srb_flag i e
  assume a: "manager_table (ra_manager s) r = Some u \<and> i < length (ue_rbs srb_flag u) \<and> ue_rbs srb_flag u ! i = Some e"
  then have u: "ue_all rlc_rb_ok u"
    using ok(1) by (auto simp: manager_all_def)
  then have "i < (if srb_flag then 3 else 5)"
    using a by (simp add: ue_all_def ue_ok_def ue_rbs_def split: if_splits)
  note rb = ue_all_rb [OF u this] a
  show "rlc_out e = []" "i < (if srb_flag then 2 else 5)"
    "case e of E_tm _ \<Rightarrow> False | E_um _ \<Rightarrow> \<not> srb_flag | E_am _ \<Rightarrow> True"
    using rb by (simp_all add: rlc_rb_ok_def)
qed

theorem rlc_node_well_formed_witness:
  "\<exists>s. rlc_sample = Inr s \<and> distinct (map ue_rnti (mg_list (ra_manager s))) \<and> length (mg_list (ra_manager s)) = 1"
proof -
  have "case rlc_sample of Inl _ \<Rightarrow> False | Inr s \<Rightarrow> length (mg_list (ra_manager s)) = 1"
    by code_simp
  then obtain s where s: "rlc_sample = Inr s" "length (mg_list (ra_manager s)) = 1"
    by (auto split: sum.splits)
  then show ?thesis
    using rlc_node_well_formed [OF rlc_sample_reach [OF s(1)]] by blast
qed

text \<open>
  C28: What MAC passes to the RLC layer for one logical channel of one UE reaches that bearer only. The
  entities of all other UEs and of all other bearers of the UE stay as they are, nothing fails except in the
  entity of the bearer, and each SDU the entity has completed is handed to PDCP once, in order, with the RNTI
  and with the radio bearer of the channel: SRB \<open>c\<close> for a channel up to 3, DRB \<open>c - 3\<close> for one above.
\<close>

theorem rlc_reception_routed:
  assumes "rlc_reach node s" and "\<not> nd_is_cu node" and "\<not> nd_is_du node" and "manager_table (ra_manager s) rnti = Some u"
    and "channel_slot c = Some (b, i)" and "ue_rbs b u ! i = Some e"
    and "rlc_set_time e (ra_current_time s) = Inr e1" and "rlc_recv_pdu e1 buffer = Inr e2"
  shows "\<exists>s'. mac_rlc_data_ind node 0 rnti 0 False c buffer s = Inr s' \<and>
    manager_table (ra_manager s') = (manager_table (ra_manager s))(rnti \<mapsto> ue_set_rb b u i (rlc_clear_out e2)) \<and>
    ra_pdcp_ind s' = ra_pdcp_ind s @ map (\<lambda>sdu.
      \<lparr>pq_ctxt = ctxt_zero\<lparr>cx_enb_flag := mg_enb_flag (ra_manager s), cx_rnti := rnti\<rparr>, pq_srb_flag = (c \<le> 3),
       pq_MBMS_flag = False, pq_rb_id = (if c \<le> 3 then c else c - 3), pq_sdu = sdu\<rparr>) (delivered (rlc_out e2))"
proof -
  have loc: "rlc_local node s"
    using rlc_reach_ok [OF assms(1)] assms(2,3) by (simp add: rlc_ok_def manager_all_def rlc_local_def)
  have item: "rlc_item (mg_enb_flag (ra_manager s)) rnti b i = (\<lambda>sdu.
      \<lparr>pq_ctxt = ctxt_zero\<lparr>cx_enb_flag := mg_enb_flag (ra_manager s), cx_rnti := rnti\<rparr>, pq_srb_flag = (c \<le> 3),
       pq_MBMS_flag = False, pq_rb_id = (if c \<le> 3 then c else c - 3), pq_sdu = sdu\<rparr>)"
    using channel_slot_Some(2,3) [OF assms(5)] by (auto simp: rlc_item_def ctxt_zero_def)
  obtain s' where "mac_rlc_data_ind node 0 rnti 0 False c buffer s = Inr s'" "rlc_handed s rnti b i e2 s'"
    by (rule mac_rlc_data_ind_run [OF loc assms(4,6,5,7,8)])
  then show ?thesis
    unfolding item [symmetric] using assms(4) by (auto simp: rlc_handed_def)
qed

theorem rlc_reception_routed_witness:
  "\<exists>s s'. rlc_sample = Inr s \<and> mac_rlc_data_ind rlc_sample_node 0 7 0 False 4 [0, 1, 2] s = Inr s' \<and>
     map pq_sdu (ra_pdcp_ind s') = [[1, 2]] \<and> map pq_rb_id (ra_pdcp_ind s') = [1]"
proof -
  have "case rlc_sample of Inl _ \<Rightarrow> False | Inr s \<Rightarrow> ra_pdcp_ind s = [] \<and>
      (case manager_table (ra_manager s) 7 of None \<Rightarrow> False | Some u \<Rightarrow>
      (case ue_rbs False u ! 0 of None \<Rightarrow> False | Some e \<Rightarrow>
      (case rbind (rlc_set_time e (ra_current_time s)) (\<lambda>e1. rlc_recv_pdu e1 [0, 1, 2]) of Inl _ \<Rightarrow> False
       | Inr e2 \<Rightarrow> delivered (rlc_out e2) = [[1, 2]])))"
    by code_simp
  then obtain s u e e1 e2 where s: "rlc_sample = Inr s" "ra_pdcp_ind s = []"
    "manager_table (ra_manager s) 7 = Some u" "ue_rbs False u ! 0 = Some e"
    "rlc_set_time e (ra_current_time s) = Inr e1" "rlc_recv_pdu e1 [0, 1, 2] = Inr e2"
    "delivered (rlc_out e2) = [[1, 2]]"
    by (auto simp: case_outcome rbind_eq_Inr)
  have c: "channel_slot 4 = Some (False, 0)" "\<not> nd_is_cu rlc_sample_node" "\<not> nd_is_du rlc_sample_node"
    by (simp_all add: channel_slot_def rlc_sample_node_def)
  show ?thesis
    using rlc_reception_routed [OF rlc_sample_reach [OF s(1)] c(2,3) s(3) c(1) s(4-6)] s(1,2,7) by auto
qed

end
