(* ===== verification/NR_RLC_Grant.thy ===== *)
theory NR_RLC_Grant
  imports NR_RLC_Node
begin

text \<open>
  What MAC may rely on when it asks RLC for a PDU: in every mode and in every state of the entity, the PDU is not
  larger than the grant, and nothing is written behind the buffer.
\<close>

section \<open>Encoders\<close>

text \<open>The encoder has not passed the end of a buffer of \<open>n\<close> bytes.\<close>

definition enc_in :: "nat \<Rightarrow> nr_rlc_pdu_encoder \<Rightarrow> bool" where
  "enc_in n e \<longleftrightarrow> e_size e = n \<and> length (e_buffer e) = n \<and> e_byte e \<le> n"

lemma enc_in_init [simp]: "enc_in (length b) (nr_rlc_pdu_encoder_init b)"
  by (simp add: enc_in_def)

lemma put_bit_in: "put_bit e b = Inr e' \<Longrightarrow> enc_in n e \<Longrightarrow> enc_in n e'"
  by (auto simp: put_bit_def enc_in_def Let_def split: if_splits)

lemma put_bits_loop_in: "put_bits_loop k v e = Inr e' \<Longrightarrow> enc_in n e \<Longrightarrow> enc_in n e'"
  by (induction k v e rule: put_bits_loop.induct) (auto simp: rbind_eq_Inr dest: put_bit_in)

lemma put_bits_in: "nr_rlc_pdu_encoder_put_bits e v k = Inr e' \<Longrightarrow> enc_in n e \<Longrightarrow> enc_in n e'"
  by (auto simp: nr_rlc_pdu_encoder_put_bits_def split: if_splits dest: put_bits_loop_in)

section \<open>The three modes\<close>

text \<open>The result of a request for a PDU in the buffer \<open>b\<close>.\<close>

definition fits :: "byte list \<Rightarrow> int \<Rightarrow> byte list \<Rightarrow> bool" where
  "fits b n b' \<longleftrightarrow> 0 \<le> n \<and> n \<le> int (length b) \<and> length b' = length b"

lemma fits_none [simp]: "fits b 0 b"
  by (simp add: fits_def)

lemma tm_generate_fits: "nr_rlc_entity_tm_generate_pdu e b = Inr (n, b', e') \<Longrightarrow> fits b n b'"
  unfolding nr_rlc_entity_tm_generate_pdu_def tm_generate_tx_pdu_def
  by (auto simp: rbind_eq_Inr fits_def c_read_def c_write_def split: list.splits if_splits)

text \<open>The header, then the bytes of the segment.\<close>

lemma data_fits:
  assumes "enc_in (length b) enc" "c_read d so sz = Inr bs" "c_write (e_buffer enc) (int (e_byte enc)) bs = Inr b'"
  shows "fits b (int (e_byte enc) + sz) b'"
  using assms by (auto simp: fits_def enc_in_def c_read_def c_write_def split: if_splits)

text \<open>A field that may be left out, and a group of fields.\<close>

lemma put_opt_in:
  "(if c then nr_rlc_pdu_encoder_put_bits e v k else Inr e) = Inr e' \<Longrightarrow> enc_in n e \<Longrightarrow> enc_in n e'"
  by (auto split: if_splits dest: put_bits_in)

lemma put_group_in:
  assumes "(if c then nr_rlc_pdu_encoder_put_bits e 0 6
      else rbind (if d then nr_rlc_pdu_encoder_put_bits e 0 2 else Inr e) (\<lambda>e. nr_rlc_pdu_encoder_put_bits e v k)) = Inr e'"
    and "enc_in n e"
  shows "enc_in n e'"
  using assms by (auto split: if_splits elim!: rbind_InrE dest: put_bits_in)

lemma um_serialize_fits:
  assumes "um_serialize_sdu e sdu b = Inr (n, b')"
  shows "fits b n b'"
  using assms unfolding um_serialize_sdu_def
  by (elim rbind_InrE)
    (drule put_bits_in [OF _ enc_in_init], drule (1) put_bits_in, drule (1) put_group_in, drule (1) put_opt_in,
      drule (2) data_fits, simp)

lemma um_send_fits: "um_send_segment e sdu b = Inr (n, b', e') \<Longrightarrow> fits b n b'"
  unfolding um_send_segment_def Let_def by (elim rbind_InrE) (auto elim!: rbind_InrE intro: um_serialize_fits)

lemma um_generate_in_grant: "nr_rlc_entity_um_generate_pdu e b = Inr (n, b', e') \<Longrightarrow> fits b n b'"
  unfolding nr_rlc_entity_um_generate_pdu_def um_generate_tx_pdu_def Let_def
  by (auto split: list.splits if_splits option.splits elim!: rbind_InrE) (erule um_send_fits)+

lemma or_byte_length: "or_byte b i x = Inr b' \<Longrightarrow> length b' = length b"
  by (auto simp: or_byte_def split: if_splits)

lemma am_poll_fits:
  "(if p then am_include_poll e b1 else Inr (b1, e)) = Inr (b2, e') \<Longrightarrow> fits b n b1 \<Longrightarrow> fits b n b2"
  by (auto simp: am_include_poll_def fits_def split: if_splits elim!: rbind_InrE dest: or_byte_length)

lemma am_serialize_fits:
  assumes "am_serialize_sdu e sdu b p = Inr (n, b', e')"
  shows "fits b n b'"
  using assms unfolding am_serialize_sdu_def
  by (elim rbind_InrE)
    (drule put_bits_in [OF _ enc_in_init], drule (1) put_bits_in, drule (1) put_bits_in, drule (1) put_bits_in,
      drule (1) put_opt_in, drule (1) put_bits_in, drule (1) put_opt_in, drule (2) data_fits,
      auto dest: am_poll_fits)

lemma am_finish_fits: "am_finish_pdu e sdu b p = Inr (n, b', e') \<Longrightarrow> fits b n b'"
  unfolding am_finish_pdu_def by (rule am_serialize_fits)

lemma am_retx_fits: "am_generate_retx_pdu e b = Inr (n, b', e') \<Longrightarrow> fits b n b'"
  unfolding am_generate_retx_pdu_def
  by (auto simp: Let_def split: list.splits if_splits elim!: rbind_InrE) (erule am_finish_fits)+

lemma am_tx_fits: "am_generate_tx_pdu e b = Inr (n, b', e') \<Longrightarrow> fits b n b'"
  unfolding am_generate_tx_pdu_def
  by (auto simp: Let_def split: list.splits if_splits elim!: rbind_InrE) (erule am_finish_fits)+

section \<open>Status reports\<close>

lemma am_put_nack_in:
  assumes "am_put_nack e enc a b c d n = Inr (enc', x)" "enc_in k enc"
  shows "enc_in k enc'"
  using assms unfolding am_put_nack_def Let_def
  by (auto split: if_splits elim!: rbind_InrE) ((drule (1) put_bits_in)+, assumption)+

lemma am_block_in:
  assumes "am_generate_block e a b c d n r = Inr r'" "enc_in k (r_enc r)"
  shows "enc_in k (r_enc r')"
proof -
  obtain buf enc x p where "or_byte (e_buffer (r_enc r)) (r_e1_byte r) (push_bit (r_e1_bit r) 1) = Inr buf"
    and put: "am_put_nack e ((r_enc r)\<lparr>e_buffer := buf\<rparr>) a b c d n = Inr (enc, x)" and r': "r_enc r' = enc"
    using assms(1) by (auto simp: am_generate_block_def Let_def case_prod_beta elim!: rbind_InrE)
  then have "enc_in k ((r_enc r)\<lparr>e_buffer := buf\<rparr>)"
    using assms(2) by (simp add: enc_in_def or_byte_length)
  then show ?thesis
    unfolding r' by (rule am_put_nack_in [OF put])
qed

lemma am_missing_in:
  "am_generate_missing_loop e m c sn l r = Inr (l', t, r') \<Longrightarrow> enc_in k (r_enc r) \<Longrightarrow> enc_in k (r_enc r')"
proof (induction e m c sn l r rule: am_generate_missing_loop.induct)
  case (1 e m c sn l r)
  obtain so se sof where b: "am_nack_bounds e m sn c = (so, se, sof)"
    by (metis prod.exhaust)
  show ?case
    using "1.prems" "1.IH" [OF _ refl b [symmetric] refl refl] am_block_in
    by (subst (asm) am_generate_missing_loop.simps)
      (auto simp: Let_def b split: if_splits elim!: rbind_InrE)
qed

lemma am_force_in: "am_force_so_end t r = Inr r' \<Longrightarrow> enc_in k (r_enc r) \<Longrightarrow> enc_in k (r_enc r')"
  by (auto simp: am_force_so_end_def enc_in_def split: option.splits if_splits)

lemma am_status_loop_in:
  "am_status_loop e l ch ln r = Inr (ln', r') \<Longrightarrow> enc_in k (r_enc r) \<Longrightarrow> enc_in k (r_enc r')"
proof (induction e l ch ln r rule: am_status_loop.induct)
  case (2 e cur rest ch ln r)
  show ?case
  proof (cases "am_next_missing e cur rest ch")
    case None
    then show ?thesis
      using "2.prems" by simp
  next
    case (Some m)
    obtain l1 t r1 r2 where 1: "am_generate_missing e m r = Inr (l1, t, r1)" "am_force_so_end t r1 = Inr r2"
      "am_status_loop e (if t then [] else m_next m) False (if l1 \<noteq> -1 then l1 else ln) r2 = Inr (ln', r')"
      using "2.prems"(1) Some by (auto elim!: rbind_InrE)
    have "enc_in k (r_enc r2)"
      using am_force_in [OF 1(2) am_missing_in [OF 1(1) [unfolded am_generate_missing_def] "2.prems"(2)]] .
    then show ?thesis
      by (rule "2.IH" [OF Some 1(3)])
  qed
qed simp

lemma am_put_ack_length [simp]: "length (am_put_ack_sn e a b) = length b"
  by (simp add: am_put_ack_sn_def)

lemma am_status_fits:
  assumes "am_generate_status e b = Inr (n, b', e')"
  shows "fits b n b'"
proof (cases "length b < 3")
  case False
  then obtain enc l r where "nr_rlc_pdu_encoder_put_bits (nr_rlc_pdu_encoder_init b) 0 24 = Inr enc"
    and loop: "am_status_loop e (am_rx_list e) True (c_rem (am_rx_next e - 1 + am_sn_modulus e) (am_sn_modulus e))
      \<lparr>r_enc = enc, r_e1_byte = 2, r_e1_bit = (if am_sn_field_length e = 18 then 1 else 7), r_so_end = None\<rparr> = Inr (l, r)"
    and n: "n = int (e_byte (r_enc r))" "length b' = length (e_buffer (r_enc r))"
    using assms by (auto simp: am_generate_status_def Let_def elim!: rbind_InrE)
  then have "enc_in (length b) enc"
    using put_bits_in [OF _ enc_in_init] by blast
  then have "enc_in (length b) (r_enc r)"
    by (intro am_status_loop_in [OF loop]) simp
  then show ?thesis
    using n by (simp add: fits_def enc_in_def)
qed (use assms in \<open>simp add: am_generate_status_def\<close>)

lemma am_generate_fits:
  assumes "nr_rlc_entity_am_generate_pdu e b = Inr (n, b', e')"
  shows "fits b n b'"
proof -
  obtain n1 b1 e1 where 1: "(if am_status_to_report e then am_generate_status e b else Inr (0, b, e)) = Inr (n1, b1, e1)"
    and rest: "(if n1 \<noteq> 0 then Inr (n1, b1, e1)
      else rbind (if am_retransmit_list e1 \<noteq> [] then am_generate_retx_pdu e1 b1 else Inr (0, b1, e1))
        (\<lambda>(ret, buffer, entity). if ret \<noteq> 0 then Inr (ret, buffer, entity) else am_generate_tx_pdu entity buffer)) =
      Inr (n, b', e')"
    using assms unfolding nr_rlc_entity_am_generate_pdu_def by (elim rbind_InrE) auto
  have f1: "fits b n1 b1"
    using 1 by (auto split: if_splits dest: am_status_fits)
  show ?thesis
  proof (cases "n1 = 0")
    case True
    then obtain n2 b2 e2 where
      2: "(if am_retransmit_list e1 \<noteq> [] then am_generate_retx_pdu e1 b1 else Inr (0, b1, e1)) = Inr (n2, b2, e2)"
      and n: "(if n2 \<noteq> 0 then Inr (n2, b2, e2) else am_generate_tx_pdu e2 b2) = Inr (n, b', e')"
      using rest by (auto elim: rbind_InrE)
    have "fits b1 n2 b2"
      using 2 by (auto split: if_splits dest: am_retx_fits)
    moreover have "fits b2 n b' \<or> n = n2 \<and> b' = b2"
      using n by (auto split: if_splits dest: am_tx_fits)
    ultimately show ?thesis
      using f1 by (auto simp: fits_def)
  qed (use rest f1 in simp)
qed

lemma rlc_generate_fits: "rlc_generate_pdu e b = Inr (n, b', e') \<Longrightarrow> fits b n b'"
  by (cases e) (auto elim!: rbind_InrE dest: tm_generate_fits um_generate_in_grant am_generate_fits)

text \<open>A result comes from the entity of some bearer.\<close>

lemma rlc_on_slot_result:
  "rlc_on_slot f slot ue = Inr (ue', Some (r, b, i, evs, x)) \<Longrightarrow> \<exists>rb rb'. f rb = Inr (rb', x)"
  by (auto simp: rlc_on_slot_def split: option.splits elim!: rbind_InrE) (intro exI)

lemma rlc_on_rb_result:
  "rlc_on_rb node f rnti slot s = Inr (s', Some x) \<Longrightarrow> \<exists>rb rb'. f rb = Inr (rb', x)"
  unfolding rlc_on_rb_def nr_rlc_manager_get_ue_def with_ue_def
  by (auto simp: Let_def split: option.splits prod.splits elim!: rbind_InrE dest!: rlc_on_slot_result) (intro exI)

lemma mac_rlc_data_req_fits:
  assumes "mac_rlc_data_req node rnti c b s = Inr (n, b', s')"
  shows "fits b n b'"
proof -
  let ?f = "\<lambda>rb. rbind (rlc_set_time rb (ra_current_time s)) (\<lambda>rb.
      rbind (rlc_generate_pdu rb b) (\<lambda>(ret, buffer, rb). Inr (rb, (ret, buffer))))"
  obtain r where on: "rlc_on_rb node ?f rnti (channel_slot c) s = Inr (s', r)"
    and r: "case r of None \<Rightarrow> n = 0 \<and> b' = b | Some x \<Rightarrow> x = (n, b')"
    using assms unfolding mac_rlc_data_req_def by (elim rbind_InrE) (auto split: option.splits)
  show ?thesis
  proof (cases r)
    case (Some x)
    from rlc_on_rb_result [OF on [unfolded Some]] obtain rb rb' where "?f rb = Inr (rb', x)"
      by (elim exE)
    then show ?thesis
      using Some r by (auto elim!: rbind_InrE dest: rlc_generate_fits)
  qed (use r in simp)
qed

end
