(* ===== verification/NR_MAC_Dl.thy ===== *)
theory NR_MAC_Dl
  imports NR_RLC_Grant
begin

text \<open>
  The downlink MAC PDU: how the gNB builds a transport block from control elements and RLC PDUs (the part of
  \<^verbatim>\<open>gNB_scheduler_dlsch.c\<close> that fills the block of an initial transmission), and how the UE takes it apart
  (\<^verbatim>\<open>nr_ue_process_mac_pdu\<close>). Scheduling, HARQ and the physical layer are not part of it.
\<close>

section \<open>Subheaders\<close>

text \<open>
  The bit fields of \<^verbatim>\<open>nr_mac.h\<close>: LCID in the six low bits of the first byte, then F, then R. A short subheader
  has one byte of length, a long one two, the more significant first.
\<close>

definition mac_lcid :: "byte \<Rightarrow> nat" where
  "mac_lcid b = unat (b AND 0x3F)"

definition mac_subheader_fixed :: "nat \<Rightarrow> byte list" where
  "mac_subheader_fixed lcid = [word_of_nat (lcid mod 64)]"

definition mac_subheader_short :: "nat \<Rightarrow> nat \<Rightarrow> byte list" where
  "mac_subheader_short lcid l = [word_of_nat (lcid mod 64), word_of_nat l]"

definition mac_subheader_long :: "nat \<Rightarrow> nat \<Rightarrow> byte list" where
  "mac_subheader_long lcid l = [0x40 OR word_of_nat (lcid mod 64), word_of_nat (l div 256), word_of_nat l]"

text \<open>
  \<open>get_mac_len pdu_len pdu\<close> is the length of the element and that of its subheader, \<open>None\<close> for \<^verbatim>\<open>false\<close>.
  \<open>pdu\<close> is the memory from the subheader on, of which \<open>pdu_len\<close> bytes belong to the PDU.
\<close>

definition byte_at :: "byte list \<Rightarrow> nat \<Rightarrow> byte res" where
  "byte_at mem i = (if i < length mem then Inr (mem ! i) else Inl Out_of_bounds)"

definition get_mac_len :: "nat \<Rightarrow> byte list \<Rightarrow> (nat \<times> nat) option res" where
  "get_mac_len pdu_len pdu =
     (if pdu_len < 2 then Inr None
      else
        rbind (byte_at pdu 0) (\<lambda>b0.
          if bit b0 6 \<and> pdu_len < 3 then Inr None
          else rbind (byte_at pdu 1) (\<lambda>b1.
            if bit b0 6 then rbind (byte_at pdu 2) (\<lambda>b2. Inr (Some (256 * unat b1 + unat b2, 3)))
            else Inr (Some (unat b1, 2)))))"

section \<open>Control elements of the gNB\<close>

text \<open>What is scheduled, one record for each structure of \<^verbatim>\<open>NR_UE_mac_ce_ctrl_t\<close>; \<open>None\<close> is not scheduled.\<close>

record pdcchStateInd =
  ps_servingCellId :: int
  ps_coresetId :: int
  ps_tciStateId :: int

record SPCSIReportingpucch =
  sp_servingCellId :: int
  sp_bwpId :: int
  sp_s0 :: bool
  sp_s1 :: bool
  sp_s2 :: bool
  sp_s3 :: bool

text \<open>
  The activation of TCI states and the selection of trigger states have the same fields: the highest state,
  a \<^verbatim>\<open>uint8_t\<close>, and an array of \<^verbatim>\<open>bool\<close>.
\<close>

record stateSelection =
  ss_servingCellId :: int
  ss_bwpId :: int
  ss_highest :: nat
  ss_states :: "bool list"

record sp_zp_csirs =
  zp_act_deact :: bool
  zp_serv_cell_id :: int
  zp_bwpid :: int
  zp_rsc_id :: int

record csi_rs_im =
  im_act_deact :: bool
  im_serv_cellid :: int
  im_bwp_id :: int
  im_im :: bool
  im_csi_im_rsc_id :: int
  im_nzp_csi_rsc_id :: int
  im_nb_tci_resource_set_id :: nat
  im_tci_state_id :: "int list"

record mac_ce_ctrl =
  cc_pdcch_state_ind :: "pdcchStateInd option"
  cc_SP_CSI_reporting_pucch :: "SPCSIReportingpucch option"
  cc_pdsch_TCI_States_ActDeact :: "stateSelection option"
  cc_aperi_CSI_trigger :: "stateSelection option"
  cc_sp_zp_csi_rs :: "sp_zp_csirs option"
  cc_csi_im :: "csi_rs_im option"

definition no_ces :: mac_ce_ctrl where
  "no_ces = \<lparr>cc_pdcch_state_ind = None, cc_SP_CSI_reporting_pucch = None, cc_pdsch_TCI_States_ActDeact = None,
     cc_aperi_CSI_trigger = None, cc_sp_zp_csi_rs = None, cc_csi_im = None\<rparr>"

text \<open>
  Bytes of the stack that are not initialised: that of the timing advance, whose field TAGID is only written
  when it is not 0, and the first of the report activation, whose reserved bit is not written.
\<close>

record ce_stack =
  cs_ta :: byte
  cs_csi :: byte

definition ta_byte :: "byte \<Rightarrow> int \<Rightarrow> int \<Rightarrow> byte" where
  "ta_byte junk tag_Id timing_advance_cmd =
     (let b = (junk AND 0xC0) OR take_bit 6 (word_of_int timing_advance_cmd)
      in if tag_Id \<noteq> 0 then (b AND 0x3F) OR push_bit 6 (take_bit 2 (word_of_int tag_Id)) else b)"

definition ce_ta :: "byte \<Rightarrow> int \<Rightarrow> int \<Rightarrow> byte list res" where
  "ce_ta junk tag_Id timing_advance_cmd =
     (if \<not> timing_advance_cmd < 64 then Inl Exit_fatal
      else Inr (mac_subheader_fixed 0x3D @ [ta_byte junk tag_Id timing_advance_cmd]))"

definition ce_con_res :: "byte list \<Rightarrow> byte list res" where
  "ce_con_res ue_cont_res_id = rbind (c_read ue_cont_res_id 0 6) (\<lambda>d. Inr (mac_subheader_fixed 0x3E @ d))"

definition ce_tci_pdcch :: "pdcchStateInd \<Rightarrow> byte list" where
  "ce_tci_pdcch c =
     mac_subheader_fixed 0x34 @
     [word_of_int (drop_bit 1 (take_bit 4 (ps_coresetId c)) OR push_bit 3 (take_bit 5 (ps_servingCellId c))),
      word_of_int (take_bit 7 (ps_tciStateId c) OR push_bit 7 (take_bit 1 (ps_coresetId c)))]"

definition ce_csi_reporting :: "byte \<Rightarrow> SPCSIReportingpucch \<Rightarrow> byte list" where
  "ce_csi_reporting junk c =
     mac_subheader_fixed 0x33 @
     [word_of_int (take_bit 2 (sp_bwpId c) OR push_bit 2 (take_bit 5 (sp_servingCellId c))) OR (junk AND 0x80),
      word_of_int (of_bool (sp_s0 c) OR push_bit 1 (of_bool (sp_s1 c)) OR
        push_bit 2 (of_bool (sp_s2 c)) OR push_bit 3 (of_bool (sp_s3 c)))]"

text \<open>The octets \<^verbatim>\<open>T\<close>: bit \<open>i mod 8\<close> of octet \<open>i div 8\<close> is state \<open>i\<close>.\<close>

definition state_octet :: "bool list \<Rightarrow> nat \<Rightarrow> byte" where
  "state_octet bs k = foldr (\<lambda>i b. if bs ! (8 * k + i) then b OR push_bit i 1 else b) [0..<8] 0"

definition ce_states :: "nat \<Rightarrow> stateSelection \<Rightarrow> byte list res" where
  "ce_states lcid c =
     (let num_octects = ss_highest c div 8 + 1
      in if 8 * num_octects > length (ss_states c) then Inl Out_of_bounds
         else Inr (mac_subheader_short lcid (1 + num_octects) @
           [word_of_int (take_bit 2 (ss_bwpId c) OR push_bit 2 (take_bit 5 (ss_servingCellId c)))] @
           map (state_octet (ss_states c)) [0..<num_octects]))"

definition ce_zp_csi_rs :: "sp_zp_csirs \<Rightarrow> byte list" where
  "ce_zp_csi_rs c =
     mac_subheader_fixed 0x30 @
     [word_of_int (take_bit 2 (zp_bwpid c) OR push_bit 2 (take_bit 5 (zp_serv_cell_id c)) OR
        push_bit 7 (of_bool (zp_act_deact c))),
      word_of_int (take_bit 4 (zp_rsc_id c))]"

definition ce_csi_im :: "csi_rs_im \<Rightarrow> byte list res" where
  "ce_csi_im c =
     (if im_act_deact c \<and> im_nb_tci_resource_set_id c > length (im_tci_state_id c) then Inl Out_of_bounds
      else Inr (mac_subheader_fixed 0x37 @
        [word_of_int (take_bit 2 (im_bwp_id c) OR push_bit 2 (take_bit 5 (im_serv_cellid c)) OR
           push_bit 7 (of_bool (im_act_deact c))),
         word_of_int (take_bit 6 (im_nzp_csi_rsc_id c) OR push_bit 6 (of_bool (im_im c)))] @
        (if im_im c then [word_of_int (take_bit 6 (im_csi_im_rsc_id c))] else []) @
        (if im_act_deact c
         then map (\<lambda>t. word_of_int (take_bit 6 t)) (take (im_nb_tci_resource_set_id c) (im_tci_state_id c))
         else [])))"

text \<open>An element that may be scheduled.\<close>

definition ce_opt :: "('a \<Rightarrow> byte list res) \<Rightarrow> 'a option \<Rightarrow> byte list res" where
  "ce_opt f x = (case x of None \<Rightarrow> Inr [] | Some a \<Rightarrow> f a)"

text \<open>
  The function returns the number of bytes it wrote at \<^verbatim>\<open>mac_pdu\<close>; here it returns the bytes. \<open>ta\<close> is the
  command when \<^verbatim>\<open>ta_apply\<close> is set.
\<close>

definition nr_write_ce_dlsch_pdu ::
  "ce_stack \<Rightarrow> int \<Rightarrow> int option \<Rightarrow> mac_ce_ctrl \<Rightarrow> int \<Rightarrow> byte list option \<Rightarrow> byte list res" where
  "nr_write_ce_dlsch_pdu junk tag_Id ta c drx_cmd ue_cont_res_id =
     rbind (ce_opt (ce_ta (cs_ta junk) tag_Id) ta) (\<lambda>x1.
     rbind (ce_opt ce_con_res ue_cont_res_id) (\<lambda>x2.
     rbind (ce_opt (\<lambda>p. Inr (ce_tci_pdcch p)) (cc_pdcch_state_ind c)) (\<lambda>x3.
     rbind (ce_opt (\<lambda>p. Inr (ce_csi_reporting (cs_csi junk) p)) (cc_SP_CSI_reporting_pucch c)) (\<lambda>x4.
     rbind (ce_opt (ce_states 0x35) (cc_pdsch_TCI_States_ActDeact c)) (\<lambda>x5.
     rbind (ce_opt (ce_states 0x36) (cc_aperi_CSI_trigger c)) (\<lambda>x6.
     rbind (ce_opt (\<lambda>p. Inr (ce_zp_csi_rs p)) (cc_sp_zp_csi_rs c)) (\<lambda>x7.
     rbind (ce_opt ce_csi_im (cc_csi_im c)) (\<lambda>x8.
       Inr ((if drx_cmd \<noteq> 255 then mac_subheader_fixed 0x3C else []) @ x1 @ x2 @ x3 @ x4 @ x5 @ x6 @ x7 @ x8)))))))))"

section \<open>The buffer status of the bearers\<close>

text \<open>
  The state of a UE the functions here use, from \<^verbatim>\<open>NR_UE_sched_ctrl_t\<close> and the statistics.
  \<open>du_rlc_status\<close> is the array \<^verbatim>\<open>rlc_status\<close>, by logical channel.
\<close>

record mac_dl_ue =
  du_rnti :: int
  du_dl_lc_ids :: "nat list"
  du_rlc_status :: "nat \<Rightarrow> mac_rlc_status_resp"
  du_num_total_bytes :: nat
  du_dl_pdus_total :: int
  du_rrc_processing_timer :: nat
  du_ta_apply :: bool
  du_ta_update :: int
  du_ta_frame :: int
  du_mac_ce_ctrl :: mac_ce_ctrl
  du_lc_bytes :: "nat \<Rightarrow> int"
  du_total_bytes :: int
  du_current_bytes :: int

fun store_lcs :: "node \<Rightarrow> nat list \<Rightarrow> mac_dl_ue \<Rightarrow> rlc_api \<Rightarrow> (mac_dl_ue \<times> rlc_api) res" where
  "store_lcs node [] u s = Inr (u, s)"
| "store_lcs node (lcid # l) u s =
     (if lcid = 4 \<and> du_rrc_processing_timer u > 0 then store_lcs node l u s
      else
        rbind (mac_rlc_status_ind node (du_rnti u) (int lcid) s) (\<lambda>(st, s).
          let u = u\<lparr>du_rlc_status := (du_rlc_status u)(lcid := st)\<rparr>
          in if sr_bytes_in_buffer st = 0 then store_lcs node l u s
             else store_lcs node l
               (u\<lparr>du_dl_pdus_total := (du_dl_pdus_total u + sr_pdus_in_buffer st) mod 2 ^ 16,
                  du_num_total_bytes := nat ((int (du_num_total_bytes u) + sr_bytes_in_buffer st) mod 2 ^ 32)\<rparr>) s))"

fun nr_store_dlsch_buffer :: "node \<Rightarrow> mac_dl_ue list \<Rightarrow> rlc_api \<Rightarrow> (mac_dl_ue list \<times> rlc_api) res" where
  "nr_store_dlsch_buffer node [] s = Inr ([], s)"
| "nr_store_dlsch_buffer node (u # us) s =
     rbind (store_lcs node (du_dl_lc_ids u) (u\<lparr>du_num_total_bytes := 0, du_dl_pdus_total := 0\<rparr>) s) (\<lambda>(u, s).
     rbind (nr_store_dlsch_buffer node us s) (\<lambda>(us, s). Inr (u # us, s)))"

section \<open>Filling a transport block\<close>

text \<open>
  The request to RLC: what the status said, or what is left of the block. The comparison is unsigned, so a
  negative status counts as large.
\<close>

definition dl_ndata :: "int \<Rightarrow> nat \<Rightarrow> nat" where
  "dl_ndata bytes_in_buffer room =
     (if 0 \<le> bytes_in_buffer \<and> bytes_in_buffer < int room then nat bytes_in_buffer else room)"

text \<open>
  The loop over the RLC PDUs of one logical channel. \<open>rest\<close> is the block from \<^verbatim>\<open>buf\<close> to \<^verbatim>\<open>bufEnd\<close>; the result is
  what lies before the new \<^verbatim>\<open>buf\<close>, the rest behind it, \<^verbatim>\<open>lcid_bytes\<close> and the state of RLC. Every round that is
  not the last takes at least four bytes of the block, so more fuel than the block has bytes is enough.
\<close>

fun dlsch_lc ::
  "nat \<Rightarrow> node \<Rightarrow> int \<Rightarrow> nat \<Rightarrow> int \<Rightarrow> byte list \<Rightarrow> rlc_api \<Rightarrow> (byte list \<times> byte list \<times> int \<times> rlc_api) res" where
  "dlsch_lc 0 node rnti lcid bytes_in_buffer rest s = Inl Divergence"
| "dlsch_lc (Suc fuel) node rnti lcid bytes_in_buffer rest s =
     (if length rest > 3 + 1
      then
        let ndata = dl_ndata bytes_in_buffer (length rest - 3) in
        rbind (mac_rlc_data_req node rnti (int lcid) (take ndata (drop 3 rest)) s) (\<lambda>(len, data, s).
          if len = 0 then Inr ([], take 3 rest @ data @ drop (3 + ndata) rest, 0, s)
          else
            rbind (dlsch_lc fuel node rnti lcid bytes_in_buffer (drop (nat len) data @ drop (3 + ndata) rest) s)
              (\<lambda>(out, rest, lcid_bytes, s).
                Inr (mac_subheader_long lcid (nat len) @ take (nat len) data @ out, rest, len + lcid_bytes, s)))
      else Inr ([], rest, 0, s))"

text \<open>The loop over the logical channels; a channel whose status was 0 is left out.\<close>

fun dlsch_lcs ::
  "node \<Rightarrow> nat list \<Rightarrow> mac_dl_ue \<Rightarrow> byte list \<Rightarrow> rlc_api \<Rightarrow> (byte list \<times> byte list \<times> mac_dl_ue \<times> rlc_api) res" where
  "dlsch_lcs node [] u rest s = Inr ([], rest, u, s)"
| "dlsch_lcs node (lcid # l) u rest s =
     (let n = sr_bytes_in_buffer (du_rlc_status u lcid) in
      if n = 0 then dlsch_lcs node l u rest s
      else
        rbind (dlsch_lc (Suc (length rest)) node (du_rnti u) lcid n rest s) (\<lambda>(out, rest, lcid_bytes, s).
        rbind (dlsch_lcs node l
                 (u\<lparr>du_lc_bytes := (du_lc_bytes u)(lcid := (du_lc_bytes u lcid + lcid_bytes) mod 2 ^ 64)\<rparr>) rest s)
          (\<lambda>(out', rest, u, s). Inr (out @ out', rest, u, s))))"

text \<open>Without data, the tests of the physical layer get random bytes, \<open>rnd\<close>.\<close>

definition dlsch_random :: "(nat \<Rightarrow> byte) \<Rightarrow> byte list \<Rightarrow> byte list \<times> byte list" where
  "dlsch_random rnd rest =
     (if length rest > 3 then (mac_subheader_long 0x3F (length rest - 3) @ map rnd [0..<length rest - 3], [])
      else ([], rest))"

definition dlsch_padding :: "nat \<Rightarrow> byte list" where
  "dlsch_padding n = (if n > 0 then mac_subheader_fixed 0x3F @ replicate (n - 1) 0 else [])"

text \<open>
  The initial transmission: the new content of the transport block of \<open>length tb\<close> bytes, the UE and RLC.
  \<open>phy_test\<close> is \<^verbatim>\<open>phy_test || do_ra\<close>.
\<close>

definition dlsch_initial_transmission ::
  "node \<Rightarrow> ce_stack \<Rightarrow> int \<Rightarrow> bool \<Rightarrow> (nat \<Rightarrow> byte) \<Rightarrow> int \<Rightarrow> byte list \<Rightarrow> mac_dl_ue \<Rightarrow> rlc_api \<Rightarrow>
   (byte list \<times> mac_dl_ue \<times> rlc_api) res" where
  "dlsch_initial_transmission node junk tag_Id phy_test rnd frame tb u s =
     rbind (nr_write_ce_dlsch_pdu junk tag_Id (if du_ta_apply u then Some (du_ta_update u) else None)
              (du_mac_ce_ctrl u) 255 None) (\<lambda>ces.
       if \<not> length tb > length ces then Inl Exit_fatal
       else
         let rest = drop (length ces) tb in
         rbind (if du_num_total_bytes u > 0 then dlsch_lcs node (du_dl_lc_ids u) u rest s
                else if phy_test then Inr (fst (dlsch_random rnd rest), snd (dlsch_random rnd rest), u, s)
                else Inr ([], rest, u, s)) (\<lambda>(out, rest, u, s).
         let u = u\<lparr>du_total_bytes := (du_total_bytes u + int (length tb)) mod 2 ^ 64,
                   du_current_bytes := int (length tb)\<rparr>;
             u = (if du_ta_apply u then u\<lparr>du_ta_apply := False, du_ta_frame := frame\<rparr> else u)
         in Inr (ces @ out @ dlsch_padding (length rest), u, s)))"

section \<open>The MAC layer of the UE\<close>

datatype RA_state = RA_UE_IDLE | GENERATE_PREAMBLE | WAIT_RAR | WAIT_CONTENTION_RESOLUTION | RA_SUCCEEDED | RA_FAILED

text \<open>\<^verbatim>\<open>GENERATE_IDLE\<close> and \<^verbatim>\<open>RA_UE_IDLE\<close> are the same value.\<close>

record RA_config =
  ra_state :: RA_state
  ra_cfra :: bool
  ra_t_crnti :: int
  ra_RA_active :: bool
  ra_generate_nr_prach :: RA_state
  ra_RA_window_cnt :: int
  ra_timer_active :: bool
  ra_cont_res_id :: "byte list"

record UL_TIME_ALIGNMENT =
  ta_apply_ta :: bool
  ta_command :: nat
  ta_tag_id :: nat

record ccch_data_ind =
  cd_sdu :: "byte list"
  cd_frame :: int
  cd_gnb_index :: int
  cd_rnti :: int

text \<open>A UE: its identity in the stack, the MAC instance, the messages sent to RRC, and RLC.\<close>

record ue_mac =
  mu_module_id :: int
  mu_gNB_index :: int
  mu_crnti :: int
  mu_ra :: RA_config
  mu_ta :: UL_TIME_ALIGNMENT
  mu_ccch :: "ccch_data_ind list"
  mu_rlc :: rlc_api

definition nr_ra_succeeded :: "ue_mac \<Rightarrow> ue_mac" where
  "nr_ra_succeeded m =
     (let ra = mu_ra m;
          m = (if ra_cfra ra then m\<lparr>mu_ra := ra\<lparr>ra_RA_window_cnt := -1\<rparr>\<rparr>
               else m\<lparr>mu_crnti := ra_t_crnti ra, mu_ra := ra\<lparr>ra_timer_active := False, ra_t_crnti := 0\<rparr>\<rparr>)
      in m\<lparr>mu_ra := (mu_ra m)\<lparr>ra_RA_active := False, ra_generate_nr_prach := RA_UE_IDLE, ra_state := RA_SUCCEEDED\<rparr>\<rparr>)"

text \<open>
  The message to RRC, for the channel \<^verbatim>\<open>CCCH\<close>, the only one MAC calls it with here: an SDU that is larger than
  \<^verbatim>\<open>CCCH_SDU_SIZE\<close> is cut.
\<close>

definition nr_mac_rrc_data_ind_ue :: "int \<Rightarrow> byte list \<Rightarrow> nat \<Rightarrow> ue_mac \<Rightarrow> ue_mac res" where
  "nr_mac_rrc_data_ind_ue frame pduP pdu_len m =
     (if pdu_len > 0
      then rbind (c_read pduP 0 (int (min pdu_len 1024))) (\<lambda>sdu.
        Inr (m\<lparr>mu_ccch := mu_ccch m @
          [\<lparr>cd_sdu = sdu, cd_frame = frame, cd_gnb_index = mu_gNB_index m, cd_rnti = mu_crnti m\<rparr>]\<rparr>))
      else Inr m)"

section \<open>Taking a transport block apart\<close>

text \<open>
  What a round of the loop leads to: the end, by \<^verbatim>\<open>done\<close> or \<^verbatim>\<open>return\<close>, or the next subheader, that many bytes
  behind the second byte of this one.
\<close>

datatype mac_next = Mac_end ue_mac | Mac_next nat ue_mac

definition ue_mac_ccch :: "int \<Rightarrow> nat \<Rightarrow> byte list \<Rightarrow> ue_mac \<Rightarrow> mac_next res" where
  "ue_mac_ccch frame pdu_len mem m =
     rbind (get_mac_len pdu_len mem) (\<lambda>r.
       case r of
         None \<Rightarrow> Inl Exit_fatal
       | Some (mac_len, sh) \<Rightarrow>
           if (\<forall>b \<in> set (take (sh + mac_len) mem). b = 0)
           then if sh + mac_len \<le> length mem then Inr (Mac_end m) else Inl Out_of_bounds
           else if mac_len > 0
           then rbind (nr_mac_rrc_data_ind_ue frame (drop sh mem) mac_len m) (\<lambda>m. Inr (Mac_next (sh - 1 + mac_len) m))
           else Inr (Mac_next (sh - 1 + mac_len) m))"

definition ue_mac_ta :: "byte list \<Rightarrow> ue_mac \<Rightarrow> mac_next res" where
  "ue_mac_ta mem m =
     rbind (byte_at mem 1) (\<lambda>b.
       Inr (Mac_next 1 (m\<lparr>mu_ta := \<lparr>ta_apply_ta = True, ta_command = unat (b AND 0x3F),
         ta_tag_id = unat (drop_bit 6 b)\<rparr>\<rparr>)))"

definition ue_mac_con_res :: "byte list \<Rightarrow> ue_mac \<Rightarrow> mac_next res" where
  "ue_mac_con_res mem m =
     (if ra_state (mu_ra m) = WAIT_CONTENTION_RESOLUTION
      then rbind (c_read mem 1 6) (\<lambda>d.
        let ra_success = (ra_cont_res_id (mu_ra m) = d)
        in Inr (Mac_next 6
             (if ra_RA_active (mu_ra m) \<and> ra_success then nr_ra_succeeded m
              else if \<not> ra_success
              then m\<lparr>mu_ra := (mu_ra m)\<lparr>ra_state := RA_UE_IDLE, ra_RA_active := False\<rparr>\<rparr>
              else m)))
      else Inr (Mac_next 6 m))"

text \<open>An SDU; \<open>NB_RB_MAX\<close> depends on a constant of the generated ASN.1 code.\<close>

definition ue_mac_sdu :: "node \<Rightarrow> nat \<Rightarrow> nat \<Rightarrow> nat \<Rightarrow> byte list \<Rightarrow> ue_mac \<Rightarrow> mac_next res" where
  "ue_mac_sdu node NB_RB_MAX rx_lcid pdu_len mem m =
     rbind (get_mac_len pdu_len mem) (\<lambda>r.
       case r of
         None \<Rightarrow> Inr (Mac_end m)
       | Some (mac_len, sh) \<Rightarrow>
           if rx_lcid < NB_RB_MAX \<and> rx_lcid \<ge> 1
           then
             rbind (c_read mem (int sh) (int mac_len)) (\<lambda>sdu.
             rbind (mac_rlc_data_ind node (mu_module_id m) (mu_crnti m) (mu_gNB_index m) False (int rx_lcid) sdu
                      (mu_rlc m)) (\<lambda>s.
               Inr (Mac_next (sh - 1 + mac_len) (m\<lparr>mu_rlc := s\<rparr>))))
           else Inr (Mac_next (sh - 1 + mac_len) m))"

text \<open>The control elements of variable length that are skipped; a length that cannot be read counts as 0.\<close>

definition ue_mac_variable :: "nat \<Rightarrow> byte list \<Rightarrow> ue_mac \<Rightarrow> mac_next res" where
  "ue_mac_variable pdu_len mem m =
     rbind (get_mac_len pdu_len mem) (\<lambda>r.
       Inr (Mac_next (case r of None \<Rightarrow> 0 | Some (mac_len, sh) \<Rightarrow> sh - 1 + mac_len) m))"

definition ue_mac_subpdu :: "node \<Rightarrow> nat \<Rightarrow> int \<Rightarrow> nat \<Rightarrow> byte list \<Rightarrow> ue_mac \<Rightarrow> mac_next res" where
  "ue_mac_subpdu node NB_RB_MAX frame pdu_len mem m =
     rbind (byte_at mem 0) (\<lambda>b.
       let rx_lcid = mac_lcid b in
       if rx_lcid = 0 then ue_mac_ccch frame pdu_len mem m
       else if rx_lcid \<in> {0x35, 0x36, 0x37, 0x32} then ue_mac_variable pdu_len mem m
       else if rx_lcid \<in> {0x2F, 0x30, 0x33, 0x34} then Inr (Mac_next 2 m)
       else if rx_lcid = 0x31 then Inr (Mac_next 3 m)
       else if rx_lcid \<in> {0x38, 0x3A} then Inr (Mac_next 1 m)
       else if rx_lcid = 0x39 then Inr (Mac_next 4 m)
       else if rx_lcid \<in> {0x3B, 0x3C} then Inr (Mac_next 0 m)
       else if rx_lcid = 0x3D then ue_mac_ta mem m
       else if rx_lcid = 0x3E then ue_mac_con_res mem m
       else if rx_lcid = 0x3F then Inr (Mac_end m)
       else ue_mac_sdu node NB_RB_MAX rx_lcid pdu_len mem m)"

text \<open>
  The loop. \<open>mem\<close> is the memory from \<^verbatim>\<open>pduP\<close> on, which may reach beyond the PDU; the remaining length stays at 0
  where it would become negative, which ends the loop as well.
\<close>

fun nr_ue_process_mac_pdu :: "node \<Rightarrow> nat \<Rightarrow> int \<Rightarrow> nat \<Rightarrow> byte list \<Rightarrow> ue_mac \<Rightarrow> ue_mac res" where
  "nr_ue_process_mac_pdu node NB_RB_MAX frame 0 mem m = Inr m"
| "nr_ue_process_mac_pdu node NB_RB_MAX frame (Suc n) mem m =
     rbind (ue_mac_subpdu node NB_RB_MAX frame (Suc n) mem m) (\<lambda>r.
       case r of
         Mac_end m \<Rightarrow> Inr m
       | Mac_next k m \<Rightarrow> nr_ue_process_mac_pdu node NB_RB_MAX frame (n - k) (drop (Suc k) mem) m)"

end
