(* ===== verification/NR_MAC_Dl_Link.thy ===== *)
theory NR_MAC_Dl_Link
  imports NR_MAC_Dl
begin

text \<open>
  The downlink transport block between the gNB and the UE: every byte the gNB puts into a block belongs to a
  control element, to an RLC PDU or to padding, and the UE takes the block apart at exactly these places.
\<close>

unbundle bit_operations_syntax

section \<open>Subheaders\<close>

lemma lcid_mask: "(b AND 0x3F :: byte) = take_bit 6 b"
  by (simp add: take_bit_eq_mask mask_eq_exp_minus_1)

lemma mac_lcid_fixed [simp]: "lcid < 64 \<Longrightarrow> mac_lcid (word_of_nat lcid) = lcid"
  by (simp add: mac_lcid_def lcid_mask unat_of_nat take_bit_eq_mod unat_mod_distrib)

lemma mac_lcid_long [simp]: "lcid < 64 \<Longrightarrow> mac_lcid (0x40 OR word_of_nat lcid) = lcid"
proof -
  assume "lcid < 64"
  moreover have "mac_lcid (0x40 OR word_of_nat lcid) = mac_lcid (word_of_nat lcid)"
    by (simp add: mac_lcid_def lcid_mask)
  ultimately show ?thesis
    by simp
qed

lemma long_bit [simp]: "bit (0x40 OR b :: byte) 6"
proof -
  have "bit (0x40 :: byte) 6"
    by (simp add: bit_iff_odd_drop_bit drop_bit_eq_div)
  then show ?thesis
    by (simp only: bit_or_iff simp_thms)
qed

lemma short_bit [simp]: "lcid < 64 \<Longrightarrow> \<not> bit (word_of_nat lcid :: byte) 6"
  using bit_word_of_int_iff [of "int lcid" 6, where 'a = 8]
  by (simp add: bit_iff_odd [of "int lcid"])

lemma long_length: "l < 65536 \<Longrightarrow> 256 * unat (word_of_nat (l div 256) :: byte) + unat (word_of_nat l :: byte) = l"
  by (simp add: unat_of_nat)

lemma subheader_length [simp]:
  "length (mac_subheader_fixed lcid) = 1" "length (mac_subheader_short lcid l) = 2" "length (mac_subheader_long lcid l) = 3"
  by (simp_all add: mac_subheader_fixed_def mac_subheader_short_def mac_subheader_long_def)

lemma subheader_ne [simp]: "mac_subheader_long lcid l \<noteq> []" "mac_subheader_short lcid l \<noteq> []"
  by (simp_all add: mac_subheader_long_def mac_subheader_short_def)

lemma byte_at_simps [simp]:
  "byte_at (a # x) 0 = Inr a" "byte_at (a # b # x) (Suc 0) = Inr b" "byte_at (a # b # x) 1 = Inr b"
  "byte_at (a # b # c # x) 2 = Inr c"
  by (simp_all add: byte_at_def eval_nat_numeral)

lemma get_mac_len_F:
  "3 \<le> n \<Longrightarrow> bit a 6 \<Longrightarrow> get_mac_len n (a # b # c # x) = Inr (Some (256 * unat b + unat c, 3))"
  "2 \<le> n \<Longrightarrow> \<not> bit a 6 \<Longrightarrow> get_mac_len n (a # b # x) = Inr (Some (unat b, 2))"
  by (simp_all add: get_mac_len_def)

lemma get_mac_len_long [simp]:
  "l < 65536 \<Longrightarrow> 3 \<le> n \<Longrightarrow> get_mac_len n (mac_subheader_long lcid l @ x) = Inr (Some (l, 3))"
  unfolding mac_subheader_long_def append_Cons append_Nil
  by (subst get_mac_len_F(1)) (simp_all only: long_bit long_length)

lemma get_mac_len_short [simp]:
  "l < 256 \<Longrightarrow> 2 \<le> n \<Longrightarrow> get_mac_len n (mac_subheader_short lcid l @ x) = Inr (Some (l, 2))"
  unfolding mac_subheader_short_def append_Cons append_Nil
  by (subst get_mac_len_F(2)) (simp_all add: unat_of_nat)

section \<open>One subPDU at the UE\<close>

text \<open>A subPDU that is passed over completely.\<close>

lemma process_next:
  assumes "ue_mac_subpdu node N frame (length x + n) (x @ y) m = Inr (Mac_next (length x - 1) m')" "x \<noteq> []"
  shows "nr_ue_process_mac_pdu node N frame (length x + n) (x @ y) m = nr_ue_process_mac_pdu node N frame n y m'"
  using assms by (cases x) simp_all

definition skipped :: "node \<Rightarrow> nat \<Rightarrow> int \<Rightarrow> byte list \<Rightarrow> bool" where
  "skipped node N frame x \<longleftrightarrow>
     (\<forall>n y m. nr_ue_process_mac_pdu node N frame (length x + n) (x @ y) m = nr_ue_process_mac_pdu node N frame n y m)"

lemma skipped_Nil [simp]: "skipped node N frame []"
  by (simp add: skipped_def)

lemma skipped_append: "skipped node N frame x \<Longrightarrow> skipped node N frame y \<Longrightarrow> skipped node N frame (x @ y)"
  unfolding skipped_def length_append append_assoc add.assoc by simp

lemma skipped_subpdu:
  assumes "\<And>n y m. ue_mac_subpdu node N frame (length x + n) (x @ y) m = Inr (Mac_next (length x - 1) m)" "x \<noteq> []"
  shows "skipped node N frame x"
  unfolding skipped_def using process_next [OF assms(1,2)] by simp

lemma tci_pdcch_skipped: "skipped node N frame (ce_tci_pdcch c)"
  by (rule skipped_subpdu) (simp_all add: ce_tci_pdcch_def mac_subheader_fixed_def ue_mac_subpdu_def mac_lcid_def)

lemma csi_reporting_skipped: "skipped node N frame (ce_csi_reporting j c)"
  by (rule skipped_subpdu) (simp_all add: ce_csi_reporting_def mac_subheader_fixed_def ue_mac_subpdu_def mac_lcid_def)

lemma zp_csi_rs_skipped: "skipped node N frame (ce_zp_csi_rs c)"
  by (rule skipped_subpdu) (simp_all add: ce_zp_csi_rs_def mac_subheader_fixed_def ue_mac_subpdu_def mac_lcid_def)

lemma mac_lcid_short: "lcid < 64 \<Longrightarrow> byte_at (mac_subheader_short lcid l @ x) 0 = Inr (word_of_nat lcid)"
  by (simp add: mac_subheader_short_def)

lemma states_skipped:
  assumes "ce_states lcid c = Inr x" "lcid = 0x35 \<or> lcid = 0x36" "ss_highest c < 256"
  shows "skipped node N frame x"
proof (rule skipped_subpdu)
  let ?k = "ss_highest c div 8 + 1"
  obtain z where x: "x = mac_subheader_short lcid (1 + ?k) @ z" "length z = 1 + ?k"
    using assms(1) by (auto simp: ce_states_def Let_def split: if_splits)
  have "mac_lcid (word_of_nat lcid) = lcid"
    using assms(2) by (intro mac_lcid_fixed) auto
  moreover have "1 + ?k < 256"
    using assms(3) by simp
  ultimately show "ue_mac_subpdu node N frame (length x + n) (x @ y) m = Inr (Mac_next (length x - 1) m)" for n y m
    using assms(2) x by (auto simp: ue_mac_subpdu_def mac_lcid_short ue_mac_variable_def)
  show "x \<noteq> []"
    using x(1) by simp
qed

lemma ce_opt_skipped:
  "ce_opt f a = Inr x \<Longrightarrow> (\<And>b x. a = Some b \<Longrightarrow> f b = Inr x \<Longrightarrow> skipped node N frame x) \<Longrightarrow> skipped node N frame x"
  by (auto simp: ce_opt_def split: option.splits)

text \<open>The timing advance. With the group 0 the UE sees what was on the stack of the gNB.\<close>

definition ta_received :: "byte \<Rightarrow> int \<Rightarrow> int \<Rightarrow> UL_TIME_ALIGNMENT" where
  "ta_received junk tag_Id cmd = \<lparr>ta_apply_ta = True, ta_command = nat (take_bit 6 cmd),
     ta_tag_id = (if tag_Id \<noteq> 0 then nat (take_bit 2 tag_Id) else unat (drop_bit 6 junk))\<rparr>"

lemma byte_masks: "(0x3F :: byte) = mask 6" "(0xC0 :: byte) = NOT (mask 6)"
  by (simp_all add: mask_eq_exp_minus_1 not_eq_complement)

lemma ta_bits:
  "((j AND 0xC0) OR take_bit 6 c) AND 0x3F = (take_bit 6 c :: byte)"
  "drop_bit 6 ((j AND 0xC0) OR take_bit 6 c :: byte) = drop_bit 6 j"
  "(take_bit 6 c OR push_bit 6 t) AND 0x3F = (take_bit 6 c :: byte)"
  "drop_bit 6 (take_bit 6 c OR push_bit 6 (take_bit 2 t) :: byte) = take_bit 2 t"
  unfolding byte_masks by (rule bit_eqI; auto simp: bit_simps dest: bit_imp_le_length)+

lemma unat_field: "n \<le> 8 \<Longrightarrow> unat (take_bit n (word_of_int c) :: byte) = nat (take_bit n c)"
  by (simp add: unsigned_take_bit_eq unat_eq_nat_uint uint_word_of_int_eq take_bit_nat_def [symmetric] nat_take_bit_eq
    min_def)

lemma ta_byte_fields:
  "unat (ta_byte j t c AND 0x3F) = nat (take_bit 6 c)"
  "unat (drop_bit 6 (ta_byte j t c)) = (if t \<noteq> 0 then nat (take_bit 2 t) else unat (drop_bit 6 j))"
  unfolding ta_byte_def Let_def by (cases "t = 0"; simp only: ta_bits if_True if_False simp_thms unat_field)+

lemma process_ta:
  assumes "ce_ta junk tag_Id cmd = Inr x"
  shows "nr_ue_process_mac_pdu node N frame (length x + n) (x @ y) m =
    nr_ue_process_mac_pdu node N frame n y (m\<lparr>mu_ta := ta_received junk tag_Id cmd\<rparr>)"
proof -
  have x: "x = [0x3D, ta_byte junk tag_Id cmd]"
    using assms by (simp add: ce_ta_def mac_subheader_fixed_def split: if_splits)
  then have "ue_mac_subpdu node N frame (length x + n) (x @ y) m =
      Inr (Mac_next (length x - 1) (m\<lparr>mu_ta := ta_received junk tag_Id cmd\<rparr>))"
    by (simp add: x ue_mac_subpdu_def mac_lcid_def ue_mac_ta_def ta_received_def ta_byte_fields)
  then show ?thesis
    by (rule process_next) (simp add: x)
qed

section \<open>RLC PDUs\<close>

definition mac_subpdu :: "nat \<times> byte list \<Rightarrow> byte list" where
  "mac_subpdu p = mac_subheader_long (fst p) (length (snd p)) @ snd p"

text \<open>The PDUs a UE hands to RLC, in order.\<close>

fun ue_feed :: "node \<Rightarrow> (nat \<times> byte list) list \<Rightarrow> ue_mac \<Rightarrow> ue_mac res" where
  "ue_feed node [] m = Inr m"
| "ue_feed node ((lcid, pdu) # l) m =
     rbind (mac_rlc_data_ind node (mu_module_id m) (mu_crnti m) (mu_gNB_index m) False (int lcid) pdu (mu_rlc m))
       (\<lambda>s. ue_feed node l (m\<lparr>mu_rlc := s\<rparr>))"

lemma process_sdu:
  assumes "1 \<le> lcid" "lcid < N" "N \<le> 0x2F" "length pdu < 65536"
  shows "nr_ue_process_mac_pdu node N frame (length (mac_subpdu (lcid, pdu)) + n) (mac_subpdu (lcid, pdu) @ y) m =
    rbind (mac_rlc_data_ind node (mu_module_id m) (mu_crnti m) (mu_gNB_index m) False (int lcid) pdu (mu_rlc m))
      (\<lambda>s. nr_ue_process_mac_pdu node N frame n y (m\<lparr>mu_rlc := s\<rparr>))"
proof -
  have b: "byte_at (mac_subheader_long lcid (length pdu) @ pdu @ y) 0 = Inr (0x40 OR word_of_nat (lcid mod 64))"
    unfolding mac_subheader_long_def append_Cons by (rule byte_at_simps)
  have l: "mac_lcid (0x40 OR word_of_nat (lcid mod 64)) = lcid"
    using assms by simp
  have "lcid \<noteq> 0" "lcid < 0x2F"
    using assms by simp_all
  then have "ue_mac_subpdu node N frame (3 + length pdu + n) (mac_subheader_long lcid (length pdu) @ pdu @ y) m =
      ue_mac_sdu node N lcid (3 + length pdu + n) (mac_subheader_long lcid (length pdu) @ pdu @ y) m"
    unfolding ue_mac_subpdu_def b rbind_Inr Let_def l by simp
  also have "\<dots> = rbind (mac_rlc_data_ind node (mu_module_id m) (mu_crnti m) (mu_gNB_index m) False (int lcid) pdu (mu_rlc m))
      (\<lambda>s. Inr (Mac_next (2 + length pdu) (m\<lparr>mu_rlc := s\<rparr>)))"
    using assms by (simp add: ue_mac_sdu_def)
  finally have sub: "ue_mac_subpdu node N frame (Suc (2 + length pdu + n)) (mac_subheader_long lcid (length pdu) @ pdu @ y) m = \<dots>"
    by (simp add: eval_nat_numeral)
  have len: "length (mac_subpdu (lcid, pdu)) + n = Suc (2 + length pdu + n)"
    by (simp add: mac_subpdu_def)
  show ?thesis
    unfolding len nr_ue_process_mac_pdu.simps
    unfolding mac_subpdu_def fst_conv snd_conv append_assoc sub rbind_assoc by simp
qed

lemma process_sdus:
  assumes "\<forall>(lcid, pdu) \<in> set ps. 1 \<le> lcid \<and> lcid < N \<and> length pdu < 65536" "N \<le> 0x2F"
  shows "nr_ue_process_mac_pdu node N frame (length (concat (map mac_subpdu ps)) + n) (concat (map mac_subpdu ps) @ y) m =
    rbind (ue_feed node ps m) (nr_ue_process_mac_pdu node N frame n y)"
  using assms
proof (induction ps arbitrary: m)
  case (Cons p ps)
  obtain lcid pdu where p: "p = (lcid, pdu)"
    by fastforce
  have IH: "nr_ue_process_mac_pdu node N frame (length (concat (map mac_subpdu ps)) + n)
      (concat (map mac_subpdu ps) @ y) m = rbind (ue_feed node ps m) (nr_ue_process_mac_pdu node N frame n y)" for m
    using Cons by simp
  show ?case
    using process_sdu [of lcid N pdu node frame "length (concat (map mac_subpdu ps)) + n" "concat (map mac_subpdu ps) @ y" m]
      Cons.prems by (simp add: p IH rbind_assoc add.assoc)
qed simp

section \<open>The loop of the gNB\<close>

text \<open>
  \<open>rlc_served node rnti s ps s'\<close>: from \<open>s\<close>, requests of MAC for the UE lead to \<open>s'\<close>, and \<open>ps\<close> are the PDUs
  RLC returned, with their logical channels.
\<close>

inductive rlc_served :: "node \<Rightarrow> int \<Rightarrow> rlc_api \<Rightarrow> (nat \<times> byte list) list \<Rightarrow> rlc_api \<Rightarrow> bool" for node rnti where
  none: "rlc_served node rnti s [] s"
| empty: "mac_rlc_data_req node rnti (int lcid) b s = Inr (0, b', s1) \<Longrightarrow> rlc_served node rnti s1 ps s2 \<Longrightarrow>
    rlc_served node rnti s ps s2"
| pdu: "mac_rlc_data_req node rnti (int lcid) b s = Inr (n, b', s1) \<Longrightarrow> n \<noteq> 0 \<Longrightarrow> rlc_served node rnti s1 ps s2 \<Longrightarrow>
    rlc_served node rnti s ((lcid, take (nat n) b') # ps) s2"

lemma rlc_served_append:
  "rlc_served node rnti s ps s1 \<Longrightarrow> rlc_served node rnti s1 qs s2 \<Longrightarrow> rlc_served node rnti s (ps @ qs) s2"
  by (induction rule: rlc_served.induct) (auto intro: rlc_served.intros)

text \<open>What has been put into the block so far: the subPDUs of what RLC returned.\<close>

definition filled :: "node \<Rightarrow> int \<Rightarrow> nat list \<Rightarrow> byte list \<Rightarrow> rlc_api \<Rightarrow> byte list \<Rightarrow> byte list \<Rightarrow> rlc_api \<Rightarrow> bool" where
  "filled node rnti L rest s out rest' s' \<longleftrightarrow>
     length out + length rest' = length rest \<and>
     (\<exists>ps. rlc_served node rnti s ps s' \<and> out = concat (map mac_subpdu ps) \<and> (\<forall>p \<in> set ps. fst p \<in> set L))"

lemma filled_none [simp]: "length rest' = length rest \<Longrightarrow> filled node rnti L rest s [] rest' s"
  by (auto simp: filled_def intro: rlc_served.none)

lemma filled_append:
  assumes "filled node rnti L a s out b s1" "filled node rnti L b s1 out' c s2"
  shows "filled node rnti L a s (out @ out') c s2"
proof -
  obtain ps qs where 1: "rlc_served node rnti s ps s1" "out = concat (map mac_subpdu ps)" "\<forall>p \<in> set ps. fst p \<in> set L"
    and 2: "rlc_served node rnti s1 qs s2" "out' = concat (map mac_subpdu qs)" "\<forall>p \<in> set qs. fst p \<in> set L"
    using assms by (auto simp: filled_def)
  have "rlc_served node rnti s (ps @ qs) s2"
    using 1(1) 2(1) by (rule rlc_served_append)
  then show ?thesis
    using assms 1 2 unfolding filled_def by (intro conjI exI [of _ "ps @ qs"]) auto
qed

lemma filled_Cons: "filled node rnti L a s out b s' \<Longrightarrow> filled node rnti (c # L) a s out b s'"
  by (auto simp: filled_def)

lemma filled_single: "filled node rnti [c] a s out b s' \<Longrightarrow> filled node rnti (c # L) a s out b s'"
  by (auto simp: filled_def)

lemma dl_ndata_le: "dl_ndata n room \<le> room"
  by (auto simp: dl_ndata_def)

lemma dlsch_lc_filled:
  "dlsch_lc fuel node rnti lcid n rest s = Inr (out, rest', k, s') \<Longrightarrow> filled node rnti [lcid] rest s out rest' s'"
proof (induction fuel arbitrary: rest s out rest' k s')
  case (Suc fuel)
  let ?n = "dl_ndata n (length rest - 3)"
  show ?case
  proof (cases "length rest > 4")
    case True
    then obtain len data s1 where req: "mac_rlc_data_req node rnti (int lcid) (take ?n (drop 3 rest)) s = Inr (len, data, s1)"
      and go: "(if len = 0 then Inr ([], take 3 rest @ data @ drop (3 + ?n) rest, 0, s1)
        else rbind (dlsch_lc fuel node rnti lcid n (drop (nat len) data @ drop (3 + ?n) rest) s1)
          (\<lambda>(out, rest, lcid_bytes, s).
            Inr (mac_subheader_long lcid (nat len) @ take (nat len) data @ out, rest, len + lcid_bytes, s))) =
        Inr (out, rest', k, s')"
      using Suc.prems by (auto simp: Let_def elim!: rbind_InrE)
    have n: "?n \<le> length rest - 3"
      by (rule dl_ndata_le)
    have fit: "0 \<le> len" "nat len \<le> ?n" "length data = ?n"
      using mac_rlc_data_req_fits [OF req] n by (auto simp: fits_def)
    show ?thesis
    proof (cases "len = 0")
      case len: True
      have "rlc_served node rnti s [] s1"
        using req unfolding len by (rule rlc_served.empty) (rule rlc_served.none)
      then show ?thesis
        using go len fit n True by (auto simp: filled_def intro!: exI [of _ "[]"])
    next
      case False
      obtain out1 k1 where rec: "dlsch_lc fuel node rnti lcid n (drop (nat len) data @ drop (3 + ?n) rest) s1 =
          Inr (out1, rest', k1, s')"
        and out: "out = mac_subheader_long lcid (nat len) @ take (nat len) data @ out1"
        using go False by (auto elim!: rbind_InrE)
      have "rlc_served node rnti s [(lcid, take (nat len) data)] s1"
        using req False by (rule rlc_served.pdu) (rule rlc_served.none)
      moreover have "mac_subpdu (lcid, take (nat len) data) = mac_subheader_long lcid (nat len) @ take (nat len) data"
        using fit by (simp add: mac_subpdu_def)
      ultimately have "filled node rnti [lcid] rest s (mac_subheader_long lcid (nat len) @ take (nat len) data)
          (drop (nat len) data @ drop (3 + ?n) rest) s1"
        using fit n True by (auto simp: filled_def intro!: exI [of _ "[(lcid, take (nat len) data)]"])
      from filled_append [OF this Suc.IH [OF rec]] show ?thesis
        by (simp add: out)
    qed
  qed (use Suc.prems in simp)
qed simp

lemma dlsch_lcs_filled:
  "dlsch_lcs node L u rest s = Inr (out, rest', u', s') \<Longrightarrow>
   filled node (du_rnti u) L rest s out rest' s' \<and> (\<exists>f. u' = u\<lparr>du_lc_bytes := f\<rparr>)"
proof (induction L arbitrary: u rest s out rest' u' s')
  case (Cons lcid L)
  let ?n = "sr_bytes_in_buffer (du_rlc_status u lcid)"
  show ?case
  proof (cases "?n = 0")
    case True
    then show ?thesis
      using Cons.IH Cons.prems by (auto simp: Let_def intro: filled_Cons)
  next
    case False
    then obtain out1 rest1 k s1 out2 f where 1: "dlsch_lc (Suc (length rest)) node (du_rnti u) lcid ?n rest s = Inr (out1, rest1, k, s1)"
      and 2: "dlsch_lcs node L (u\<lparr>du_lc_bytes := f\<rparr>) rest1 s1 = Inr (out2, rest', u', s')" and out: "out = out1 @ out2"
      using Cons.prems by (auto simp: Let_def simp del: dlsch_lc.simps elim!: rbind_InrE)
    have "filled node (du_rnti u) (lcid # L) rest s out1 rest1 s1"
      using dlsch_lc_filled [OF 1] by (rule filled_single)
    moreover have "filled node (du_rnti u) (lcid # L) rest1 s1 out2 rest' s'"
      using Cons.IH [OF 2] by (auto intro: filled_Cons)
    moreover have "\<exists>f. u' = u\<lparr>du_lc_bytes := f\<rparr>"
      using Cons.IH [OF 2] by auto
    ultimately show ?thesis
      using filled_append out by blast
  qed
next
  case Nil
  then show ?case
    by (auto intro!: exI [of _ "du_lc_bytes u"])
qed

section \<open>The control elements of a block\<close>

text \<open>
  The elements the scheduler may have asked for, except that of CSI-RS and CSI-IM resource sets. The fields of
  \<^verbatim>\<open>uint8_t\<close> are in their range.
\<close>

definition ces_readable :: "mac_ce_ctrl \<Rightarrow> bool" where
  "ces_readable c \<longleftrightarrow> cc_csi_im c = None \<and>
     (\<forall>p. cc_pdsch_TCI_States_ActDeact c = Some p \<longrightarrow> ss_highest p < 256) \<and>
     (\<forall>p. cc_aperi_CSI_trigger c = Some p \<longrightarrow> ss_highest p < 256)"

definition ue_ta :: "byte \<Rightarrow> int \<Rightarrow> int option \<Rightarrow> ue_mac \<Rightarrow> ue_mac" where
  "ue_ta junk tag_Id ta m = (case ta of None \<Rightarrow> m | Some cmd \<Rightarrow> m\<lparr>mu_ta := ta_received junk tag_Id cmd\<rparr>)"

lemma process_ces:
  assumes "nr_write_ce_dlsch_pdu junk tag_Id ta c 255 None = Inr ces" "ces_readable c"
  shows "nr_ue_process_mac_pdu node N frame (length ces + n) (ces @ y) m =
    nr_ue_process_mac_pdu node N frame n y (ue_ta (cs_ta junk) tag_Id ta m)"
proof -
  obtain x1 x3 x4 x5 x6 x7 where x1: "ce_opt (ce_ta (cs_ta junk) tag_Id) ta = Inr x1"
    and x: "ce_opt (\<lambda>p. Inr (ce_tci_pdcch p)) (cc_pdcch_state_ind c) = Inr x3"
      "ce_opt (\<lambda>p. Inr (ce_csi_reporting (cs_csi junk) p)) (cc_SP_CSI_reporting_pucch c) = Inr x4"
      "ce_opt (ce_states 0x35) (cc_pdsch_TCI_States_ActDeact c) = Inr x5"
      "ce_opt (ce_states 0x36) (cc_aperi_CSI_trigger c) = Inr x6"
      "ce_opt (\<lambda>p. Inr (ce_zp_csi_rs p)) (cc_sp_zp_csi_rs c) = Inr x7"
    and ces: "ces = x1 @ x3 @ x4 @ x5 @ x6 @ x7"
    using assms unfolding nr_write_ce_dlsch_pdu_def ces_readable_def
    by (elim rbind_InrE) (simp add: ce_opt_def [of _ None])
  have "skipped node N frame x3" "skipped node N frame x4" "skipped node N frame x7"
    using x(1,2,5) by (auto elim!: ce_opt_skipped intro: tci_pdcch_skipped csi_reporting_skipped zp_csi_rs_skipped)
  moreover have "skipped node N frame x5"
    by (rule ce_opt_skipped [OF x(3)], rule states_skipped) (use assms(2) in \<open>auto simp: ces_readable_def\<close>)
  moreover have "skipped node N frame x6"
    by (rule ce_opt_skipped [OF x(4)], rule states_skipped) (use assms(2) in \<open>auto simp: ces_readable_def\<close>)
  ultimately have skip: "skipped node N frame (x3 @ x4 @ x5 @ x6 @ x7)"
    by (intro skipped_append)
  have "nr_ue_process_mac_pdu node N frame (length x1 + k) (x1 @ z) m =
      nr_ue_process_mac_pdu node N frame k z (ue_ta (cs_ta junk) tag_Id ta m)" for k z
    using x1 process_ta by (cases ta) (auto simp: ce_opt_def ue_ta_def)
  from this [of "length (x3 @ x4 @ x5 @ x6 @ x7) + n" "(x3 @ x4 @ x5 @ x6 @ x7) @ y"] skip show ?thesis
    unfolding ces skipped_def by (simp add: add.assoc)
qed

section \<open>The block\<close>

lemma padding_byte: "mac_lcid 0x3F = 0x3F"
  by (simp add: mac_lcid_def)

lemma process_padding: "nr_ue_process_mac_pdu node N frame (length (dlsch_padding k)) (dlsch_padding k @ y) m = Inr m"
  by (cases k) (simp_all add: dlsch_padding_def mac_subheader_fixed_def ue_mac_subpdu_def padding_byte)

lemma dlsch_padding_length [simp]: "length (dlsch_padding k) = k"
  by (cases k) (simp_all add: dlsch_padding_def)

lemma process_random:
  assumes "dlsch_random rnd rest = (out, rest')"
  shows "length out + length rest' = length rest"
    "nr_ue_process_mac_pdu node N frame (length rest) (out @ dlsch_padding (length rest') @ y) m = Inr m"
proof -
  show "length out + length rest' = length rest"
    using assms by (auto simp: dlsch_random_def split: if_splits)
  show "nr_ue_process_mac_pdu node N frame (length rest) (out @ dlsch_padding (length rest') @ y) m = Inr m"
  proof (cases "length rest > 3")
    case True
    then obtain z where out: "out = mac_subheader_long 0x3F (length rest - 3) @ z" and [simp]: "rest' = []"
      using assms by (auto simp: dlsch_random_def)
    obtain k where k: "length rest = Suc k"
      using True by (cases "length rest") auto
    have "mac_lcid (0x40 OR word_of_nat 0x3F) = 0x3F"
      by (rule mac_lcid_long) simp
    then have "byte_at (out @ dlsch_padding 0 @ y) 0 = Inr (0x40 OR word_of_nat 0x3F)" "mac_lcid (0x40 OR word_of_nat 0x3F) = 0x3F"
      by (simp_all add: out mac_subheader_long_def del: word_of_nat_eq_0_iff)
    then show ?thesis
      unfolding k by (simp add: ue_mac_subpdu_def)
  next
    case False
    then show ?thesis
      using assms process_padding [of node N frame "length rest" y m] by (auto simp: dlsch_random_def)
  qed
qed

lemma subpdu_length: "p \<in> set ps \<Longrightarrow> length (snd p) + 3 \<le> length (concat (map mac_subpdu ps))"
  by (induction ps) (auto simp: mac_subpdu_def)

text \<open>The part of a block behind the control elements.\<close>

lemma dlsch_data:
  assumes run: "(if du_num_total_bytes u > 0 then dlsch_lcs node (du_dl_lc_ids u) u rest s
      else if phy_test then Inr (fst (dlsch_random rnd rest), snd (dlsch_random rnd rest), u, s)
      else Inr ([], rest, u, s)) = Inr (out, rest', u1, s')"
    and lcs: "\<forall>lcid \<in> set (du_dl_lc_ids u). 1 \<le> lcid \<and> lcid < N" "N \<le> 0x2F" and len: "length rest \<le> 65536"
  shows "\<exists>ps. rlc_served node (du_rnti u) s ps s' \<and> length out + length rest' = length rest \<and>
    (\<forall>ue frame behind m. nr_ue_process_mac_pdu ue N frame (length rest) (out @ dlsch_padding (length rest') @ behind) m =
      ue_feed ue ps m)"
proof (cases "du_num_total_bytes u > 0")
  case True
  then have "filled node (du_rnti u) (du_dl_lc_ids u) rest s out rest' s'"
    using run dlsch_lcs_filled by auto
  then obtain ps where ps: "rlc_served node (du_rnti u) s ps s'" "out = concat (map mac_subpdu ps)"
    "\<forall>p \<in> set ps. fst p \<in> set (du_dl_lc_ids u)" "length out + length rest' = length rest"
    by (auto simp: filled_def)
  have "\<forall>(lcid, pdu) \<in> set ps. 1 \<le> lcid \<and> lcid < N \<and> length pdu < 65536"
    using ps(3) lcs(1) subpdu_length [of _ ps] ps(2,4) len by fastforce
  from process_sdus [OF this lcs(2), where n = "length rest'", folded ps(2), unfolded ps(4)]
  have "nr_ue_process_mac_pdu ue N f (length rest) (out @ dlsch_padding (length rest') @ behind) m = ue_feed ue ps m"
    for ue f behind m
    using process_padding [of ue N f "length rest'"] by (simp add: rbind_def split: sum.splits)
  then show ?thesis
    using ps(1,4) by blast
next
  case False
  have "length out + length rest' = length rest \<and> s' = s \<and>
    (\<forall>ue frame' behind m. nr_ue_process_mac_pdu ue N frame' (length rest) (out @ dlsch_padding (length rest') @ behind) m = Inr m)"
  proof (cases phy_test)
    case True
    then have "dlsch_random rnd rest = (out, rest')" "s' = s"
      using run False by auto
    then show ?thesis
      using process_random by blast
  next
    case False
    then show ?thesis
      using run \<open>\<not> du_num_total_bytes u > 0\<close> process_padding [of _ N _ "length rest"] by auto
  qed
  then show ?thesis
    by (intro exI [of _ "[]"]) (auto intro: rlc_served.none)
qed

text \<open>A sample: the UE 7 with the bearer on channel 4, a timing advance to be sent and an SDU in RLC.\<close>

definition mac_sample_ue :: mac_dl_ue where
  "mac_sample_ue = \<lparr>du_rnti = 7, du_dl_lc_ids = [4], du_rlc_status = (\<lambda>_. \<lparr>sr_bytes_in_buffer = 0, sr_pdus_in_buffer = 0,
     sr_head_sdu_creation_time = 0, sr_head_sdu_remaining_size_to_send = 0, sr_head_sdu_is_segmented = False\<rparr>),
     du_num_total_bytes = 0, du_dl_pdus_total = 0, du_rrc_processing_timer = 0, du_ta_apply = True, du_ta_update = 31,
     du_ta_frame = 0, du_mac_ce_ctrl = no_ces, du_lc_bytes = (\<lambda>_. 0), du_total_bytes = 0, du_current_bytes = 0\<rparr>"

definition mac_sample_sdu :: "byte list \<Rightarrow> rlc_api \<Rightarrow> rlc_api res" where
  "mac_sample_sdu sdu s = rlc_data_req rlc_sample_node (ctxt_zero\<lparr>cx_rnti := 7\<rparr>) False 1 0 sdu s"

definition mac_sample :: "(mac_dl_ue \<times> rlc_api) res" where
  "mac_sample =
     rbind rlc_sample (\<lambda>s. rbind (mac_sample_sdu [1, 2, 3] s) (\<lambda>s.
     rbind (nr_store_dlsch_buffer rlc_sample_node [mac_sample_ue] s) (\<lambda>(us, s). Inr (hd us, s))))"

definition mac_sample_mac :: "rlc_api \<Rightarrow> ue_mac" where
  "mac_sample_mac s = \<lparr>mu_module_id = 0, mu_gNB_index = 0, mu_crnti = 7,
     mu_ra = \<lparr>ra_state = RA_SUCCEEDED, ra_cfra = False, ra_t_crnti = 0, ra_RA_active = False,
       ra_generate_nr_prach = RA_UE_IDLE, ra_RA_window_cnt = 0, ra_timer_active = False, ra_cont_res_id = replicate 6 0\<rparr>,
     mu_ta = \<lparr>ta_apply_ta = False, ta_command = 0, ta_tag_id = 0\<rparr>, mu_ccch = [], mu_rlc = s\<rparr>"

definition mac_sample_rx :: "ue_mac res" where
  "mac_sample_rx = rbind rlc_sample (\<lambda>s. Inr (mac_sample_mac s))"



text \<open>
  Filling a block ends. A round of the loop takes at least four bytes of the block, or it is the last: the
  loop over the PDUs of a logical channel fails to end only if a request to RLC does.
\<close>

lemma dlsch_loop_ends:
  assumes "length rest < fuel" and "dlsch_lc fuel node rnti lcid n rest s = Inl Divergence"
  shows "\<exists>b s'. mac_rlc_data_req node rnti (int lcid) b s' = Inl Divergence"
  using assms
proof (induction fuel arbitrary: rest s)
  case (Suc fuel)
  let ?n = "dl_ndata n (length rest - 3)"
  show ?case
  proof (cases "mac_rlc_data_req node rnti (int lcid) (take ?n (drop 3 rest)) s")
    case (Inr r)
    obtain len data s1 where r: "r = (len, data, s1)"
      by (metis prod.exhaust)
    have "len \<noteq> 0" "length rest > 4"
      and rec: "dlsch_lc fuel node rnti lcid n (drop (nat len) data @ drop (3 + ?n) rest) s1 = Inl Divergence"
      using Suc.prems(2) Inr r by (auto simp: Let_def rbind_eq_Inl split: if_splits)
    moreover have "0 \<le> len" "nat len \<le> ?n" "length data = ?n" "?n \<le> length rest - 3"
      using mac_rlc_data_req_fits [OF Inr [unfolded r]] dl_ndata_le [of n "length rest - 3"] by (auto simp: fits_def)
    ultimately have "length (drop (nat len) data @ drop (3 + ?n) rest) < fuel"
      using Suc.prems(1) by simp
    then show ?thesis
      using Suc.IH rec by blast
  next
    case (Inl e)
    then have "e = Divergence"
      using Suc.prems(2) by (auto simp: Let_def split: if_splits)
    then show ?thesis
      using Inl by blast
  qed
qed simp

text \<open>
  C32: the length of an SDU is not compared with the length of the PDU. When the last subheader of a transport block
  announces more bytes than the block has left, the UE hands RLC a PDU of the announced length, made up from the
  memory behind the block.
\<close>

theorem ue_mac_reads_behind_block:
  assumes "1 \<le> lcid" and "lcid < N" and "N \<le> 0x2F" and "l < 65536" and "length x < l" and "length x + length behind \<ge> l"
  shows "nr_ue_process_mac_pdu node N frame (length (mac_subheader_long lcid l @ x)) (mac_subheader_long lcid l @ x @ behind) m =
    ue_feed node [(lcid, x @ take (l - length x) behind)] m"
proof -
  let ?pdu = "x @ take (l - length x) behind" and ?n = "length x"
  have b: "byte_at (mac_subheader_long lcid l @ x @ behind) 0 = Inr (0x40 OR word_of_nat (lcid mod 64))"
    unfolding mac_subheader_long_def append_Cons by (rule byte_at_simps)
  have lc: "mac_lcid (0x40 OR word_of_nat (lcid mod 64)) = lcid"
    using assms by simp
  have "lcid \<noteq> 0" "lcid < 0x2F"
    using assms by simp_all
  then have "ue_mac_subpdu node N frame (Suc (2 + ?n)) (mac_subheader_long lcid l @ x @ behind) m =
      ue_mac_sdu node N lcid (Suc (2 + ?n)) (mac_subheader_long lcid l @ x @ behind) m"
    unfolding ue_mac_subpdu_def b rbind_Inr Let_def lc by simp
  also have "\<dots> = rbind (mac_rlc_data_ind node (mu_module_id m) (mu_crnti m) (mu_gNB_index m) False (int lcid) ?pdu (mu_rlc m))
      (\<lambda>s. Inr (Mac_next (2 + l) (m\<lparr>mu_rlc := s\<rparr>)))"
    using assms by (simp add: ue_mac_sdu_def)
  finally have sub: "ue_mac_subpdu node N frame (Suc (2 + ?n)) (mac_subheader_long lcid l @ x @ behind) m = \<dots>" .
  have n: "length (mac_subheader_long lcid l @ x) = Suc (2 + ?n)" "2 + ?n - (2 + l) = 0"
    using assms(5) by simp_all
  show ?thesis
    unfolding n(1) nr_ue_process_mac_pdu.simps sub rbind_assoc using n(2) by simp
qed

theorem ue_mac_reads_behind_block_witness:
  "nr_ue_process_mac_pdu rlc_sample_node 14 0 (length (mac_subheader_long 4 4 @ [0, 1]))
     (mac_subheader_long 4 4 @ [0, 1] @ [0xAA, 0xBB, 0xCC]) (mac_sample_mac rlc_start) =
   ue_feed rlc_sample_node [(4, [0, 1, 0xAA, 0xBB])] (mac_sample_mac rlc_start)"
proof -
  have eq: "[0, 1] @ take (4 - length [0 :: byte, 1]) [0xAA, 0xBB, 0xCC] = [0, 1, 0xAA, 0xBB]"
    by simp
  have "(1 :: nat) \<le> 4" "(4 :: nat) < 14" "(14 :: nat) \<le> 0x2F" "(4 :: nat) < 65536" "length [0 :: byte, 1] < 4"
    "4 \<le> length [0 :: byte, 1] + length [0xAA :: byte, 0xBB, 0xCC]"
    by simp_all
  from ue_mac_reads_behind_block [OF this] show ?thesis
    unfolding eq .
qed

lemma bit7_unat: "bit (b :: byte) 7 \<Longrightarrow> 128 \<le> unat b"
  using bit_unsigned_iff [of b 7, where 'a = nat] by (cases "unat b < 128") (simp_all add: bit_iff_odd)

text \<open>
  C33: the activation of CSI-IM resource sets hides what follows. The gNB writes the element without a length, the
  UE takes the byte behind its first for one. An activation has the highest bit of that byte set, so that the UE
  passes over at least 130 bytes: from a block that has no more than that left, it takes nothing, whatever RLC
  PDUs follow the element.
\<close>

theorem ue_mac_misreads_csi_im:
  assumes "ce_csi_im c = Inr x" and "im_act_deact c" and "length x + n \<le> 130"
  shows "nr_ue_process_mac_pdu node N frame (length x + n) (x @ y) m = Inr m"
proof -
  obtain b z where x: "x = 0x37 # b # z"
    and b: "b = word_of_int (take_bit 2 (im_bwp_id c) OR push_bit 2 (take_bit 5 (im_serv_cellid c)) OR push_bit 7 1)"
    using assms(1,2) by (auto simp: ce_csi_im_def mac_subheader_fixed_def split: if_splits)
  have "bit b 7"
    unfolding b by (simp only: bit_word_of_int_iff) (simp add: bit_or_iff bit_push_bit_iff)
  then have l: "128 \<le> unat b"
    by (rule bit7_unat)
  have "\<not> bit (0x37 :: byte) 6"
    by (simp add: bit_iff_odd_drop_bit drop_bit_eq_div)
  then have "get_mac_len (length x + n) (x @ y) = Inr (Some (unat b, 2))"
    unfolding x append_Cons by (rule get_mac_len_F(2) [rotated]) simp
  then have sub: "ue_mac_subpdu node N frame (length x + n) (x @ y) m = Inr (Mac_next (Suc (unat b)) m)"
    by (simp add: ue_mac_subpdu_def ue_mac_variable_def x mac_lcid_def)
  obtain k where k: "length x + n = Suc k"
    using x by simp
  have "k - Suc (unat b) = 0"
    using assms(3) l k by simp
  then show ?thesis
    using sub unfolding k by simp
qed

theorem ue_mac_misreads_csi_im_witness:
  "ce_csi_im \<lparr>im_act_deact = True, im_serv_cellid = 0, im_bwp_id = 1, im_im = False, im_csi_im_rsc_id = 0,
     im_nzp_csi_rsc_id = 3, im_nb_tci_resource_set_id = 0, im_tci_state_id = []\<rparr> = Inr [0x37, 0x81, 3] \<and>
   nr_ue_process_mac_pdu rlc_sample_node 14 0 (length [0x37 :: byte, 0x81, 3] + 5) ([0x37, 0x81, 3] @ mac_subpdu (4, [0, 1]))
     (mac_sample_mac rlc_start) = Inr (mac_sample_mac rlc_start)"
proof -
  have c: "ce_csi_im \<lparr>im_act_deact = True, im_serv_cellid = 0, im_bwp_id = 1, im_im = False, im_csi_im_rsc_id = 0,
     im_nzp_csi_rsc_id = 3, im_nb_tci_resource_set_id = 0, im_tci_state_id = []\<rparr> = Inr [0x37, 0x81, 3]"
    by code_simp
  have "length [0x37 :: byte, 0x81, 3] + 5 \<le> 130"
    by simp
  from c ue_mac_misreads_csi_im [OF c _ this] show ?thesis
    by (intro conjI) (assumption | simp only: csi_rs_im.simps simp_thms)+
qed

end
