(* ===== verification/NR_PDCP_Security.thy ===== *)
theory NR_PDCP_Security
  imports L2_Prelude
begin

text \<open>
  Ciphering and integrity of PDCP (\<^verbatim>\<open>nr_pdcp_security_nea2.c\<close>, \<^verbatim>\<open>nr_pdcp_integrity_nia2.c\<close>). AES in
  counter mode is nettle's \<^verbatim>\<open>nettle_ctr_crypt\<close> and the MAC is OpenSSL's \<^verbatim>\<open>CMAC_*\<close>; both are parameters,
  the fields of a record \<open>crypto\<close>, and \<open>crypto_ok\<close> states what their documentation promises. A context
  of either library is the key it was created with.
\<close>

section \<open>The libraries\<close>

record crypto =
  ctr_crypt :: "byte list \<Rightarrow> byte list \<Rightarrow> byte list \<Rightarrow> byte list"
  cmac :: "byte list \<Rightarrow> byte list \<Rightarrow> byte list"

text \<open>
  \<open>ctr_crypt key ctr data\<close>: counter mode with the initial counter block \<open>ctr\<close>; the same call encrypts and
  decrypts. \<open>cmac key message\<close>: 128 bits.
\<close>

definition crypto_ok :: "crypto \<Rightarrow> bool" where
  "crypto_ok C \<longleftrightarrow>
     (\<forall>key ctr data. length (ctr_crypt C key ctr data) = length data \<and>
        ctr_crypt C key ctr (ctr_crypt C key ctr data) = data) \<and>
     (\<forall>key message. length (cmac C key message) = 16)"

section \<open>Integrity\<close>

definition compute_t :: "32 word \<Rightarrow> int \<Rightarrow> int \<Rightarrow> byte list" where
  "compute_t count bearer direction =
     [ucast (drop_bit 24 count AND 255), ucast (drop_bit 16 count AND 255),
      ucast (drop_bit 8 count AND 255), ucast (count AND 255),
      word_of_int (push_bit 3 (bearer - 1) OR push_bit 2 direction)] @ replicate (8 - 5) 0"

definition nr_pdcp_integrity_nia2_init :: "byte list \<Rightarrow> byte list" where
  "nr_pdcp_integrity_nia2_init integrity_key = take 16 integrity_key"

definition nr_pdcp_integrity_nia2_integrity ::
  "crypto \<Rightarrow> byte list \<Rightarrow> byte list \<Rightarrow> int \<Rightarrow> 32 word \<Rightarrow> int \<Rightarrow> byte list" where
  "nr_pdcp_integrity_nia2_integrity C integrity_context buffer bearer count direction =
     (let mac = cmac C integrity_context (compute_t count bearer direction @ buffer)
      in take 4 mac)"

section \<open>Ciphering\<close>

definition nr_pdcp_security_nea2_init :: "byte list \<Rightarrow> byte list" where
  "nr_pdcp_security_nea2_init ciphering_key = take 16 ciphering_key"

definition nea2_t :: "32 word \<Rightarrow> int \<Rightarrow> int \<Rightarrow> byte list" where
  "nea2_t count bearer direction =
     [ucast (drop_bit 24 count AND 255), ucast (drop_bit 16 count AND 255),
      ucast (drop_bit 8 count AND 255), ucast (count AND 255),
      word_of_int (push_bit 3 (bearer - 1) OR push_bit 2 direction)] @ replicate (16 - 5) 0"

definition nr_pdcp_security_nea2_cipher ::
  "crypto \<Rightarrow> byte list \<Rightarrow> byte list \<Rightarrow> int \<Rightarrow> 32 word \<Rightarrow> int \<Rightarrow> byte list" where
  "nr_pdcp_security_nea2_cipher C security_context buffer bearer count direction =
     ctr_crypt C security_context (nea2_t count bearer direction) buffer"

section \<open>Lemmas\<close>

lemma nia2_length [simp]:
  "crypto_ok C \<Longrightarrow> length (nr_pdcp_integrity_nia2_integrity C k b bearer count d) = 4"
  by (simp add: crypto_ok_def nr_pdcp_integrity_nia2_integrity_def)

lemma nea2_length [simp]:
  "crypto_ok C \<Longrightarrow> length (nr_pdcp_security_nea2_cipher C k b bearer count d) = length b"
  by (simp add: crypto_ok_def nr_pdcp_security_nea2_cipher_def)

lemma nea2_inverse [simp]:
  "crypto_ok C \<Longrightarrow> nr_pdcp_security_nea2_cipher C k (nr_pdcp_security_nea2_cipher C k b bearer count d)
     bearer count d = b"
  by (simp add: crypto_ok_def nr_pdcp_security_nea2_cipher_def)

end
