(* ===== verification/NR_PDCP_Entity.thy ===== *)
theory NR_PDCP_Entity
  imports NR_PDCP_Security
begin

text \<open>
  The PDCP entity (\<^verbatim>\<open>nr_pdcp_entity.[ch]\<close>, \<^verbatim>\<open>nr_pdcp_sdu.[ch]\<close>). COUNT values are \<open>32 word\<close>s as in the
  source. The callbacks \<^verbatim>\<open>deliver_sdu\<close> and \<^verbatim>\<open>deliver_pdu\<close> are recorded in \<open>pd_out\<close>. The pair of a context
  and its \<^verbatim>\<open>free_*\<close> pointer is an option, \<open>None\<close> where the pointer is NULL. \<^verbatim>\<open>recv_pdu\<close> deciphers in the
  caller's buffer; its callers drop that buffer afterwards, so it is not part of the result.
\<close>

section \<open>SDUs\<close>

record nr_pdcp_sdu =
  ps_count :: "32 word"
  ps_buffer :: "byte list"
  ps_size :: int

definition nr_pdcp_new_sdu :: "32 word \<Rightarrow> byte list \<Rightarrow> nr_pdcp_sdu" where
  "nr_pdcp_new_sdu count buffer = \<lparr>ps_count = count, ps_buffer = buffer, ps_size = int (length buffer)\<rparr>"

fun nr_pdcp_sdu_list_add :: "nr_pdcp_sdu list \<Rightarrow> nr_pdcp_sdu \<Rightarrow> nr_pdcp_sdu list" where
  "nr_pdcp_sdu_list_add [] sdu = [sdu]"
| "nr_pdcp_sdu_list_add (cur # l) sdu =
     (if ps_count sdu < ps_count cur then sdu # cur # l else cur # nr_pdcp_sdu_list_add l sdu)"

fun nr_pdcp_sdu_in_list :: "nr_pdcp_sdu list \<Rightarrow> 32 word \<Rightarrow> bool" where
  "nr_pdcp_sdu_in_list [] count = False"
| "nr_pdcp_sdu_in_list (cur # l) count = (ps_count cur = count \<or> nr_pdcp_sdu_in_list l count)"

section \<open>State\<close>

datatype nr_pdcp_entity_type = NR_PDCP_DRB_AM | NR_PDCP_DRB_UM | NR_PDCP_SRB

datatype pdcp_event = Pdcp_sdu "byte list" | Pdcp_pdu "byte list" int

record nr_pdcp_entity =
  pd_type :: nr_pdcp_entity_type
  pd_rb_id :: int
  pd_pdusession_id :: int
  pd_has_sdap :: bool
  pd_has_sdapULheader :: bool
  pd_has_sdapDLheader :: bool
  pd_sn_size :: nat
  pd_t_reordering :: int
  pd_discard_timer :: int
  pd_sn_max :: int
  pd_window_size :: int
  pd_tx_next :: "32 word"
  pd_rx_next :: "32 word"
  pd_rx_deliv :: "32 word"
  pd_rx_reord :: "32 word"
  pd_t_current :: "64 word"
  pd_t_reordering_start :: int
  pd_has_ciphering :: bool
  pd_has_integrity :: bool
  pd_ciphering_algorithm :: int
  pd_integrity_algorithm :: int
  pd_ciphering_key :: "byte list"
  pd_integrity_key :: "byte list"
  pd_security_context :: "byte list option"
  pd_integrity_context :: "byte list option"
  pd_is_gnb :: bool
  pd_rx_list :: "nr_pdcp_sdu list"
  pd_rx_size :: int
  pd_rx_maxsize :: int
  pd_out :: "pdcp_event list"

text \<open>A 64-bit time stored in an \<^verbatim>\<open>int\<close>, as \<^verbatim>\<open>t_reordering_start\<close> is.\<close>

definition int_of_time :: "64 word \<Rightarrow> int" where
  "int_of_time t = signed_take_bit 31 (uint t)"

section \<open>Security\<close>

definition pdcp_integrity ::
  "crypto \<Rightarrow> nr_pdcp_entity \<Rightarrow> byte list \<Rightarrow> 32 word \<Rightarrow> int \<Rightarrow> byte list res" where
  "pdcp_integrity C entity buffer count direction =
     rbind (of_opt Null_pointer (pd_integrity_context entity)) (\<lambda>ctx.
       Inr (nr_pdcp_integrity_nia2_integrity C ctx buffer (pd_rb_id entity) count direction))"

definition pdcp_cipher ::
  "crypto \<Rightarrow> nr_pdcp_entity \<Rightarrow> byte list \<Rightarrow> 32 word \<Rightarrow> int \<Rightarrow> byte list res" where
  "pdcp_cipher C entity buffer count direction =
     rbind (of_opt Null_pointer (pd_security_context entity)) (\<lambda>ctx.
       Inr (nr_pdcp_security_nea2_cipher C ctx buffer (pd_rb_id entity) count direction))"

text \<open>
  \<open>-1\<close> keeps an algorithm, \<open>None\<close> (NULL) keeps a key. A context is created only when an algorithm is
  given.
\<close>

definition nr_pdcp_entity_set_security ::
  "nr_pdcp_entity \<Rightarrow> int \<Rightarrow> byte list option \<Rightarrow> int \<Rightarrow> byte list option \<Rightarrow> nr_pdcp_entity res" where
  "nr_pdcp_entity_set_security entity integrity_algorithm integrity_key ciphering_algorithm ciphering_key =
     (let e = (if integrity_algorithm \<noteq> -1
               then entity\<lparr>pd_integrity_algorithm := integrity_algorithm\<rparr> else entity);
          e = (if ciphering_algorithm \<noteq> -1
               then e\<lparr>pd_ciphering_algorithm := ciphering_algorithm\<rparr> else e);
          e = (case integrity_key of None \<Rightarrow> e | Some k \<Rightarrow> e\<lparr>pd_integrity_key := take 16 k\<rparr>);
          e = (case ciphering_key of None \<Rightarrow> e | Some k \<Rightarrow> e\<lparr>pd_ciphering_key := take 16 k\<rparr>);
          e = (if integrity_algorithm = 0
               then e\<lparr>pd_has_integrity := False, pd_integrity_context := None\<rparr> else e)
      in rbind
           (if integrity_algorithm \<noteq> 0 \<and> integrity_algorithm \<noteq> -1
            then if integrity_algorithm \<noteq> 2 then Inl Exit_fatal
                 else Inr (e\<lparr>pd_has_integrity := True,
                             pd_integrity_context := Some (nr_pdcp_integrity_nia2_init (pd_integrity_key e))\<rparr>)
            else Inr e) (\<lambda>e.
         let e = (if ciphering_algorithm = 0
                  then e\<lparr>pd_has_ciphering := False, pd_security_context := None\<rparr> else e)
         in if ciphering_algorithm \<noteq> 0 \<and> ciphering_algorithm \<noteq> -1
            then if ciphering_algorithm \<noteq> 2 then Inl Exit_fatal
                 else Inr (e\<lparr>pd_has_ciphering := True,
                             pd_security_context := Some (nr_pdcp_security_nea2_init (pd_ciphering_key e))\<rparr>)
            else Inr e))"

section \<open>Delivery\<close>

text \<open>One SDU leaves the list upwards.\<close>

definition pdcp_deliver :: "nr_pdcp_entity \<Rightarrow> nr_pdcp_sdu \<Rightarrow> nr_pdcp_sdu list \<Rightarrow> nr_pdcp_entity" where
  "pdcp_deliver entity cur next =
     entity\<lparr>pd_out := pd_out entity @ [Pdcp_sdu (ps_buffer cur)], pd_rx_list := next,
            pd_rx_size := pd_rx_size entity - ps_size cur\<rparr>"

text \<open>All SDUs starting from \<open>count\<close> up to a discontinuity or the end of the list.\<close>

fun pdcp_deliver_run :: "nr_pdcp_sdu list \<Rightarrow> 32 word \<Rightarrow> nr_pdcp_entity \<Rightarrow> 32 word \<times> nr_pdcp_entity" where
  "pdcp_deliver_run [] count entity = (count, entity)"
| "pdcp_deliver_run (cur # l) count entity =
     (if count = ps_count cur then pdcp_deliver_run l (count + 1) (pdcp_deliver entity cur l)
      else (count, entity))"

fun pdcp_deliver_below :: "nr_pdcp_sdu list \<Rightarrow> 32 word \<Rightarrow> nr_pdcp_entity \<Rightarrow> nr_pdcp_entity" where
  "pdcp_deliver_below [] reord entity = entity"
| "pdcp_deliver_below (cur # l) reord entity =
     (if ps_count cur < reord then pdcp_deliver_below l reord (pdcp_deliver entity cur l) else entity)"

definition pdcp_flush :: "nr_pdcp_entity \<Rightarrow> 32 word \<Rightarrow> nr_pdcp_entity" where
  "pdcp_flush entity count =
     (case pdcp_deliver_run (pd_rx_list entity) count entity of
        (count', e) \<Rightarrow> e\<lparr>pd_rx_deliv := count'\<rparr>)"

text \<open>The timer stops when what it waits for has been delivered, and starts while something is missing.\<close>

definition pdcp_stop_timer :: "nr_pdcp_entity \<Rightarrow> nr_pdcp_entity" where
  "pdcp_stop_timer entity =
     (if pd_t_reordering_start entity \<noteq> 0 \<and> pd_rx_deliv entity \<ge> pd_rx_reord entity
      then entity\<lparr>pd_t_reordering_start := 0\<rparr> else entity)"

definition pdcp_start_timer :: "nr_pdcp_entity \<Rightarrow> nr_pdcp_entity" where
  "pdcp_start_timer entity =
     (if pd_rx_deliv entity < pd_rx_next entity
      then entity\<lparr>pd_rx_reord := pd_rx_next entity,
                  pd_t_reordering_start := int_of_time (pd_t_current entity)\<rparr>
      else entity)"

section \<open>PDUs from below\<close>

text \<open>Byte \<open>i\<close> of the PDU; reading behind its end is undefined.\<close>

definition byte_at :: "byte list \<Rightarrow> nat \<Rightarrow> int res" where
  "byte_at buffer i = (if i < length buffer then Inr (uint (buffer ! i)) else Inl Out_of_bounds)"

text \<open>The received SN and the size of the header.\<close>

definition pdcp_parse_header :: "nr_pdcp_entity \<Rightarrow> byte list \<Rightarrow> (int \<times> nat) res" where
  "pdcp_parse_header entity buffer =
     (if pd_sn_size entity = 12
      then rbind (byte_at buffer 0) (\<lambda>b0. rbind (byte_at buffer 1) (\<lambda>b1.
             Inr (push_bit 8 (b0 AND 0xf) OR b1, 2)))
      else rbind (byte_at buffer 0) (\<lambda>b0. rbind (byte_at buffer 1) (\<lambda>b1. rbind (byte_at buffer 2) (\<lambda>b2.
             Inr (push_bit 16 (b0 AND 0x3) OR push_bit 8 b1 OR b2, 3)))))"

definition pdcp_integrity_size :: "nr_pdcp_entity \<Rightarrow> nat" where
  "pdcp_integrity_size entity =
     (if pd_has_integrity entity \<or> pd_type entity = NR_PDCP_SRB then 4 else 0)"

text \<open>The COUNT of a received SN, from the position of the SN in the window around \<^verbatim>\<open>rx_deliv\<close>.\<close>

definition pdcp_rcvd_count :: "nr_pdcp_entity \<Rightarrow> int \<Rightarrow> 32 word" where
  "pdcp_rcvd_count entity rcvd_sn =
     (let rx_deliv_sn = uint (pd_rx_deliv entity AND word_of_int (pd_sn_max entity));
          rx_deliv_hfn = drop_bit (pd_sn_size entity) (pd_rx_deliv entity);
          rcvd_hfn =
            (if rcvd_sn < rx_deliv_sn - pd_window_size entity then rx_deliv_hfn + 1
             else if rcvd_sn \<ge> rx_deliv_sn + pd_window_size entity then rx_deliv_hfn - 1
             else rx_deliv_hfn)
      in push_bit (pd_sn_size entity) rcvd_hfn OR word_of_int rcvd_sn)"

text \<open>A failed integrity check is logged; the \<^verbatim>\<open>return\<close> behind the log line is commented out.\<close>

definition pdcp_check_integrity :: "crypto \<Rightarrow> nr_pdcp_entity \<Rightarrow> byte list \<Rightarrow> nat \<Rightarrow> 32 word \<Rightarrow> bool res" where
  "pdcp_check_integrity C entity buffer integrity_size rcvd_count =
     (if pd_has_integrity entity
      then rbind (pdcp_integrity C entity (take (length buffer - integrity_size) buffer) rcvd_count
                    (if pd_is_gnb entity then 0 else 1)) (\<lambda>integrity.
             Inr (integrity = drop (length buffer - integrity_size) buffer))
      else Inr True)"

text \<open>The part behind the security functions: the reordering buffer.\<close>

definition pdcp_insert :: "nr_pdcp_entity \<Rightarrow> nr_pdcp_sdu \<Rightarrow> int \<Rightarrow> nr_pdcp_entity" where
  "pdcp_insert entity sdu n =
     (let rcvd_count = ps_count sdu;
          e = entity\<lparr>pd_rx_list := nr_pdcp_sdu_list_add (pd_rx_list entity) sdu,
                     pd_rx_size := pd_rx_size entity + n\<rparr>
      in if rcvd_count \<ge> pd_rx_next e then e\<lparr>pd_rx_next := rcvd_count + 1\<rparr> else e)"

definition pdcp_reorder :: "nr_pdcp_entity \<Rightarrow> byte list \<Rightarrow> nat \<Rightarrow> nat \<Rightarrow> 32 word \<Rightarrow> nr_pdcp_entity" where
  "pdcp_reorder entity buffer header_size integrity_size rcvd_count =
     (if rcvd_count < pd_rx_deliv entity \<or> nr_pdcp_sdu_in_list (pd_rx_list entity) rcvd_count
      then entity
      else
        let size = length buffer;
            sdu = nr_pdcp_new_sdu rcvd_count
                    (take (size - header_size - integrity_size) (drop header_size buffer));
            e = pdcp_insert entity sdu (int size - int header_size);
            e = (if rcvd_count = pd_rx_deliv e then pdcp_flush e (pd_rx_deliv e) else e);
            e = pdcp_stop_timer e
        in if pd_t_reordering_start e = 0 then pdcp_start_timer e else e)"

definition nr_pdcp_entity_recv_pdu :: "crypto \<Rightarrow> nr_pdcp_entity \<Rightarrow> byte list \<Rightarrow> nr_pdcp_entity res" where
  "nr_pdcp_entity_recv_pdu C entity buffer =
     (if length buffer < 1 then Inr entity
      else
        let buffer = (if pd_type entity \<noteq> NR_PDCP_SRB \<and> hd buffer AND 0x80 = 0
                      then (hd buffer OR 128) # tl buffer else buffer)
        in rbind (pdcp_parse_header entity buffer) (\<lambda>(rcvd_sn, header_size).
             let integrity_size = pdcp_integrity_size entity
             in if length buffer < header_size + integrity_size + 1 then Inr entity
                else
                  let rcvd_count = pdcp_rcvd_count entity rcvd_sn
                  in rbind
                       (if pd_has_ciphering entity
                        then rbind (pdcp_cipher C entity (drop header_size buffer) rcvd_count
                                      (if pd_is_gnb entity then 0 else 1)) (\<lambda>b.
                               Inr (take header_size buffer @ b))
                        else Inr buffer) (\<lambda>buffer.
                     rbind (pdcp_check_integrity C entity buffer integrity_size rcvd_count) (\<lambda>_.
                       Inr (pdcp_reorder entity buffer header_size integrity_size rcvd_count)))))"

section \<open>SDUs from above\<close>

definition pdcp_header :: "nr_pdcp_entity \<Rightarrow> int \<Rightarrow> byte list" where
  "pdcp_header entity sn =
     (let dc_bit = (if pd_type entity = NR_PDCP_DRB_AM \<or> pd_type entity = NR_PDCP_DRB_UM
                    then 0x80 else 0)
      in if pd_sn_size entity = 12
         then [word_of_int (dc_bit OR (drop_bit 8 sn AND 0xf)), word_of_int (sn AND 0xff)]
         else [word_of_int (dc_bit OR (drop_bit 16 sn AND 0x3)), word_of_int (drop_bit 8 sn AND 0xff),
               word_of_int (sn AND 0xff)])"

definition nr_pdcp_entity_recv_sdu ::
  "crypto \<Rightarrow> nr_pdcp_entity \<Rightarrow> byte list \<Rightarrow> int \<Rightarrow> nr_pdcp_entity res" where
  "nr_pdcp_entity_recv_sdu C entity buffer sdu_id =
     (let count = pd_tx_next entity;
          sn = uint (pd_tx_next entity AND word_of_int (pd_sn_max entity));
          header = pdcp_header entity sn;
          direction = (if pd_is_gnb entity then 1 else 0)
      in rbind
           (if pd_has_integrity entity
            then pdcp_integrity C entity (header @ buffer) count direction
            else Inr (replicate (pdcp_integrity_size entity) 0)) (\<lambda>mac.
         rbind
           (if pd_has_ciphering entity
            then pdcp_cipher C entity (buffer @ mac) count direction
            else Inr (buffer @ mac)) (\<lambda>payload.
           Inr (entity\<lparr>pd_tx_next := pd_tx_next entity + 1,
                       pd_out := pd_out entity @ [Pdcp_pdu (header @ payload) sdu_id]\<rparr>))))"

section \<open>The timer\<close>

definition pdcp_check_t_reordering :: "nr_pdcp_entity \<Rightarrow> nr_pdcp_entity" where
  "pdcp_check_t_reordering entity =
     (if pd_t_reordering entity = -1 then entity
      else if pd_t_reordering_start entity = 0 \<or>
              pd_t_current entity \<le> word_of_int (pd_t_reordering_start entity + pd_t_reordering entity)
      then entity
      else
        let e = entity\<lparr>pd_t_reordering_start := 0\<rparr>;
            e = pdcp_deliver_below (pd_rx_list e) (pd_rx_reord e) e
        in pdcp_start_timer (pdcp_flush e (pd_rx_reord e)))"

definition nr_pdcp_entity_set_time :: "nr_pdcp_entity \<Rightarrow> 64 word \<Rightarrow> nr_pdcp_entity" where
  "nr_pdcp_entity_set_time entity now = pdcp_check_t_reordering (entity\<lparr>pd_t_current := now\<rparr>)"

section \<open>Creation\<close>

definition new_nr_pdcp_entity ::
  "nr_pdcp_entity_type \<Rightarrow> bool \<Rightarrow> int \<Rightarrow> int \<Rightarrow> bool \<Rightarrow> bool \<Rightarrow> bool \<Rightarrow> nat \<Rightarrow> int \<Rightarrow> int \<Rightarrow> int \<Rightarrow> int \<Rightarrow>
   byte list option \<Rightarrow> byte list option \<Rightarrow> nr_pdcp_entity res" where
  "new_nr_pdcp_entity type is_gnb rb_id pdusession_id has_sdap has_sdapULheader has_sdapDLheader
     sn_size t_reordering discard_timer ciphering_algorithm integrity_algorithm
     ciphering_key integrity_key =
     nr_pdcp_entity_set_security
       \<lparr>pd_type = type, pd_rb_id = rb_id, pd_pdusession_id = pdusession_id, pd_has_sdap = has_sdap,
        pd_has_sdapULheader = has_sdapULheader, pd_has_sdapDLheader = has_sdapDLheader,
        pd_sn_size = sn_size, pd_t_reordering = t_reordering, pd_discard_timer = discard_timer,
        pd_sn_max = push_bit sn_size 1 - 1, pd_window_size = push_bit (sn_size - 1) 1,
        pd_tx_next = 0, pd_rx_next = 0, pd_rx_deliv = 0, pd_rx_reord = 0,
        pd_t_current = 0, pd_t_reordering_start = 0, pd_has_ciphering = False,
        pd_has_integrity = False, pd_ciphering_algorithm = 0, pd_integrity_algorithm = 0,
        pd_ciphering_key = replicate 16 0, pd_integrity_key = replicate 16 0,
        pd_security_context = None, pd_integrity_context = None, pd_is_gnb = is_gnb,
        pd_rx_list = [], pd_rx_size = 0, pd_rx_maxsize = 0, pd_out = []\<rparr>
       integrity_algorithm integrity_key ciphering_algorithm ciphering_key"

end
