(* ===== verification/NR_PDCP_Order.thy ===== *)
theory NR_PDCP_Order
  imports NR_PDCP_Entity
begin

text \<open>
  A PDCP bearer: the header round trip, the COUNT of a received sequence number, the invariant of the
  reordering buffer, and the run of a receiver fed with the PDUs of its peer in any order.
\<close>

section \<open>Headers\<close>

lemma bit_small: "0 \<le> (s :: int) \<Longrightarrow> s < 2 ^ L \<Longrightarrow> bit s n \<Longrightarrow> n < L"
  by (metis bit_take_bit_iff take_bit_int_eq_self)

lemma bit_masks:
  "bit (255 :: int) n \<longleftrightarrow> n < 8" "bit (15 :: int) n \<longleftrightarrow> n < 4" "bit (3 :: int) n \<longleftrightarrow> n < 2"
proof -
  have "(255 :: int) = mask 8" "(15 :: int) = mask 4" "(3 :: int) = mask 2"
    by (simp_all add: mask_eq_exp_minus_1)
  then show "bit (255 :: int) n \<longleftrightarrow> n < 8" "bit (15 :: int) n \<longleftrightarrow> n < 4" "bit (3 :: int) n \<longleftrightarrow> n < 2"
    by (simp_all only: bit_mask_iff) simp_all
qed

lemma bit_dc: "bit (128 :: int) n \<longleftrightarrow> n = 7"
proof -
  have "(128 :: int) = 2 ^ 7"
    by simp
  then show ?thesis
    by (simp only: bit_exp_iff) auto
qed

lemma bit_byte: "bit (uint (word_of_int x :: byte)) n \<longleftrightarrow> n < 8 \<and> bit x n"
  by (simp add: uint_word_of_int_eq bit_simps)

lemma header_12:
  fixes sn :: int
  assumes "0 \<le> sn" "sn < 2 ^ 12" "dc \<in> {0, 0x80 :: int}"
  shows "push_bit 8 (uint (word_of_int (dc OR (drop_bit 8 sn AND 15)) :: byte) AND 15) OR
     uint (word_of_int (sn AND 255) :: byte) = sn"
proof (rule bit_eqI)
  fix n
  show "bit (push_bit 8 (uint (word_of_int (dc OR (drop_bit 8 sn AND 15)) :: byte) AND 15) OR
     uint (word_of_int (sn AND 255) :: byte)) n = bit sn n"
    using bit_small [OF assms(1,2), of n] assms(3)
    by (auto simp: bit_or_iff bit_and_iff bit_push_bit_iff bit_drop_bit_eq bit_byte bit_masks bit_dc simp del: push_bit_and)
qed

lemma header_18:
  fixes sn :: int
  assumes "0 \<le> sn" "sn < 2 ^ 18" "dc \<in> {0, 0x80 :: int}"
  shows "push_bit 16 (uint (word_of_int (dc OR (drop_bit 16 sn AND 3)) :: byte) AND 3) OR
     push_bit 8 (uint (word_of_int (drop_bit 8 sn AND 255) :: byte)) OR
     uint (word_of_int (sn AND 255) :: byte) = sn"
proof (rule bit_eqI)
  fix n
  show "bit (push_bit 16 (uint (word_of_int (dc OR (drop_bit 16 sn AND 3)) :: byte) AND 3) OR
     push_bit 8 (uint (word_of_int (drop_bit 8 sn AND 255) :: byte)) OR
     uint (word_of_int (sn AND 255) :: byte)) n = bit sn n"
    using bit_small [OF assms(1,2), of n] assms(3)
    by (auto simp: bit_or_iff bit_and_iff bit_push_bit_iff bit_drop_bit_eq bit_byte bit_masks bit_dc simp del: push_bit_and)
qed

text \<open>The parameters of an entity.\<close>

definition pdcp_config_ok :: "nr_pdcp_entity \<Rightarrow> bool" where
  "pdcp_config_ok e \<longleftrightarrow> pd_sn_size e \<in> {12, 18} \<and> pd_sn_max e = 2 ^ pd_sn_size e - 1 \<and>
     pd_window_size e = 2 ^ (pd_sn_size e - 1) \<and>
     (pd_has_ciphering e \<longrightarrow> pd_security_context e \<noteq> None) \<and>
     (pd_has_integrity e \<longrightarrow> pd_integrity_context e \<noteq> None)"

definition pdcp_header_size :: "nr_pdcp_entity \<Rightarrow> nat" where
  "pdcp_header_size e = (if pd_sn_size e = 12 then 2 else 3)"

lemma pdcp_header_length [simp]: "length (pdcp_header e sn) = pdcp_header_size e"
  by (simp add: pdcp_header_def pdcp_header_size_def Let_def)

lemma pdcp_parse_header_header:
  assumes "pd_sn_size r = pd_sn_size e" "pd_sn_size e \<in> {12, 18}" "0 \<le> sn" "sn < 2 ^ pd_sn_size e"
  shows "pdcp_parse_header r (pdcp_header e sn @ rest) = Inr (sn, pdcp_header_size e)"
  using assms header_12 [of sn 0] header_18 [of sn 0] header_12 [of sn 128] header_18 [of sn 128]
  by (auto simp: pdcp_parse_header_def pdcp_header_def Let_def byte_at_def pdcp_header_size_def
      simp del: push_bit_and)

lemma pdcp_header_dc:
  assumes "pd_type e \<noteq> NR_PDCP_SRB"
  shows "hd (pdcp_header e sn @ rest) AND 0x80 \<noteq> 0"
proof -
  have "bit (word_of_int (128 OR x) AND (0x80 :: byte)) 7" for x
    by (simp add: bit_simps)
  then have "word_of_int (128 OR x) AND (0x80 :: byte) \<noteq> 0" for x
    by (metis bit_0_eq bot_apply bot_bool_def)
  then show ?thesis
    using assms by (cases "pd_type e") (auto simp: pdcp_header_def Let_def)
qed

section \<open>The COUNT of a received SN\<close>

lemma or_push_bit: "0 \<le> r \<Longrightarrow> r < 2 ^ L \<Longrightarrow> push_bit L q OR r = q * 2 ^ L + (r :: int)"
  using concat_bit_eq [of L r q] concat_bit_def [of L r q]
  by (simp add: or.commute push_bit_eq_mult take_bit_int_eq_self)

lemma hfn_sn:
  fixes w :: "32 word"
  assumes "L \<in> {12, 18 :: nat}"
  shows "uint (w AND word_of_int (2 ^ L - 1)) = uint w mod 2 ^ L"
    and "drop_bit L w = word_of_int (uint w div 2 ^ L)"
proof -
  have "uint (w AND word_of_int (2 ^ L - 1)) = uint w AND (2 ^ L - 1)"
    using assms by (auto simp: uint_and uint_word_of_int_eq take_bit_int_eq_self)
  then show "uint (w AND word_of_int (2 ^ L - 1)) = uint w mod 2 ^ L"
    by (simp add: mask_eq_exp_minus_1 [symmetric] take_bit_eq_mod flip: take_bit_eq_mask)
  show "drop_bit L w = word_of_int (uint w div 2 ^ L)"
    by (rule bit_word_eqI) (simp add: bit_simps flip: drop_bit_eq_div)
qed

lemma hfn_choice:
  fixes dq dr cq cr W M :: int
  assumes M: "M = 2 * W" "0 < W" and r: "0 \<le> dr" "dr < M" "0 \<le> cr" "cr < M"
    and lo: "dq * M + dr - W \<le> cq * M + cr" and hi: "cq * M + cr < dq * M + dr + W"
  shows "(if cr < dr - W then dq + 1 else if cr \<ge> dr + W then dq - 1 else dq) = cq"
proof -
  define k where "k = cq - dq"
  have eq: "cq * M = dq * M + k * M"
    by (simp add: k_def algebra_simps)
  have "k < 2"
  proof (rule ccontr)
    assume "\<not> k < 2"
    then have "2 * M \<le> k * M"
      using M by (intro mult_right_mono) auto
    then show False
      using eq hi r M by linarith
  qed
  moreover have "- 2 < k"
  proof (rule ccontr)
    assume "\<not> - 2 < k"
    then have "k * M \<le> - 2 * M"
      using M by (intro mult_right_mono) auto
    then show False
      using eq lo r M by linarith
  qed
  ultimately consider "k = -1" | "k = 0" | "k = 1"
    by linarith
  then show ?thesis
    using eq lo hi r M by cases (auto simp: k_def)
qed

lemma pdcp_rcvd_count_exact:
  assumes cfg: "pdcp_config_ok e"
    and lo: "uint (pd_rx_deliv e) - pd_window_size e \<le> c" and hi: "c < uint (pd_rx_deliv e) + pd_window_size e"
  shows "pdcp_rcvd_count e (c mod 2 ^ pd_sn_size e) = word_of_int c"
proof -
  let ?L = "pd_sn_size e" and ?d = "uint (pd_rx_deliv e)" and ?W = "pd_window_size e"
  have L: "?L \<in> {12, 18}" and W: "2 ^ ?L = 2 * ?W" "0 < ?W" "pd_sn_max e = 2 ^ ?L - 1"
    using cfg by (auto simp: pdcp_config_ok_def)
  define M :: int where "M = 2 ^ ?L"
  define q where "q = (if c mod M < ?d mod M - ?W then ?d div M + 1
     else if c mod M \<ge> ?d mod M + ?W then ?d div M - 1 else ?d div M)"
  have mods: "0 \<le> ?d mod M" "?d mod M < M" "0 \<le> c mod M" "c mod M < M"
    by (simp_all add: M_def)
  have q: "q = c div M"
    unfolding q_def
  proof (rule hfn_choice)
    show "M = 2 * ?W" "0 < ?W"
      using W by (simp_all add: M_def)
    show "?d div M * M + ?d mod M - ?W \<le> c div M * M + c mod M"
      "c div M * M + c mod M < ?d div M * M + ?d mod M + ?W"
      using lo hi by (simp_all only: div_mult_mod_eq)
  qed (fact mods)+
  have "pdcp_rcvd_count e (c mod M) = push_bit ?L (word_of_int q) OR word_of_int (c mod M)"
    using W(3) hfn_sn [OF L, of "pd_rx_deliv e"]
    by (auto simp: pdcp_rcvd_count_def Let_def q_def M_def)
  also have "\<dots> = (word_of_int (push_bit ?L q OR c mod M) :: 32 word)"
    by (simp add: push_bit_of_int flip: of_int_or_eq)
  also have "push_bit ?L q OR c mod M = c"
    using or_push_bit [of "c mod M" ?L q] mods q by (simp add: M_def div_mult_mod_eq)
  finally show ?thesis
    by (simp add: M_def)
qed

section \<open>COUNT values as numbers\<close>

abbreviation count32 :: "nat \<Rightarrow> 32 word" where
  "count32 n \<equiv> word_of_nat n"

lemma unat_count [simp]: "n < 2 ^ 32 \<Longrightarrow> unat (count32 n) = n"
  by (simp add: unsigned_of_nat take_bit_nat_eq_self)

lemma count_less [simp]: "a < 2 ^ 32 \<Longrightarrow> b < 2 ^ 32 \<Longrightarrow> count32 a < count32 b \<longleftrightarrow> a < b"
  by (simp only: word_less_nat_alt unat_count)

lemma count_le [simp]: "a < 2 ^ 32 \<Longrightarrow> b < 2 ^ 32 \<Longrightarrow> count32 a \<le> count32 b \<longleftrightarrow> a \<le> b"
  by (simp only: word_le_nat_alt unat_count)

lemma count_eq [simp]: "a < 2 ^ 32 \<Longrightarrow> b < 2 ^ 32 \<Longrightarrow> count32 a = count32 b \<longleftrightarrow> a = b"
  by (metis unat_count)

section \<open>The reception list\<close>

definition sdu_list :: "(nat \<Rightarrow> byte list) \<Rightarrow> nat list \<Rightarrow> nr_pdcp_sdu list" where
  "sdu_list sdu ns = map (\<lambda>n. nr_pdcp_new_sdu (count32 n) (sdu n)) ns"

lemma ps_count_new [simp]: "ps_count (nr_pdcp_new_sdu c b) = c" "ps_buffer (nr_pdcp_new_sdu c b) = b"
  by (simp_all add: nr_pdcp_new_sdu_def)

lemma sdu_list_simps [simp]:
  "sdu_list sdu [] = []"
  "sdu_list sdu (n # ns) = nr_pdcp_new_sdu (count32 n) (sdu n) # sdu_list sdu ns"
  by (simp_all add: sdu_list_def)

definition small :: "nat list \<Rightarrow> bool" where
  "small ns \<longleftrightarrow> (\<forall>n \<in> set ns. n < 2 ^ 32)"

lemma small_simps [simp]: "small []" "small (n # ns) \<longleftrightarrow> n < 2 ^ 32 \<and> small ns"
  by (simp_all add: small_def)

lemma in_list_iff:
  "small ns \<Longrightarrow> n < 2 ^ 32 \<Longrightarrow> nr_pdcp_sdu_in_list (sdu_list sdu ns) (count32 n) \<longleftrightarrow> n \<in> set ns"
  by (induction ns) auto

fun ins :: "nat \<Rightarrow> nat list \<Rightarrow> nat list" where
  "ins n [] = [n]"
| "ins n (m # ms) = (if n < m then n # m # ms else m # ins n ms)"

lemma list_add_ins:
  "small ns \<Longrightarrow> n < 2 ^ 32 \<Longrightarrow>
   nr_pdcp_sdu_list_add (sdu_list sdu ns) (nr_pdcp_new_sdu (count32 n) (sdu n)) = sdu_list sdu (ins n ns)"
  by (induction ns) auto

lemma set_ins [simp]: "set (ins n ns) = insert n (set ns)"
  by (induction ns) auto

lemma sorted_ins: "sorted_wrt (<) ns \<Longrightarrow> n \<notin> set ns \<Longrightarrow> sorted_wrt (<) (ins n ns)"
  by (induction ns) auto

section \<open>Runs of deliveries\<close>

text \<open>The entity after the SDUs numbered \<open>ds\<close> have gone up and \<open>ns\<close> remain.\<close>

definition pdcp_delivered :: "(nat \<Rightarrow> byte list) \<Rightarrow> nat list \<Rightarrow> nat list \<Rightarrow> nr_pdcp_entity \<Rightarrow> nr_pdcp_entity" where
  "pdcp_delivered sdu ds ns e =
     e\<lparr>pd_out := pd_out e @ map (\<lambda>n. Pdcp_sdu (sdu n)) ds, pd_rx_list := sdu_list sdu ns,
       pd_rx_size := pd_rx_size e - (\<Sum>n \<leftarrow> ds. int (length (sdu n)))\<rparr>"

lemma delivered_Nil: "pd_rx_list e = sdu_list sdu ns \<Longrightarrow> pdcp_delivered sdu [] ns e = e"
  by (simp add: pdcp_delivered_def)

lemma delivered_Cons:
  "pdcp_delivered sdu ds ns (pdcp_deliver e (nr_pdcp_new_sdu c (sdu n)) l) = pdcp_delivered sdu (n # ds) ns e"
  by (simp add: pdcp_delivered_def pdcp_deliver_def nr_pdcp_new_sdu_def)

lemma deliver_run:
  assumes "sorted_wrt (<) ns" "\<forall>n \<in> set ns. D \<le> n \<and> n < 2 ^ 32 - 1" "D < 2 ^ 32" "pd_rx_list e = sdu_list sdu ns"
  shows "\<exists>D' rest. pdcp_deliver_run (sdu_list sdu ns) (count32 D) e =
      (count32 D', pdcp_delivered sdu [D..<D'] rest e) \<and> ns = [D..<D'] @ rest \<and> D \<le> D' \<and> D' < 2 ^ 32 \<and>
      (\<forall>n \<in> set rest. D' < n)"
  using assms
proof (induction ns arbitrary: D e)
  case Nil
  then show ?case
    by (intro exI [of _ D] exI [of _ "[]"]) (simp add: delivered_Nil)
next
  case (Cons n ns)
  show ?case
  proof (cases "n = D")
    case True
    let ?e = "pdcp_deliver e (nr_pdcp_new_sdu (count32 D) (sdu D)) (sdu_list sdu ns)"
    have "\<forall>m \<in> set ns. Suc D \<le> m \<and> m < 2 ^ 32 - 1" "Suc D < 2 ^ 32" "sorted_wrt (<) ns"
      using Cons.prems True by auto
    moreover have "pd_rx_list ?e = sdu_list sdu ns"
      by (simp add: pdcp_deliver_def)
    ultimately obtain D' rest where *: "pdcp_deliver_run (sdu_list sdu ns) (count32 (Suc D)) ?e =
        (count32 D', pdcp_delivered sdu [Suc D..<D'] rest ?e)" "ns = [Suc D..<D'] @ rest" "Suc D \<le> D'"
        "D' < 2 ^ 32" "\<forall>n \<in> set rest. D' < n"
      using Cons.IH [of "Suc D" ?e] by blast
    moreover have "[D..<D'] = D # [Suc D..<D']"
      using *(3) by (simp add: upt_conv_Cons)
    moreover have "count32 D + 1 = count32 (Suc D)"
      by simp
    ultimately show ?thesis
      using True by (intro exI [of _ D'] exI [of _ rest]) (simp add: delivered_Cons del: of_nat_Suc)
  next
    case False
    then have "D < n" "n < 2 ^ 32"
      using Cons.prems by auto
    then have "count32 D \<noteq> count32 n"
      using Cons.prems(3) by simp
    moreover have "\<forall>m \<in> set (n # ns). D < m"
      using Cons.prems(1) \<open>D < n\<close> by auto
    ultimately show ?thesis
      using Cons.prems by (intro exI [of _ D] exI [of _ "n # ns"]) (simp add: delivered_Nil)
  qed
qed

lemma deliver_below:
  assumes "sorted_wrt (<) ns" "small ns" "T < 2 ^ 32" "pd_rx_list e = sdu_list sdu ns"
  shows "\<exists>low high. pdcp_deliver_below (sdu_list sdu ns) (count32 T) e = pdcp_delivered sdu low high e \<and>
    ns = low @ high \<and> (\<forall>n \<in> set low. n < T) \<and> (\<forall>n \<in> set high. T \<le> n)"
  using assms
proof (induction ns arbitrary: e)
  case Nil
  then show ?case
    by (simp add: delivered_Nil)
next
  case (Cons n ns)
  show ?case
  proof (cases "n < T")
    case True
    let ?e = "pdcp_deliver e (nr_pdcp_new_sdu (count32 n) (sdu n)) (sdu_list sdu ns)"
    have rx: "pd_rx_list ?e = sdu_list sdu ns"
      by (simp add: pdcp_deliver_def)
    have "sorted_wrt (<) ns" "small ns"
      using Cons.prems(1,2) by auto
    from Cons.IH [OF this Cons.prems(3) rx] obtain low high where
      "pdcp_deliver_below (sdu_list sdu ns) (count32 T) ?e = pdcp_delivered sdu low high ?e"
      "ns = low @ high" "\<forall>n \<in> set low. n < T" "\<forall>n \<in> set high. T \<le> n"
      by blast
    then show ?thesis
      using True Cons.prems(2,3)
      by (intro exI [of _ "n # low"] exI [of _ high]) (simp add: delivered_Cons)
  next
    case False
    then have "\<forall>m \<in> set (n # ns). T \<le> m"
      using Cons.prems(1) by auto
    then show ?thesis
      using False Cons.prems
      by (intro exI [of _ "[]"] exI [of _ "n # ns"]) (simp add: delivered_Nil)
  qed
qed

section \<open>The invariant of the receiver\<close>

text \<open>
  The SDUs numbered \<open>ds\<close> have been delivered, those numbered \<open>ns\<close> are stored; \<open>D\<close> and \<open>N\<close> are \<^verbatim>\<open>rx_deliv\<close>
  and \<^verbatim>\<open>rx_next\<close>.
\<close>

definition pdcp_timer_ok :: "nr_pdcp_entity \<Rightarrow> nat \<Rightarrow> nat \<Rightarrow> bool" where
  "pdcp_timer_ok e D N \<longleftrightarrow>
     (pd_t_reordering_start e \<noteq> 0 \<longrightarrow> (\<exists>T. pd_rx_reord e = count32 T \<and> D < T \<and> T \<le> N))"

definition pdcp_rx_inv ::
  "(nat \<Rightarrow> byte list) \<Rightarrow> nat list \<Rightarrow> nat list \<Rightarrow> nat \<Rightarrow> nat \<Rightarrow> nr_pdcp_entity \<Rightarrow> bool" where
  "pdcp_rx_inv sdu ds ns D N e \<longleftrightarrow>
     pd_rx_list e = sdu_list sdu ns \<and> sorted_wrt (<) ns \<and> (\<forall>n \<in> set ns. D < n \<and> n < N) \<and>
     pd_rx_deliv e = count32 D \<and> pd_rx_next e = count32 N \<and> D \<le> N \<and> N < 2 ^ 32 \<and>
     pd_out e = map (\<lambda>n. Pdcp_sdu (sdu n)) ds \<and> sorted_wrt (<) ds \<and> (\<forall>n \<in> set ds. n < D) \<and>
     pdcp_timer_ok e D N"

text \<open>What no reception changes.\<close>

definition pdcp_static :: "nr_pdcp_entity \<Rightarrow> nr_pdcp_entity" where
  "pdcp_static e = e\<lparr>pd_rx_list := [], pd_rx_deliv := 0, pd_rx_next := 0, pd_rx_reord := 0, pd_out := [],
     pd_t_reordering_start := 0, pd_rx_size := 0, pd_t_current := 0\<rparr>"

lemma static_delivered [simp]: "pdcp_static (pdcp_delivered sdu ds ns e) = pdcp_static e"
  by (simp add: pdcp_static_def pdcp_delivered_def)

lemma static_timers [simp]: "pdcp_static (pdcp_stop_timer e) = pdcp_static e"
  "pdcp_static (pdcp_start_timer e) = pdcp_static e"
  by (simp_all add: pdcp_static_def pdcp_stop_timer_def pdcp_start_timer_def)

lemma pdcp_stop_timer_inv:
  assumes "pdcp_timer_ok e D0 N0" "D0 \<le> D" "N0 \<le> N" "N < 2 ^ 32" "D \<le> N" "pd_rx_deliv e = count32 D"
  shows "pdcp_timer_ok (pdcp_stop_timer e) D N"
proof (cases "pd_t_reordering_start e = 0")
  case True
  then show ?thesis
    by (simp add: pdcp_timer_ok_def pdcp_stop_timer_def)
next
  case False
  then obtain T where T: "pd_rx_reord e = count32 T" "D0 < T" "T \<le> N0"
    using assms(1) by (auto simp: pdcp_timer_ok_def)
  then have "count32 T \<le> count32 D \<longleftrightarrow> T \<le> D"
    using assms by (intro count_le) auto
  then show ?thesis
    using T assms by (auto simp: pdcp_timer_ok_def pdcp_stop_timer_def)
qed

lemma pdcp_start_timer_inv:
  assumes "pdcp_timer_ok e D N" "D \<le> N" "N < 2 ^ 32" "pd_rx_deliv e = count32 D" "pd_rx_next e = count32 N"
  shows "pdcp_timer_ok (pdcp_start_timer e) D N"
proof -
  have "count32 D < count32 N \<longleftrightarrow> D < N"
    using assms by (intro count_less) auto
  then show ?thesis
    using assms by (auto simp: pdcp_timer_ok_def pdcp_start_timer_def)
qed

lemma pdcp_timer_sel [simp]:
  "pd_rx_list (pdcp_stop_timer e) = pd_rx_list e" "pd_rx_deliv (pdcp_stop_timer e) = pd_rx_deliv e"
  "pd_rx_next (pdcp_stop_timer e) = pd_rx_next e" "pd_out (pdcp_stop_timer e) = pd_out e"
  "pd_rx_list (pdcp_start_timer e) = pd_rx_list e" "pd_rx_deliv (pdcp_start_timer e) = pd_rx_deliv e"
  "pd_rx_next (pdcp_start_timer e) = pd_rx_next e" "pd_out (pdcp_start_timer e) = pd_out e"
  by (simp_all add: pdcp_stop_timer_def pdcp_start_timer_def)

section \<open>One SDU enters the reordering buffer\<close>

lemma pdcp_insert_inv:
  assumes "pdcp_rx_inv sdu ds ns D N e" "D \<le> n" "n \<notin> set ns" "n < 2 ^ 32 - 1"
  shows "pdcp_insert e (nr_pdcp_new_sdu (count32 n) (sdu n)) sz =
    e\<lparr>pd_rx_list := sdu_list sdu (ins n ns), pd_rx_size := pd_rx_size e + sz, pd_rx_next := count32 (max N (Suc n))\<rparr>"
proof -
  have inv: "small ns" "N < 2 ^ 32" "pd_rx_next e = count32 N" "pd_rx_list e = sdu_list sdu ns"
    using assms(1) unfolding pdcp_rx_inv_def small_def by (blast intro: less_trans)+
  have n: "n < 2 ^ 32"
    using assms(4) by simp
  have c: "count32 N \<le> count32 n \<longleftrightarrow> N \<le> n"
    by (rule count_le [OF inv(2) n])
  have same: "e\<lparr>pd_rx_list := l, pd_rx_size := k, pd_rx_next := count32 N\<rparr> = e\<lparr>pd_rx_list := l, pd_rx_size := k\<rparr>" for l k
    using inv(3) by (cases e) simp
  show ?thesis
  proof (cases "N \<le> n")
    case True
    then show ?thesis
      unfolding pdcp_insert_def Let_def
      by (simp add: list_add_ins [OF inv(1) n] inv(3,4) c max_def)
  next
    case False
    then have "max N (Suc n) = N"
      by simp
    then show ?thesis
      using False unfolding pdcp_insert_def Let_def
      by (simp add: list_add_ins [OF inv(1) n] inv(3,4) c same del: of_nat_Suc)
  qed
qed

lemma pdcp_flush_eq:
  assumes "sorted_wrt (<) ns" "\<forall>n \<in> set ns. D \<le> n \<and> n < 2 ^ 32 - 1" "D < 2 ^ 32" "pd_rx_list e = sdu_list sdu ns"
  obtains D' rest where "pdcp_flush e (count32 D) = (pdcp_delivered sdu [D..<D'] rest e)\<lparr>pd_rx_deliv := count32 D'\<rparr>"
    "ns = [D..<D'] @ rest" "D \<le> D'" "D' < 2 ^ 32" "\<forall>n \<in> set rest. D' < n"
  using deliver_run [OF assms] assms(4) unfolding pdcp_flush_def by fastforce

text \<open>The timer actions at the end of a reception.\<close>

definition pdcp_timers :: "nr_pdcp_entity \<Rightarrow> nr_pdcp_entity" where
  "pdcp_timers e = (let e = pdcp_stop_timer e in if pd_t_reordering_start e = 0 then pdcp_start_timer e else e)"

lemma pdcp_timers_sel [simp]:
  "pd_rx_list (pdcp_timers e) = pd_rx_list e" "pd_rx_deliv (pdcp_timers e) = pd_rx_deliv e"
  "pd_rx_next (pdcp_timers e) = pd_rx_next e" "pd_out (pdcp_timers e) = pd_out e"
  "pdcp_static (pdcp_timers e) = pdcp_static e"
  by (simp_all add: pdcp_timers_def Let_def)

lemma pdcp_timers_inv:
  assumes "pdcp_timer_ok e D0 N0" "D0 \<le> D" "N0 \<le> N" "N < 2 ^ 32" "D \<le> N" "pd_rx_deliv e = count32 D"
    "pd_rx_next e = count32 N"
  shows "pdcp_timer_ok (pdcp_timers e) D N"
proof -
  have 1: "pdcp_timer_ok (pdcp_stop_timer e) D N"
    by (rule pdcp_stop_timer_inv [OF assms(1-6)])
  moreover have "pdcp_timer_ok (pdcp_start_timer (pdcp_stop_timer e)) D N"
    using assms by (intro pdcp_start_timer_inv [OF 1]) simp_all
  ultimately show ?thesis
    by (simp add: pdcp_timers_def Let_def)
qed

lemma pdcp_reorder_alt:
  "pdcp_reorder e buffer h k c =
     (if c < pd_rx_deliv e \<or> nr_pdcp_sdu_in_list (pd_rx_list e) c then e
      else
        let e1 = pdcp_insert e (nr_pdcp_new_sdu c (take (length buffer - h - k) (drop h buffer)))
                   (int (length buffer) - int h)
        in pdcp_timers (if c = pd_rx_deliv e1 then pdcp_flush e1 (pd_rx_deliv e1) else e1))"
  unfolding pdcp_reorder_def pdcp_timers_def Let_def by (rule refl)

definition pdcp_got :: "nat list \<Rightarrow> nat list \<Rightarrow> nat set" where
  "pdcp_got ds ns = set ds \<union> set ns"

lemma pdcp_rx_invD:
  assumes "pdcp_rx_inv sdu ds ns D N e"
  shows "pd_rx_list e = sdu_list sdu ns" "sorted_wrt (<) ns" "\<forall>n \<in> set ns. D < n \<and> n < N"
    "pd_rx_deliv e = count32 D" "pd_rx_next e = count32 N" "D \<le> N" "N < 2 ^ 32"
    "pd_out e = map (\<lambda>n. Pdcp_sdu (sdu n)) ds" "sorted_wrt (<) ds" "\<forall>n \<in> set ds. n < D"
    "pdcp_timer_ok e D N" "small ns"
  using assms unfolding pdcp_rx_inv_def small_def by (blast intro: less_trans)+

lemma pdcp_store_inv:
  assumes inv: "pdcp_rx_inv sdu ds ns D N e" and n: "D < n" "n \<notin> set ns" "n < 2 ^ 32 - 1"
  shows "pdcp_rx_inv sdu ds (ins n ns) D (max N (Suc n))
    (pdcp_timers (pdcp_insert e (nr_pdcp_new_sdu (count32 n) (sdu n)) sz))"
proof -
  note i = pdcp_rx_invD [OF inv]
  let ?N = "max N (Suc n)"
  have le: "D \<le> ?N" "?N < 2 ^ 32" "N \<le> ?N"
    using i(6,7) n by auto
  define e1 where "e1 = pdcp_insert e (nr_pdcp_new_sdu (count32 n) (sdu n)) sz"
  have e1: "e1 = e\<lparr>pd_rx_list := sdu_list sdu (ins n ns), pd_rx_size := pd_rx_size e + sz, pd_rx_next := count32 ?N\<rparr>"
    unfolding e1_def using n by (intro pdcp_insert_inv [OF inv]) auto
  have "pdcp_timer_ok e1 D N"
    using i(11) unfolding e1 by (simp add: pdcp_timer_ok_def)
  then have "pdcp_timer_ok (pdcp_timers e1) D ?N"
    by (rule pdcp_timers_inv) (use le i in \<open>simp_all add: e1 del: of_nat_Suc\<close>)
  moreover have "sorted_wrt (<) (ins n ns)" "\<forall>m \<in> set (ins n ns). D < m \<and> m < ?N"
    using sorted_ins [OF i(2) n(2)] i(3) n by auto
  ultimately show ?thesis
    unfolding pdcp_rx_inv_def e1_def [symmetric] using i le by (simp add: e1 del: of_nat_Suc)
qed

lemma static_insert [simp]: "pdcp_static (pdcp_insert e s sz) = pdcp_static e"
  by (simp add: pdcp_static_def pdcp_insert_def Let_def)

lemma pdcp_advance_inv:
  assumes inv: "pdcp_rx_inv sdu ds ns D N e" and n: "D < 2 ^ 32 - 1"
  obtains D' rest where
    "pdcp_rx_inv sdu (ds @ [D..<D']) rest D' (max N (Suc D))
      (pdcp_timers (pdcp_flush (pdcp_insert e (nr_pdcp_new_sdu (count32 D) (sdu D)) sz) (count32 D)))"
    "pdcp_static (pdcp_flush (pdcp_insert e (nr_pdcp_new_sdu (count32 D) (sdu D)) sz) (count32 D)) = pdcp_static e"
    "D # ns = [D..<D'] @ rest" "D < D'"
proof -
  note i = pdcp_rx_invD [OF inv]
  let ?N = "max N (Suc D)"
  have le: "?N < 2 ^ 32" "N \<le> ?N"
    using i(6,7) n by auto
  define e1 where "e1 = pdcp_insert e (nr_pdcp_new_sdu (count32 D) (sdu D)) sz"
  have D: "D \<notin> set ns"
    using i(3) by blast
  have e1: "e1 = e\<lparr>pd_rx_list := sdu_list sdu (ins D ns), pd_rx_size := pd_rx_size e + sz, pd_rx_next := count32 ?N\<rparr>"
    unfolding e1_def using n D by (intro pdcp_insert_inv [OF inv]) auto
  have ins: "ins D ns = D # ns"
    using i(3) by (cases ns) auto
  have "sorted_wrt (<) (D # ns)" "\<forall>m \<in> set (D # ns). D \<le> m \<and> m < 2 ^ 32 - 1"
    using i(2,3,7) n by auto
  moreover have "D < 2 ^ 32" "pd_rx_list e1 = sdu_list sdu (D # ns)"
    using n by (simp_all add: e1 ins)
  ultimately obtain D' rest where
    f: "pdcp_flush e1 (count32 D) = (pdcp_delivered sdu [D..<D'] rest e1)\<lparr>pd_rx_deliv := count32 D'\<rparr>"
    and ns: "D # ns = [D..<D'] @ rest" and D': "D \<le> D'" "D' < 2 ^ 32" "\<forall>n \<in> set rest. D' < n"
    by (rule pdcp_flush_eq)
  have lt: "D < D'"
    using ns D' by (cases "D = D'") auto
  have top: "D' \<le> ?N" "\<forall>m \<in> set rest. m < ?N"
  proof -
    have "\<forall>m \<in> set (D # ns). m < ?N"
      using i(3) by auto
    then show "\<forall>m \<in> set rest. m < ?N"
      unfolding ns by simp
    have "D' - 1 \<in> set (D # ns)"
      unfolding ns set_append using lt by (intro UnI1) auto
    then show "D' \<le> ?N"
      using \<open>\<forall>m \<in> set (D # ns). m < ?N\<close> lt by fastforce
  qed
  define e2 where "e2 = pdcp_flush e1 (count32 D)"
  have e2: "e2 = e\<lparr>pd_out := pd_out e @ map (\<lambda>n. Pdcp_sdu (sdu n)) [D..<D'], pd_rx_list := sdu_list sdu rest,
      pd_rx_size := pd_rx_size e + sz - (\<Sum>n \<leftarrow> [D..<D']. int (length (sdu n))),
      pd_rx_deliv := count32 D', pd_rx_next := count32 ?N\<rparr>"
    unfolding e2_def f unfolding e1 pdcp_delivered_def by simp
  have "pdcp_timer_ok e2 D N"
    using i(11) unfolding e2 by (simp add: pdcp_timer_ok_def)
  then have "pdcp_timer_ok (pdcp_timers e2) D' ?N"
    by (rule pdcp_timers_inv) (use le D' top in \<open>simp_all add: e2 del: of_nat_Suc\<close>)
  moreover have "sorted_wrt (<) rest"
    using i(2) ns by (metis \<open>sorted_wrt (<) (D # ns)\<close> sorted_wrt_append)
  moreover have "sorted_wrt (<) (ds @ [D..<D'])" "\<forall>m \<in> set (ds @ [D..<D']). m < D'"
    using i(9,10) lt by (auto simp: sorted_wrt_append)
  ultimately have "pdcp_rx_inv sdu (ds @ [D..<D']) rest D' ?N (pdcp_timers e2)"
    unfolding pdcp_rx_inv_def using D' top le i(8) by (simp add: e2 del: of_nat_Suc)
  moreover have "pdcp_static e2 = pdcp_static e"
    unfolding e2 by (simp add: pdcp_static_def)
  ultimately show ?thesis
    using that [OF _ _ ns lt] unfolding e2_def e1_def by blast
qed

lemma pdcp_reorder_inv:
  assumes inv: "pdcp_rx_inv sdu ds ns D N e" and n: "n < 2 ^ 32 - 1"
    and data: "take (length buffer - h - k) (drop h buffer) = sdu n"
  obtains ds' ns' D' N' where "pdcp_rx_inv sdu ds' ns' D' N' (pdcp_reorder e buffer h k (count32 n))"
    "pdcp_static (pdcp_reorder e buffer h k (count32 n)) = pdcp_static e"
    "pdcp_got ds' ns' = pdcp_got ds ns \<union> (if n < D then {} else {n})"
    "ds = [0..<D] \<longrightarrow> ds' = [0..<D']"
proof -
  note i = pdcp_rx_invD [OF inv]
  define e1 where "e1 = pdcp_insert e (nr_pdcp_new_sdu (count32 n) (sdu n)) (int (length buffer) - int h)"
  have c: "count32 n < pd_rx_deliv e \<longleftrightarrow> n < D" "count32 n = pd_rx_deliv e1 \<longleftrightarrow> n = D"
    "nr_pdcp_sdu_in_list (pd_rx_list e) (count32 n) \<longleftrightarrow> n \<in> set ns"
    using i n in_list_iff [OF i(12), of n] by (simp_all add: e1_def pdcp_insert_def Let_def)
  have eq: "pdcp_reorder e buffer h k (count32 n) =
    (if n < D \<or> n \<in> set ns then e else pdcp_timers (if n = D then pdcp_flush e1 (pd_rx_deliv e1) else e1))"
    unfolding pdcp_reorder_alt data Let_def e1_def [symmetric] c by (rule refl)
  consider (old) "n < D \<or> n \<in> set ns" | (store) "D < n" "n \<notin> set ns" | (adv) "n = D" "n \<notin> set ns"
    by linarith
  then show thesis
  proof cases
    case old
    have "D \<le> n" if "n \<in> set ns"
      using i(3) that by auto
    then have "pdcp_got ds ns = pdcp_got ds ns \<union> (if n < D then {} else {n})"
      using old by (auto simp: pdcp_got_def)
    then show ?thesis
      using that [of ds ns D N] inv old eq by simp
  next
    case store
    then have "pdcp_got ds (ins n ns) = pdcp_got ds ns \<union> (if n < D then {} else {n})"
      by (auto simp: pdcp_got_def)
    then show ?thesis
      using that [of ds "ins n ns" D "max N (Suc n)"] pdcp_store_inv [OF inv store n] store eq
      by (simp add: e1_def del: of_nat_Suc)
  next
    case adv
    have D: "D < 2 ^ 32 - 1"
      using adv n by simp
    obtain D' rest where a:
      "pdcp_rx_inv sdu (ds @ [D..<D']) rest D' (max N (Suc D)) (pdcp_timers (pdcp_flush e1 (count32 D)))"
      "pdcp_static (pdcp_flush e1 (count32 D)) = pdcp_static e" "D # ns = [D..<D'] @ rest"
      and lt: "D < D'"
      using pdcp_advance_inv [OF inv D, of "int (length buffer) - int h"] unfolding e1_def adv(1) by blast
    have "pd_rx_deliv e1 = count32 D"
      using i by (simp add: e1_def pdcp_insert_def Let_def)
    then have r: "pdcp_reorder e buffer h k (count32 n) = pdcp_timers (pdcp_flush e1 (count32 D))"
      using eq adv by simp
    have "set (D # ns) = set ([D..<D'] @ rest)"
      using a(3) by simp
    then have "pdcp_got (ds @ [D..<D']) rest = pdcp_got ds ns \<union> (if n < D then {} else {n})"
      using adv by (auto simp: pdcp_got_def)
    moreover have "ds @ [D..<D'] = [0..<D']" if "ds = [0..<D]"
      using that lt by (metis less_imp_le_nat le_add_diff_inverse upt_add_eq_append zero_le)
    ultimately show ?thesis
      using that [of "ds @ [D..<D']" rest D' "max N (Suc D)"] a(1,2) r lt by simp
  qed
qed

lemma pdcp_expiry:
  assumes inv: "pdcp_rx_inv sdu ds ns D N e" and T: "pd_rx_reord e = count32 T" "D < T" "T \<le> N"
    and st: "pd_t_reordering_start e = 0"
  defines "e2 \<equiv> pdcp_deliver_below (pd_rx_list e) (pd_rx_reord e) e"
  obtains ds' ns' D' where "pdcp_rx_inv sdu ds' ns' D' N (pdcp_start_timer (pdcp_flush e2 (pd_rx_reord e2)))"
    "pdcp_static (pdcp_flush e2 (pd_rx_reord e2)) = pdcp_static e"
    "pdcp_got ds' ns' = pdcp_got ds ns"
proof -
  note i = pdcp_rx_invD [OF inv]
  have T': "T < 2 ^ 32"
    using T i(7) by linarith
  obtain low high where e2: "e2 = pdcp_delivered sdu low high e" and ns: "ns = low @ high"
    and low: "\<forall>n \<in> set low. n < T" and high: "\<forall>n \<in> set high. T \<le> n"
    using deliver_below [OF i(2,12) T' i(1)] unfolding e2_def T(1) i(1) by blast
  have s: "sorted_wrt (<) low" "sorted_wrt (<) high"
    using i(2) unfolding ns by (auto simp: sorted_wrt_append)
  have hi: "\<forall>n \<in> set high. T \<le> n \<and> n < 2 ^ 32 - 1"
  proof
    fix n
    assume n: "n \<in> set high"
    then have "n < N"
      using i(3) unfolding ns by simp
    then have "n < 2 ^ 32 - 1"
      using i(7) by linarith
    then show "T \<le> n \<and> n < 2 ^ 32 - 1"
      using high n by blast
  qed
  have "pd_rx_list e2 = sdu_list sdu high" "pd_rx_reord e2 = count32 T"
    using T(1) by (simp_all add: e2 pdcp_delivered_def)
  note rx = this
  obtain D' rest where f: "pdcp_flush e2 (count32 T) = (pdcp_delivered sdu [T..<D'] rest e2)\<lparr>pd_rx_deliv := count32 D'\<rparr>"
    and hs: "high = [T..<D'] @ rest" and D': "T \<le> D'" "D' < 2 ^ 32" "\<forall>n \<in> set rest. D' < n"
    using pdcp_flush_eq [OF s(2) hi T' rx(1)] by blast
  have top: "D' \<le> N"
  proof (cases "D' = T")
    case False
    then have "D' - 1 \<in> set high"
      unfolding hs set_append using D'(1) by (intro UnI1) auto
    then have "D' - 1 < N"
      using i(3) unfolding ns by simp
    then show ?thesis
      by linarith
  qed (simp add: T)
  define e3 where "e3 = pdcp_flush e2 (count32 T)"
  have e3: "e3 = e\<lparr>pd_out := pd_out e @ map (\<lambda>n. Pdcp_sdu (sdu n)) (low @ [T..<D']), pd_rx_list := sdu_list sdu rest,
      pd_rx_size := pd_rx_size e - (\<Sum>n \<leftarrow> low @ [T..<D']. int (length (sdu n))), pd_rx_deliv := count32 D'\<rparr>"
    unfolding e3_def f unfolding e2 pdcp_delivered_def by simp
  have "pdcp_timer_ok e3 D' N"
    using st by (simp add: pdcp_timer_ok_def e3)
  then have "pdcp_timer_ok (pdcp_start_timer e3) D' N"
    by (rule pdcp_start_timer_inv) (use top i in \<open>simp_all add: e3\<close>)
  moreover have "sorted_wrt (<) rest" "\<forall>n \<in> set rest. D' < n \<and> n < N"
    using s(2) D'(3) i(3) unfolding hs ns by (auto simp: sorted_wrt_append)
  moreover have "x < y" if "x \<in> set ds" "y \<in> set low" for x y
  proof -
    have "x < D" "D < y"
      using i(3,10) that unfolding ns by auto
    then show ?thesis
      by simp
  qed
  then have "sorted_wrt (<) (ds @ low @ [T..<D'])" "\<forall>n \<in> set (ds @ low @ [T..<D']). n < D'"
    using i(9,10) s(1) low D'(1) T(2) by (auto simp: sorted_wrt_append)
  ultimately have "pdcp_rx_inv sdu (ds @ low @ [T..<D']) rest D' N (pdcp_start_timer e3)"
    unfolding pdcp_rx_inv_def using top i(5,7,8) by (simp add: e3)
  moreover have "pdcp_static e3 = pdcp_static e"
    by (simp add: pdcp_static_def e3)
  moreover have "pdcp_got (ds @ low @ [T..<D']) rest = pdcp_got ds ns"
    unfolding ns hs by (auto simp: pdcp_got_def)
  ultimately show ?thesis
    using that unfolding rx(2) e3_def by blast
qed

lemma pdcp_set_time_inv:
  assumes inv: "pdcp_rx_inv sdu ds ns D N e"
  obtains ds' ns' D' where "pdcp_rx_inv sdu ds' ns' D' N (nr_pdcp_entity_set_time e now)"
    "pdcp_static (nr_pdcp_entity_set_time e now) = pdcp_static e" "pdcp_got ds' ns' = pdcp_got ds ns"
    "pd_t_reordering e = -1 \<Longrightarrow> ds' = ds \<and> D' = D"
proof -
  let ?e = "e\<lparr>pd_t_current := now\<rparr>"
  have inv0: "pdcp_rx_inv sdu ds ns D N ?e" and st0: "pdcp_static ?e = pdcp_static e"
    using inv by (simp_all add: pdcp_rx_inv_def pdcp_timer_ok_def pdcp_static_def)
  show ?thesis
  proof (cases "pd_t_reordering e = -1 \<or> pd_t_reordering_start e = 0 \<or>
      now \<le> word_of_int (pd_t_reordering_start e + pd_t_reordering e)")
    case True
    then have "nr_pdcp_entity_set_time e now = ?e"
      by (auto simp: nr_pdcp_entity_set_time_def pdcp_check_t_reordering_def)
    then show ?thesis
      using that [of ds ns D] inv0 st0 by simp
  next
    case False
    then obtain T where T: "pd_rx_reord e = count32 T" "D < T" "T \<le> N"
      using pdcp_rx_invD(11) [OF inv] by (auto simp: pdcp_timer_ok_def)
    let ?e1 = "?e\<lparr>pd_t_reordering_start := 0\<rparr>"
    let ?e2 = "pdcp_deliver_below (pd_rx_list ?e1) (pd_rx_reord ?e1) ?e1"
    have inv1: "pdcp_rx_inv sdu ds ns D N ?e1" and st1: "pdcp_static ?e1 = pdcp_static e"
      using inv by (simp_all add: pdcp_rx_inv_def pdcp_timer_ok_def pdcp_static_def)
    have T1: "pd_rx_reord ?e1 = count32 T" "pd_t_reordering_start ?e1 = 0"
      using T by simp_all
    obtain ds' ns' D' where
      "pdcp_rx_inv sdu ds' ns' D' N (pdcp_start_timer (pdcp_flush ?e2 (pd_rx_reord ?e2)))"
      "pdcp_static (pdcp_flush ?e2 (pd_rx_reord ?e2)) = pdcp_static ?e1" "pdcp_got ds' ns' = pdcp_got ds ns"
      by (rule pdcp_expiry [OF inv1 T1(1) T(2,3) T1(2)])
    moreover have "nr_pdcp_entity_set_time e now = pdcp_start_timer (pdcp_flush ?e2 (pd_rx_reord ?e2))"
      using False unfolding nr_pdcp_entity_set_time_def pdcp_check_t_reordering_def Let_def by simp
    ultimately show ?thesis
      using that [of ds' ns' D'] st1 False by simp
  qed
qed

section \<open>The PDU of an SDU\<close>

definition pdcp_pdu :: "crypto \<Rightarrow> nr_pdcp_entity \<Rightarrow> 32 word \<Rightarrow> byte list \<Rightarrow> byte list" where
  "pdcp_pdu C e count buffer =
     (let header = pdcp_header e (uint (count AND word_of_int (pd_sn_max e)));
          direction = (if pd_is_gnb e then 1 else 0);
          mac = (if pd_has_integrity e
                 then nr_pdcp_integrity_nia2_integrity C (the (pd_integrity_context e)) (header @ buffer)
                        (pd_rb_id e) count direction
                 else replicate (pdcp_integrity_size e) 0)
      in header @ (if pd_has_ciphering e
                   then nr_pdcp_security_nea2_cipher C (the (pd_security_context e)) (buffer @ mac)
                          (pd_rb_id e) count direction
                   else buffer @ mac))"

lemma pdcp_recv_sdu_pdu:
  assumes "pdcp_config_ok e"
  shows "nr_pdcp_entity_recv_sdu C e buffer sdu_id =
    Inr (e\<lparr>pd_tx_next := pd_tx_next e + 1,
           pd_out := pd_out e @ [Pdcp_pdu (pdcp_pdu C e (pd_tx_next e) buffer) sdu_id]\<rparr>)"
  using assms
  by (auto simp: nr_pdcp_entity_recv_sdu_def pdcp_pdu_def pdcp_config_ok_def Let_def pdcp_integrity_def
      pdcp_cipher_def)

text \<open>Two ends of a bearer: the same configuration and keys on the two sides of the radio link.\<close>

definition pdcp_peers :: "nr_pdcp_entity \<Rightarrow> nr_pdcp_entity \<Rightarrow> bool" where
  "pdcp_peers s r \<longleftrightarrow>
     pd_type s = pd_type r \<and> pd_rb_id s = pd_rb_id r \<and> pd_sn_size s = pd_sn_size r \<and>
     pd_sn_max s = pd_sn_max r \<and> pd_has_ciphering s = pd_has_ciphering r \<and>
     pd_has_integrity s = pd_has_integrity r \<and> pd_security_context s = pd_security_context r \<and>
     pd_integrity_context s = pd_integrity_context r \<and> pd_is_gnb s \<noteq> pd_is_gnb r"

lemma pdcp_integrity_size_mac:
  assumes "crypto_ok C"
  shows "length (if pd_has_integrity e then nr_pdcp_integrity_nia2_integrity C k b rb c d
     else replicate (pdcp_integrity_size e) 0) = pdcp_integrity_size e"
  using assms by (simp add: pdcp_integrity_size_def)

lemma pdcp_recv_peer:
  assumes C: "crypto_ok C" and cfg: "pdcp_config_ok r" and peer: "pdcp_peers s r" and b: "b \<noteq> []"
    and lo: "uint (pd_rx_deliv r) - pd_window_size r \<le> int n" and hi: "int n < uint (pd_rx_deliv r) + pd_window_size r"
    and n: "n < 2 ^ 32"
  obtains buf where "nr_pdcp_entity_recv_pdu C r (pdcp_pdu C s (count32 n) b) =
      Inr (pdcp_reorder r buf (pdcp_header_size r) (pdcp_integrity_size r) (count32 n))"
    "take (length buf - pdcp_header_size r - pdcp_integrity_size r) (drop (pdcp_header_size r) buf) = b"
proof -
  let ?L = "pd_sn_size r" and ?d = "if pd_is_gnb r then 0 else 1 :: int"
  define sn where "sn = uint (count32 n AND word_of_int (pd_sn_max s))"
  define h where "h = pdcp_header s sn"
  define mac where "mac = (if pd_has_integrity r then nr_pdcp_integrity_nia2_integrity C
     (the (pd_integrity_context r)) (h @ b) (pd_rb_id r) (count32 n) ?d else replicate (pdcp_integrity_size r) 0)"
  have p: "pd_type s = pd_type r" "pd_rb_id s = pd_rb_id r" "pd_sn_size s = ?L" "pd_sn_max s = pd_sn_max r"
    "pd_has_ciphering s = pd_has_ciphering r" "pd_has_integrity s = pd_has_integrity r"
    "pd_security_context s = pd_security_context r" "pd_integrity_context s = pd_integrity_context r"
    "(if pd_is_gnb s then 1 else 0) = ?d" "pdcp_integrity_size s = pdcp_integrity_size r"
    "pdcp_header_size s = pdcp_header_size r"
    using peer by (auto simp: pdcp_peers_def pdcp_integrity_size_def pdcp_header_size_def)
  have L: "?L \<in> {12, 18}" and mx: "pd_sn_max r = 2 ^ ?L - 1"
    using cfg by (auto simp: pdcp_config_ok_def)
  have "sn = uint (count32 n) mod 2 ^ ?L"
    unfolding sn_def p(4) mx by (rule hfn_sn(1) [OF L])
  also have "uint (count32 n) = int n"
    using n unat_count [OF n] by (metis uint_nat)
  finally have sn: "sn = int n mod 2 ^ ?L" .
  have rng: "0 \<le> sn" "sn < 2 ^ pd_sn_size s"
    unfolding sn p(3) by simp_all
  have count: "pdcp_rcvd_count r sn = count32 n"
    unfolding sn by (subst pdcp_rcvd_count_exact [OF cfg lo hi]) simp
  define pay where "pay = (if pd_has_ciphering r then nr_pdcp_security_nea2_cipher C (the (pd_security_context r))
      (b @ mac) (pd_rb_id r) (count32 n) ?d else b @ mac)"
  have pdu: "pdcp_pdu C s (count32 n) b = h @ pay"
    unfolding pdcp_pdu_def Let_def pay_def mac_def h_def sn_def p by (rule refl)
  have lm: "length mac = pdcp_integrity_size r"
    unfolding mac_def by (rule pdcp_integrity_size_mac [OF C])
  have lp: "length pay = length b + pdcp_integrity_size r"
    using C lm by (simp add: pay_def)
  have lh: "length h = pdcp_header_size r"
    by (simp add: h_def p)
  have hne: "h \<noteq> []"
    using lh by (auto simp: pdcp_header_size_def split: if_splits)
  have dc: "\<not> (pd_type r \<noteq> NR_PDCP_SRB \<and> hd (h @ pay) AND 0x80 = 0)"
    using pdcp_header_dc [of s sn pay] p(1) unfolding h_def by auto
  have ph: "pdcp_parse_header r (h @ pay) = Inr (sn, pdcp_header_size r)"
    unfolding h_def using L p rng pdcp_parse_header_header [of r s sn pay] by auto
  have big: "\<not> length (h @ pay) < pdcp_header_size r + pdcp_integrity_size r + 1" "\<not> length (h @ pay) < 1"
    using lh lp b hne by (cases b; simp)+
  have dec: "(if pd_has_ciphering r then rbind (pdcp_cipher C r (drop (pdcp_header_size r) (h @ pay)) (count32 n) ?d)
      (\<lambda>x. Inr (take (pdcp_header_size r) (h @ pay) @ x)) else Inr (h @ pay)) = Inr (h @ b @ mac)"
    using cfg C lh by (auto simp: pdcp_cipher_def pay_def pdcp_config_ok_def)
  have chk: "\<exists>ok. pdcp_check_integrity C r (h @ b @ mac) (pdcp_integrity_size r) (count32 n) = Inr ok"
    using cfg by (auto simp: pdcp_check_integrity_def pdcp_integrity_def pdcp_config_ok_def)
  have "nr_pdcp_entity_recv_pdu C r (h @ pay) =
      Inr (pdcp_reorder r (h @ b @ mac) (pdcp_header_size r) (pdcp_integrity_size r) (count32 n))"
    unfolding nr_pdcp_entity_recv_pdu_def Let_def if_not_P [OF dc] if_not_P [OF big(2)] ph rbind_Inr prod.case
      if_not_P [OF big(1)] count dec using chk by auto
  moreover have "take (length (h @ b @ mac) - pdcp_header_size r - pdcp_integrity_size r)
      (drop (pdcp_header_size r) (h @ b @ mac)) = b"
    using lh lm by simp
  ultimately show ?thesis
    using that pdu by simp
qed

section \<open>A bearer\<close>

text \<open>
  The sender takes SDUs one after the other. Its PDUs arrive at the other end in any order, more than
  once or not at all, and the clock of the receiver advances in between. A PDU must arrive while its
  COUNT is within one window of \<^verbatim>\<open>rx_deliv\<close>.
\<close>

fun pdcp_send :: "crypto \<Rightarrow> nr_pdcp_entity \<Rightarrow> byte list list \<Rightarrow> nr_pdcp_entity res" where
  "pdcp_send C e [] = Inr e"
| "pdcp_send C e (b # bs) = rbind (nr_pdcp_entity_recv_sdu C e b 0) (\<lambda>e'. pdcp_send C e' bs)"

fun pdus_of :: "pdcp_event list \<Rightarrow> byte list list" where
  "pdus_of [] = []"
| "pdus_of (Pdcp_pdu p _ # l) = p # pdus_of l"
| "pdus_of (Pdcp_sdu _ # l) = pdus_of l"

datatype pdcp_input = Arrive nat | Tick "64 word"

fun pdcp_step :: "crypto \<Rightarrow> byte list list \<Rightarrow> nr_pdcp_entity \<Rightarrow> pdcp_input \<Rightarrow> nr_pdcp_entity res" where
  "pdcp_step C pdus e (Arrive n) = nr_pdcp_entity_recv_pdu C e (pdus ! n)"
| "pdcp_step C pdus e (Tick now) = Inr (nr_pdcp_entity_set_time e now)"

fun pdcp_run :: "crypto \<Rightarrow> byte list list \<Rightarrow> nr_pdcp_entity \<Rightarrow> pdcp_input list \<Rightarrow> nr_pdcp_entity res" where
  "pdcp_run C pdus e [] = Inr e"
| "pdcp_run C pdus e (i # is) = rbind (pdcp_step C pdus e i) (\<lambda>e'. pdcp_run C pdus e' is)"

fun pdcp_in_window :: "crypto \<Rightarrow> byte list list \<Rightarrow> nr_pdcp_entity \<Rightarrow> pdcp_input list \<Rightarrow> bool" where
  "pdcp_in_window C pdus e [] = True"
| "pdcp_in_window C pdus e (i # is) =
     ((case i of
         Arrive n \<Rightarrow> n < length pdus \<and> uint (pd_rx_deliv e) - pd_window_size e \<le> int n \<and>
                     int n < uint (pd_rx_deliv e) + pd_window_size e
       | Tick _ \<Rightarrow> True) \<and>
      (case pdcp_step C pdus e i of Inl _ \<Rightarrow> True | Inr e' \<Rightarrow> pdcp_in_window C pdus e' is))"

definition arrivals :: "pdcp_input list \<Rightarrow> nat set" where
  "arrivals is = {n. Arrive n \<in> set is}"

lemma arrivals_simps [simp]:
  "arrivals [] = {}" "arrivals (Arrive n # is) = insert n (arrivals is)" "arrivals (Tick t # is) = arrivals is"
  by (auto simp: arrivals_def)

lemma pdcp_config_static: "pdcp_static e' = pdcp_static e \<Longrightarrow> pdcp_config_ok e \<Longrightarrow> pdcp_config_ok e'"
  unfolding pdcp_config_ok_def pdcp_static_def
  by (cases e; cases e') simp

lemma pdcp_peers_static: "pdcp_static e' = pdcp_static e \<Longrightarrow> pdcp_peers s e \<Longrightarrow> pdcp_peers s e'"
  unfolding pdcp_peers_def pdcp_static_def
  by (cases e; cases e') simp

lemma t_reordering_static: "pdcp_static e' = pdcp_static e \<Longrightarrow> pd_t_reordering e' = pd_t_reordering e"
  unfolding pdcp_static_def by (cases e; cases e') simp

lemma pdcp_step_inv:
  assumes C: "crypto_ok C" and inv: "pdcp_rx_inv sdu ds ns D N r" and cfg: "pdcp_config_ok r" "pdcp_peers s r"
    and pdus: "\<And>n. n < length pdus \<Longrightarrow> pdus ! n = pdcp_pdu C s (count32 n) (sdu n) \<and> sdu n \<noteq> []"
    and len: "length pdus < 2 ^ 32" and win: "pdcp_in_window C pdus r (i # is)"
  obtains r' ds' ns' D' N' where "pdcp_step C pdus r i = Inr r'" "pdcp_static r' = pdcp_static r"
    "pdcp_rx_inv sdu ds' ns' D' N' r'" "pdcp_got ds' ns' \<subseteq> pdcp_got ds ns \<union> arrivals [i]"
    "pd_t_reordering r = -1 \<Longrightarrow> ds = [0..<D] \<Longrightarrow> ds' = [0..<D'] \<and> pdcp_got ds' ns' = pdcp_got ds ns \<union> arrivals [i]"
proof (cases i)
  case (Tick now)
  obtain ds' ns' D' where "pdcp_rx_inv sdu ds' ns' D' N (nr_pdcp_entity_set_time r now)"
    "pdcp_static (nr_pdcp_entity_set_time r now) = pdcp_static r" "pdcp_got ds' ns' = pdcp_got ds ns"
    and same: "pd_t_reordering r = -1 \<Longrightarrow> ds' = ds \<and> D' = D"
    using pdcp_set_time_inv [OF inv] by blast
  note t = this(1-3)
  have "ds' = [0..<D'] \<and> pdcp_got ds' ns' = pdcp_got ds ns \<union> arrivals [i]"
    if "pd_t_reordering r = -1" "ds = [0..<D]"
    using same [OF that(1)] that(2) t(3) Tick by simp
  moreover have "pdcp_step C pdus r i = Inr (nr_pdcp_entity_set_time r now)"
    "pdcp_got ds' ns' \<subseteq> pdcp_got ds ns \<union> arrivals [i]"
    using Tick t(3) by simp_all
  ultimately show ?thesis
    using t(1,2) that by blast
next
  case (Arrive n)
  have n: "n < length pdus" "uint (pd_rx_deliv r) - pd_window_size r \<le> int n"
    "int n < uint (pd_rx_deliv r) + pd_window_size r"
    using win Arrive by auto
  have n32: "n < 2 ^ 32 - 1" "n < 2 ^ 32"
    using n(1) len by auto
  have pn: "pdus ! n = pdcp_pdu C s (count32 n) (sdu n)" "sdu n \<noteq> []"
    using pdus [OF n(1)] by blast+
  obtain buf where r: "nr_pdcp_entity_recv_pdu C r (pdus ! n) =
      Inr (pdcp_reorder r buf (pdcp_header_size r) (pdcp_integrity_size r) (count32 n))"
    and buf: "take (length buf - pdcp_header_size r - pdcp_integrity_size r) (drop (pdcp_header_size r) buf) = sdu n"
    unfolding pn(1) by (rule pdcp_recv_peer [OF C cfg pn(2) n(2,3) n32(2)])
  obtain ds' ns' D' N' where i': "pdcp_rx_inv sdu ds' ns' D' N'
      (pdcp_reorder r buf (pdcp_header_size r) (pdcp_integrity_size r) (count32 n))"
    "pdcp_static (pdcp_reorder r buf (pdcp_header_size r) (pdcp_integrity_size r) (count32 n)) = pdcp_static r"
    and got: "pdcp_got ds' ns' = pdcp_got ds ns \<union> (if n < D then {} else {n})"
    and ds: "ds = [0..<D] \<longrightarrow> ds' = [0..<D']"
    by (rule pdcp_reorder_inv [OF inv n32(1) buf])
  have "ds' = [0..<D'] \<and> pdcp_got ds' ns' = pdcp_got ds ns \<union> arrivals [i]" if "ds = [0..<D]"
    using ds got that Arrive by (auto simp: pdcp_got_def)
  moreover have "pdcp_got ds' ns' \<subseteq> pdcp_got ds ns \<union> arrivals [i]"
    using got Arrive by auto
  moreover have "pdcp_step C pdus r i =
      Inr (pdcp_reorder r buf (pdcp_header_size r) (pdcp_integrity_size r) (count32 n))"
    using r Arrive by simp
  ultimately show ?thesis
    using i' that by blast
qed

lemma pdcp_run_inv:
  assumes C: "crypto_ok C"
    and pdus: "\<And>n. n < length pdus \<Longrightarrow> pdus ! n = pdcp_pdu C s (count32 n) (sdu n) \<and> sdu n \<noteq> []"
    and len: "length pdus < 2 ^ 32"
  shows "\<lbrakk>pdcp_rx_inv sdu ds ns D N r; pdcp_config_ok r; pdcp_peers s r; pdcp_in_window C pdus r is\<rbrakk> \<Longrightarrow>
    \<exists>r' ds' ns' D' N'. pdcp_run C pdus r is = Inr r' \<and> pdcp_rx_inv sdu ds' ns' D' N' r' \<and>
      pdcp_got ds' ns' \<subseteq> pdcp_got ds ns \<union> arrivals is \<and>
      (pd_t_reordering r = -1 \<and> ds = [0..<D] \<longrightarrow>
         ds' = [0..<D'] \<and> pdcp_got ds' ns' = pdcp_got ds ns \<union> arrivals is)"
proof (induction "is" arbitrary: ds ns D N r)
  case Nil
  then show ?case
    by auto
next
  case (Cons i "is")
  obtain r1 ds1 ns1 D1 N1 where 1: "pdcp_step C pdus r i = Inr r1" "pdcp_static r1 = pdcp_static r"
    "pdcp_rx_inv sdu ds1 ns1 D1 N1 r1" "pdcp_got ds1 ns1 \<subseteq> pdcp_got ds ns \<union> arrivals [i]"
    "pd_t_reordering r = -1 \<Longrightarrow> ds = [0..<D] \<Longrightarrow> ds1 = [0..<D1] \<and> pdcp_got ds1 ns1 = pdcp_got ds ns \<union> arrivals [i]"
    using pdcp_step_inv [OF C Cons.prems(1-3) pdus len Cons.prems(4)] by blast
  have w: "pdcp_in_window C pdus r1 is"
    using Cons.prems(4) 1(1) by simp
  obtain r' ds' ns' D' N' where 2: "pdcp_run C pdus r1 is = Inr r'" "pdcp_rx_inv sdu ds' ns' D' N' r'"
      "pdcp_got ds' ns' \<subseteq> pdcp_got ds1 ns1 \<union> arrivals is"
      "pd_t_reordering r1 = -1 \<Longrightarrow> ds1 = [0..<D1] \<Longrightarrow>
         ds' = [0..<D'] \<and> pdcp_got ds' ns' = pdcp_got ds1 ns1 \<union> arrivals is"
    using Cons.IH [OF 1(3) pdcp_config_static [OF 1(2) Cons.prems(2)] pdcp_peers_static [OF 1(2) Cons.prems(3)] w]
    by blast
  have a: "arrivals (i # is) = arrivals [i] \<union> arrivals is"
    by (auto simp: arrivals_def)
  have "pdcp_got ds' ns' \<subseteq> pdcp_got ds ns \<union> arrivals (i # is)"
    using 1(4) 2(3) unfolding a by blast
  moreover have "ds' = [0..<D'] \<and> pdcp_got ds' ns' = pdcp_got ds ns \<union> arrivals (i # is)"
    if "pd_t_reordering r = -1" "ds = [0..<D]"
  proof -
    have d: "ds1 = [0..<D1]" "pdcp_got ds1 ns1 = pdcp_got ds ns \<union> arrivals [i]"
      using 1(5) [OF that] by blast+
    have "pd_t_reordering r1 = -1"
      using that(1) t_reordering_static [OF 1(2)] by simp
    from 2(4) [OF this d(1)] show ?thesis
      unfolding a d(2) Un_assoc .
  qed
  moreover have "pdcp_run C pdus r (i # is) = Inr r'"
    using 1(1) 2(1) by simp
  ultimately show ?case
    using 2(2) by blast
qed


section \<open>Connected entities\<close>

lemma set_security_eq:
  "nr_pdcp_entity_set_security e ia ik ca ck =
     (if ia \<notin> {-1, 0, 2} \<or> ca \<notin> {-1, 0, 2} then Inl Exit_fatal
      else
        let ikey = (case ik of None \<Rightarrow> pd_integrity_key e | Some k \<Rightarrow> take 16 k);
            ckey = (case ck of None \<Rightarrow> pd_ciphering_key e | Some k \<Rightarrow> take 16 k)
        in Inr (e\<lparr>pd_integrity_algorithm := (if ia = -1 then pd_integrity_algorithm e else ia),
                  pd_ciphering_algorithm := (if ca = -1 then pd_ciphering_algorithm e else ca),
                  pd_integrity_key := ikey, pd_ciphering_key := ckey,
                  pd_has_integrity := (if ia = -1 then pd_has_integrity e else ia = 2),
                  pd_integrity_context := (if ia = -1 then pd_integrity_context e
                     else if ia = 0 then None else Some (nr_pdcp_integrity_nia2_init ikey)),
                  pd_has_ciphering := (if ca = -1 then pd_has_ciphering e else ca = 2),
                  pd_security_context := (if ca = -1 then pd_security_context e
                     else if ca = 0 then None else Some (nr_pdcp_security_nea2_init ckey))\<rparr>))"
proof (cases e)
  case (fields)
  then show ?thesis
    by (cases "ia = -1"; cases "ia = 0"; cases "ia = 2"; cases "ca = -1"; cases "ca = 0"; cases "ca = 2";
        cases ik; cases ck; simp add: nr_pdcp_entity_set_security_def Let_def)
qed

lemmas new_pdcp_simps = new_nr_pdcp_entity_def set_security_eq Let_def

lemma new_pdcp_fields:
  assumes "new_nr_pdcp_entity type gnb rb psi sdap ul dl L tr td ca ia ck ik = Inr e"
  shows "pd_type e = type" "pd_rb_id e = rb" "pd_sn_size e = L" "pd_sn_max e = 2 ^ L - 1" "pd_window_size e = 2 ^ (L - 1)"
    "pd_is_gnb e = gnb" "pd_tx_next e = 0" "pd_rx_next e = 0" "pd_rx_deliv e = 0" "pd_rx_list e = []"
    "pd_out e = []" "pd_t_reordering e = tr" "pd_t_reordering_start e = 0"
    "pd_has_ciphering e = (ca = 2)" "pd_has_integrity e = (ia = 2)"
    "pd_security_context e = (if ca = 2 then Some (take 16 (case ck of None \<Rightarrow> replicate 16 0 | Some k \<Rightarrow> take 16 k)) else None)"
    "pd_integrity_context e = (if ia = 2 then Some (take 16 (case ik of None \<Rightarrow> replicate 16 0 | Some k \<Rightarrow> take 16 k)) else None)"
proof -
  have alg: "ia \<in> {-1, 0, 2}" "ca \<in> {-1, 0, 2}"
    using assms by (auto simp: new_pdcp_simps split: if_splits)
  note e = assms [unfolded new_pdcp_simps, simplified this, symmetric]
  show "pd_type e = type" "pd_rb_id e = rb" "pd_sn_size e = L" "pd_sn_max e = 2 ^ L - 1" "pd_window_size e = 2 ^ (L - 1)"
    "pd_is_gnb e = gnb" "pd_tx_next e = 0" "pd_rx_next e = 0" "pd_rx_deliv e = 0" "pd_rx_list e = []"
    "pd_out e = []" "pd_t_reordering e = tr" "pd_t_reordering_start e = 0"
    "pd_has_ciphering e = (ca = 2)" "pd_has_integrity e = (ia = 2)"
    "pd_security_context e = (if ca = 2 then Some (take 16 (case ck of None \<Rightarrow> replicate 16 0 | Some k \<Rightarrow> take 16 k)) else None)"
    "pd_integrity_context e = (if ia = 2 then Some (take 16 (case ik of None \<Rightarrow> replicate 16 0 | Some k \<Rightarrow> take 16 k)) else None)"
    using e alg by (auto simp: push_bit_eq_mult nr_pdcp_security_nea2_init_def nr_pdcp_integrity_nia2_init_def
        split: option.splits)
qed

lemma new_pdcp_config:
  assumes "new_nr_pdcp_entity type gnb rb psi sdap ul dl L tr td ca ia ck ik = Inr e" "L \<in> {12, 18}"
  shows "pdcp_config_ok e" "pdcp_rx_inv sdu [] [] 0 0 e"
  using new_pdcp_fields [OF assms(1)] assms(2)
  by (simp_all add: pdcp_config_ok_def pdcp_rx_inv_def pdcp_timer_ok_def)

lemma new_pdcp_peers:
  assumes "new_nr_pdcp_entity type gnb rb psi sdap ul dl L tr td ca ia ck ik = Inr s"
    "new_nr_pdcp_entity type (\<not> gnb) rb psi' sdap' ul' dl' L tr' td' ca ia ck ik = Inr r"
  shows "pdcp_peers s r"
  unfolding pdcp_peers_def new_pdcp_fields [OF assms(1)] new_pdcp_fields [OF assms(2)] by simp

lemma pdus_of_append [simp]: "pdus_of (a @ b) = pdus_of a @ pdus_of b"
  by (induction a rule: pdus_of.induct) simp_all

lemma pdcp_pdu_same:
  "pdcp_pdu C (e\<lparr>pd_tx_next := t, pd_out := out\<rparr>) = pdcp_pdu C e"
  by (rule ext)+ (simp add: pdcp_pdu_def Let_def pdcp_header_def pdcp_integrity_size_def)

lemma pdcp_send_pdus:
  assumes "pdcp_config_ok e" "pd_tx_next e = count32 k"
  shows "\<exists>e'. pdcp_send C e bs = Inr e' \<and>
    pdus_of (pd_out e') = pdus_of (pd_out e) @ map (\<lambda>i. pdcp_pdu C e (count32 (k + i)) (bs ! i)) [0..<length bs]"
  using assms
proof (induction bs arbitrary: e k)
  case (Cons b bs)
  let ?e = "e\<lparr>pd_tx_next := pd_tx_next e + 1, pd_out := pd_out e @ [Pdcp_pdu (pdcp_pdu C e (pd_tx_next e) b) 0]\<rparr>"
  have "pdcp_config_ok ?e" "pd_tx_next ?e = count32 (Suc k)"
    using Cons.prems by (simp_all add: pdcp_config_ok_def)
  from Cons.IH [OF this] obtain e' where e': "pdcp_send C ?e bs = Inr e'" "pdus_of (pd_out e') =
      pdus_of (pd_out ?e) @ map (\<lambda>i. pdcp_pdu C ?e (count32 (Suc k + i)) (bs ! i)) [0..<length bs]"
    by blast
  have "map (\<lambda>i. pdcp_pdu C e (count32 (k + i)) ((b # bs) ! i)) [0..<length (b # bs)] =
      pdcp_pdu C e (count32 k) b # map (\<lambda>i. pdcp_pdu C e (count32 (Suc k + i)) (bs ! i)) [0..<length bs]"
    by (simp add: upt_conv_Cons map_Suc_upt [symmetric] del: upt_Suc of_nat_Suc of_nat_add)
  then show ?case
    using e' Cons.prems by (intro exI [of _ e']) (simp add: pdcp_recv_sdu_pdu pdcp_pdu_same del: upt_Suc of_nat_Suc of_nat_add)
qed simp

end
