(* ===== verification/NR_PDCP_Bearer.thy ===== *)
theory NR_PDCP_Bearer
  imports NR_PDCP_Order
begin

text \<open>
  What a PDCP bearer promises: delivery in order and without loss, distinct counter blocks, safety for
  any use of the interface; and where the code deviates from what it means to do.
\<close>

section \<open>Runs of connected entities\<close>

lemma pdcp_link_run:
  assumes C: "crypto_ok C"
    and s: "new_nr_pdcp_entity type gnb rb psi sdap ul dl L tr td ca ia ck ik = Inr s"
    and r: "new_nr_pdcp_entity type (\<not> gnb) rb psi' sdap' ul' dl' L tr' td' ca ia ck ik = Inr r"
    and L: "L \<in> {12, 18}" and ne: "\<forall>b \<in> set sdus. b \<noteq> []" and len: "length sdus < 2 ^ 32"
    and send: "pdcp_send C s sdus = Inr s'" and win: "pdcp_in_window C (pdus_of (pd_out s')) r is"
  obtains r' ds' ns' D' N' where "pdcp_run C (pdus_of (pd_out s')) r is = Inr r'"
    "pdcp_rx_inv (\<lambda>n. sdus ! n) ds' ns' D' N' r'" "pdcp_got ds' ns' \<subseteq> arrivals is"
    "tr' = -1 \<longrightarrow> ds' = [0..<D'] \<and> pdcp_got ds' ns' = arrivals is"
proof -
  let ?pdus = "pdus_of (pd_out s')"
  have "pd_tx_next s = count32 0"
    using new_pdcp_fields(7) [OF s] by simp
  from pdcp_send_pdus [OF new_pdcp_config(1) [OF s L] this, of C sdus]
  have p: "?pdus = map (\<lambda>i. pdcp_pdu C s (count32 i) (sdus ! i)) [0..<length sdus]"
    using send new_pdcp_fields(11) [OF s] by simp
  have run: "\<exists>r' ds' ns' D' N'. pdcp_run C ?pdus r is = Inr r' \<and> pdcp_rx_inv (\<lambda>n. sdus ! n) ds' ns' D' N' r' \<and>
      pdcp_got ds' ns' \<subseteq> pdcp_got [] [] \<union> arrivals is \<and>
      (pd_t_reordering r = -1 \<and> [] = [0..<0] \<longrightarrow> ds' = [0..<D'] \<and> pdcp_got ds' ns' = pdcp_got [] [] \<union> arrivals is)"
  proof (rule pdcp_run_inv [OF C])
    show "?pdus ! n = pdcp_pdu C s (count32 n) (sdus ! n) \<and> sdus ! n \<noteq> []" if "n < length ?pdus" for n
      using that ne unfolding p by simp
    show "length ?pdus < 2 ^ 32"
      using len by (simp add: p)
    show "pdcp_rx_inv (\<lambda>n. sdus ! n) [] [] 0 0 r" "pdcp_config_ok r"
      by (rule new_pdcp_config [OF r L])+
    show "pdcp_peers s r"
      by (rule new_pdcp_peers [OF s r])
  qed (rule win)
  have "pdcp_got [] [] = {}" "pd_t_reordering r = tr'"
    using new_pdcp_fields(12) [OF r] by (simp_all add: pdcp_got_def)
  note e = this
  from run obtain r' ds' ns' D' N' where 1: "pdcp_run C ?pdus r is = Inr r'"
    "pdcp_rx_inv (\<lambda>n. sdus ! n) ds' ns' D' N' r'" and 2: "pdcp_got ds' ns' \<subseteq> pdcp_got [] [] \<union> arrivals is"
    and 3: "pd_t_reordering r = -1 \<and> [] = [0..<0] \<longrightarrow> ds' = [0..<D'] \<and> pdcp_got ds' ns' = pdcp_got [] [] \<union> arrivals is"
    by (elim exE conjE)
  show ?thesis
  proof (rule that [OF 1])
    show "pdcp_got ds' ns' \<subseteq> arrivals is"
      using 2 by (simp add: e)
    show "tr' = -1 \<longrightarrow> ds' = [0..<D'] \<and> pdcp_got ds' ns' = arrivals is"
      using 3 unfolding e by auto
  qed
qed

section \<open>Correctness of a bearer\<close>

text \<open>
  C6: PDCP delivers in order, without duplicates and unaltered. Between two connected entities, with any
  algorithms and any length of the sequence numbers, the PDUs of the SDUs sent may arrive in any order,
  repeatedly or never, mixed with any advance of the receiver's clock. As long as each arrives within
  one window of \<^verbatim>\<open>rx_deliv\<close>, nothing fails, and what goes up is an increasing selection of the SDUs
  that arrived.
\<close>

theorem pdcp_in_order:
  assumes "crypto_ok C"
    and "new_nr_pdcp_entity type gnb rb psi sdap ul dl L tr td ca ia ck ik = Inr s"
    and "new_nr_pdcp_entity type (\<not> gnb) rb psi' sdap' ul' dl' L tr' td' ca ia ck ik = Inr r"
    and "L \<in> {12, 18}" and "\<forall>b \<in> set sdus. b \<noteq> []" and "length sdus < 2 ^ 32"
    and "pdcp_send C s sdus = Inr s'" and "pdcp_in_window C (pdus_of (pd_out s')) r is"
  shows "\<exists>r' ds. pdcp_run C (pdus_of (pd_out s')) r is = Inr r' \<and>
    pd_out r' = map (\<lambda>n. Pdcp_sdu (sdus ! n)) ds \<and> sorted_wrt (<) ds \<and> set ds \<subseteq> arrivals is"
proof -
  obtain r' ds' ns' D' N' where "pdcp_run C (pdus_of (pd_out s')) r is = Inr r'"
    "pdcp_rx_inv (\<lambda>n. sdus ! n) ds' ns' D' N' r'" "pdcp_got ds' ns' \<subseteq> arrivals is"
    "tr' = -1 \<longrightarrow> ds' = [0..<D'] \<and> pdcp_got ds' ns' = arrivals is"
    by (rule pdcp_link_run [OF assms])
  note run = this
  have "set ds' \<subseteq> arrivals is"
    using run(3) by (simp add: pdcp_got_def)
  with run(1) pdcp_rx_invD(8,9) [OF run(2)] show ?thesis
    by blast
qed

definition xor_crypto :: crypto where
  "xor_crypto = \<lparr>ctr_crypt = \<lambda>key ctr data. map (\<lambda>x. x XOR fold (XOR) (key @ ctr) 0) data,
     cmac = \<lambda>key message. replicate 16 (fold (XOR) (key @ message) 0)\<rparr>"

lemma xor_crypto_ok: "crypto_ok xor_crypto"
  by (simp add: crypto_ok_def xor_crypto_def comp_def xor.assoc)

theorem pdcp_in_order_witness:
  "\<exists>s r s' r' ds. new_nr_pdcp_entity NR_PDCP_DRB_AM True 1 0 False False False 12 100 (-1) 2 2 (Some [1, 2]) (Some [3]) = Inr s \<and>
     new_nr_pdcp_entity NR_PDCP_DRB_AM False 1 0 False False False 12 100 (-1) 2 2 (Some [1, 2]) (Some [3]) = Inr r \<and>
     pdcp_send xor_crypto s [[7, 8], [9]] = Inr s' \<and>
     pdcp_run xor_crypto (pdus_of (pd_out s')) r [Arrive 1, Tick 5, Arrive 0, Arrive 1] = Inr r' \<and>
     pd_out r' = map (\<lambda>n. Pdcp_sdu ([[7, 8], [9]] ! n)) ds \<and> sorted_wrt (<) ds"
proof -
  let ?s = "new_nr_pdcp_entity NR_PDCP_DRB_AM True 1 0 False False False 12 100 (-1) 2 2 (Some [1, 2]) (Some [3])"
  let ?r = "new_nr_pdcp_entity NR_PDCP_DRB_AM (\<not> True) 1 0 False False False 12 100 (-1) 2 2 (Some [1, 2]) (Some [3])"
  have w: "(case ?s of Inl _ \<Rightarrow> False | Inr s \<Rightarrow> (case ?r of Inl _ \<Rightarrow> False | Inr r \<Rightarrow>
    (case pdcp_send xor_crypto s [[7, 8], [9]] of Inl _ \<Rightarrow> False | Inr s' \<Rightarrow>
      pdcp_in_window xor_crypto (pdus_of (pd_out s')) r [Arrive 1, Tick 5, Arrive 0, Arrive 1])))"
    by code_simp
  then obtain s r s' where s: "?s = Inr s" and r: "?r = Inr r"
    and s': "pdcp_send xor_crypto s [[7, 8], [9]] = Inr s'"
    and win: "pdcp_in_window xor_crypto (pdus_of (pd_out s')) r [Arrive 1, Tick 5, Arrive 0, Arrive 1]"
    by (auto split: sum.splits)
  show ?thesis
    using pdcp_in_order [OF xor_crypto_ok s r _ _ _ s' win] s r s' by auto
qed

lemma pdcp_window_arrivals:
  "\<lbrakk>pdcp_in_window C pdus r is; pdcp_run C pdus r is = Inr r'\<rbrakk> \<Longrightarrow> arrivals is \<subseteq> {..<length pdus}"
proof (induction "is" arbitrary: r)
  case (Cons i "is")
  obtain r1 where r1: "pdcp_step C pdus r i = Inr r1" "pdcp_run C pdus r1 is = Inr r'"
    using Cons.prems(2) by (auto elim: rbind_InrE)
  have "arrivals is \<subseteq> {..<length pdus}"
    using Cons.IH [of r1] Cons.prems(1) r1 by simp
  then show ?case
    using Cons.prems(1) by (cases i) auto
qed simp

text \<open>
  C7: Without a reordering timer a bearer loses nothing that its radio bearer brings: once the first \<open>m\<close>
  PDUs have arrived, in any order and with any repetition, and the next one has not, exactly the first
  \<open>m\<close> SDUs have been delivered, in order.
\<close>

theorem pdcp_lossless:
  assumes "crypto_ok C"
    and "new_nr_pdcp_entity type gnb rb psi sdap ul dl L tr td ca ia ck ik = Inr s"
    and "new_nr_pdcp_entity type (\<not> gnb) rb psi' sdap' ul' dl' L (-1) td' ca ia ck ik = Inr r"
    and "L \<in> {12, 18}" and "\<forall>b \<in> set sdus. b \<noteq> []" and "length sdus < 2 ^ 32"
    and "pdcp_send C s sdus = Inr s'" and "pdcp_in_window C (pdus_of (pd_out s')) r is"
    and "{..<m} \<subseteq> arrivals is" and "m \<notin> arrivals is"
  shows "\<exists>r'. pdcp_run C (pdus_of (pd_out s')) r is = Inr r' \<and> pd_out r' = map Pdcp_sdu (take m sdus)"
proof -
  obtain r' ds' ns' D' N' where run: "pdcp_run C (pdus_of (pd_out s')) r is = Inr r'"
    "pdcp_rx_inv (\<lambda>n. sdus ! n) ds' ns' D' N' r'" "pdcp_got ds' ns' \<subseteq> arrivals is"
    "-1 = (-1 :: int) \<longrightarrow> ds' = [0..<D'] \<and> pdcp_got ds' ns' = arrivals is"
    by (rule pdcp_link_run [OF assms(1-8)])
  note i = pdcp_rx_invD [OF run(2)]
  have ds: "ds' = [0..<D']" and got: "pdcp_got ds' ns' = arrivals is"
    using run(4) by blast+
  have "D' \<notin> arrivals is" "{..<D'} \<subseteq> arrivals is"
    unfolding got [symmetric] pdcp_got_def using i(3,10) by (auto simp: ds)
  then have D: "D' = m"
    using assms(9,10) by (meson lessThan_iff linorder_neqE_nat subsetD)
  have "length (pdus_of (pd_out s')) = length sdus"
    using pdcp_send_pdus [OF new_pdcp_config(1) [OF assms(2,4)], of 0 C sdus] new_pdcp_fields(7,11) [OF assms(2)]
      assms(7) by auto
  then have "{..<m} \<subseteq> {..<length sdus}"
    using pdcp_window_arrivals [OF assms(8) run(1)] assms(9) by (metis subset_trans)
  then have "m \<le> length sdus"
    by (simp add: lessThan_subset_iff)
  then have "map (\<lambda>n. Pdcp_sdu (sdus ! n)) [0..<m] = map Pdcp_sdu (take m sdus)"
    by (intro nth_equalityI) simp_all
  then show ?thesis
    using run(1) i(8) ds D by simp
qed

theorem pdcp_lossless_witness:
  "\<exists>s r s' r'. new_nr_pdcp_entity NR_PDCP_SRB True 1 0 False False False 12 100 (-1) 2 2 (Some [1, 2]) (Some [3]) = Inr s \<and>
     new_nr_pdcp_entity NR_PDCP_SRB False 1 0 False False False 12 (-1) (-1) 2 2 (Some [1, 2]) (Some [3]) = Inr r \<and>
     pdcp_send xor_crypto s [[7, 8], [9], [5]] = Inr s' \<and>
     pdcp_run xor_crypto (pdus_of (pd_out s')) r [Arrive 1, Arrive 0, Tick 5, Arrive 1] = Inr r' \<and>
     pd_out r' = [Pdcp_sdu [7, 8], Pdcp_sdu [9]]"
proof -
  let ?s = "new_nr_pdcp_entity NR_PDCP_SRB True 1 0 False False False 12 100 (-1) 2 2 (Some [1, 2]) (Some [3])"
  let ?r = "new_nr_pdcp_entity NR_PDCP_SRB (\<not> True) 1 0 False False False 12 (-1) (-1) 2 2 (Some [1, 2]) (Some [3])"
  have w: "(case ?s of Inl _ \<Rightarrow> False | Inr s \<Rightarrow> (case ?r of Inl _ \<Rightarrow> False | Inr r \<Rightarrow>
    (case pdcp_send xor_crypto s [[7, 8], [9], [5]] of Inl _ \<Rightarrow> False | Inr s' \<Rightarrow>
      pdcp_in_window xor_crypto (pdus_of (pd_out s')) r [Arrive 1, Arrive 0, Tick 5, Arrive 1])))"
    by code_simp
  then obtain s r s' where s: "?s = Inr s" and r: "?r = Inr r"
    and s': "pdcp_send xor_crypto s [[7, 8], [9], [5]] = Inr s'"
    and win: "pdcp_in_window xor_crypto (pdus_of (pd_out s')) r [Arrive 1, Arrive 0, Tick 5, Arrive 1]"
    by (auto split: sum.splits)
  have "{..<2} \<subseteq> arrivals [Arrive 1, Arrive 0, Tick 5, Arrive 1]" "2 \<notin> arrivals [Arrive 1, Arrive 0, Tick 5, Arrive 1]"
    by auto
  moreover have "map Pdcp_sdu (take 2 [[7, 8], [9], [5]]) = [Pdcp_sdu [7, 8], Pdcp_sdu [9]]"
    "\<forall>b \<in> set [[7, 8], [9], [5 :: byte]]. b \<noteq> []" "length [[7, 8], [9], [5 :: byte]] < 2 ^ 32"
    by simp_all
  ultimately show ?thesis
    using pdcp_lossless [OF xor_crypto_ok s r _ _ _ s' win, of 2] s r s' unfolding not_True_eq_False by auto
qed

section \<open>Counter blocks\<close>

lemma bit_count_byte:
  fixes c :: "32 word"
  shows "bit (ucast (drop_bit k c AND 255) :: byte) n \<longleftrightarrow> n < 8 \<and> bit c (k + n)"
proof -
  have "(255 :: 32 word) = mask 8"
    by (simp add: mask_eq_exp_minus_1)
  then have "bit (255 :: 32 word) n \<longleftrightarrow> n < 8"
    by (simp only: bit_mask_iff) auto
  then show ?thesis
    by (auto simp: bit_simps)
qed

lemma count_bytes_inject:
  fixes c c' :: "32 word"
  assumes "ucast (drop_bit 24 c AND 255) = (ucast (drop_bit 24 c' AND 255) :: byte)"
    "ucast (drop_bit 16 c AND 255) = (ucast (drop_bit 16 c' AND 255) :: byte)"
    "ucast (drop_bit 8 c AND 255) = (ucast (drop_bit 8 c' AND 255) :: byte)"
    "ucast (c AND 255) = (ucast (c' AND 255) :: byte)"
  shows "c = c'"
proof (rule bit_word_eqI)
  fix n :: nat
  assume "n < LENGTH(32)"
  then consider "n < 8" | m where "n = 8 + m" "m < 8" | m where "n = 16 + m" "m < 8" | m where "n = 24 + m" "m < 8"
    by (cases "n < 8"; cases "n < 16"; cases "n < 24")
       (auto dest!: le_Suc_ex simp: not_less)
  moreover have "bit c (k + m) = bit c' (k + m)"
    if "ucast (drop_bit k c AND 255) = (ucast (drop_bit k c' AND 255) :: byte)" "m < 8" for k m
    using that bit_count_byte [of k c m] bit_count_byte [of k c' m] by simp
  ultimately show "bit c n = bit c' n"
    using assms by cases (metis drop_bit_0 add_0 id_apply)+
qed

lemma bearer_byte_inject:
  fixes b b' d d' :: int
  assumes "1 \<le> b" "b \<le> 32" "1 \<le> b'" "b' \<le> 32" "d \<in> {0, 1}" "d' \<in> {0, 1}"
    and "(word_of_int (push_bit 3 (b - 1) OR push_bit 2 d) :: byte) = word_of_int (push_bit 3 (b' - 1) OR push_bit 2 d')"
  shows "b = b'" "d = d'"
proof -
  have o: "push_bit 3 (x - 1) OR push_bit 2 y = (x - 1) * 8 + 4 * y" if "y \<in> {0, 1}" for x y :: int
    using or_push_bit [of "4 * y" 3 "x - 1"] that by (auto simp: push_bit_eq_mult)
  have u: "uint (word_of_int ((x - 1) * 8 + 4 * y) :: byte) = (x - 1) * 8 + 4 * y"
    if "1 \<le> x" "x \<le> 32" "y \<in> {0, 1}" for x y :: int
    unfolding uint_word_of_int_eq using that by (intro take_bit_int_eq_self) auto
  have "(b - 1) * 8 + 4 * d = (b' - 1) * 8 + 4 * d'"
    using assms(7) unfolding o [OF assms(5)] o [OF assms(6)]
    using u [OF assms(1,2,5)] u [OF assms(3,4,6)] by metis
  then show "b = b'" "d = d'"
    using assms(5,6) by (auto; presburger)+
qed

text \<open>
  C15: No key stream is used twice: with at most 32 bearers, two calls of the cipher start from the same
  counter block only if COUNT, bearer and direction are the same.
\<close>

theorem pdcp_counter_blocks_distinct:
  assumes "1 \<le> b" "b \<le> 32" "1 \<le> b'" "b' \<le> 32" "d \<in> {0, 1}" "d' \<in> {0, 1}"
  shows "nea2_t c b d = nea2_t c' b' d' \<longleftrightarrow> c = c' \<and> b = b' \<and> d = d'"
proof
  assume "nea2_t c b d = nea2_t c' b' d'"
  then have "c = c'" "(word_of_int (push_bit 3 (b - 1) OR push_bit 2 d) :: byte) =
      word_of_int (push_bit 3 (b' - 1) OR push_bit 2 d')"
    unfolding nea2_t_def by (auto intro: count_bytes_inject)
  with bearer_byte_inject [OF assms this(2)] show "c = c' \<and> b = b' \<and> d = d'"
    by simp
qed simp

theorem pdcp_counter_blocks_distinct_witness: "nea2_t 5 1 0 \<noteq> nea2_t 5 2 0 \<and> nea2_t 5 1 0 \<noteq> nea2_t 5 1 1"
  using pdcp_counter_blocks_distinct [of 1 2 0 0 5 5] pdcp_counter_blocks_distinct [of 1 1 0 1 5 5] by simp

section \<open>Any bytes\<close>

definition pdcp_list_ok :: "nr_pdcp_entity \<Rightarrow> bool" where
  "pdcp_list_ok e \<longleftrightarrow> sorted_wrt (\<lambda>a b. ps_count a < ps_count b) (pd_rx_list e) \<and>
     (\<forall>s \<in> set (pd_rx_list e). pd_rx_deliv e < ps_count s)"

lemma in_list_set: "nr_pdcp_sdu_in_list l c \<longleftrightarrow> c \<in> ps_count ` set l"
  by (induction l) auto

lemma list_add_set [simp]: "set (nr_pdcp_sdu_list_add l s) = insert s (set l)"
  by (induction l) auto

lemma list_add_sorted:
  "\<lbrakk>sorted_wrt (\<lambda>a b. ps_count a < ps_count b) l; ps_count s \<notin> ps_count ` set l\<rbrakk> \<Longrightarrow>
   sorted_wrt (\<lambda>a b. ps_count a < ps_count b) (nr_pdcp_sdu_list_add l s)"
  by (induction l) (auto simp: not_less_iff_gr_or_eq)

lemma deliver_run_any:
  "\<lbrakk>pdcp_deliver_run l c e = (c', e'); pd_rx_list e = l; sorted_wrt (\<lambda>a b. ps_count a < ps_count b) l;
    \<forall>s \<in> set l. c \<le> ps_count s\<rbrakk> \<Longrightarrow>
   sorted_wrt (\<lambda>a b. ps_count a < ps_count b) (pd_rx_list e') \<and> (\<forall>s \<in> set (pd_rx_list e'). c' < ps_count s) \<and>
   pdcp_static e' = pdcp_static e"
proof (induction l c e rule: pdcp_deliver_run.induct)
  case (2 cur l count entity)
  show ?case
  proof (cases "count = ps_count cur")
    case True
    have "\<forall>s \<in> set l. count + 1 \<le> ps_count s"
      using 2(4) True by (auto simp: inc_le)
    then show ?thesis
      using 2 True by (simp add: pdcp_deliver_def pdcp_static_def)
  next
    case False
    then have "count < ps_count cur"
      using 2(5) by (simp add: order_less_le)
    then have "\<forall>s \<in> set (cur # l). count < ps_count s"
      using 2(4) by auto
    then show ?thesis
      using 2 False by auto
  qed
qed auto

lemma deliver_below_any:
  "\<lbrakk>pd_rx_list e = l; sorted_wrt (\<lambda>a b. ps_count a < ps_count b) l\<rbrakk> \<Longrightarrow>
   sorted_wrt (\<lambda>a b. ps_count a < ps_count b) (pd_rx_list (pdcp_deliver_below l c e)) \<and>
   (\<forall>s \<in> set (pd_rx_list (pdcp_deliver_below l c e)). c \<le> ps_count s) \<and>
   pdcp_static (pdcp_deliver_below l c e) = pdcp_static e"
proof (induction l c e rule: pdcp_deliver_below.induct)
  case (2 cur l reord entity)
  show ?case
  proof (cases "ps_count cur < reord")
    case True
    then show ?thesis
      using 2 by (simp add: pdcp_deliver_def pdcp_static_def)
  next
    case False
    then have "\<forall>s \<in> set (cur # l). reord \<le> ps_count s"
      using 2(3) by auto
    then show ?thesis
      using 2 False by auto
  qed
qed auto

lemma pdcp_flush_any:
  assumes "sorted_wrt (\<lambda>a b. ps_count a < ps_count b) (pd_rx_list e)" "\<forall>s \<in> set (pd_rx_list e). c \<le> ps_count s"
  shows "pdcp_list_ok (pdcp_flush e c)" "pdcp_static (pdcp_flush e c) = pdcp_static e"
proof -
  obtain c' e' where r: "pdcp_deliver_run (pd_rx_list e) c e = (c', e')"
    by (rule prod.exhaust)
  then show "pdcp_list_ok (pdcp_flush e c)" "pdcp_static (pdcp_flush e c) = pdcp_static e"
    using deliver_run_any [OF r refl assms] by (auto simp: pdcp_flush_def pdcp_list_ok_def pdcp_static_def)
qed

lemma pdcp_list_ok_timers [simp]:
  "pdcp_list_ok (pdcp_timers e) = pdcp_list_ok e" "pdcp_list_ok (pdcp_start_timer e) = pdcp_list_ok e"
  by (simp_all add: pdcp_list_ok_def)

lemma pdcp_insert_sel [simp]:
  "pd_rx_list (pdcp_insert e s n) = nr_pdcp_sdu_list_add (pd_rx_list e) s"
  "pd_rx_deliv (pdcp_insert e s n) = pd_rx_deliv e"
  by (simp_all add: pdcp_insert_def Let_def)

lemma pdcp_reorder_any:
  assumes "pdcp_list_ok e"
  shows "pdcp_list_ok (pdcp_reorder e buffer h k c)" "pdcp_static (pdcp_reorder e buffer h k c) = pdcp_static e"
proof -
  define s where "s = nr_pdcp_new_sdu c (take (length buffer - h - k) (drop h buffer))"
  define e1 where "e1 = pdcp_insert e s (int (length buffer) - int h)"
  have eq: "pdcp_reorder e buffer h k c = (if c < pd_rx_deliv e \<or> nr_pdcp_sdu_in_list (pd_rx_list e) c then e
      else pdcp_timers (if c = pd_rx_deliv e1 then pdcp_flush e1 (pd_rx_deliv e1) else e1))"
    unfolding pdcp_reorder_alt Let_def s_def e1_def by (rule refl)
  have st: "pdcp_static e1 = pdcp_static e"
    by (simp add: e1_def)
  have *: "pdcp_list_ok (if c = pd_rx_deliv e1 then pdcp_flush e1 (pd_rx_deliv e1) else e1) \<and>
    pdcp_static (if c = pd_rx_deliv e1 then pdcp_flush e1 (pd_rx_deliv e1) else e1) = pdcp_static e"
    if new: "\<not> c < pd_rx_deliv e" "\<not> nr_pdcp_sdu_in_list (pd_rx_list e) c"
  proof -
    have sorted: "sorted_wrt (\<lambda>a b. ps_count a < ps_count b) (pd_rx_list e1)"
      using assms new(2) by (simp add: e1_def s_def pdcp_list_ok_def in_list_set list_add_sorted)
    have ge: "\<forall>x \<in> set (pd_rx_list e1). pd_rx_deliv e1 \<le> ps_count x"
      using assms new(1) by (auto simp: e1_def s_def pdcp_list_ok_def)
    have gt: "\<forall>x \<in> set (pd_rx_list e1). pd_rx_deliv e1 < ps_count x" if "c \<noteq> pd_rx_deliv e1"
      using assms new(1) that by (auto simp: e1_def s_def pdcp_list_ok_def)
    show ?thesis
      using pdcp_flush_any [OF sorted ge] sorted gt st by (auto simp: pdcp_list_ok_def)
  qed
  show "pdcp_list_ok (pdcp_reorder e buffer h k c)" "pdcp_static (pdcp_reorder e buffer h k c) = pdcp_static e"
    unfolding eq using * assms by (simp_all split: if_split)
qed

lemma pdcp_set_time_any:
  assumes "pdcp_list_ok e"
  shows "pdcp_list_ok (nr_pdcp_entity_set_time e now)" "pdcp_static (nr_pdcp_entity_set_time e now) = pdcp_static e"
proof -
  let ?e = "e\<lparr>pd_t_current := now\<rparr>" and ?e1 = "e\<lparr>pd_t_current := now, pd_t_reordering_start := 0\<rparr>"
  define e2 where "e2 = pdcp_deliver_below (pd_rx_list ?e1) (pd_rx_reord ?e1) ?e1"
  have eq: "nr_pdcp_entity_set_time e now = (if pd_t_reordering e = -1 \<or> pd_t_reordering_start e = 0 \<or>
      now \<le> word_of_int (pd_t_reordering_start e + pd_t_reordering e) then ?e
      else pdcp_start_timer (pdcp_flush e2 (pd_rx_reord e2)))"
    unfolding nr_pdcp_entity_set_time_def pdcp_check_t_reordering_def Let_def e2_def by simp
  have b: "sorted_wrt (\<lambda>a b. ps_count a < ps_count b) (pd_rx_list e2)"
    "\<forall>s \<in> set (pd_rx_list e2). pd_rx_reord ?e1 \<le> ps_count s" "pdcp_static e2 = pdcp_static ?e1"
    using deliver_below_any [of ?e1 "pd_rx_list e" "pd_rx_reord ?e1"] assms
    by (auto simp: e2_def pdcp_list_ok_def)
  have "pd_rx_reord (pdcp_deliver_below l c e) = pd_rx_reord e" for l c e
    by (induction l c e rule: pdcp_deliver_below.induct) (auto simp: pdcp_deliver_def)
  then have "pd_rx_reord e2 = pd_rx_reord ?e1"
    by (simp add: e2_def)
  then have "pdcp_list_ok (pdcp_flush e2 (pd_rx_reord e2))" "pdcp_static (pdcp_flush e2 (pd_rx_reord e2)) = pdcp_static e2"
    using pdcp_flush_any [OF b(1)] b(2) by simp_all
  moreover have "pdcp_list_ok ?e" "pdcp_static ?e = pdcp_static e" "pdcp_static ?e1 = pdcp_static e"
    using assms by (simp_all add: pdcp_list_ok_def pdcp_static_def)
  ultimately show "pdcp_list_ok (nr_pdcp_entity_set_time e now)"
    "pdcp_static (nr_pdcp_entity_set_time e now) = pdcp_static e"
    unfolding eq using b(3) by simp_all
qed

lemma pdcp_parse_header_any:
  "pdcp_parse_header e buf =
     (if length buf < pdcp_header_size e then Inl Out_of_bounds
      else Inr (fst (projr (pdcp_parse_header e buf)), pdcp_header_size e))"
  by (auto simp: pdcp_parse_header_def byte_at_def pdcp_header_size_def)

lemma pdcp_recv_pdu_any:
  assumes cfg: "pdcp_config_ok e" and ok: "pdcp_list_ok e"
  shows "(\<exists>e'. nr_pdcp_entity_recv_pdu C e buf = Inr e' \<and> pdcp_list_ok e' \<and> pdcp_static e' = pdcp_static e) \<or>
    nr_pdcp_entity_recv_pdu C e buf = Inl Out_of_bounds \<and> 0 < length buf \<and> length buf < pdcp_header_size e"
proof (cases "length buf < 1")
  case True
  then show ?thesis
    using ok by (simp add: nr_pdcp_entity_recv_pdu_def)
next
  case False
  define b where "b = (if pd_type e \<noteq> NR_PDCP_SRB \<and> hd buf AND 0x80 = 0 then (hd buf OR 128) # tl buf else buf)"
  have lb: "length b = length buf"
    using False by (cases buf) (auto simp: b_def)
  show ?thesis
  proof (cases "length buf < pdcp_header_size e")
    case True
    then have "nr_pdcp_entity_recv_pdu C e buf = Inl Out_of_bounds"
      using False lb pdcp_parse_header_any [of e b]
      unfolding nr_pdcp_entity_recv_pdu_def Let_def b_def [symmetric] by simp
    then show ?thesis
      using True False by simp
  next
    case long: False
    then obtain sn where sn: "pdcp_parse_header e b = Inr (sn, pdcp_header_size e)"
      using pdcp_parse_header_any [of e b] lb by simp
    define k where "k = pdcp_integrity_size e"
    define c where "c = pdcp_rcvd_count e sn"
    have ciph: "\<exists>x. (if pd_has_ciphering e then rbind (pdcp_cipher C e (drop (pdcp_header_size e) b) c
        (if pd_is_gnb e then 0 else 1)) (\<lambda>y. Inr (take (pdcp_header_size e) b @ y)) else Inr b) = Inr x"
      using cfg by (auto simp: pdcp_config_ok_def pdcp_cipher_def)
    have integ: "\<exists>y. pdcp_check_integrity C e x k c = Inr y" for x
      using cfg by (auto simp: pdcp_config_ok_def pdcp_check_integrity_def pdcp_integrity_def)
    obtain x where x: "(if pd_has_ciphering e then rbind (pdcp_cipher C e (drop (pdcp_header_size e) b) c
        (if pd_is_gnb e then 0 else 1)) (\<lambda>y. Inr (take (pdcp_header_size e) b @ y)) else Inr b) = Inr x"
      using ciph by blast
    obtain y where y: "pdcp_check_integrity C e x k c = Inr y"
      using integ by blast
    have "nr_pdcp_entity_recv_pdu C e buf =
        Inr (if length b < pdcp_header_size e + k + 1 then e else pdcp_reorder e x (pdcp_header_size e) k c)"
      using False
      unfolding nr_pdcp_entity_recv_pdu_def Let_def b_def [symmetric] sn rbind_Inr prod.case k_def [symmetric]
        c_def [symmetric] x y by simp
    then show ?thesis
      using ok pdcp_reorder_any [OF ok] by (auto split: if_splits)
  qed
qed

text \<open>The states of an entity: created, and then used through its interface in any way.\<close>

inductive pdcp_reach :: "crypto \<Rightarrow> nr_pdcp_entity \<Rightarrow> bool" for C where
  pdcp_new: "new_nr_pdcp_entity type gnb rb psi sdap ul dl L tr td ca ia ck ik = Inr e \<Longrightarrow> L \<in> {12, 18} \<Longrightarrow>
    pdcp_reach C e"
| pdcp_pdu_in: "pdcp_reach C e \<Longrightarrow> nr_pdcp_entity_recv_pdu C e buf = Inr e' \<Longrightarrow> pdcp_reach C e'"
| pdcp_sdu_in: "pdcp_reach C e \<Longrightarrow> nr_pdcp_entity_recv_sdu C e buf sdu_id = Inr e' \<Longrightarrow> pdcp_reach C e'"
| pdcp_time: "pdcp_reach C e \<Longrightarrow> pdcp_reach C (nr_pdcp_entity_set_time e now)"
| pdcp_keys: "pdcp_reach C e \<Longrightarrow> nr_pdcp_entity_set_security e ia ik ca ck = Inr e' \<Longrightarrow> pdcp_reach C e'"

lemma set_security_ok:
  assumes "nr_pdcp_entity_set_security e ia ik ca ck = Inr e'" "pdcp_config_ok e" "pdcp_list_ok e"
  shows "pdcp_config_ok e' \<and> pdcp_list_ok e'"
proof -
  have alg: "ia \<in> {-1, 0, 2}" "ca \<in> {-1, 0, 2}"
    using assms(1) by (auto simp: set_security_eq Let_def split: if_splits)
  note e' = assms(1) [unfolded set_security_eq Let_def, simplified alg, symmetric]
  show ?thesis
    using assms(2,3) e' alg by (auto simp: pdcp_config_ok_def pdcp_list_ok_def)
qed

lemma pdcp_reach_inv: "pdcp_reach C e \<Longrightarrow> pdcp_config_ok e \<and> pdcp_list_ok e"
proof (induction rule: pdcp_reach.induct)
  case (pdcp_new type gnb rb psi sdap ul dl L tr td ca ia ck ik e)
  then show ?case
    using new_pdcp_config(1) new_pdcp_fields(10) by (auto simp: pdcp_list_ok_def)
next
  case (pdcp_pdu_in e buf e')
  then show ?case
    using pdcp_recv_pdu_any [of e C buf] pdcp_config_static [of e' e] by auto
next
  case (pdcp_sdu_in e buf sdu_id e')
  then show ?case
    by (auto simp: pdcp_recv_sdu_pdu pdcp_config_ok_def pdcp_list_ok_def)
next
  case (pdcp_time e now)
  then show ?case
    using pdcp_set_time_any [of e now] pdcp_config_static [of "nr_pdcp_entity_set_time e now" e] by auto
next
  case (pdcp_keys e ia ik ca ck e')
  then show ?case
    using set_security_ok by blast
qed

text \<open>
  C14: However an entity is used, its reordering buffer is strictly ordered by COUNT, everything in it lies
  ahead of \<^verbatim>\<open>rx_deliv\<close>, an active algorithm has its context, and no PDU that is at least as long as its
  header makes the entity fail, whatever its bytes; nor does any SDU.
\<close>

theorem pdcp_reachable_safe:
  assumes "pdcp_reach C e"
  shows "sorted_wrt (<) (map ps_count (pd_rx_list e)) \<and> (\<forall>s \<in> set (pd_rx_list e). pd_rx_deliv e < ps_count s) \<and>
    (pd_has_ciphering e \<longrightarrow> pd_security_context e \<noteq> None) \<and>
    (pd_has_integrity e \<longrightarrow> pd_integrity_context e \<noteq> None) \<and>
    ((if pd_sn_size e = 12 then 2 else 3) \<le> length buf \<longrightarrow> returns (nr_pdcp_entity_recv_pdu C e buf)) \<and>
    returns (nr_pdcp_entity_recv_sdu C e buf sdu_id)"
proof -
  have i: "pdcp_config_ok e" "pdcp_list_ok e"
    using pdcp_reach_inv [OF assms] by auto
  have "returns (nr_pdcp_entity_recv_pdu C e buf)" if "(if pd_sn_size e = 12 then 2 else 3) \<le> length buf"
    using pdcp_recv_pdu_any [OF i, of C buf] that by (auto simp: pdcp_header_size_def returns_def split: if_splits)
  then show ?thesis
    using i by (auto simp: pdcp_config_ok_def pdcp_list_ok_def sorted_wrt_map pdcp_recv_sdu_pdu)
qed

theorem pdcp_reachable_safe_witness:
  "\<exists>e e'. new_nr_pdcp_entity NR_PDCP_DRB_AM True 1 0 False False False 12 100 (-1) 0 0 None None = Inr e \<and>
     nr_pdcp_entity_recv_pdu xor_crypto e [0x80, 4, 7] = Inr e' \<and>
     (\<forall>s \<in> set (pd_rx_list e'). pd_rx_deliv e' < ps_count s) \<and> pd_rx_list e' \<noteq> []"
proof -
  let ?e = "new_nr_pdcp_entity NR_PDCP_DRB_AM True 1 0 False False False 12 100 (-1) 0 0 None None"
  have "(case ?e of Inl _ \<Rightarrow> False | Inr e \<Rightarrow>
      (case nr_pdcp_entity_recv_pdu xor_crypto e [0x80, 4, 7] of Inl _ \<Rightarrow> False | Inr e' \<Rightarrow> pd_rx_list e' \<noteq> []))"
    by code_simp
  then obtain e e' where e: "?e = Inr e" "nr_pdcp_entity_recv_pdu xor_crypto e [0x80, 4, 7] = Inr e'" "pd_rx_list e' \<noteq> []"
    by (auto split: sum.splits)
  have "pdcp_reach xor_crypto e'"
    using e by (blast intro: pdcp_reach.intros)
  then show ?thesis
    using pdcp_reachable_safe [of xor_crypto e'] e by blast
qed

section \<open>Deviations\<close>

lemma pdcp_recv_mac:
  assumes cfg: "pdcp_config_ok e" and nc: "\<not> pd_has_ciphering e" and hi: "pd_has_integrity e"
    and mac: "length mac = 4" and pdu: "pdu \<noteq> []"
  defines "b \<equiv> (if pd_type e \<noteq> NR_PDCP_SRB \<and> hd pdu AND 0x80 = 0 then (hd pdu OR 128) # tl pdu else pdu)"
  shows "nr_pdcp_entity_recv_pdu C e (pdu @ mac) =
    Inr (if length pdu < pdcp_header_size e + 1 then e
         else pdcp_reorder e (b @ replicate 4 0) (pdcp_header_size e) 4
                (pdcp_rcvd_count e (fst (projr (pdcp_parse_header e b)))))"
proof -
  have b: "(if pd_type e \<noteq> NR_PDCP_SRB \<and> hd (pdu @ mac) AND 0x80 = 0
      then (hd (pdu @ mac) OR 128) # tl (pdu @ mac) else pdu @ mac) = b @ mac" "length b = length pdu"
    using pdu by (auto simp: b_def)
  have k: "pdcp_integrity_size e = 4"
    using hi by (simp add: pdcp_integrity_size_def)
  have "pdcp_header_size e \<le> length (b @ mac)" "\<not> length (pdu @ mac) < 1"
    using mac pdu b(2) by (auto simp: pdcp_header_size_def)
  then have ph: "pdcp_parse_header e (b @ mac) = Inr (fst (projr (pdcp_parse_header e (b @ mac))), pdcp_header_size e)"
    using pdcp_parse_header_any [of e "b @ mac"] by (simp add: not_less)
  have same: "pdcp_parse_header e (b @ mac) = pdcp_parse_header e b" if "pdcp_header_size e \<le> length b"
    using that by (auto simp: pdcp_parse_header_def byte_at_def pdcp_header_size_def nth_append split: if_splits)
  have chk: "\<exists>y. pdcp_check_integrity C e x 4 c = Inr y" for x c
    using cfg by (auto simp: pdcp_config_ok_def pdcp_check_integrity_def pdcp_integrity_def)
  have re: "pdcp_reorder e (b @ mac) h 4 c = pdcp_reorder e (b @ replicate 4 0) h 4 c" if "h \<le> length b" for h c
    using that mac unfolding pdcp_reorder_alt Let_def by simp
  obtain sn where sn: "pdcp_parse_header e (b @ mac) = Inr (sn, pdcp_header_size e)"
    using ph by blast
  obtain y where y: "pdcp_check_integrity C e (b @ mac) 4 (pdcp_rcvd_count e sn) = Inr y"
    using chk by blast
  have "nr_pdcp_entity_recv_pdu C e (pdu @ mac) =
      Inr (if length pdu < pdcp_header_size e + 1 then e
           else pdcp_reorder e (b @ mac) (pdcp_header_size e) 4 (pdcp_rcvd_count e sn))"
    using pdu mac b(2) nc unfolding nr_pdcp_entity_recv_pdu_def Let_def b(1) sn rbind_Inr prod.case k
    by (simp add: y)
  moreover have "pdcp_parse_header e b = Inr (sn, pdcp_header_size e)" if "\<not> length pdu < pdcp_header_size e + 1"
    using same sn that b(2) by simp
  ultimately show ?thesis
    using re b(2) by simp
qed

text \<open>
  C36: A failed integrity check has no effect: on a bearer with integrity protection and no ciphering, two
  PDUs that differ only in their MAC-I lead to the same state.
\<close>

theorem pdcp_integrity_not_enforced:
  assumes "pdcp_reach C e" "\<not> pd_has_ciphering e" "pd_has_integrity e"
    and "length mac = 4" "length mac' = 4" "pdu \<noteq> []"
  shows "nr_pdcp_entity_recv_pdu C e (pdu @ mac) = nr_pdcp_entity_recv_pdu C e (pdu @ mac')"
  using pdcp_recv_mac [OF conjunct1 [OF pdcp_reach_inv [OF assms(1)]] assms(2,3,4,6)]
    pdcp_recv_mac [OF conjunct1 [OF pdcp_reach_inv [OF assms(1)]] assms(2,3,5,6)] by simp

theorem pdcp_integrity_not_enforced_witness:
  "\<exists>e e'. new_nr_pdcp_entity NR_PDCP_SRB True 1 0 False False False 12 100 (-1) 0 2 None (Some [3]) = Inr e \<and>
     nr_pdcp_entity_recv_pdu xor_crypto e ([0, 0, 7] @ [1, 2, 3, 4]) = Inr e' \<and> pd_out e' = [Pdcp_sdu [7]] \<and>
     nr_pdcp_entity_recv_pdu xor_crypto e ([0, 0, 7] @ [0, 0, 0, 0]) = Inr e'"
proof -
  let ?e = "new_nr_pdcp_entity NR_PDCP_SRB True 1 0 False False False 12 100 (-1) 0 2 None (Some [3])"
  have "(case ?e of Inl _ \<Rightarrow> False | Inr e \<Rightarrow>
      (case nr_pdcp_entity_recv_pdu xor_crypto e [0, 0, 7, 1, 2, 3, 4] of Inl _ \<Rightarrow> False
       | Inr e' \<Rightarrow> pd_out e' = [Pdcp_sdu [7]]))"
    by code_simp
  then obtain e e' where e: "?e = Inr e"
    "nr_pdcp_entity_recv_pdu xor_crypto e ([0, 0, 7] @ [1, 2, 3, 4]) = Inr e'" "pd_out e' = [Pdcp_sdu [7]]"
    by (auto split: sum.splits)
  have "pdcp_reach xor_crypto e" "\<not> pd_has_ciphering e" "pd_has_integrity e"
    using e(1) new_pdcp_fields(14,15) [OF e(1)] by (auto intro: pdcp_new)
  then show ?thesis
    using pdcp_integrity_not_enforced [of xor_crypto e "[0, 0, 0, 0]" "[1, 2, 3, 4]" "[0, 0, 7]"] e by auto
qed

text \<open>
  C37: The bytes of the header are read before the size of the PDU is checked: a PDU that is not empty but
  shorter than its header is read beyond its end.
\<close>

theorem pdcp_short_pdu_read:
  assumes "0 < length buf" "length buf < (if pd_sn_size e = 12 then 2 else 3)"
  shows "nr_pdcp_entity_recv_pdu C e buf = Inl Out_of_bounds"
proof -
  define b where "b = (if pd_type e \<noteq> NR_PDCP_SRB \<and> hd buf AND 0x80 = 0 then (hd buf OR 128) # tl buf else buf)"
  have "length b = length buf"
    using assms(1) by (cases buf) (auto simp: b_def)
  then have "pdcp_parse_header e b = Inl Out_of_bounds"
    using pdcp_parse_header_any [of e b] assms(2) by (simp add: pdcp_header_size_def)
  then show ?thesis
    using assms(1) unfolding nr_pdcp_entity_recv_pdu_def Let_def b_def [symmetric] by simp
qed

theorem pdcp_short_pdu_read_witness:
  "\<exists>e. new_nr_pdcp_entity NR_PDCP_SRB True 1 0 False False False 12 100 (-1) 0 2 None (Some [3]) = Inr e \<and>
     nr_pdcp_entity_recv_pdu xor_crypto e [0] = Inl Out_of_bounds"
proof -
  obtain e where e: "new_nr_pdcp_entity NR_PDCP_SRB True 1 0 False False False 12 100 (-1) 0 2 None (Some [3]) = Inr e"
    by (simp add: new_pdcp_simps)
  then show ?thesis
    using pdcp_short_pdu_read [of "[0]" e xor_crypto] by simp
qed

lemma int_of_time_wrap: "int_of_time (2 ^ 31) = - (2 ^ 31)"
  by (simp add: int_of_time_def signed_take_bit_eq_take_bit_minus)



text \<open>
  A new key without an algorithm is stored but not used: the contexts keep the old keys, although the
  interface says that \<open>-1\<close> keeps the algorithm and a key that is not NULL replaces the key.
\<close>

lemma pdcp_new_key_unused:
  assumes "nr_pdcp_entity_set_security e (-1) (Some ikey) (-1) (Some ckey) = Inr e'"
  shows "pd_integrity_key e' = take 16 ikey \<and> pd_ciphering_key e' = take 16 ckey \<and>
    pd_integrity_context e' = pd_integrity_context e \<and> pd_security_context e' = pd_security_context e"
  using assms by (auto simp: set_security_eq)

end
