(* ===== verification/NR_SDAP.thy ===== *)
theory NR_SDAP
  imports L2_Ring
begin

text \<open>
  The SDAP entities, \<^verbatim>\<open>nr_sdap_entity.c\<close> and \<^verbatim>\<open>nr_sdap.c\<close>: the mapping of QoS flows to radio bearers, the
  one-byte headers, and the linked list of entities with its insertion at the head. The layer below is
  an argument: \<open>req\<close> stands for \<^verbatim>\<open>pdcp_data_req\<close> and \<open>submit\<close> for \<^verbatim>\<open>nr_pdcp_submit_sdap_ctrl_pdu\<close>, both acting
  on a state \<open>'s\<close> this theory does not look into; \<open>emit\<close> records what leaves upwards.
\<close>

section \<open>Narrow integers\<close>

definition u8 :: "int \<Rightarrow> int" where
  "u8 x = x mod 256"

definition u16 :: "int \<Rightarrow> int" where
  "u16 x = x mod 65536"

section \<open>Headers\<close>

text \<open>Bit fields of one byte, the first one lowest: \<^verbatim>\<open>QFI:6; RQI:1; RDI:1\<close> and \<^verbatim>\<open>QFI:6; R:1; DC:1\<close>.\<close>

definition sdap_hdr :: "int \<Rightarrow> bool \<Rightarrow> bool \<Rightarrow> byte" where
  "sdap_hdr qfi bit6 bit7 =
     word_of_int (qfi AND 0x3F) OR (if bit6 then 0x40 else 0) OR (if bit7 then 0x80 else 0)"

definition nr_sdap_dl_hdr :: "int \<Rightarrow> bool \<Rightarrow> bool \<Rightarrow> byte" where
  "nr_sdap_dl_hdr QFI RQI RDI = sdap_hdr QFI RQI RDI"

definition nr_sdap_ul_hdr :: "int \<Rightarrow> bool \<Rightarrow> bool \<Rightarrow> byte" where
  "nr_sdap_ul_hdr QFI R DC = sdap_hdr QFI R DC"

definition hdr_QFI :: "byte \<Rightarrow> int" where
  "hdr_QFI b = uint (b AND 0x3F)"

definition hdr_bit6 :: "byte \<Rightarrow> bool" where
  "hdr_bit6 b = bit b 6"

definition hdr_bit7 :: "byte \<Rightarrow> bool" where
  "hdr_bit7 b = bit b 7"

section \<open>Entities\<close>

record qfi2drb =
  qd_drb_id :: int
  qd_hasSdap :: bool

record nr_sdap_entity =
  sd_rnti :: int
  sd_default_drb :: int
  sd_pdusession_id :: int
  sd_qfi2drb_table :: "qfi2drb list"

definition SDAP_MAX_QFI :: nat where
  "SDAP_MAX_QFI = 64"

definition AVLBL_DRB :: int where
  "AVLBL_DRB = 5"

datatype sdap_msg =
    To_gtpu int int "byte list"
  | To_nas "byte list"

text \<open>A read of the table: \<^verbatim>\<open>qfi\<close> has 8 bits and the table 64 rows.\<close>

definition qfi2drb_row :: "nr_sdap_entity \<Rightarrow> int \<Rightarrow> qfi2drb res" where
  "qfi2drb_row entity qfi =
     (if nat qfi < length (sd_qfi2drb_table entity) then Inr (sd_qfi2drb_table entity ! nat qfi)
      else Inl Out_of_bounds)"

definition nr_sdap_qfi2drb_map_update :: "nr_sdap_entity \<Rightarrow> int \<Rightarrow> int \<Rightarrow> bool \<Rightarrow> nr_sdap_entity" where
  "nr_sdap_qfi2drb_map_update entity qfi drb hasSdap =
     (if qfi < int SDAP_MAX_QFI \<and> qfi > 0 \<and> drb > 0 \<and> drb \<le> AVLBL_DRB
      then entity\<lparr>sd_qfi2drb_table :=
             (sd_qfi2drb_table entity)[nat qfi := \<lparr>qd_drb_id = drb, qd_hasSdap = hasSdap\<rparr>]\<rparr>
      else entity)"

definition nr_sdap_qfi2drb_map_del :: "nr_sdap_entity \<Rightarrow> int \<Rightarrow> nr_sdap_entity res" where
  "nr_sdap_qfi2drb_map_del entity qfi =
     rbind (qfi2drb_row entity qfi) (\<lambda>row.
       Inr (entity\<lparr>sd_qfi2drb_table := (sd_qfi2drb_table entity)[nat qfi := row\<lparr>qd_drb_id := 0\<rparr>]\<rparr>))"

definition nr_sdap_qfi2drb_map :: "nr_sdap_entity \<Rightarrow> int \<Rightarrow> int res" where
  "nr_sdap_qfi2drb_map entity qfi =
     rbind (qfi2drb_row entity qfi) (\<lambda>row.
       if qd_drb_id row \<noteq> 0 then Inr (qd_drb_id row)
       else if sd_default_drb entity \<noteq> 0 then Inr (sd_default_drb entity)
       else Inr 0)"

section \<open>Transmission\<close>

type_synonym 's pdcp_req = "'s \<Rightarrow> protocol_ctxt \<Rightarrow> bool \<Rightarrow> int \<Rightarrow> int \<Rightarrow> int \<Rightarrow> byte list \<Rightarrow> (bool \<times> 's) res"

definition nr_sdap_tx_entity ::
  "'s pdcp_req \<Rightarrow> 's \<Rightarrow> nr_sdap_entity \<Rightarrow> protocol_ctxt \<Rightarrow> bool \<Rightarrow> int \<Rightarrow> int \<Rightarrow> int \<Rightarrow> byte list option \<Rightarrow>
   int \<Rightarrow> bool \<Rightarrow> (bool \<times> 's) res" where
  "nr_sdap_tx_entity req s entity ctxt srb_flag rb_id mui confirm sdu qfi rqi =
     rbind (of_opt Exit_fatal sdu) (\<lambda>sdu_buffer.
     rbind (nr_sdap_qfi2drb_map entity qfi) (\<lambda>pdcp_entity.
     rbind (if pdcp_entity \<noteq> 0
            then rbind (qfi2drb_row entity qfi) (\<lambda>row. Inr (pdcp_entity, qd_hasSdap row))
            else Inr (rb_id, False)) (\<lambda>(sdap_drb_id, pdcp_ent_has_sdap).
       if \<not> pdcp_ent_has_sdap then req s ctxt srb_flag sdap_drb_id mui confirm sdu_buffer
       else if sdu_buffer = [] \<or> length sdu_buffer > 8999 then Inr (False, s)
       else
         let hdr = (if cx_enb_flag ctxt then nr_sdap_dl_hdr qfi rqi False
                    else nr_sdap_ul_hdr qfi False rqi)
         in req s ctxt srb_flag sdap_drb_id mui confirm (hdr # sdu_buffer))))"

section \<open>Control PDUs\<close>

definition nr_sdap_construct_ctrl_pdu :: "int \<Rightarrow> byte" where
  "nr_sdap_construct_ctrl_pdu qfi = nr_sdap_ul_hdr qfi False False"

datatype map_type = SDAP_CTRL_PDU_MAP_DEF_DRB | SDAP_CTRL_PDU_MAP_RULE_DRB

definition nr_sdap_map_ctrl_pdu :: "nr_sdap_entity \<Rightarrow> map_type \<Rightarrow> int \<Rightarrow> int res" where
  "nr_sdap_map_ctrl_pdu entity map_type dl_qfi =
     (case map_type of
        SDAP_CTRL_PDU_MAP_DEF_DRB \<Rightarrow> Inr (sd_default_drb entity)
      | SDAP_CTRL_PDU_MAP_RULE_DRB \<Rightarrow> nr_sdap_qfi2drb_map entity dl_qfi)"

type_synonym 's pdcp_submit = "int \<Rightarrow> int \<Rightarrow> byte \<Rightarrow> 's \<Rightarrow> 's res"

definition nr_sdap_submit_ctrl_pdu :: "'s pdcp_submit \<Rightarrow> int \<Rightarrow> int \<Rightarrow> byte \<Rightarrow> 's \<Rightarrow> 's res" where
  "nr_sdap_submit_ctrl_pdu submit rnti sdap_ctrl_pdu_drb ctrl_pdu s =
     (if sdap_ctrl_pdu_drb \<noteq> 0 then submit rnti sdap_ctrl_pdu_drb ctrl_pdu s else Inr s)"

text \<open>The three calls that always come together.\<close>

definition sdap_end_marker ::
  "'s pdcp_submit \<Rightarrow> nr_sdap_entity \<Rightarrow> int \<Rightarrow> map_type \<Rightarrow> int \<Rightarrow> 's \<Rightarrow> 's res" where
  "sdap_end_marker submit entity rnti map_type qfi s =
     rbind (nr_sdap_map_ctrl_pdu entity map_type qfi) (\<lambda>drb.
       nr_sdap_submit_ctrl_pdu submit rnti drb (nr_sdap_construct_ctrl_pdu qfi) s)"

section \<open>Reception\<close>

text \<open>Reflective mapping at the UE: the control PDUs, then the new rule.\<close>

definition sdap_reflective ::
  "'s pdcp_submit \<Rightarrow> nr_sdap_entity \<Rightarrow> int \<Rightarrow> int \<Rightarrow> int \<Rightarrow> 's \<Rightarrow> (nr_sdap_entity \<times> 's) res" where
  "sdap_reflective submit entity pdcp_entity rnti qfi s =
     rbind (qfi2drb_row entity qfi) (\<lambda>row.
     rbind (if qd_drb_id row = 0 \<and> sd_default_drb entity \<noteq> 0
            then sdap_end_marker submit entity rnti SDAP_CTRL_PDU_MAP_DEF_DRB qfi s else Inr s) (\<lambda>s.
     rbind (if pdcp_entity \<noteq> qd_drb_id row
            then sdap_end_marker submit entity rnti SDAP_CTRL_PDU_MAP_RULE_DRB qfi s else Inr s) (\<lambda>s.
       Inr (entity\<lparr>sd_qfi2drb_table :=
              (sd_qfi2drb_table entity)[nat qfi := row\<lparr>qd_drb_id := pdcp_entity\<rparr>]\<rparr>, s))))"

definition nr_sdap_rx_entity ::
  "'s pdcp_submit \<Rightarrow> (sdap_msg \<Rightarrow> 's \<Rightarrow> 's) \<Rightarrow> nr_sdap_entity \<Rightarrow> int \<Rightarrow> bool \<Rightarrow> bool \<Rightarrow> bool \<Rightarrow> int \<Rightarrow> int \<Rightarrow>
   byte list \<Rightarrow> 's \<Rightarrow> (nr_sdap_entity \<times> 's) res" where
  "nr_sdap_rx_entity submit emit entity pdcp_entity is_gnb has_sdap has_sdapHeader pdusession_id rnti buf s =
     (if has_sdap \<and> has_sdapHeader
      then
        case buf of
          [] \<Rightarrow> Inl Out_of_bounds
        | hdr # sdu \<Rightarrow>
            if is_gnb then Inr (entity, emit (To_gtpu rnti pdusession_id sdu) s)
            else
              rbind (if hdr_bit7 hdr then sdap_reflective submit entity pdcp_entity rnti (hdr_QFI hdr) s
                     else Inr (entity, s)) (\<lambda>(entity, s).
                Inr (entity, emit (To_nas sdu) s))
      else if is_gnb then Inr (entity, emit (To_gtpu rnti pdusession_id buf) s)
      else Inr (entity, emit (To_nas buf) s))"

section \<open>The list of entities\<close>

type_synonym sdap_list = "nr_sdap_entity list"

text \<open>\<^verbatim>\<open>sdap_entity_llist\<close>, head first. A pointer to an entity is its position.\<close>

fun nr_sdap_get_entity :: "sdap_list \<Rightarrow> int \<Rightarrow> int \<Rightarrow> nat option" where
  "nr_sdap_get_entity [] rnti pdusession_id = None"
| "nr_sdap_get_entity (e # l) rnti pdusession_id =
     (if sd_rnti e = u16 rnti \<and> sd_pdusession_id e = pdusession_id then Some 0
      else map_option Suc (nr_sdap_get_entity l rnti pdusession_id))"

text \<open>
  \<^verbatim>\<open>mapped_qfi_2_add[i]\<close> for \<open>i < count\<close>: \<open>qfis\<close> is the memory the pointer gives access to, so an index past
  its end is outside the object.
\<close>

fun sdap_ue_config_loop ::
  "'s pdcp_submit \<Rightarrow> nr_sdap_entity \<Rightarrow> int \<Rightarrow> int \<Rightarrow> int list \<Rightarrow> nat \<Rightarrow> 's \<Rightarrow> 's res" where
  "sdap_ue_config_loop submit entity rnti drb_identity qfis 0 s = Inr s"
| "sdap_ue_config_loop submit entity rnti drb_identity [] (Suc n) s = Inl Out_of_bounds"
| "sdap_ue_config_loop submit entity rnti drb_identity (q # qfis) (Suc n) s =
     (let qfi = u8 q in
      rbind (if sd_default_drb entity \<noteq> 0
             then rbind (qfi2drb_row entity qfi) (\<lambda>row.
               if qd_drb_id row = 0
               then sdap_end_marker submit entity rnti SDAP_CTRL_PDU_MAP_DEF_DRB qfi s else Inr s)
             else Inr s) (\<lambda>s.
      rbind (qfi2drb_row entity qfi) (\<lambda>row.
      rbind (if qd_drb_id row \<noteq> drb_identity \<and> qd_hasSdap row
             then sdap_end_marker submit entity rnti SDAP_CTRL_PDU_MAP_RULE_DRB qfi s else Inr s) (\<lambda>s.
        sdap_ue_config_loop submit entity rnti drb_identity qfis n s))))"

definition nr_sdap_ue_qfi2drb_config ::
  "'s pdcp_submit \<Rightarrow> nr_sdap_entity \<Rightarrow> int \<Rightarrow> int list \<Rightarrow> nat \<Rightarrow> int \<Rightarrow> 's \<Rightarrow> 's res" where
  "nr_sdap_ue_qfi2drb_config submit entity rnti qfis n_add drb_identity s =
     sdap_ue_config_loop submit entity rnti drb_identity qfis n_add s"

fun sdap_map_loop :: "nr_sdap_entity \<Rightarrow> bool \<Rightarrow> int list \<Rightarrow> nat \<Rightarrow> nr_sdap_entity res" where
  "sdap_map_loop entity has_sdap qfis 0 = Inr entity"
| "sdap_map_loop entity has_sdap [] (Suc n) = Inl Out_of_bounds"
| "sdap_map_loop entity has_sdap (q # qfis) (Suc n) =
     sdap_map_loop (nr_sdap_qfi2drb_map_update entity (u8 q) (sd_default_drb entity) has_sdap) has_sdap qfis n"

definition new_nr_sdap_entity ::
  "'s pdcp_submit \<Rightarrow> sdap_list \<Rightarrow> bool \<Rightarrow> int \<Rightarrow> int \<Rightarrow> bool \<Rightarrow> int \<Rightarrow> int list \<Rightarrow> nat \<Rightarrow> 's \<Rightarrow>
   (sdap_list \<times> 's) res" where
  "new_nr_sdap_entity submit l has_sdap rnti pdusession_id is_defaultDRB drb_identity qfis n_add s =
     (case nr_sdap_get_entity l (u16 rnti) pdusession_id of
        Some i \<Rightarrow>
          rbind (nr_sdap_ue_qfi2drb_config submit (l ! i) (u16 rnti) qfis n_add (u8 drb_identity) s)
            (\<lambda>s. Inr (l, s))
      | None \<Rightarrow>
          let e = \<lparr>sd_rnti = u16 rnti, sd_default_drb = 0, sd_pdusession_id = pdusession_id,
                   sd_qfi2drb_table = replicate SDAP_MAX_QFI \<lparr>qd_drb_id = 0, qd_hasSdap = False\<rparr>\<rparr>
          in rbind (if is_defaultDRB
                    then sdap_map_loop (e\<lparr>sd_default_drb := u8 drb_identity\<rparr>) has_sdap qfis n_add
                    else Inr e) (\<lambda>e. Inr (e # l, s)))"

text \<open>
  Removal of a UE's entity: the walk stops at the first entity of that UE or at the last entity of the
  list, and then unlinks it when it is \<^emph>\<open>not\<close> the UE's.
\<close>

fun sdap_delete_walk :: "sdap_list \<Rightarrow> int \<Rightarrow> sdap_list" where
  "sdap_delete_walk [] rnti = []"
| "sdap_delete_walk (e # l) rnti =
     (if sd_rnti e \<noteq> u16 rnti \<and> l \<noteq> [] then e # sdap_delete_walk l rnti
      else if sd_rnti e \<noteq> u16 rnti then l
      else e # l)"

definition delete_nr_sdap_entity :: "sdap_list \<Rightarrow> int \<Rightarrow> sdap_list res" where
  "delete_nr_sdap_entity l rnti =
     (case l of
        [] \<Rightarrow> Inl Null_pointer
      | e # l' \<Rightarrow>
          if sd_rnti e = u16 rnti then Inr l'
          else if l' = [] then Inl Null_pointer
          else Inr (e # sdap_delete_walk l' rnti))"

section \<open>Headers carry their fields\<close>

lemma hdr_QFI_sdap: "0 \<le> qfi \<Longrightarrow> qfi < 64 \<Longrightarrow> hdr_QFI (sdap_hdr qfi a b) = qfi"
proof -
  assume q: "0 \<le> qfi" "qfi < 64"
  have m: "qfi AND 63 = qfi"
    using q take_bit_int_eq_self [of qfi 6] take_bit_eq_mask [of 6 qfi] by (simp add: mask_eq_exp_minus_1)
  have "sdap_hdr qfi a b AND 0x3F = (word_of_int qfi :: byte)"
    unfolding sdap_hdr_def m
  proof (rule bit_word_eqI)
    fix n assume "n < LENGTH(8)"
    then have "n \<in> {0, 1, 2, 3, 4, 5, 6, 7}"
      by auto
    moreover have "\<not> bit qfi 6" "\<not> bit qfi 7"
      using q by (simp_all add: bit_iff_odd)
    ultimately show "bit ((word_of_int qfi OR (if a then 0x40 else 0) OR (if b then 0x80 else 0)) AND (0x3F :: byte)) n =
        bit (word_of_int qfi :: byte) n"
      by (auto simp: bit_simps)
  qed
  then show ?thesis
    using q by (simp add: hdr_QFI_def uint_word_of_int_eq take_bit_int_eq_self)
qed

lemma hdr_bits_sdap: "0 \<le> qfi \<Longrightarrow> qfi < 64 \<Longrightarrow> hdr_bit6 (sdap_hdr qfi a b) = a \<and> hdr_bit7 (sdap_hdr qfi a b) = b"
  by (auto simp: hdr_bit6_def hdr_bit7_def sdap_hdr_def bit_simps)

section \<open>The list is a map\<close>

definition sdap_entity_ok :: "nr_sdap_entity \<Rightarrow> bool" where
  "sdap_entity_ok e \<longleftrightarrow>
     length (sd_qfi2drb_table e) = SDAP_MAX_QFI \<and> 0 \<le> sd_default_drb e \<and>
     (\<forall>row \<in> set (sd_qfi2drb_table e). 0 \<le> qd_drb_id row \<and> qd_drb_id row \<le> AVLBL_DRB)"

definition sdap_key :: "nr_sdap_entity \<Rightarrow> int \<times> int" where
  "sdap_key e = (sd_rnti e, sd_pdusession_id e)"

definition sdap_list_ok :: "sdap_list \<Rightarrow> bool" where
  "sdap_list_ok l \<longleftrightarrow> (\<forall>e \<in> set l. sdap_entity_ok e) \<and> distinct (map sdap_key l)"

definition sdap_find :: "sdap_list \<Rightarrow> int \<Rightarrow> int \<Rightarrow> nr_sdap_entity option" where
  "sdap_find l rnti ps = map_option (\<lambda>i. l ! i) (nr_sdap_get_entity l rnti ps)"

lemma sdap_find_Nil [simp]: "sdap_find [] r ps = None"
  by (simp add: sdap_find_def)

lemma sdap_find_Cons [simp]:
  "sdap_find (e # l) r ps = (if sdap_key e = (u16 r, ps) then Some e else sdap_find l r ps)"
  by (auto simp: sdap_find_def sdap_key_def option.map_comp comp_def)

lemma sdap_get_None: "nr_sdap_get_entity l r ps = None \<longleftrightarrow> (u16 r, ps) \<notin> sdap_key ` set l"
  by (induction l) (auto simp: sdap_key_def)

lemma sdap_get_Some: "nr_sdap_get_entity l r ps = Some i \<Longrightarrow> i < length l \<and> sdap_key (l ! i) = (u16 r, ps)"
  by (induction l arbitrary: i) (auto simp: sdap_key_def split: if_splits)

lemma u16_u16 [simp]: "u16 (u16 r) = u16 r"
  by (simp add: u16_def)

lemma set_list_updateD: "y \<in> set (xs[i := x]) \<Longrightarrow> y = x \<or> y \<in> set xs"
  using set_update_subset_insert by fast

lemma sdap_map_update_ok:
  "sdap_entity_ok e \<Longrightarrow> sdap_entity_ok (nr_sdap_qfi2drb_map_update e qfi drb h)"
  by (auto simp: sdap_entity_ok_def nr_sdap_qfi2drb_map_update_def dest!: set_list_updateD)

lemma sdap_map_update_key [simp]:
  "sdap_key (nr_sdap_qfi2drb_map_update e qfi drb h) = sdap_key e"
  "sd_default_drb (nr_sdap_qfi2drb_map_update e qfi drb h) = sd_default_drb e"
  by (simp_all add: sdap_key_def nr_sdap_qfi2drb_map_update_def)

lemma sdap_map_loop_ok:
  "sdap_map_loop e h qfis n = Inr e' \<Longrightarrow> sdap_entity_ok e \<Longrightarrow>
   sdap_entity_ok e' \<and> sdap_key e' = sdap_key e \<and> sd_default_drb e' = sd_default_drb e"
  by (induction e h qfis n rule: sdap_map_loop.induct) (auto intro: sdap_map_update_ok)

lemma new_sdap_fresh_ok:
  "sdap_entity_ok \<lparr>sd_rnti = r, sd_default_drb = 0, sd_pdusession_id = ps,
     sd_qfi2drb_table = replicate SDAP_MAX_QFI \<lparr>qd_drb_id = 0, qd_hasSdap = False\<rparr>\<rparr>"
  by (simp add: sdap_entity_ok_def AVLBL_DRB_def)

text \<open>What the creation of an entity returns when there is none yet for the UE and the session.\<close>

lemma new_sdap_entity_fresh:
  assumes "nr_sdap_get_entity l r ps = None"
    and "new_nr_sdap_entity submit l h r ps dflt drb qfis n s = Inr (l', s')"
  obtains e where "l' = e # l" "s' = s" "sdap_entity_ok e" "sdap_key e = (u16 r, ps)"
    "sd_default_drb e = (if dflt then u8 drb else 0)"
proof -
  let ?e = "\<lparr>sd_rnti = u16 r, sd_default_drb = 0, sd_pdusession_id = ps,
     sd_qfi2drb_table = replicate SDAP_MAX_QFI \<lparr>qd_drb_id = 0, qd_hasSdap = False\<rparr>\<rparr>"
  have none: "nr_sdap_get_entity l (u16 r) ps = None"
    using assms(1) by (simp add: sdap_get_None)
  obtain e where e: "(if dflt then sdap_map_loop (?e\<lparr>sd_default_drb := u8 drb\<rparr>) h qfis n else Inr ?e) = Inr e"
    and l': "l' = e # l" "s' = s"
    using assms(2) none by (auto simp: new_nr_sdap_entity_def rbind_def Let_def split: sum.splits)
  have "sdap_entity_ok (?e\<lparr>sd_default_drb := u8 drb\<rparr>)"
    using new_sdap_fresh_ok [of "u16 r" ps] by (simp add: sdap_entity_ok_def u8_def)
  then have "sdap_entity_ok e \<and> sdap_key e = (u16 r, ps) \<and> sd_default_drb e = (if dflt then u8 drb else 0)"
    using e sdap_map_loop_ok [of "?e\<lparr>sd_default_drb := u8 drb\<rparr>" h qfis n e] new_sdap_fresh_ok [of "u16 r" ps]
    by (cases dflt) (auto simp: sdap_key_def)
  then show thesis
    using that l' by blast
qed

section \<open>Properties\<close>

text \<open>An entity with a default bearer and one rule, and a lower layer that records its requests.\<close>

definition sdap_sample :: nr_sdap_entity where
  "sdap_sample = \<lparr>sd_rnti = 1, sd_default_drb = 1, sd_pdusession_id = 10,
     sd_qfi2drb_table = (replicate SDAP_MAX_QFI \<lparr>qd_drb_id = 0, qd_hasSdap = False\<rparr>)
       [7 := \<lparr>qd_drb_id = 2, qd_hasSdap = True\<rparr>]\<rparr>"

definition record_req :: "(int \<times> byte list) list pdcp_req" where
  "record_req s ctxt srb_flag rb_id mui confirm sdu = Inr (True, (rb_id, sdu) # s)"

text \<open>
  C29: The header an SDAP entity puts in front of an SDU for a QoS flow with a stored mapping rule on a
  bearer with SDAP headers is removed by the peer: the bearer is the rule's, the header names the flow,
  and the peer, with the header configured, passes on exactly the SDU, from a UE to the GTP-U tunnel of
  the session and from the gNB to the UE's IP stack.
\<close>

theorem sdap_sdu_roundtrip:
  assumes "0 < qfi" "qfi < 64" "length (sd_qfi2drb_table e) = SDAP_MAX_QFI"
    and "sd_qfi2drb_table e ! nat qfi = \<lparr>qd_drb_id = drb, qd_hasSdap = True\<rparr>" "drb \<noteq> 0"
    and "sdu \<noteq> []" "length sdu \<le> 8999"
  shows "\<exists>hdr. hdr_QFI hdr = qfi \<and>
    nr_sdap_tx_entity req s e ctxt srb_flag rb_id mui confirm (Some sdu) qfi rqi =
      req s ctxt srb_flag drb mui confirm (hdr # sdu) \<and>
    nr_sdap_rx_entity submit emit r bearer (\<not> cx_enb_flag ctxt) True True ps rnti (hdr # sdu) t =
      Inr (r, emit (if cx_enb_flag ctxt then To_nas sdu else To_gtpu rnti ps sdu) t)"
proof -
  let ?hdr = "if cx_enb_flag ctxt then nr_sdap_dl_hdr qfi rqi False else nr_sdap_ul_hdr qfi False rqi"
  have "qfi2drb_row e qfi = Inr \<lparr>qd_drb_id = drb, qd_hasSdap = True\<rparr>"
    using assms by (simp add: qfi2drb_row_def SDAP_MAX_QFI_def)
  then have "nr_sdap_tx_entity req s e ctxt srb_flag rb_id mui confirm (Some sdu) qfi rqi =
      req s ctxt srb_flag drb mui confirm (?hdr # sdu)"
    using assms by (simp add: nr_sdap_tx_entity_def nr_sdap_qfi2drb_map_def rbind_def of_opt_def Let_def)
  moreover have "hdr_QFI ?hdr = qfi"
    using assms by (simp add: nr_sdap_dl_hdr_def nr_sdap_ul_hdr_def hdr_QFI_sdap)
  moreover have "cx_enb_flag ctxt \<Longrightarrow> \<not> hdr_bit7 ?hdr"
    using assms by (simp add: nr_sdap_dl_hdr_def hdr_bits_sdap)
  ultimately show ?thesis
    by (intro exI [of _ ?hdr]) (auto simp: nr_sdap_rx_entity_def rbind_def)
qed

theorem sdap_sdu_roundtrip_witness:
  "\<exists>hdr. hdr_QFI hdr = 7 \<and>
    nr_sdap_tx_entity record_req [] sdap_sample ctxt_zero False 1 0 0 (Some [1, 2, 3]) 7 True =
      Inr (True, [(2, [hdr, 1, 2, 3])]) \<and>
    nr_sdap_rx_entity (\<lambda>rnti drb b t. Inr t) (#) sdap_sample 2 True True True 10 1 [hdr, 1, 2, 3] [] =
      Inr (sdap_sample, [To_gtpu 1 10 [1, 2, 3]])"
  using sdap_sdu_roundtrip [of 7 sdap_sample 2 "[1, 2, 3]" record_req "[]" ctxt_zero False 1 0 0 True
      "\<lambda>rnti drb b t. Inr t" "(#)" sdap_sample 2 10 1 "[]"]
  by (simp add: sdap_sample_def SDAP_MAX_QFI_def ctxt_zero_def record_req_def)

text \<open>
  Creating an entity for a UE and a session that have none makes it the one found for them, with its
  default bearer set when the configuration says so, leaves every other entity as it was and found as
  before, and keeps the list well formed: one entity for each UE and session, 64 rules each, every rule
  within the available bearers.
\<close>

lemma sdap_new_entity:
  assumes "sdap_list_ok l" "nr_sdap_get_entity l rnti ps = None"
    and "new_nr_sdap_entity submit l has_sdap rnti ps is_default drb qfis n s = Inr (l', s')"
  shows "sdap_list_ok l' \<and>
    (\<exists>e. sdap_find l' rnti ps = Some e \<and> sd_default_drb e = (if is_default then u8 drb else 0)) \<and>
    (\<forall>rnti' ps'. (u16 rnti', ps') \<noteq> (u16 rnti, ps) \<longrightarrow> sdap_find l' rnti' ps' = sdap_find l rnti' ps')"
proof -
  obtain e where e: "l' = e # l" "sdap_entity_ok e" "sdap_key e = (u16 rnti, ps)"
    "sd_default_drb e = (if is_default then u8 drb else 0)"
    using new_sdap_entity_fresh [OF assms(2,3)] by metis
  then show ?thesis
    using assms(1,2) by (auto simp: sdap_list_ok_def sdap_get_None)
qed

text \<open>
  C39: A flow without a rule of its own goes to the default bearer, but whether a header is put in front is
  read from the empty rule, so the SDU leaves without one. A peer whose bearer is configured with the
  header takes the first byte of the SDU for it and passes on the rest.
\<close>

theorem sdap_default_bearer_headerless:
  assumes "0 \<le> qfi" "qfi < 64" "length (sd_qfi2drb_table e) = SDAP_MAX_QFI"
    and "sd_qfi2drb_table e ! nat qfi = \<lparr>qd_drb_id = 0, qd_hasSdap = False\<rparr>"
    and "sd_default_drb e = drb" "drb \<noteq> 0"
  shows "nr_sdap_tx_entity req s e ctxt srb_flag rb_id mui confirm (Some (x # sdu)) qfi rqi =
      req s ctxt srb_flag drb mui confirm (x # sdu) \<and>
    nr_sdap_rx_entity submit emit r bearer True True True ps rnti (x # sdu) t =
      Inr (r, emit (To_gtpu rnti ps sdu) t)"
proof -
  have "qfi2drb_row e qfi = Inr \<lparr>qd_drb_id = 0, qd_hasSdap = False\<rparr>"
    using assms by (simp add: qfi2drb_row_def SDAP_MAX_QFI_def)
  then show ?thesis
    using assms by (simp add: nr_sdap_tx_entity_def nr_sdap_qfi2drb_map_def rbind_def of_opt_def
        nr_sdap_rx_entity_def)
qed

theorem sdap_default_bearer_headerless_witness:
  "nr_sdap_tx_entity record_req [] sdap_sample ctxt_zero False 1 0 0 (Some [1, 2, 3]) 9 True =
      Inr (True, [(1, [1, 2, 3])]) \<and>
   nr_sdap_rx_entity (\<lambda>rnti drb b t. Inr t) (#) sdap_sample 1 True True True 10 1 [1, 2, 3] [] =
      Inr (sdap_sample, [To_gtpu 1 10 [2, 3]])"
  using sdap_default_bearer_headerless [of 9 sdap_sample 1 record_req "[]" ctxt_zero False 1 0 0 1 "[2, 3]" True
      "\<lambda>rnti drb b t. Inr t" "(#)" sdap_sample 1 10 1 "[]"]
  by (simp add: sdap_sample_def SDAP_MAX_QFI_def record_req_def)

text \<open>
  C40: Removing a UE from the list of entities: when the UE's entity is not the head it stays, and when the
  UE has none the last entity of the list, another UE's, is unlinked and freed in its place.
\<close>

theorem sdap_delete_wrong_entity:
  assumes "sd_rnti e \<noteq> u16 rnti" "\<forall>x \<in> set l. sd_rnti x \<noteq> u16 rnti" "sd_rnti f \<noteq> u16 rnti"
    and "sd_rnti u = u16 rnti"
  shows "delete_nr_sdap_entity (e # l @ u # l') rnti = Inr (e # l @ u # l') \<and>
    delete_nr_sdap_entity (e # l @ [f]) rnti = Inr (e # l)"
proof -
  have "sdap_delete_walk (l @ u # l') rnti = l @ u # l'" "sdap_delete_walk (l @ [f]) rnti = l"
    using assms by (induction l) auto
  then show ?thesis
    using assms by (simp add: delete_nr_sdap_entity_def)
qed

theorem sdap_delete_wrong_entity_witness:
  "delete_nr_sdap_entity [sdap_sample, sdap_sample\<lparr>sd_rnti := 2\<rparr>] 2 =
     Inr [sdap_sample, sdap_sample\<lparr>sd_rnti := 2\<rparr>] \<and>
   delete_nr_sdap_entity [sdap_sample, sdap_sample\<lparr>sd_rnti := 3\<rparr>] 2 = Inr [sdap_sample]"
  using sdap_delete_wrong_entity [of sdap_sample 2 "[]" "sdap_sample\<lparr>sd_rnti := 3\<rparr>" "sdap_sample\<lparr>sd_rnti := 2\<rparr>" "[]"]
  by (simp add: sdap_sample_def u16_def)

text \<open>
  Reflective mapping of a flow that has no rule yet, at a UE with a default bearer: the end marker goes
  out twice on the default bearer, once because there is no rule and once because the bearer differs
  from the rule that is not there; then the rule is stored.
\<close>

lemma sdap_end_marker_twice:
  assumes "0 \<le> qfi" "qfi < 64" "length (sd_qfi2drb_table e) = SDAP_MAX_QFI"
    and "sd_qfi2drb_table e ! nat qfi = \<lparr>qd_drb_id = 0, qd_hasSdap = h\<rparr>"
    and "sd_default_drb e = drb" "drb \<noteq> 0" "bearer \<noteq> 0"
  shows "sdap_reflective submit e bearer rnti qfi s =
    rbind (submit rnti drb (nr_sdap_construct_ctrl_pdu qfi) s) (\<lambda>s.
    rbind (submit rnti drb (nr_sdap_construct_ctrl_pdu qfi) s) (\<lambda>s.
      Inr (e\<lparr>sd_qfi2drb_table :=
        (sd_qfi2drb_table e)[nat qfi := \<lparr>qd_drb_id = bearer, qd_hasSdap = h\<rparr>]\<rparr>, s)))"
proof -
  have "qfi2drb_row e qfi = Inr \<lparr>qd_drb_id = 0, qd_hasSdap = h\<rparr>"
    using assms by (simp add: qfi2drb_row_def SDAP_MAX_QFI_def)
  then show ?thesis
    using assms by (simp add: sdap_reflective_def sdap_end_marker_def nr_sdap_map_ctrl_pdu_def
        nr_sdap_submit_ctrl_pdu_def nr_sdap_qfi2drb_map_def rbind_def split: sum.splits)
qed

end
