(* ===== verification/NR_PDCP_Api.thy ===== *)
theory NR_PDCP_Api
  imports NR_PDCP_Bearer NR_SDAP L2_Ue L2_Config L2_Asn1
begin

text \<open>
  The interface of the PDCP layer, \<^verbatim>\<open>nr_pdcp_oai_api.c\<close>, with the timer thread: the requests of the layers
  above, the indications of RLC, the configuration by RRC, and the callbacks of the entities.

  Each function takes the manager's lock around its work, so it is one step on the state. The callbacks an
  entity makes while it works are in \<open>pd_out\<close>; they are carried out when the entity's function returns, in
  their order. The callbacks of a reception reach the transmitting side only (an SDAP control PDU), whose
  variables the reception does not use, so the two orders give the same state.
\<close>

section \<open>State\<close>

datatype pdcp_msg =
    Sdap_msg sdap_msg
  | Rrc_dcch_data_ind bool int int "byte list"
  | Gtpu_tunnel_data_req int int "byte list"
  | F1ap_dl_rrc_message int int "byte list"

text \<open>
  \<open>pa_rlc_queue\<close> and \<open>pa_ind_queue\<close> are the contents of the two rings, the oldest item first; \<open>pa_msgs\<close> is what
  has been sent to other tasks and to the IP stack.
\<close>

record pdcp_api =
  pa_manager :: "nr_pdcp_entity ue_manager"
  pa_sdap :: sdap_list
  pa_rlc_queue :: "rlc_data_req_queue_item list"
  pa_ind_queue :: "pdcp_data_ind_queue_item list"
  pa_msgs :: "pdcp_msg list"
  pa_current_time :: "64 word"
  pa_last_frame :: int
  pa_last_subframe :: int
  pa_timer_curtime :: "64 word"

definition pdcp_layer_init :: pdcp_api where
  "pdcp_layer_init = \<lparr>pa_manager = new_ue_manager True, pa_sdap = [], pa_rlc_queue = [], pa_ind_queue = [],
     pa_msgs = [], pa_current_time = 0, pa_last_frame = 0, pa_last_subframe = 0, pa_timer_curtime = 0\<rparr>"

definition nr_pdcp_entity_delete :: "nr_pdcp_entity \<Rightarrow> unit res" where
  "nr_pdcp_entity_delete entity = Inr ()"

section \<open>Entities in their slots\<close>

text \<open>
  Run a function of the entity in a slot, \<open>None\<close> when there is none. The events of the entity are taken out
  of it for the callbacks.
\<close>

definition on_slot ::
  "(nr_pdcp_entity \<Rightarrow> nr_pdcp_entity res) \<Rightarrow> bool \<Rightarrow> nat option \<Rightarrow> nr_pdcp_entity ue \<Rightarrow>
   (nr_pdcp_entity ue \<times> (nr_pdcp_entity \<times> pdcp_event list) option) res" where
  "on_slot f srb_flag slot ue =
     (case slot of
        None \<Rightarrow> Inr (ue, None)
      | Some i \<Rightarrow>
          (case ue_rbs srb_flag ue ! i of
             None \<Rightarrow> Inr (ue, None)
           | Some rb \<Rightarrow>
               rbind (f rb) (\<lambda>rb'.
                 Inr (ue_set_rb srb_flag ue i (rb'\<lparr>pd_out := []\<rparr>), Some (rb', pd_out rb')))))"

definition pdcp_on_rb ::
  "(nr_pdcp_entity \<Rightarrow> nr_pdcp_entity res) \<Rightarrow> bool \<Rightarrow> int \<Rightarrow> int \<Rightarrow> pdcp_api \<Rightarrow>
   (pdcp_api \<times> (nr_pdcp_entity \<times> pdcp_event list) option) res" where
  "pdcp_on_rb f srb_flag rb_id rnti s =
     rbind (with_ue (pa_manager s) rnti (on_slot f srb_flag (rb_slot srb_flag rb_id))) (\<lambda>(m, r).
       Inr (s\<lparr>pa_manager := m\<rparr>, r))"

section \<open>Callbacks\<close>

text \<open>The context the callbacks fill in.\<close>

definition callback_ctxt :: "int \<Rightarrow> protocol_ctxt" where
  "callback_ctxt rnti = \<lparr>cx_module_id = 0, cx_enb_flag = True, cx_instance = 0, cx_rnti = rnti, cx_frame = 0,
     cx_subframe = 0, cx_eNB_index = 0, cx_brOption = False\<rparr>"

definition deliver_pdu_drb :: "node \<Rightarrow> int \<Rightarrow> int \<Rightarrow> byte list \<Rightarrow> int \<Rightarrow> pdcp_api \<Rightarrow> pdcp_api" where
  "deliver_pdu_drb node rnti rb_id buf sdu_id s =
     (if nd_is_cu node then s\<lparr>pa_msgs := pa_msgs s @ [Gtpu_tunnel_data_req rnti rb_id buf]\<rparr>
      else s\<lparr>pa_rlc_queue := pa_rlc_queue s @
             [\<lparr>rq_ctxt = callback_ctxt rnti, rq_srb_flag = False, rq_MBMS_flag = False, rq_rb_id = rb_id,
               rq_mui = sdu_id, rq_confirm = 0, rq_sdu = buf\<rparr>]\<rparr>)"

definition deliver_pdu_srb :: "node \<Rightarrow> int \<Rightarrow> int \<Rightarrow> byte list \<Rightarrow> int \<Rightarrow> pdcp_api \<Rightarrow> pdcp_api" where
  "deliver_pdu_srb node rnti srb_id buf sdu_id s =
     (if \<not> nd_is_cu node
      then s\<lparr>pa_rlc_queue := pa_rlc_queue s @
             [\<lparr>rq_ctxt = callback_ctxt rnti, rq_srb_flag = True, rq_MBMS_flag = False, rq_rb_id = srb_id,
               rq_mui = sdu_id, rq_confirm = 0, rq_sdu = buf\<rparr>]\<rparr>
      else s\<lparr>pa_msgs := pa_msgs s @ [F1ap_dl_rrc_message rnti srb_id buf]\<rparr>)"

definition deliver_sdu_srb :: "nr_pdcp_entity \<Rightarrow> int \<Rightarrow> int \<Rightarrow> byte list \<Rightarrow> pdcp_api \<Rightarrow> pdcp_api" where
  "deliver_sdu_srb entity rnti srb_id buf s =
     s\<lparr>pa_msgs := pa_msgs s @ [Rrc_dcch_data_ind (pd_is_gnb entity) rnti srb_id buf]\<rparr>"

text \<open>The PDUs a transmission hands down. A transmission delivers no SDU.\<close>

fun deliver_pdus :: "node \<Rightarrow> bool \<Rightarrow> int \<Rightarrow> int \<Rightarrow> pdcp_event list \<Rightarrow> pdcp_api \<Rightarrow> pdcp_api res" where
  "deliver_pdus node srb_flag rnti rb_id [] s = Inr s"
| "deliver_pdus node srb_flag rnti rb_id (Pdcp_pdu buf sdu_id # evs) s =
     deliver_pdus node srb_flag rnti rb_id evs
       ((if srb_flag then deliver_pdu_srb else deliver_pdu_drb) node rnti rb_id buf sdu_id s)"
| "deliver_pdus node srb_flag rnti rb_id (Pdcp_sdu buf # evs) s = Inl Inconsistent_state"

text \<open>
  \<^verbatim>\<open>nr_pdcp_submit_sdap_ctrl_pdu\<close>: no test of the bearer, so an index outside \<^verbatim>\<open>drb\<close> and an empty slot are undefined
  behaviour.
\<close>

definition nr_pdcp_submit_sdap_ctrl_pdu :: "crypto \<Rightarrow> node \<Rightarrow> pdcp_api pdcp_submit" where
  "nr_pdcp_submit_sdap_ctrl_pdu C node rnti drb ctrl_pdu s =
     (case rb_slot False drb of
        None \<Rightarrow> Inl Out_of_bounds
      | Some _ \<Rightarrow>
          rbind (pdcp_on_rb (\<lambda>rb. nr_pdcp_entity_recv_sdu C rb [ctrl_pdu] 0) False drb rnti s) (\<lambda>(s, r).
            case r of
              None \<Rightarrow> Inl Null_pointer
            | Some (rb, evs) \<Rightarrow> deliver_pdus node False rnti drb evs s))"

definition sdap_emit :: "sdap_msg \<Rightarrow> pdcp_api \<Rightarrow> pdcp_api" where
  "sdap_emit msg s = s\<lparr>pa_msgs := pa_msgs s @ [Sdap_msg msg]\<rparr>"

definition sdap_data_ind ::
  "crypto \<Rightarrow> node \<Rightarrow> int \<Rightarrow> bool \<Rightarrow> bool \<Rightarrow> bool \<Rightarrow> int \<Rightarrow> int \<Rightarrow> byte list \<Rightarrow> pdcp_api \<Rightarrow> pdcp_api res" where
  "sdap_data_ind C node pdcp_entity is_gnb has_sdap has_sdapULheader pdusession_id rnti buf s =
     (case nr_sdap_get_entity (pa_sdap s) rnti pdusession_id of
        None \<Rightarrow> Inr s
      | Some i \<Rightarrow>
          rbind (nr_sdap_rx_entity (nr_pdcp_submit_sdap_ctrl_pdu C node) sdap_emit (pa_sdap s ! i) pdcp_entity
                   is_gnb has_sdap has_sdapULheader pdusession_id rnti buf s) (\<lambda>(e, s).
            Inr (s\<lparr>pa_sdap := (pa_sdap s)[i := e]\<rparr>)))"

text \<open>\<open>rb_id\<close> is the number of the slot the search for the entity ends at.\<close>

definition deliver_sdu_drb ::
  "crypto \<Rightarrow> node \<Rightarrow> nr_pdcp_entity \<Rightarrow> int \<Rightarrow> int \<Rightarrow> byte list \<Rightarrow> pdcp_api \<Rightarrow> pdcp_api res" where
  "deliver_sdu_drb C node entity rnti rb_id buf s =
     sdap_data_ind C node (if nd_tun node then pd_rb_id entity else rb_id) (pd_is_gnb entity)
       (pd_has_sdap entity) (pd_has_sdapULheader entity) (pd_pdusession_id entity) rnti buf s"

text \<open>All the callbacks of one call of an entity's function.\<close>

fun pdcp_callbacks ::
  "crypto \<Rightarrow> node \<Rightarrow> nr_pdcp_entity \<Rightarrow> bool \<Rightarrow> int \<Rightarrow> int \<Rightarrow> pdcp_event list \<Rightarrow> pdcp_api \<Rightarrow> pdcp_api res" where
  "pdcp_callbacks C node entity srb_flag rnti rb_id [] s = Inr s"
| "pdcp_callbacks C node entity srb_flag rnti rb_id (Pdcp_pdu buf sdu_id # evs) s =
     pdcp_callbacks C node entity srb_flag rnti rb_id evs
       ((if srb_flag then deliver_pdu_srb else deliver_pdu_drb) node rnti rb_id buf sdu_id s)"
| "pdcp_callbacks C node entity srb_flag rnti rb_id (Pdcp_sdu buf # evs) s =
     rbind (if srb_flag then Inr (deliver_sdu_srb entity rnti rb_id buf s)
            else deliver_sdu_drb C node entity rnti rb_id buf s)
       (pdcp_callbacks C node entity srb_flag rnti rb_id evs)"

section \<open>Data\<close>

definition ctxt_bad :: "protocol_ctxt \<Rightarrow> bool" where
  "ctxt_bad ctxt \<longleftrightarrow> cx_module_id ctxt \<noteq> 0 \<or> cx_instance ctxt \<noteq> 0 \<or> cx_eNB_index ctxt \<noteq> 0"

definition do_pdcp_data_ind ::
  "crypto \<Rightarrow> node \<Rightarrow> protocol_ctxt \<Rightarrow> bool \<Rightarrow> int \<Rightarrow> byte list \<Rightarrow> pdcp_api \<Rightarrow> pdcp_api res" where
  "do_pdcp_data_ind C node ctxt srb_flag rb_id sdu_buffer s =
     (if ctxt_bad ctxt \<or> cx_brOption ctxt then Inl Exit_fatal
      else
        rbind (pdcp_on_rb (\<lambda>rb. nr_pdcp_entity_recv_pdu C rb sdu_buffer) srb_flag rb_id (cx_rnti ctxt) s) (\<lambda>(s, r).
          case r of
            None \<Rightarrow> Inr s
          | Some (rb, evs) \<Rightarrow> pdcp_callbacks C node rb srb_flag (cx_rnti ctxt) rb_id evs s))"

text \<open>
  The two request functions are one text with other bounds for the identity and another array.
\<close>

definition pdcp_data_req_rb ::
  "crypto \<Rightarrow> node \<Rightarrow> pdcp_api \<Rightarrow> protocol_ctxt \<Rightarrow> bool \<Rightarrow> int \<Rightarrow> int \<Rightarrow> byte list \<Rightarrow> (bool \<times> pdcp_api) res" where
  "pdcp_data_req_rb C node s ctxt srb_flag rb_id mui sdu_buffer =
     (if ctxt_bad ctxt then Inl Exit_fatal
      else
        rbind (pdcp_on_rb (\<lambda>rb. nr_pdcp_entity_recv_sdu C rb sdu_buffer mui) srb_flag rb_id (cx_rnti ctxt) s)
          (\<lambda>(s, r).
             case r of
               None \<Rightarrow> Inr (False, s)
             | Some (rb, evs) \<Rightarrow>
                 rbind (deliver_pdus node srb_flag (cx_rnti ctxt) rb_id evs s) (\<lambda>s. Inr (True, s))))"

definition pdcp_data_req_srb ::
  "crypto \<Rightarrow> node \<Rightarrow> pdcp_api \<Rightarrow> protocol_ctxt \<Rightarrow> int \<Rightarrow> int \<Rightarrow> byte list \<Rightarrow> (bool \<times> pdcp_api) res" where
  "pdcp_data_req_srb C node s ctxt = pdcp_data_req_rb C node s ctxt True"

definition pdcp_data_req_drb ::
  "crypto \<Rightarrow> node \<Rightarrow> pdcp_api \<Rightarrow> protocol_ctxt \<Rightarrow> int \<Rightarrow> int \<Rightarrow> byte list \<Rightarrow> (bool \<times> pdcp_api) res" where
  "pdcp_data_req_drb C node s ctxt = pdcp_data_req_rb C node s ctxt False"

definition pdcp_data_req :: "crypto \<Rightarrow> node \<Rightarrow> pdcp_api pdcp_req" where
  "pdcp_data_req C node s ctxt srb_flag rb_id mui confirm sdu_buffer =
     (if srb_flag then pdcp_data_req_srb C node s ctxt rb_id mui sdu_buffer
      else pdcp_data_req_drb C node s ctxt rb_id mui sdu_buffer)"

definition sdap_data_req ::
  "crypto \<Rightarrow> node \<Rightarrow> pdcp_api \<Rightarrow> protocol_ctxt \<Rightarrow> bool \<Rightarrow> int \<Rightarrow> int \<Rightarrow> int \<Rightarrow> byte list option \<Rightarrow> int \<Rightarrow> bool \<Rightarrow>
   int \<Rightarrow> (bool \<times> pdcp_api) res" where
  "sdap_data_req C node s ctxt srb_flag rb_id mui confirm sdu qfi rqi pdusession_id =
     (case nr_sdap_get_entity (pa_sdap s) (cx_rnti ctxt) pdusession_id of
        None \<Rightarrow> Inr (False, s)
      | Some i \<Rightarrow>
          nr_sdap_tx_entity (pdcp_data_req C node) s (pa_sdap s ! i) ctxt srb_flag rb_id mui confirm sdu qfi rqi)"

text \<open>One round of the two threads that read the tun interface: a packet goes to the first UE.\<close>

definition tun_read_round :: "crypto \<Rightarrow> node \<Rightarrow> bool \<Rightarrow> byte list \<Rightarrow> pdcp_api \<Rightarrow> pdcp_api res" where
  "tun_read_round C node enb_flag rx_buf s =
     (let rnti = manager_get_first_rnti (pa_manager s) in
      if rnti = -1 then Inr s
      else
        let ctxt = ctxt_zero\<lparr>cx_enb_flag := enb_flag, cx_rnti := rnti\<rparr>;
            rqi_dc = (\<not> enb_flag)
        in rbind (sdap_data_req C node s ctxt False 1 0 0 (Some rx_buf) 7 rqi_dc 10) (\<lambda>(_, s). Inr s))"

definition enb_tun_read_thread :: "crypto \<Rightarrow> node \<Rightarrow> byte list \<Rightarrow> pdcp_api \<Rightarrow> pdcp_api res" where
  "enb_tun_read_thread C node rx_buf s = tun_read_round C node True rx_buf s"

definition ue_tun_read_thread :: "crypto \<Rightarrow> node \<Rightarrow> byte list \<Rightarrow> pdcp_api \<Rightarrow> pdcp_api res" where
  "ue_tun_read_thread C node rx_buf s = tun_read_round C node False rx_buf s"

definition pdcp_data_ind :: "protocol_ctxt \<Rightarrow> bool \<Rightarrow> bool \<Rightarrow> int \<Rightarrow> byte list \<Rightarrow> pdcp_api \<Rightarrow> bool \<times> pdcp_api" where
  "pdcp_data_ind ctxt srb_flag MBMS_flag rb_id sdu_buffer s =
     (True, s\<lparr>pa_ind_queue := pa_ind_queue s @
        [\<lparr>pq_ctxt = ctxt, pq_srb_flag = srb_flag, pq_MBMS_flag = MBMS_flag, pq_rb_id = rb_id,
          pq_sdu = sdu_buffer\<rparr>]\<rparr>)"

definition cu_f1u_data_req :: "protocol_ctxt \<Rightarrow> bool \<Rightarrow> int \<Rightarrow> byte list \<Rightarrow> pdcp_api \<Rightarrow> bool \<times> pdcp_api" where
  "cu_f1u_data_req ctxt srb_flag rb_id sdu_buffer s =
     pdcp_data_ind (ctxt\<lparr>cx_instance := 0\<rparr>) srb_flag False rb_id sdu_buffer s"

definition du_rlc_data_req :: "rlc_data_req_queue_item \<Rightarrow> pdcp_api \<Rightarrow> pdcp_api" where
  "du_rlc_data_req item s = s\<lparr>pa_rlc_queue := pa_rlc_queue s @ [item]\<rparr>"

text \<open>One round of the thread that empties the indication queue.\<close>

definition pdcp_data_ind_thread :: "crypto \<Rightarrow> node \<Rightarrow> pdcp_api \<Rightarrow> pdcp_api res" where
  "pdcp_data_ind_thread C node s =
     (case pa_ind_queue s of
        [] \<Rightarrow> Inr s
      | x # q \<Rightarrow>
          do_pdcp_data_ind C node (pq_ctxt x) (pq_srb_flag x) (pq_rb_id x) (pq_sdu x) (s\<lparr>pa_ind_queue := q\<rparr>))"

section \<open>Requests of the RRC task\<close>

record rrc_dcch_data_req =
  rr_module_id :: int
  rr_enb_flag :: bool
  rr_rnti :: int
  rr_frame :: int
  rr_eNB_index :: int
  rr_rb_id :: int
  rr_mui :: int
  rr_confirm :: int
  rr_sdu :: "byte list"

text \<open>
  \<^verbatim>\<open>pdcp_run\<close> on the messages waiting for the task; \<open>None\<close> is a message of another kind. The instance comes
  from the module, as the macro \<^verbatim>\<open>PROTOCOL_CTXT_COMPUTE_INSTANCE\<close> has it.
\<close>

definition compute_instance :: "int \<Rightarrow> int \<Rightarrow> bool \<Rightarrow> int" where
  "compute_instance NB_eNB_INST module_id enb_flag = (if enb_flag then module_id else module_id + NB_eNB_INST)"

fun pdcp_run_msgs ::
  "crypto \<Rightarrow> node \<Rightarrow> int \<Rightarrow> rrc_dcch_data_req option list \<Rightarrow> pdcp_api \<Rightarrow> pdcp_api res" where
  "pdcp_run_msgs C node NB_eNB_INST [] s = Inr s"
| "pdcp_run_msgs C node NB_eNB_INST (None # l) s = pdcp_run_msgs C node NB_eNB_INST l s"
| "pdcp_run_msgs C node NB_eNB_INST (Some r # l) s =
     (let ctxt = \<lparr>cx_module_id = rr_module_id r, cx_enb_flag = rr_enb_flag r,
                  cx_instance = compute_instance NB_eNB_INST (rr_module_id r) (rr_enb_flag r), cx_rnti = rr_rnti r,
                  cx_frame = rr_frame r, cx_subframe = 0, cx_eNB_index = rr_eNB_index r,
                  cx_brOption = False\<rparr>
      in rbind (pdcp_data_req C node s ctxt True (rr_rb_id r) (rr_mui r) (rr_confirm r) (rr_sdu r)) (\<lambda>(_, s).
           pdcp_run_msgs C node NB_eNB_INST l s))"

section \<open>Time\<close>

definition nr_pdcp_wakeup_timer_thread :: "64 word \<Rightarrow> pdcp_api \<Rightarrow> pdcp_api" where
  "nr_pdcp_wakeup_timer_thread time s = s\<lparr>pa_timer_curtime := time\<rparr>"

definition nr_pdcp_tick :: "int \<Rightarrow> int \<Rightarrow> pdcp_api \<Rightarrow> pdcp_api" where
  "nr_pdcp_tick frame subframe s =
     (if frame \<noteq> pa_last_frame s \<or> subframe \<noteq> pa_last_subframe s
      then let t = pa_current_time s + 1
           in nr_pdcp_wakeup_timer_thread t
                (s\<lparr>pa_last_frame := frame, pa_last_subframe := subframe, pa_current_time := t\<rparr>)
      else s)"

text \<open>One entity of the timer thread's loops, by its place: the UE, then the slot.\<close>

definition timer_set_time :: "crypto \<Rightarrow> node \<Rightarrow> 64 word \<Rightarrow> nat \<times> bool \<times> nat \<Rightarrow> pdcp_api \<Rightarrow> pdcp_api res" where
  "timer_set_time C node curtime = (\<lambda>(i, srb_flag, j) s.
     case manager_ue (pa_manager s) i of
       None \<Rightarrow> Inl Out_of_bounds
     | Some ue \<Rightarrow>
         (case ue_rbs srb_flag ue ! j of
            None \<Rightarrow> Inr s
          | Some rb \<Rightarrow>
              let rb' = nr_pdcp_entity_set_time rb curtime;
                  m = manager_set_ue (pa_manager s) i (ue_set_rb srb_flag ue j (rb'\<lparr>pd_out := []\<rparr>))
              in pdcp_callbacks C node rb' srb_flag (ue_rnti ue) (int j + 1) (pd_out rb') (s\<lparr>pa_manager := m\<rparr>)))"

fun timer_loop :: "crypto \<Rightarrow> node \<Rightarrow> 64 word \<Rightarrow> (nat \<times> bool \<times> nat) list \<Rightarrow> pdcp_api \<Rightarrow> pdcp_api res" where
  "timer_loop C node curtime [] s = Inr s"
| "timer_loop C node curtime (x # l) s = rbind (timer_set_time C node curtime x s) (timer_loop C node curtime l)"

definition timer_places :: "nat \<Rightarrow> (nat \<times> bool \<times> nat) list" where
  "timer_places ue_count =
     concat (map (\<lambda>i. map (\<lambda>j. (i, True, j)) [0..<2] @ map (\<lambda>j. (i, False, j)) [0..<5]) [0..<ue_count])"

text \<open>One round of the thread, with the time it was woken for.\<close>

definition nr_pdcp_timer_thread :: "crypto \<Rightarrow> node \<Rightarrow> pdcp_api \<Rightarrow> pdcp_api res" where
  "nr_pdcp_timer_thread C node s =
     timer_loop C node (pa_timer_curtime s) (timer_places (length (mg_list (pa_manager s)))) s"

section \<open>Configuration\<close>

text \<open>
  What \<^verbatim>\<open>add_srb\<close> and \<^verbatim>\<open>add_drb_am\<close> do to the UE: nothing when the bearer exists, else store the new entity in
  its slot. The result says whether it was added.
\<close>

definition add_rb ::
  "bool \<Rightarrow> int \<Rightarrow> nr_pdcp_entity res \<Rightarrow> nr_pdcp_entity ue \<Rightarrow> (nr_pdcp_entity ue \<times> bool) res" where
  "add_rb srb_flag rb_id new ue =
     rbind (ue_rb_present (ue_rbs srb_flag ue) rb_id) (\<lambda>present.
       if present then Inr (ue, False)
       else rbind new (\<lambda>entity.
         rbind ((if srb_flag then ue_add_srb_entity else ue_add_drb_entity) ue rb_id entity) (\<lambda>ue.
           Inr (ue, True))))"

definition add_srb ::
  "bool \<Rightarrow> int \<Rightarrow> srb_to_add \<Rightarrow> int \<Rightarrow> int \<Rightarrow> byte list option \<Rightarrow> byte list option \<Rightarrow> pdcp_api \<Rightarrow> pdcp_api res" where
  "add_srb is_gnb rnti sr ciphering_algorithm integrity_algorithm ciphering_key integrity_key s =
     (let srb_id = sa_srb_Identity sr in
      rbind (case sa_pdcp_Config sr of
               None \<Rightarrow> Inr 3000
             | Some c \<Rightarrow> (case pc_t_Reordering c of None \<Rightarrow> Inr 3000 | Some v \<Rightarrow> decode_t_reordering v)) (\<lambda>t_Reordering.
      rbind (with_ue (pa_manager s) rnti (add_rb True srb_id
               (new_nr_pdcp_entity NR_PDCP_SRB is_gnb srb_id 0 False False False 12 t_Reordering (-1)
                  ciphering_algorithm integrity_algorithm ciphering_key integrity_key))) (\<lambda>(m, _).
        Inr (s\<lparr>pa_manager := m\<rparr>))))"

text \<open>What the association with the core network says of the bearer.\<close>

record drb_sdap =
  ds_pdusession_id :: int
  ds_has_sdap :: bool
  ds_has_sdapULheader :: bool
  ds_has_sdapDLheader :: bool
  ds_is_default :: bool
  ds_mappedQFIs2Add :: "int list"
  ds_mappedQFIs2AddCount :: nat

text \<open>
  \<^verbatim>\<open>mappedQFIs2Add\<close> is the first pointer of the list, taken for an array, and the count is cut to 8 bits. A
  pointer to one element gives access to that element only.
\<close>

definition drb_sdap_of :: "cn_association option \<Rightarrow> drb_sdap res" where
  "drb_sdap_of cn =
     (case cn of
        None \<Rightarrow> Inl Exit_fatal
      | Some CN_NOTHING \<Rightarrow> Inl Exit_fatal
      | Some (CN_eps_BearerIdentity i) \<Rightarrow>
          Inr \<lparr>ds_pdusession_id = i, ds_has_sdap = False, ds_has_sdapULheader = False,
               ds_has_sdapDLheader = False, ds_is_default = False, ds_mappedQFIs2Add = [],
               ds_mappedQFIs2AddCount = 0\<rparr>
      | Some (CN_sdap_Config None) \<Rightarrow> Inl Exit_fatal
      | Some (CN_sdap_Config (Some c)) \<Rightarrow>
          rbind (deref (sc_mappedQoS_FlowsToAdd c)) (\<lambda>flows.
            case flows of
              [] \<Rightarrow> Inl Null_pointer
            | q # _ \<Rightarrow>
                Inr \<lparr>ds_pdusession_id = sc_pdu_Session c,
                     ds_has_sdap = (sc_HeaderUL_present c \<or> sc_HeaderDL_present c),
                     ds_has_sdapULheader = sc_HeaderUL_present c,
                     ds_has_sdapDLheader = sc_HeaderDL_present c,
                     ds_is_default = sc_defaultDRB c, ds_mappedQFIs2Add = [q],
                     ds_mappedQFIs2AddCount = length flows mod 256\<rparr>))"

text \<open>The part of the configuration that does not touch the state.\<close>

record drb_params =
  dp_sn_size :: int
  dp_discard_timer :: int
  dp_t_reordering :: int
  dp_has_integrity :: bool
  dp_has_ciphering :: bool
  dp_sdap :: drb_sdap

definition drb_params_of :: "drb_to_add \<Rightarrow> drb_params res" where
  "drb_params_of d =
     rbind (deref (da_pdcp_Config d)) (\<lambda>c.
     rbind (deref (pc_drb c)) (\<lambda>cd.
     rbind (rbind (deref (dc_SN_SizeUL cd)) decode_sn_size_ul) (\<lambda>sn_size_ul.
     rbind (rbind (deref (dc_SN_SizeDL cd)) decode_sn_size_dl) (\<lambda>sn_size_dl.
     rbind (rbind (deref (dc_discardTimer cd)) decode_discard_timer) (\<lambda>discard_timer.
     rbind (case pc_t_Reordering c of None \<Rightarrow> Inr (-1) | Some v \<Rightarrow> decode_t_reordering v) (\<lambda>t_reordering.
     rbind (drb_sdap_of (da_cnAssociation d)) (\<lambda>sdap.
       if sn_size_ul \<noteq> sn_size_dl then Inl Exit_fatal
       else Inr \<lparr>dp_sn_size = sn_size_dl, dp_discard_timer = discard_timer, dp_t_reordering = t_reordering,
                 dp_has_integrity = dc_integrityProtection cd,
                 dp_has_ciphering = (\<not> pc_cipheringDisabled c), dp_sdap = sdap\<rparr>)))))))"

definition new_drb ::
  "bool \<Rightarrow> int \<Rightarrow> drb_params \<Rightarrow> int \<Rightarrow> int \<Rightarrow> byte list option \<Rightarrow> byte list option \<Rightarrow> nr_pdcp_entity res" where
  "new_drb is_gnb drb_id p ciphering_algorithm integrity_algorithm ciphering_key integrity_key =
     new_nr_pdcp_entity NR_PDCP_DRB_AM is_gnb drb_id (ds_pdusession_id (dp_sdap p)) (ds_has_sdap (dp_sdap p))
       (ds_has_sdapULheader (dp_sdap p)) (ds_has_sdapDLheader (dp_sdap p)) (nat (dp_sn_size p))
       (dp_t_reordering p) (dp_discard_timer p)
       (if dp_has_ciphering p then ciphering_algorithm else 0)
       (if dp_has_integrity p then integrity_algorithm else 0)
       (if dp_has_ciphering p then ciphering_key else None)
       (if dp_has_integrity p then integrity_key else None)"

definition add_drb_am ::
  "crypto \<Rightarrow> node \<Rightarrow> bool \<Rightarrow> int \<Rightarrow> drb_to_add \<Rightarrow> int \<Rightarrow> int \<Rightarrow> byte list option \<Rightarrow> byte list option \<Rightarrow> pdcp_api \<Rightarrow>
   pdcp_api res" where
  "add_drb_am C node is_gnb rnti d ciphering_algorithm integrity_algorithm ciphering_key integrity_key s =
     (let drb_id = da_drb_Identity d in
      rbind (drb_params_of d) (\<lambda>p.
      rbind (with_ue (pa_manager s) rnti (add_rb False drb_id
               (new_drb is_gnb drb_id p ciphering_algorithm integrity_algorithm ciphering_key integrity_key)))
        (\<lambda>(m, added).
        let s = s\<lparr>pa_manager := m\<rparr> in
        if added
        then rbind (new_nr_sdap_entity (nr_pdcp_submit_sdap_ctrl_pdu C node) (pa_sdap s) (ds_has_sdap (dp_sdap p))
                      rnti (ds_pdusession_id (dp_sdap p)) (ds_is_default (dp_sdap p)) drb_id
                      (ds_mappedQFIs2Add (dp_sdap p)) (ds_mappedQFIs2AddCount (dp_sdap p)) s) (\<lambda>(l, s).
               Inr (s\<lparr>pa_sdap := l\<rparr>))
        else Inr s)))"

definition add_drb ::
  "crypto \<Rightarrow> node \<Rightarrow> bool \<Rightarrow> int \<Rightarrow> drb_to_add \<Rightarrow> rlc_config option \<Rightarrow> int \<Rightarrow> int \<Rightarrow> byte list option \<Rightarrow>
   byte list option \<Rightarrow> pdcp_api \<Rightarrow> pdcp_api res" where
  "add_drb C node is_gnb rnti d rlc_Config ciphering_algorithm integrity_algorithm ciphering_key integrity_key s =
     rbind (deref rlc_Config) (\<lambda>r.
       case r of
         RLC_am _ \<Rightarrow>
           add_drb_am C node is_gnb rnti d ciphering_algorithm integrity_algorithm ciphering_key integrity_key s
       | RLC_um_Bi_Directional _ \<Rightarrow>
           add_drb_am C node is_gnb rnti d ciphering_algorithm integrity_algorithm ciphering_key integrity_key s
       | RLC_other \<Rightarrow> Inl Exit_fatal)"

fun add_srbs ::
  "bool \<Rightarrow> int \<Rightarrow> srb_to_add list \<Rightarrow> int \<Rightarrow> int \<Rightarrow> byte list option \<Rightarrow> byte list option \<Rightarrow> pdcp_api \<Rightarrow> pdcp_api res" where
  "add_srbs is_gnb rnti [] ca ia ck ik s = Inr s"
| "add_srbs is_gnb rnti (sr # l) ca ia ck ik s =
     rbind (add_srb is_gnb rnti sr ca ia ck ik s) (add_srbs is_gnb rnti l ca ia ck ik)"

text \<open>The bearer configurations are taken by position, next to the list of bearers.\<close>

fun add_drbs ::
  "crypto \<Rightarrow> node \<Rightarrow> bool \<Rightarrow> int \<Rightarrow> drb_to_add list \<Rightarrow> rlc_bearer_config list \<Rightarrow> int \<Rightarrow> int \<Rightarrow> byte list option \<Rightarrow>
   byte list option \<Rightarrow> pdcp_api \<Rightarrow> pdcp_api res" where
  "add_drbs C node is_gnb rnti [] bs ca ia ck ik s = Inr s"
| "add_drbs C node is_gnb rnti (d # l) [] ca ia ck ik s = Inl Out_of_bounds"
| "add_drbs C node is_gnb rnti (d # l) (b # bs) ca ia ck ik s =
     rbind (add_drb C node is_gnb rnti d (bc_rlc_Config b) ca ia ck ik s) (add_drbs C node is_gnb rnti l bs ca ia ck ik)"

record pdcp_keys =
  k_RRCenc :: "byte list option"
  k_RRCint :: "byte list option"
  k_UPenc :: "byte list option"
  k_UPint :: "byte list option"

definition nr_rrc_pdcp_config_asn1_req ::
  "crypto \<Rightarrow> node \<Rightarrow> protocol_ctxt \<Rightarrow> srb_to_add list option \<Rightarrow> drb_to_add list option \<Rightarrow> 8 word \<Rightarrow> pdcp_keys \<Rightarrow>
   bool \<Rightarrow> rlc_bearer_config list option \<Rightarrow> pdcp_api \<Rightarrow> pdcp_api res" where
  "nr_rrc_pdcp_config_asn1_req C node ctxt srb2add drb2add security_mode keys pmch_InfoList rlc_bearer2add s =
     (let rnti = cx_rnti ctxt; is_gnb = cx_enb_flag ctxt;
          ciphering = uint (security_mode AND 0x0F);
          integrity = uint (drop_bit 4 security_mode AND 0x0F)
      in if ctxt_bad ctxt \<or> pmch_InfoList then Inl Exit_fatal
         else
           rbind (case srb2add of
                    None \<Rightarrow> Inr s
                  | Some l \<Rightarrow> add_srbs is_gnb rnti l ciphering integrity (k_RRCenc keys) (k_RRCint keys) s) (\<lambda>s.
           case drb2add of
             None \<Rightarrow> Inr s
           | Some [] \<Rightarrow> Inr s
           | Some l \<Rightarrow>
               rbind (deref rlc_bearer2add) (\<lambda>bs.
                 add_drbs C node is_gnb rnti l bs ciphering integrity (k_UPenc keys) (k_UPint keys) s)))"

definition pdcp_remove_UE :: "protocol_ctxt \<Rightarrow> pdcp_api \<Rightarrow> pdcp_api res" where
  "pdcp_remove_UE ctxt s =
     rbind (manager_remove_ue nr_pdcp_entity_delete (pa_manager s) (cx_rnti ctxt)) (\<lambda>m.
       Inr (s\<lparr>pa_manager := m\<rparr>))"

definition pdcp_config_set_security ::
  "protocol_ctxt \<Rightarrow> int \<Rightarrow> 8 word \<Rightarrow> byte list option \<Rightarrow> byte list option \<Rightarrow> pdcp_api \<Rightarrow> pdcp_api res" where
  "pdcp_config_set_security ctxt rb_id security_mode kRRCenc kRRCint s =
     rbind (with_ue (pa_manager s) (cx_rnti ctxt) (\<lambda>ue.
              if \<not> (rb_id \<ge> 1 \<and> rb_id \<le> 2) then Inl Exit_fatal
              else
                case ue_srb ue ! nat (rb_id - 1) of
                  None \<Rightarrow> Inr (ue, ())
                | Some rb \<Rightarrow>
                    rbind (nr_pdcp_entity_set_security rb (uint (drop_bit 4 security_mode AND 0x0F)) kRRCint
                             (uint (security_mode AND 0x0F)) kRRCenc) (\<lambda>rb'.
                      Inr (ue_set_rb True ue (nat (rb_id - 1)) rb', ())))) (\<lambda>(m, _).
       Inr (s\<lparr>pa_manager := m\<rparr>))"

end
