(* ===== verification/NR_PDCP_Node.thy ===== *)
theory NR_PDCP_Node
  imports NR_PDCP_Api
begin

text \<open>
  What the PDCP layer of a node keeps true however its interface is used: the form of its UEs and
  entities, the separation of the UEs, and that nothing that arrives from the radio makes a gNB fail.
\<close>

section \<open>Well-formed UEs\<close>

text \<open>Nothing but non-empty SDUs goes up.\<close>

definition pdcp_data_ok :: "nr_pdcp_entity \<Rightarrow> bool" where
  "pdcp_data_ok e \<longleftrightarrow> (\<forall>s \<in> set (pd_rx_list e). ps_buffer s \<noteq> [])"

definition ups_ok :: "pdcp_event list \<Rightarrow> bool" where
  "ups_ok evs \<longleftrightarrow> (\<forall>ev \<in> set evs. \<exists>b. ev = Pdcp_sdu b \<and> b \<noteq> [])"

definition rb_ok :: "bool \<Rightarrow> bool \<Rightarrow> nat \<Rightarrow> nr_pdcp_entity \<Rightarrow> bool" where
  "rb_ok gnb srb_flag i e \<longleftrightarrow>
     pd_type e = (if srb_flag then NR_PDCP_SRB else NR_PDCP_DRB_AM) \<and> pd_rb_id e = int i + 1 \<and>
     pd_is_gnb e = gnb \<and> pd_out e = [] \<and> pdcp_config_ok e \<and> pdcp_list_ok e \<and> pdcp_data_ok e"

definition ue_typed :: "bool \<Rightarrow> nr_pdcp_entity ue \<Rightarrow> bool" where
  "ue_typed gnb = ue_all (rb_ok gnb)"

definition manager_typed :: "bool \<Rightarrow> nr_pdcp_entity ue_manager \<Rightarrow> bool" where
  "manager_typed gnb = manager_all (rb_ok gnb)"

lemmas ue_of_typed = ue_of_all [where P = "rb_ok gnb", folded ue_typed_def manager_typed_def] for gnb

lemmas with_ue_typed = with_ue_all [where P = "rb_ok gnb", folded ue_typed_def manager_typed_def] for gnb

lemmas ue_set_rb_typed = ue_set_rb_all [where P = "rb_ok gnb", folded ue_typed_def] for gnb

text \<open>A function of an entity that keeps it well formed, events apart.\<close>

definition rb_keeps :: "(nr_pdcp_entity \<Rightarrow> nr_pdcp_entity res) \<Rightarrow> bool" where
  "rb_keeps f \<longleftrightarrow>
     (\<forall>g srb_flag i e e'. rb_ok g srb_flag i e \<longrightarrow> f e = Inr e' \<longrightarrow> rb_ok g srb_flag i (e'\<lparr>pd_out := []\<rparr>))"

lemma ue_typed_rb:
  assumes "ue_typed g u" "rb_slot srb_flag rb_id = Some i" "ue_rbs srb_flag u ! i = Some e"
  shows "rb_ok g srb_flag i e"
  using assms ue_all_rb(1) [of "rb_ok g" u i srb_flag e] by (auto simp: ue_typed_def rb_slot_Some split: if_splits)

lemma on_slot_typed:
  assumes "rb_keeps f" "ue_typed g u" "on_slot f srb_flag (rb_slot srb_flag rb_id) u = Inr (u', x)"
  shows "ue_typed g u'"
proof (cases "rb_slot srb_flag rb_id")
  case None
  then show ?thesis
    using assms by (simp add: on_slot_def)
next
  case (Some i)
  show ?thesis
  proof (cases "ue_rbs srb_flag u ! i")
    case None
    then show ?thesis
      using assms Some by (simp add: on_slot_def)
  next
    case (Some rb)
    have i: "rb_slot srb_flag rb_id = Some i" "i < (if srb_flag then 2 else 5)"
      using \<open>rb_slot srb_flag rb_id = Some i\<close> by (auto simp: rb_slot_Some)
    obtain rb' where "f rb = Inr rb'" "u' = ue_set_rb srb_flag u i (rb'\<lparr>pd_out := []\<rparr>)"
      using assms(3) Some i by (auto simp: on_slot_def rbind_eq_Inr)
    then show ?thesis
      using ue_set_rb_typed [OF assms(2) _ i(2)] ue_typed_rb [OF assms(2) i(1) Some] assms(1)
      by (auto simp: rb_keeps_def)
  qed
qed

section \<open>What an operation on one UE leaves alone\<close>

fun msg_of_ue :: "int \<Rightarrow> pdcp_msg \<Rightarrow> bool" where
  "msg_of_ue r (Sdap_msg (To_gtpu rnti _ _)) \<longleftrightarrow> rnti = r"
| "msg_of_ue r (Sdap_msg (To_nas _)) \<longleftrightarrow> True"
| "msg_of_ue r (Rrc_dcch_data_ind _ rnti _ _) \<longleftrightarrow> rnti = r"
| "msg_of_ue r (Gtpu_tunnel_data_req rnti _ _) \<longleftrightarrow> rnti = r"
| "msg_of_ue r (F1ap_dl_rrc_message rnti _ _) \<longleftrightarrow> rnti = r"

text \<open>The same SDAP entities in the same order, those of other UEs unchanged.\<close>

definition sdap_frame :: "int \<Rightarrow> sdap_list \<Rightarrow> sdap_list \<Rightarrow> bool" where
  "sdap_frame r l l' \<longleftrightarrow> list_all2 (\<lambda>e e'. sdap_key e' = sdap_key e \<and> (sd_rnti e \<noteq> u16 r \<longrightarrow> e' = e)) l l'"

text \<open>
  \<open>pdcp_frame g r s s'\<close>: the other UEs keep their entities, and whatever goes to RLC or to another task is
  labelled with the UE.
\<close>

definition pdcp_frame :: "bool \<Rightarrow> int \<Rightarrow> pdcp_api \<Rightarrow> pdcp_api \<Rightarrow> bool" where
  "pdcp_frame g r s s' \<longleftrightarrow>
     manager_typed g (pa_manager s') \<and>
     (\<forall>r'. r' \<noteq> r \<longrightarrow> manager_table (pa_manager s') r' = manager_table (pa_manager s) r') \<and>
     sdap_frame r (pa_sdap s) (pa_sdap s') \<and> pa_ind_queue s' = pa_ind_queue s \<and>
     (\<exists>q. pa_rlc_queue s' = pa_rlc_queue s @ q \<and> (\<forall>x \<in> set q. cx_rnti (rq_ctxt x) = r)) \<and>
     (\<exists>ms. pa_msgs s' = pa_msgs s @ ms \<and> (\<forall>m \<in> set ms. msg_of_ue r m))"

lemma sdap_frame_refl [simp]: "sdap_frame r l l"
  by (simp add: sdap_frame_def list.rel_refl)

lemma sdap_frame_trans: "sdap_frame r l l' \<Longrightarrow> sdap_frame r l' l'' \<Longrightarrow> sdap_frame r l l''"
  by (auto simp: sdap_frame_def sdap_key_def list_all2_conv_all_nth)

lemma pdcp_frame_refl: "manager_typed g (pa_manager s) \<Longrightarrow> pdcp_frame g r s s"
  by (simp add: pdcp_frame_def)

lemma pdcp_frame_trans: "pdcp_frame g r s s' \<Longrightarrow> pdcp_frame g r s' s'' \<Longrightarrow> pdcp_frame g r s s''"
  unfolding pdcp_frame_def by (auto intro: sdap_frame_trans)

lemma pdcp_frame_ok: "pdcp_frame g r s s' \<Longrightarrow> manager_typed g (pa_manager s')"
  by (simp add: pdcp_frame_def)

lemma on_slot_keeps: "keeps_rnti (on_slot f srb_flag slot)"
  unfolding keeps_rnti_def on_slot_def
  by (auto simp: rbind_eq_Inr split: option.splits)

lemma pdcp_on_rb_frame:
  assumes "manager_typed g (pa_manager s)" "rb_keeps f" "pdcp_on_rb f srb_flag rb_id r s = Inr (s', x)"
  shows "pdcp_frame g r s s'"
proof -
  obtain m where m: "with_ue (pa_manager s) r (on_slot f srb_flag (rb_slot srb_flag rb_id)) = Inr (m, x)"
    and s': "s' = s\<lparr>pa_manager := m\<rparr>"
    using assms(3) by (auto simp: pdcp_on_rb_def rbind_eq_Inr)
  obtain u where "manager_typed g m" "manager_table m = (manager_table (pa_manager s))(r \<mapsto> u)"
  proof (rule with_ue_typed [OF assms(1) on_slot_keeps m])
    show "ue_typed g u'" if "ue_typed g u" "on_slot f srb_flag (rb_slot srb_flag rb_id) u = Inr (u', a)" for u u' a
      using on_slot_typed [OF assms(2) that] .
  qed
  then show ?thesis
    by (simp add: pdcp_frame_def s')
qed

text \<open>The functions of an entity that the layer calls.\<close>

lemma rb_ok_static:
  assumes "rb_ok g srb_flag i e" "pdcp_static e' = pdcp_static e" "pdcp_list_ok e'" "pdcp_data_ok e'"
  shows "rb_ok g srb_flag i (e'\<lparr>pd_out := []\<rparr>)"
proof -
  have "pd_type e' = pd_type e" "pd_rb_id e' = pd_rb_id e" "pd_is_gnb e' = pd_is_gnb e"
    using assms(2) unfolding pdcp_static_def by (cases e; cases e'; simp)+
  moreover have "pdcp_config_ok e'"
    using pdcp_config_static [OF assms(2)] assms(1) by (simp add: rb_ok_def)
  ultimately show ?thesis
    using assms(1,3,4) by (simp add: rb_ok_def pdcp_config_ok_def pdcp_list_ok_def pdcp_data_ok_def)
qed

lemma recv_sdu_keeps: "rb_keeps (\<lambda>rb. nr_pdcp_entity_recv_sdu C rb b i)"
  unfolding rb_keeps_def
  by (auto simp: rb_ok_def pdcp_recv_sdu_pdu pdcp_config_ok_def pdcp_list_ok_def pdcp_data_ok_def)

lemma deliver_pdu_frame:
  "manager_typed g (pa_manager s) \<Longrightarrow>
   pdcp_frame g r s ((if srb_flag then deliver_pdu_srb else deliver_pdu_drb) node r rb_id buf sdu_id s)"
  by (auto simp: pdcp_frame_def deliver_pdu_srb_def deliver_pdu_drb_def callback_ctxt_def)

lemma deliver_pdus_frame:
  "manager_typed g (pa_manager s) \<Longrightarrow> deliver_pdus node srb_flag r rb_id evs s = Inr s' \<Longrightarrow> pdcp_frame g r s s'"
proof (induction node srb_flag r rb_id evs s rule: deliver_pdus.induct)
  case (2 node srb_flag r rb_id buf sdu_id evs s)
  let ?s = "(if srb_flag then deliver_pdu_srb else deliver_pdu_drb) node r rb_id buf sdu_id s"
  have "pdcp_frame g r s ?s"
    using deliver_pdu_frame 2(2) by blast
  moreover have "pdcp_frame g r ?s s'"
    using 2(1) [OF pdcp_frame_ok [OF calculation]] 2(3) by simp
  ultimately show ?case
    by (rule pdcp_frame_trans)
qed (simp_all add: pdcp_frame_refl)

text \<open>What a function given to an SDAP entity for the UE must do.\<close>

definition frames :: "bool \<Rightarrow> int \<Rightarrow> (pdcp_api \<Rightarrow> pdcp_api res) \<Rightarrow> bool" where
  "frames g r f \<longleftrightarrow> (\<forall>s s'. manager_typed g (pa_manager s) \<longrightarrow> f s = Inr s' \<longrightarrow> pdcp_frame g r s s')"

lemma framesD: "frames g r f \<Longrightarrow> manager_typed g (pa_manager s) \<Longrightarrow> f s = Inr s' \<Longrightarrow> pdcp_frame g r s s'"
  by (simp add: frames_def)

lemma submit_frames: "frames g r (nr_pdcp_submit_sdap_ctrl_pdu C node r drb b)"
  unfolding frames_def
proof (intro allI impI)
  fix s s' assume ok: "manager_typed g (pa_manager s)" and sub: "nr_pdcp_submit_sdap_ctrl_pdu C node r drb b s = Inr s'"
  obtain s1 rb evs where 1: "pdcp_on_rb (\<lambda>rb. nr_pdcp_entity_recv_sdu C rb [b] 0) False drb r s = Inr (s1, Some (rb, evs))"
    and 2: "deliver_pdus node False r drb evs s1 = Inr s'"
    using sub by (auto simp: nr_pdcp_submit_sdap_ctrl_pdu_def rbind_eq_Inr split: option.splits)
  have "pdcp_frame g r s s1"
    using pdcp_on_rb_frame [OF ok recv_sdu_keeps 1] .
  then show "pdcp_frame g r s s'"
    using deliver_pdus_frame [OF pdcp_frame_ok 2] pdcp_frame_trans by blast
qed

lemma end_marker_frame:
  assumes "manager_typed g (pa_manager s)"
    "sdap_end_marker (nr_pdcp_submit_sdap_ctrl_pdu C node) e r mt qfi s = Inr s'"
  shows "pdcp_frame g r s s'"
  using assms framesD [OF submit_frames assms(1)]
  by (auto simp: sdap_end_marker_def nr_sdap_submit_ctrl_pdu_def rbind_eq_Inr pdcp_frame_refl split: if_splits)

lemma reflective_frame:
  assumes "manager_typed g (pa_manager s)"
    "sdap_reflective (nr_pdcp_submit_sdap_ctrl_pdu C node) e b r qfi s = Inr (e', s')"
  shows "pdcp_frame g r s s'" "sdap_key e' = sdap_key e"
proof -
  let ?sub = "nr_pdcp_submit_sdap_ctrl_pdu C node"
  obtain row s1 where
    1: "(if qd_drb_id row = 0 \<and> sd_default_drb e \<noteq> 0
         then sdap_end_marker ?sub e r SDAP_CTRL_PDU_MAP_DEF_DRB qfi s else Inr s) = Inr s1"
    and 2: "(if b \<noteq> qd_drb_id row
         then sdap_end_marker ?sub e r SDAP_CTRL_PDU_MAP_RULE_DRB qfi s1 else Inr s1) = Inr s'"
    and e': "e' = e\<lparr>sd_qfi2drb_table := (sd_qfi2drb_table e)[nat qfi := row\<lparr>qd_drb_id := b\<rparr>]\<rparr>"
    using assms(2) by (auto simp: sdap_reflective_def rbind_eq_Inr)
  have f: "pdcp_frame g r s s1"
    using 1 assms(1) end_marker_frame pdcp_frame_refl by (auto split: if_splits)
  have "pdcp_frame g r s1 s'"
    using 2 pdcp_frame_ok [OF f] end_marker_frame pdcp_frame_refl by (auto split: if_splits)
  then show "pdcp_frame g r s s'"
    using f pdcp_frame_trans by blast
  show "sdap_key e' = sdap_key e"
    by (simp add: e' sdap_key_def)
qed

lemma emit_frame:
  "manager_typed g (pa_manager s) \<Longrightarrow> msg_of_ue r (Sdap_msg m) \<Longrightarrow> pdcp_frame g r s (sdap_emit m s)"
  by (auto simp: pdcp_frame_def sdap_emit_def)

lemma rx_entity_frame:
  assumes "manager_typed g (pa_manager s)"
    "nr_sdap_rx_entity (nr_pdcp_submit_sdap_ctrl_pdu C node) sdap_emit e b ig h h' ps r buf s = Inr (e', s')"
  shows "pdcp_frame g r s s'" "sdap_key e' = sdap_key e"
proof -
  have em: "pdcp_frame g r s (sdap_emit m s)" if "msg_of_ue r (Sdap_msg m)" for m
    using emit_frame [OF assms(1) that] .
  have rf: "pdcp_frame g r s (sdap_emit m s1) \<and> sdap_key e1 = sdap_key e"
    if "sdap_reflective (nr_pdcp_submit_sdap_ctrl_pdu C node) e b r qfi s = Inr (e1, s1)"
      "msg_of_ue r (Sdap_msg m)" for qfi e1 s1 m
    using reflective_frame [OF assms(1) that(1)] emit_frame [OF pdcp_frame_ok that(2)] pdcp_frame_trans
    by blast
  have "pdcp_frame g r s s' \<and> sdap_key e' = sdap_key e"
    using assms(2) unfolding nr_sdap_rx_entity_def
    by (cases "h \<and> h'"; cases ig; cases buf) (auto simp: rbind_eq_Inr em rf dest: reflective_frame(2) [OF assms(1)] split: if_splits)
  then show "pdcp_frame g r s s'" "sdap_key e' = sdap_key e"
    by auto
qed

lemma sdap_frame_update:
  assumes "i < length l" "sdap_key e = sdap_key (l ! i)" "sd_rnti (l ! i) = u16 r"
  shows "sdap_frame r l (l[i := e])"
  using assms by (auto simp: sdap_frame_def list_all2_conv_all_nth nth_list_update)

lemma sdap_frame_nth:
  "sdap_frame r l l' \<Longrightarrow> i < length l \<Longrightarrow> length l' = length l \<and> sdap_key (l' ! i) = sdap_key (l ! i)"
  by (simp add: sdap_frame_def list_all2_conv_all_nth)

lemma sdap_data_ind_frames: "frames g r (sdap_data_ind C node b ig h h' ps r buf)"
  unfolding frames_def
proof (intro allI impI)
  fix s s' assume ok: "manager_typed g (pa_manager s)" and ind: "sdap_data_ind C node b ig h h' ps r buf s = Inr s'"
  show "pdcp_frame g r s s'"
  proof (cases "nr_sdap_get_entity (pa_sdap s) r ps")
    case None
    then show ?thesis
      using ind ok by (simp add: sdap_data_ind_def pdcp_frame_refl)
  next
    case (Some i)
    then obtain e s1 where
      rx: "nr_sdap_rx_entity (nr_pdcp_submit_sdap_ctrl_pdu C node) sdap_emit (pa_sdap s ! i) b ig h h' ps r buf s =
        Inr (e, s1)" and s': "s' = s1\<lparr>pa_sdap := (pa_sdap s1)[i := e]\<rparr>"
      using ind by (auto simp: sdap_data_ind_def rbind_eq_Inr)
    have f: "pdcp_frame g r s s1" and k: "sdap_key e = sdap_key (pa_sdap s ! i)"
      using rx_entity_frame [OF ok rx] by auto
    have i: "i < length (pa_sdap s)" "sdap_key (pa_sdap s ! i) = (u16 r, ps)"
      using sdap_get_Some [OF Some] by auto
    have i1: "length (pa_sdap s1) = length (pa_sdap s)" "sdap_key (pa_sdap s1 ! i) = sdap_key (pa_sdap s ! i)"
      using f i(1) sdap_frame_nth by (auto simp: pdcp_frame_def)
    have "sdap_frame r (pa_sdap s1) ((pa_sdap s1)[i := e])"
      by (rule sdap_frame_update) (use i i1 k in \<open>auto simp: sdap_key_def\<close>)
    then have "pdcp_frame g r s1 s'"
      using pdcp_frame_ok [OF f] by (simp add: pdcp_frame_def s')
    then show ?thesis
      using f pdcp_frame_trans by blast
  qed
qed

lemma pdcp_callbacks_frame:
  "manager_typed g (pa_manager s) \<Longrightarrow> pdcp_callbacks C node e srb_flag r rb_id evs s = Inr s' \<Longrightarrow> pdcp_frame g r s s'"
proof (induction C node e srb_flag r rb_id evs s rule: pdcp_callbacks.induct)
  case (2 C node e srb_flag r rb_id buf sdu_id evs s)
  let ?s = "(if srb_flag then deliver_pdu_srb else deliver_pdu_drb) node r rb_id buf sdu_id s"
  have "pdcp_frame g r s ?s"
    using deliver_pdu_frame 2(2) by blast
  moreover have "pdcp_frame g r ?s s'"
    using 2(1) [OF pdcp_frame_ok [OF calculation]] 2(3) by simp
  ultimately show ?case
    by (rule pdcp_frame_trans)
next
  case (3 C node e srb_flag r rb_id buf evs s)
  obtain s1 where 1: "(if srb_flag then Inr (deliver_sdu_srb e r rb_id buf s)
      else deliver_sdu_drb C node e r rb_id buf s) = Inr s1"
    and 2: "pdcp_callbacks C node e srb_flag r rb_id evs s1 = Inr s'"
    using 3(3) by (auto simp: rbind_eq_Inr)
  have "pdcp_frame g r s s1"
  proof (cases srb_flag)
    case True
    then show ?thesis
      using 1 3(2) by (auto simp: deliver_sdu_srb_def pdcp_frame_def)
  next
    case False
    then show ?thesis
      using 1 framesD [OF sdap_data_ind_frames 3(2)] by (simp add: deliver_sdu_drb_def)
  qed
  then show ?case
    using 3(1) [OF pdcp_frame_ok 2] pdcp_frame_trans by blast
qed (simp add: pdcp_frame_refl)

subsection \<open>What goes up\<close>

lemma deliver_run_data:
  "pdcp_deliver_run l c e = (c', e') \<Longrightarrow> pd_rx_list e = l \<Longrightarrow> pdcp_data_ok e \<Longrightarrow> ups_ok (pd_out e) \<Longrightarrow>
   pdcp_data_ok e' \<and> ups_ok (pd_out e')"
  by (induction l c e rule: pdcp_deliver_run.induct)
     (auto simp: pdcp_deliver_def pdcp_data_ok_def ups_ok_def split: if_splits)

lemma deliver_below_data:
  "pd_rx_list e = l \<Longrightarrow> pdcp_data_ok e \<Longrightarrow> ups_ok (pd_out e) \<Longrightarrow>
   pdcp_data_ok (pdcp_deliver_below l c e) \<and> ups_ok (pd_out (pdcp_deliver_below l c e))"
  by (induction l c e rule: pdcp_deliver_below.induct)
     (auto simp: pdcp_deliver_def pdcp_data_ok_def ups_ok_def)

lemma flush_data:
  assumes "pdcp_data_ok e" "ups_ok (pd_out e)"
  shows "pdcp_data_ok (pdcp_flush e c)" "ups_ok (pd_out (pdcp_flush e c))"
proof -
  obtain c' e' where r: "pdcp_deliver_run (pd_rx_list e) c e = (c', e')"
    by (rule prod.exhaust)
  then show "pdcp_data_ok (pdcp_flush e c)" "ups_ok (pd_out (pdcp_flush e c))"
    using deliver_run_data [OF r refl assms] by (auto simp: pdcp_flush_def pdcp_data_ok_def)
qed

lemma timers_data [simp]:
  "pdcp_data_ok (pdcp_timers e) = pdcp_data_ok e" "pdcp_data_ok (pdcp_start_timer e) = pdcp_data_ok e"
  "pd_out (pdcp_timers e) = pd_out e" "pd_out (pdcp_start_timer e) = pd_out e"
  by (simp_all add: pdcp_data_ok_def pdcp_timers_def pdcp_start_timer_def pdcp_stop_timer_def Let_def)

lemma reorder_data:
  assumes "pdcp_data_ok e" "ups_ok (pd_out e)" "length buffer \<ge> h + k + 1"
  shows "pdcp_data_ok (pdcp_reorder e buffer h k c)" "ups_ok (pd_out (pdcp_reorder e buffer h k c))"
proof -
  define s where "s = nr_pdcp_new_sdu c (take (length buffer - h - k) (drop h buffer))"
  define e1 where "e1 = pdcp_insert e s (int (length buffer) - int h)"
  have eq: "pdcp_reorder e buffer h k c = (if c < pd_rx_deliv e \<or> nr_pdcp_sdu_in_list (pd_rx_list e) c then e
      else pdcp_timers (if c = pd_rx_deliv e1 then pdcp_flush e1 (pd_rx_deliv e1) else e1))"
    unfolding pdcp_reorder_alt Let_def s_def e1_def by (rule refl)
  have "ps_buffer s \<noteq> []"
    using assms(3) by (auto simp: s_def nr_pdcp_new_sdu_def)
  then have "pdcp_data_ok e1" "ups_ok (pd_out e1)"
    using assms(1,2) by (auto simp: e1_def pdcp_data_ok_def pdcp_insert_def Let_def)
  then show "pdcp_data_ok (pdcp_reorder e buffer h k c)" "ups_ok (pd_out (pdcp_reorder e buffer h k c))"
    using flush_data [of e1] assms(1,2) unfolding eq by auto
qed

lemma set_time_data:
  assumes "pdcp_data_ok e" "ups_ok (pd_out e)"
  shows "pdcp_data_ok (nr_pdcp_entity_set_time e now)" "ups_ok (pd_out (nr_pdcp_entity_set_time e now))"
proof -
  let ?e1 = "e\<lparr>pd_t_current := now, pd_t_reordering_start := 0\<rparr>"
  define e2 where "e2 = pdcp_deliver_below (pd_rx_list ?e1) (pd_rx_reord ?e1) ?e1"
  have eq: "nr_pdcp_entity_set_time e now = (if pd_t_reordering e = -1 \<or> pd_t_reordering_start e = 0 \<or>
      now \<le> word_of_int (pd_t_reordering_start e + pd_t_reordering e) then e\<lparr>pd_t_current := now\<rparr>
      else pdcp_start_timer (pdcp_flush e2 (pd_rx_reord e2)))"
    unfolding nr_pdcp_entity_set_time_def pdcp_check_t_reordering_def Let_def e2_def by simp
  have "pdcp_data_ok e2" "ups_ok (pd_out e2)"
    using deliver_below_data [of ?e1 "pd_rx_list e"] assms by (auto simp: e2_def pdcp_data_ok_def)
  then show "pdcp_data_ok (nr_pdcp_entity_set_time e now)" "ups_ok (pd_out (nr_pdcp_entity_set_time e now))"
    using flush_data [of e2] assms unfolding eq by (auto simp: pdcp_data_ok_def)
qed

lemma recv_pdu_data:
  assumes C: "crypto_ok C" and ok: "pdcp_data_ok e" "ups_ok (pd_out e)"
    and recv: "nr_pdcp_entity_recv_pdu C e buf = Inr e'"
  shows "pdcp_data_ok e'" "ups_ok (pd_out e')"
proof -
  have "pdcp_data_ok e' \<and> ups_ok (pd_out e')"
    using recv C ok
    by (auto simp: nr_pdcp_entity_recv_pdu_def Let_def rbind_eq_Inr pdcp_cipher_def reorder_data
        split: if_splits option.splits)
  then show "pdcp_data_ok e'" "ups_ok (pd_out e')"
    by auto
qed

lemma recv_pdu_keeps:
  assumes "crypto_ok C"
  shows "rb_keeps (\<lambda>rb. nr_pdcp_entity_recv_pdu C rb b)"
  unfolding rb_keeps_def
proof (intro allI impI)
  fix g srb_flag i e e' assume ok: "rb_ok g srb_flag i e" and r: "nr_pdcp_entity_recv_pdu C e b = Inr e'"
  have "pdcp_list_ok e'" "pdcp_static e' = pdcp_static e"
    using pdcp_recv_pdu_any [of e C b] ok r by (auto simp: rb_ok_def)
  moreover have "pdcp_data_ok e'"
    using recv_pdu_data(1) [OF assms _ _ r] ok by (simp add: rb_ok_def ups_ok_def)
  ultimately show "rb_ok g srb_flag i (e'\<lparr>pd_out := []\<rparr>)"
    using rb_ok_static [OF ok] by blast
qed

lemma set_time_keeps:
  assumes "rb_ok g srb_flag i e"
  shows "rb_ok g srb_flag i ((nr_pdcp_entity_set_time e now)\<lparr>pd_out := []\<rparr>)"
proof (rule rb_ok_static [OF assms])
  have ok: "pdcp_list_ok e" "pdcp_data_ok e" "ups_ok (pd_out e)"
    using assms by (auto simp: rb_ok_def ups_ok_def)
  show "pdcp_static (nr_pdcp_entity_set_time e now) = pdcp_static e" "pdcp_list_ok (nr_pdcp_entity_set_time e now)"
    using pdcp_set_time_any [OF ok(1)] by auto
  show "pdcp_data_ok (nr_pdcp_entity_set_time e now)"
    using set_time_data(1) [OF ok(2,3)] .
qed

lemma do_pdcp_data_ind_frame:
  assumes "crypto_ok C" "manager_typed g (pa_manager s)" "do_pdcp_data_ind C node ctxt srb_flag rb_id sdu s = Inr s'"
  shows "pdcp_frame g (cx_rnti ctxt) s s'"
proof -
  obtain s1 x where 1: "pdcp_on_rb (\<lambda>rb. nr_pdcp_entity_recv_pdu C rb sdu) srb_flag rb_id (cx_rnti ctxt) s = Inr (s1, x)"
    and 2: "case x of None \<Rightarrow> s' = s1
      | Some (rb, evs) \<Rightarrow> pdcp_callbacks C node rb srb_flag (cx_rnti ctxt) rb_id evs s1 = Inr s'"
    using assms(3) by (auto simp: do_pdcp_data_ind_def rbind_eq_Inr split: if_splits option.splits)
  have f: "pdcp_frame g (cx_rnti ctxt) s s1"
    using pdcp_on_rb_frame [OF assms(2) recv_pdu_keeps [OF assms(1)] 1] .
  then show ?thesis
    using 2 pdcp_callbacks_frame [OF pdcp_frame_ok [OF f]] pdcp_frame_trans
    by (auto split: option.splits)
qed

lemma pdcp_data_req_frame:
  assumes "manager_typed g (pa_manager s)" "pdcp_data_req C node s ctxt srb_flag rb_id mui confirm sdu = Inr (b, s')"
  shows "pdcp_frame g (cx_rnti ctxt) s s'"
proof -
  have "pdcp_data_req_rb C node s ctxt srb_flag rb_id mui sdu = Inr (b, s')"
    using assms(2) by (auto simp: pdcp_data_req_def pdcp_data_req_srb_def pdcp_data_req_drb_def split: if_splits)
  then obtain s1 x where
    1: "pdcp_on_rb (\<lambda>rb. nr_pdcp_entity_recv_sdu C rb sdu mui) srb_flag rb_id (cx_rnti ctxt) s = Inr (s1, x)"
    and 2: "case x of None \<Rightarrow> s' = s1
      | Some (rb, evs) \<Rightarrow> deliver_pdus node srb_flag (cx_rnti ctxt) rb_id evs s1 = Inr s'"
    by (auto simp: pdcp_data_req_rb_def rbind_eq_Inr split: if_splits option.splits)
  have f: "pdcp_frame g (cx_rnti ctxt) s s1"
    using pdcp_on_rb_frame [OF assms(1) recv_sdu_keeps 1] .
  then show ?thesis
    using 2 deliver_pdus_frame [OF pdcp_frame_ok [OF f]] pdcp_frame_trans
    by (auto split: option.splits)
qed

lemma sdap_data_req_frame:
  assumes "manager_typed g (pa_manager s)"
    "sdap_data_req C node s ctxt srb_flag rb_id mui confirm sdu qfi rqi ps = Inr (b, s')"
  shows "pdcp_frame g (cx_rnti ctxt) s s'"
proof (cases "nr_sdap_get_entity (pa_sdap s) (cx_rnti ctxt) ps")
  case None
  then show ?thesis
    using assms by (simp add: sdap_data_req_def pdcp_frame_refl)
next
  case (Some i)
  then show ?thesis
    using assms pdcp_data_req_frame [OF assms(1)]
    by (auto simp: sdap_data_req_def nr_sdap_tx_entity_def rbind_eq_Inr Let_def of_opt_def pdcp_frame_refl
        split: if_splits option.splits)
qed

section \<open>Configuration keeps the UEs well formed\<close>

lemma new_rb_ok:
  assumes "new_nr_pdcp_entity type g rb psi sdap ul dl L tr td ca ia ck ik = Inr e" "L \<in> {12, 18}" "1 \<le> rb"
    and "type = (if srb_flag then NR_PDCP_SRB else NR_PDCP_DRB_AM)"
  shows "rb_ok g srb_flag (nat (rb - 1)) e"
  using new_pdcp_fields [OF assms(1)] new_pdcp_config(1) [OF assms(1,2)] assms(3,4)
  by (auto simp: rb_ok_def pdcp_list_ok_def pdcp_data_ok_def)

lemmas add_entity_typed = add_entity_all [where P = "rb_ok gnb", folded ue_typed_def] for gnb

lemma add_rb_keeps: "keeps_rnti (add_rb srb_flag rb_id new)"
  unfolding keeps_rnti_def add_rb_def
  by (auto simp: rbind_eq_Inr ue_add_srb_entity_def ue_add_drb_entity_def Let_def split: if_splits)

lemma add_rb_typed:
  assumes "ue_typed g u" "add_rb srb_flag rb_id new u = Inr (u', x)"
    and "\<And>e. new = Inr e \<Longrightarrow> 1 \<le> rb_id \<Longrightarrow> rb_ok g srb_flag (nat (rb_id - 1)) e"
  shows "ue_typed g u'"
proof -
  obtain present where p: "ue_rb_present (ue_rbs srb_flag u) rb_id = Inr present"
    using assms(2) by (auto simp: add_rb_def rbind_eq_Inr)
  show ?thesis
  proof (cases present)
    case True
    then show ?thesis
      using assms(1,2) p by (simp add: add_rb_def)
  next
    case False
    then obtain e where "new = Inr e"
      "(if srb_flag then ue_add_srb_entity else ue_add_drb_entity) u rb_id e = Inr u'"
      using assms(2) p by (auto simp: add_rb_def rbind_eq_Inr split del: if_split)
    then show ?thesis
      using add_entity_typed(1) [OF assms(1)] assms(3) ue_rb_present_range [OF p] by blast
  qed
qed

lemma add_rb_manager_typed:
  assumes "manager_typed g m" "with_ue m r (add_rb srb_flag rb_id new) = Inr (m', x)"
    and "\<And>e. new = Inr e \<Longrightarrow> 1 \<le> rb_id \<Longrightarrow> rb_ok g srb_flag (nat (rb_id - 1)) e"
  shows "manager_typed g m'"
proof (rule with_ue_typed [OF assms(1) add_rb_keeps assms(2)])
  show "ue_typed g u'" if "ue_typed g u" "add_rb srb_flag rb_id new u = Inr (u', a)" for u u' a
    using add_rb_typed [OF that assms(3)] .
qed

lemma add_srb_typed:
  assumes "manager_typed g (pa_manager s)" "add_srb g rnti sr ca ia ck ik s = Inr s'"
  shows "manager_typed g (pa_manager s') \<and> pa_sdap s' = pa_sdap s"
proof -
  obtain t m x where "with_ue (pa_manager s) rnti (add_rb True (sa_srb_Identity sr)
      (new_nr_pdcp_entity NR_PDCP_SRB g (sa_srb_Identity sr) 0 False False False 12 t (-1) ca ia ck ik)) = Inr (m, x)"
    and s': "s' = s\<lparr>pa_manager := m\<rparr>"
    using assms(2) by (auto simp: add_srb_def Let_def rbind_eq_Inr)
  from add_rb_manager_typed [OF assms(1) this(1)] have "manager_typed g m"
    using new_rb_ok [where srb_flag = True] by simp
  then show ?thesis
    by (simp add: s')
qed

lemma drb_params_sn: "drb_params_of d = Inr p \<Longrightarrow> nat (dp_sn_size p) \<in> {12, 18}"
  by (auto simp: drb_params_of_def rbind_eq_Inr split: if_splits dest!: decode_sn_size_range)

lemma config_loop_frame:
  "manager_typed g (pa_manager s) \<Longrightarrow>
   sdap_ue_config_loop (nr_pdcp_submit_sdap_ctrl_pdu C node) e r drb qfis n s = Inr s' \<Longrightarrow> pdcp_frame g r s s'"
proof (induction "nr_pdcp_submit_sdap_ctrl_pdu C node" e r drb qfis n s rule: sdap_ue_config_loop.induct)
  case (3 e r drb q qfis n s)
  obtain row s1 s2 where
    1: "s1 = s \<or> sdap_end_marker (nr_pdcp_submit_sdap_ctrl_pdu C node) e r SDAP_CTRL_PDU_MAP_DEF_DRB (u8 q) s = Inr s1"
    and 2: "s2 = s1 \<or> sdap_end_marker (nr_pdcp_submit_sdap_ctrl_pdu C node) e r SDAP_CTRL_PDU_MAP_RULE_DRB (u8 q) s1 = Inr s2"
    and 3: "sdap_ue_config_loop (nr_pdcp_submit_sdap_ctrl_pdu C node) e r drb qfis n s2 = Inr s'"
    using "3.prems"(2) by (auto simp: Let_def rbind_eq_Inr split: if_splits)
  have f1: "pdcp_frame g r s s1"
    using 1 "3.prems"(1) end_marker_frame pdcp_frame_refl by blast
  have f2: "pdcp_frame g r s1 s2"
    using 2 pdcp_frame_ok [OF f1] end_marker_frame pdcp_frame_refl by blast
  have "pdcp_frame g r s2 s'"
    using "3.hyps" [OF refl pdcp_frame_ok [OF f2] 3] .
  then show ?case
    using f1 f2 pdcp_frame_trans by blast
qed (simp_all add: pdcp_frame_refl)

text \<open>The state of the layer: well-formed UEs, and one SDAP entity for each UE and session.\<close>

definition api_ok :: "bool \<Rightarrow> pdcp_api \<Rightarrow> bool" where
  "api_ok g s \<longleftrightarrow> manager_typed g (pa_manager s) \<and> distinct (map sdap_key (pa_sdap s))"

lemma sdap_frame_keys: "sdap_frame r l l' \<Longrightarrow> map sdap_key l' = map sdap_key l"
  by (auto simp: sdap_frame_def list_all2_conv_all_nth intro: nth_equalityI)

lemma frame_api_ok: "api_ok g s \<Longrightarrow> pdcp_frame g r s s' \<Longrightarrow> api_ok g s'"
  using sdap_frame_keys by (fastforce simp: api_ok_def pdcp_frame_def)

lemma api_okD: "api_ok g s \<Longrightarrow> manager_typed g (pa_manager s)"
  by (simp add: api_ok_def)

lemma add_srb_ok: "api_ok g s \<Longrightarrow> add_srb g rnti sr ca ia ck ik s = Inr s' \<Longrightarrow> api_ok g s'"
  using add_srb_typed [of g s rnti sr ca ia ck ik s'] by (auto simp: api_ok_def)

lemma new_sdap_ok:
  assumes "api_ok g s" "new_nr_sdap_entity (nr_pdcp_submit_sdap_ctrl_pdu C node) (pa_sdap s) h r ps dflt drb qfis n s =
      Inr (l, s')"
  shows "api_ok g (s'\<lparr>pa_sdap := l\<rparr>)"
proof (cases "nr_sdap_get_entity (pa_sdap s) r ps")
  case None
  from new_sdap_entity_fresh [OF None assms(2)] obtain e where
    "l = e # pa_sdap s" "s' = s" "sdap_key e = (u16 r, ps)"
    by metis
  then show ?thesis
    using assms(1) None by (simp add: api_ok_def sdap_get_None)
next
  case (Some i)
  then have "nr_sdap_get_entity (pa_sdap s) (u16 r) ps \<noteq> None"
    using sdap_get_None [of "pa_sdap s" r ps] sdap_get_None [of "pa_sdap s" "u16 r" ps] by simp
  then obtain i where "nr_sdap_get_entity (pa_sdap s) (u16 r) ps = Some i"
    by blast
  then have l: "l = pa_sdap s" and loop: "sdap_ue_config_loop (nr_pdcp_submit_sdap_ctrl_pdu C node) (pa_sdap s ! i)
      (u16 r) (u8 drb) qfis n s = Inr s'"
    using assms(2) by (auto simp: new_nr_sdap_entity_def nr_sdap_ue_qfi2drb_config_def rbind_eq_Inr)
  have "pdcp_frame g (u16 r) s s'"
    using config_loop_frame [OF api_okD [OF assms(1)] loop] .
  then show ?thesis
    using assms(1) l by (simp add: api_ok_def pdcp_frame_def)
qed

lemma add_drb_am_ok:
  assumes "api_ok g s" "add_drb_am C node g rnti d ca ia ck ik s = Inr s'"
  shows "api_ok g s'"
proof -
  obtain p m added where p: "drb_params_of d = Inr p"
    and w: "with_ue (pa_manager s) rnti (add_rb False (da_drb_Identity d)
      (new_drb g (da_drb_Identity d) p ca ia ck ik)) = Inr (m, added)"
    and s': "if added
      then rbind (new_nr_sdap_entity (nr_pdcp_submit_sdap_ctrl_pdu C node) (pa_sdap s) (ds_has_sdap (dp_sdap p)) rnti
        (ds_pdusession_id (dp_sdap p)) (ds_is_default (dp_sdap p)) (da_drb_Identity d) (ds_mappedQFIs2Add (dp_sdap p))
        (ds_mappedQFIs2AddCount (dp_sdap p)) (s\<lparr>pa_manager := m\<rparr>)) (\<lambda>(l, s). Inr (s\<lparr>pa_sdap := l\<rparr>)) = Inr s'
      else s' = s\<lparr>pa_manager := m\<rparr>"
    using assms(2) by (auto simp: add_drb_am_def Let_def rbind_eq_Inr split: if_splits)
  have "manager_typed g m"
    using add_rb_manager_typed [OF api_okD [OF assms(1)] w] new_rb_ok [where srb_flag = False] drb_params_sn [OF p]
    by (simp add: new_drb_def)
  then have ok: "api_ok g (s\<lparr>pa_manager := m\<rparr>)"
    using assms(1) by (simp add: api_ok_def)
  show ?thesis
  proof (cases added)
    case True
    then obtain l s1 where "new_nr_sdap_entity (nr_pdcp_submit_sdap_ctrl_pdu C node) (pa_sdap (s\<lparr>pa_manager := m\<rparr>))
        (ds_has_sdap (dp_sdap p)) rnti (ds_pdusession_id (dp_sdap p)) (ds_is_default (dp_sdap p)) (da_drb_Identity d)
        (ds_mappedQFIs2Add (dp_sdap p)) (ds_mappedQFIs2AddCount (dp_sdap p)) (s\<lparr>pa_manager := m\<rparr>) = Inr (l, s1)"
      "s' = s1\<lparr>pa_sdap := l\<rparr>"
      using s' by (auto simp: rbind_eq_Inr)
    then show ?thesis
      using new_sdap_ok [OF ok] by blast
  qed (use s' ok in simp)
qed

lemma add_srbs_ok: "api_ok g s \<Longrightarrow> add_srbs g rnti l ca ia ck ik s = Inr s' \<Longrightarrow> api_ok g s'"
  by (induction g rnti l ca ia ck ik s rule: add_srbs.induct) (auto simp: rbind_eq_Inr dest: add_srb_ok)

lemma add_drb_ok:
  assumes "api_ok g s" "add_drb C node g rnti d rlc ca ia ck ik s = Inr s'"
  shows "api_ok g s'"
proof -
  obtain r where r: "rlc = Some r"
    using assms(2) by (cases rlc) (auto simp: add_drb_def deref_def)
  then show ?thesis
    using assms add_drb_am_ok [OF assms(1)] by (cases r) (auto simp: add_drb_def deref_def)
qed

lemma add_drbs_ok: "api_ok g s \<Longrightarrow> add_drbs C node g rnti l bs ca ia ck ik s = Inr s' \<Longrightarrow> api_ok g s'"
  by (induction C node g rnti l bs ca ia ck ik s rule: add_drbs.induct)
     (auto simp: rbind_eq_Inr dest: add_drb_ok)

lemma config_ok:
  assumes "api_ok (cx_enb_flag ctxt) s"
    "nr_rrc_pdcp_config_asn1_req C node ctxt srbs drbs sec keys pmch bs s = Inr s'"
  shows "api_ok (cx_enb_flag ctxt) s'"
proof -
  define ca ia where "ca = uint (sec AND 0x0F)" and "ia = uint (drop_bit 4 sec AND 0x0F)"
  obtain s1 where
    1: "(case srbs of None \<Rightarrow> Inr s | Some l \<Rightarrow>
      add_srbs (cx_enb_flag ctxt) (cx_rnti ctxt) l ca ia (k_RRCenc keys) (k_RRCint keys) s) = Inr s1"
    and 2: "(case drbs of None \<Rightarrow> Inr s1 | Some [] \<Rightarrow> Inr s1 | Some l \<Rightarrow> rbind (deref bs) (\<lambda>bs.
      add_drbs C node (cx_enb_flag ctxt) (cx_rnti ctxt) l bs ca ia (k_UPenc keys) (k_UPint keys) s1)) = Inr s'"
    using assms(2) unfolding nr_rrc_pdcp_config_asn1_req_def Let_def ca_def [symmetric] ia_def [symmetric]
    by (auto simp: rbind_eq_Inr split: if_splits)
  have "api_ok (cx_enb_flag ctxt) s1"
    using 1 assms(1) by (cases srbs) (auto dest: add_srbs_ok)
  then show ?thesis
    using 2 by (cases drbs; cases "the drbs") (auto simp: rbind_eq_Inr dest: add_drbs_ok)
qed

section \<open>Time, security, removal\<close>

lemma manager_ue_table:
  assumes "manager_ok m" "manager_ue m i = Some u"
  shows "manager_table m (ue_rnti u) = Some u"
proof -
  have "u \<in> set (mg_list m)"
    using assms(2) by (auto simp: manager_ue_def split: if_splits)
  then show ?thesis
    using assms(1) by (auto simp: manager_table_def manager_ok_def comp_def)
qed

lemma timer_set_time_ok:
  assumes "api_ok g s" "timer_set_time C node t (i, srb_flag, j) s = Inr s'" "j < (if srb_flag then 2 else 5)"
  shows "api_ok g s'"
proof -
  obtain u where u: "manager_ue (pa_manager s) i = Some u"
    using assms(2) by (auto simp: timer_set_time_def split: option.splits)
  have mt: "manager_typed g (pa_manager s)" "ue_typed g u"
    using assms(1) manager_ue_table [OF _ u] by (auto simp: api_ok_def manager_typed_def manager_all_def ue_typed_def)
  show ?thesis
  proof (cases "ue_rbs srb_flag u ! j")
    case None
    then show ?thesis
      using assms u by (simp add: timer_set_time_def)
  next
    case (Some rb)
    let ?rb = "nr_pdcp_entity_set_time rb t"
    let ?u = "ue_set_rb srb_flag u j (?rb\<lparr>pd_out := []\<rparr>)"
    let ?m = "manager_set_ue (pa_manager s) i ?u"
    have "rb_ok g srb_flag j rb"
      using mt(2) Some assms(3) by (auto simp: ue_typed_def ue_all_def ue_ok_def ue_rbs_def split: if_splits)
    then have "ue_typed g ?u"
      using ue_set_rb_typed [OF mt(2) set_time_keeps assms(3)] by blast
    then have "manager_typed g ?m"
      using manager_assign_law [OF _ u, of ?u] mt(1) by (auto simp: manager_typed_def manager_all_def ue_typed_def)
    then have "api_ok g (s\<lparr>pa_manager := ?m\<rparr>)"
      using assms(1) by (simp add: api_ok_def)
    moreover have "pdcp_callbacks C node ?rb srb_flag (ue_rnti u) (int j + 1) (pd_out ?rb) (s\<lparr>pa_manager := ?m\<rparr>) = Inr s'"
      using assms(2) u Some by (simp add: timer_set_time_def Let_def)
    ultimately show ?thesis
      using frame_api_ok pdcp_callbacks_frame [OF api_okD] by blast
  qed
qed

lemma timer_loop_ok:
  "api_ok g s \<Longrightarrow> timer_loop C node t l s = Inr s' \<Longrightarrow> \<forall>(i, srb_flag, j) \<in> set l. j < (if srb_flag then 2 else 5) \<Longrightarrow>
   api_ok g s'"
  by (induction C node t l s rule: timer_loop.induct)
     (auto simp: rbind_eq_Inr split: if_splits dest: timer_set_time_ok)

lemma timer_thread_ok:
  assumes "api_ok g s" "nr_pdcp_timer_thread C node s = Inr s'"
  shows "api_ok g s'"
  using assms(2) unfolding nr_pdcp_timer_thread_def
  by (rule timer_loop_ok [OF assms(1)]) (auto simp: timer_places_def)

lemma set_security_static:
  assumes "nr_pdcp_entity_set_security e ia ik ca ck = Inr e'"
  shows "pd_type e' = pd_type e" "pd_rb_id e' = pd_rb_id e" "pd_is_gnb e' = pd_is_gnb e" "pd_out e' = pd_out e"
    "pd_rx_list e' = pd_rx_list e"
  using assms
  by (auto simp: nr_pdcp_entity_set_security_def Let_def rbind_eq_Inr split: if_splits option.splits)

lemma security_ok:
  assumes "api_ok g s" "pdcp_config_set_security ctxt rb_id sec ck ik s = Inr s'"
  shows "api_ok g s'"
proof -
  let ?f = "\<lambda>ue. if \<not> (rb_id \<ge> 1 \<and> rb_id \<le> 2) then Inl Exit_fatal
    else case ue_srb ue ! nat (rb_id - 1) of
      None \<Rightarrow> Inr (ue, ())
    | Some rb \<Rightarrow> rbind (nr_pdcp_entity_set_security rb (uint (drop_bit 4 sec AND 0x0F)) ik (uint (sec AND 0x0F)) ck)
        (\<lambda>rb'. Inr (ue_set_rb True ue (nat (rb_id - 1)) rb', ()))"
  obtain m where w: "with_ue (pa_manager s) (cx_rnti ctxt) ?f = Inr (m, ())" and s': "s' = s\<lparr>pa_manager := m\<rparr>"
    using assms(2) by (auto simp: pdcp_config_set_security_def rbind_eq_Inr)
  have keeps: "keeps_rnti ?f"
    by (auto simp: keeps_rnti_def rbind_eq_Inr split: if_splits option.splits)
  have "manager_typed g m"
  proof (rule with_ue_typed [OF api_okD [OF assms(1)] keeps w])
    fix u u' a assume u: "ue_typed g u" and f: "?f u = Inr (u', a)"
    show "ue_typed g u'"
    proof (cases "ue_srb u ! nat (rb_id - 1)")
      case None
      then show ?thesis
        using u f by (simp split: if_splits)
    next
      case (Some rb)
      then obtain rb' where sec: "nr_pdcp_entity_set_security rb (uint (drop_bit 4 sec AND 0x0F)) ik (uint (sec AND 0x0F)) ck = Inr rb'"
        and u': "u' = ue_set_rb True u (nat (rb_id - 1)) rb'" and r: "1 \<le> rb_id" "rb_id \<le> 2"
        using f by (auto simp: rbind_eq_Inr split: if_splits)
      have "rb_ok g True (nat (rb_id - 1)) rb"
        using ue_typed_rb [OF u, of True rb_id] Some r by (simp add: rb_slot_Some ue_rbs_def)
      then have "rb_ok g True (nat (rb_id - 1)) rb'"
        using set_security_ok [OF sec] set_security_static [OF sec] by (simp add: rb_ok_def pdcp_data_ok_def)
      then show ?thesis
        using ue_set_rb_typed [OF u] u' r by simp
    qed
  qed
  then show ?thesis
    using assms(1) by (simp add: api_ok_def s')
qed

lemma remove_ok:
  assumes "api_ok g s" "pdcp_remove_UE ctxt s = Inr s'"
  shows "api_ok g s'"
proof -
  obtain m where m: "manager_remove_ue nr_pdcp_entity_delete (pa_manager s) (cx_rnti ctxt) = Inr m"
    "s' = s\<lparr>pa_manager := m\<rparr>"
    using assms(2) by (auto simp: pdcp_remove_UE_def rbind_eq_Inr)
  then have "manager_typed g m"
    using manager_remove_law [OF _ m(1)] assms(1) by (auto simp: api_ok_def manager_typed_def manager_all_def ue_typed_def)
  then show ?thesis
    using assms(1) m(2) by (simp add: api_ok_def)
qed

section \<open>All uses of the interface\<close>

text \<open>
  The states of the layer in a node, a gNB or a UE: initialised, and then used by the other layers and its
  own threads in any order. The thread of the RLC queue takes its items away.
\<close>

inductive api_reach :: "crypto \<Rightarrow> node \<Rightarrow> bool \<Rightarrow> pdcp_api \<Rightarrow> bool" for C node gnb where
  reach_init: "api_reach C node gnb pdcp_layer_init"
| reach_config: "api_reach C node gnb s \<Longrightarrow> cx_enb_flag ctxt = gnb \<Longrightarrow>
    nr_rrc_pdcp_config_asn1_req C node ctxt srbs drbs sec keys pmch bs s = Inr s' \<Longrightarrow> api_reach C node gnb s'"
| reach_req: "api_reach C node gnb s \<Longrightarrow>
    pdcp_data_req C node s ctxt srb_flag rb_id mui confirm sdu = Inr (b, s') \<Longrightarrow> api_reach C node gnb s'"
| reach_sdap_req: "api_reach C node gnb s \<Longrightarrow>
    sdap_data_req C node s ctxt srb_flag rb_id mui confirm sd qfi rqi ps = Inr (b, s') \<Longrightarrow> api_reach C node gnb s'"
| reach_queue: "api_reach C node gnb s \<Longrightarrow>
    pdcp_data_ind ctxt srb_flag mbms rb_id sdu s = (b, s') \<Longrightarrow> api_reach C node gnb s'"
| reach_ind: "api_reach C node gnb s \<Longrightarrow> pdcp_data_ind_thread C node s = Inr s' \<Longrightarrow> api_reach C node gnb s'"
| reach_time: "api_reach C node gnb s \<Longrightarrow> nr_pdcp_timer_thread C node s = Inr s' \<Longrightarrow> api_reach C node gnb s'"
| reach_tick: "api_reach C node gnb s \<Longrightarrow> api_reach C node gnb (nr_pdcp_tick frame subframe s)"
| reach_security: "api_reach C node gnb s \<Longrightarrow>
    pdcp_config_set_security ctxt rb_id sec ck ik s = Inr s' \<Longrightarrow> api_reach C node gnb s'"
| reach_remove: "api_reach C node gnb s \<Longrightarrow> pdcp_remove_UE ctxt s = Inr s' \<Longrightarrow> api_reach C node gnb s'"
| reach_rlc: "api_reach C node gnb s \<Longrightarrow> pa_rlc_queue s = x # q \<Longrightarrow> api_reach C node gnb (s\<lparr>pa_rlc_queue := q\<rparr>)"

lemma api_ok_other:
  "api_ok g s \<Longrightarrow> pa_manager s' = pa_manager s \<Longrightarrow> pa_sdap s' = pa_sdap s \<Longrightarrow> api_ok g s'"
  by (simp add: api_ok_def)

lemma ind_thread_ok:
  assumes "crypto_ok C" "api_ok g s" "pdcp_data_ind_thread C node s = Inr s'"
  shows "api_ok g s'"
proof (cases "pa_ind_queue s")
  case Nil
  then show ?thesis
    using assms by (simp add: pdcp_data_ind_thread_def)
next
  case (Cons x q)
  have "api_ok g (s\<lparr>pa_ind_queue := q\<rparr>)"
    using assms(2) by (simp add: api_ok_def)
  then show ?thesis
    using assms(3) Cons do_pdcp_data_ind_frame [OF assms(1) api_okD] frame_api_ok
    by (simp add: pdcp_data_ind_thread_def) blast
qed

lemma api_reach_ok:
  assumes "crypto_ok C" "api_reach C node gnb s"
  shows "api_ok gnb s"
  using assms(2)
proof (induction rule: api_reach.induct)
  case reach_init
  then show ?case
    by (simp add: api_ok_def pdcp_layer_init_def manager_typed_def manager_all_def ue_typed_def manager_ok_def manager_table_def new_ue_manager_def)
next
  case (reach_config s ctxt srbs drbs sec keys pmch bs s')
  then show ?case
    using config_ok [of ctxt s] by blast
next
  case (reach_req s ctxt srb_flag rb_id mui confirm sdu b s')
  then show ?case
    using pdcp_data_req_frame [OF api_okD] frame_api_ok by blast
next
  case (reach_sdap_req s ctxt srb_flag rb_id mui confirm sd qfi rqi ps b s')
  then show ?case
    using sdap_data_req_frame [OF api_okD] frame_api_ok by blast
next
  case (reach_queue s ctxt srb_flag mbms rb_id sdu b s')
  then show ?case
    by (auto simp: pdcp_data_ind_def intro: api_ok_other)
next
  case (reach_ind s s')
  then show ?case
    using ind_thread_ok [OF assms(1)] by blast
next
  case (reach_time s s')
  then show ?case
    using timer_thread_ok by blast
next
  case (reach_tick s frame subframe)
  then show ?case
    by (auto simp: nr_pdcp_tick_def nr_pdcp_wakeup_timer_thread_def Let_def intro: api_ok_other)
next
  case (reach_security s ctxt rb_id sec ck ik s')
  then show ?case
    using security_ok by blast
next
  case (reach_remove s ctxt s')
  then show ?case
    using remove_ok by blast
next
  case (reach_rlc s x q)
  then show ?case
    by (auto intro: api_ok_other)
qed

section \<open>Reception at a gNB\<close>

lemma sdap_data_ind_gnb:
  "buf \<noteq> [] \<Longrightarrow> \<exists>s'. sdap_data_ind C node b True h h' ps r buf s = Inr s'"
  by (cases buf) (auto simp: sdap_data_ind_def nr_sdap_rx_entity_def split: option.splits)

lemma callbacks_gnb:
  "ups_ok evs \<Longrightarrow> pd_is_gnb e \<Longrightarrow> \<exists>s'. pdcp_callbacks C node e srb_flag r rb_id evs s = Inr s'"
proof (induction evs arbitrary: s)
  case (Cons ev evs)
  then obtain b where b: "ev = Pdcp_sdu b" "b \<noteq> []" "ups_ok evs"
    by (auto simp: ups_ok_def)
  have "\<exists>s1. deliver_sdu_drb C node e r rb_id b s = Inr s1"
    using sdap_data_ind_gnb [OF b(2)] Cons.prems(2) by (simp add: deliver_sdu_drb_def)
  then obtain s1 where "(if srb_flag then Inr (deliver_sdu_srb e r rb_id b s)
      else deliver_sdu_drb C node e r rb_id b s) = Inr s1"
    by (cases srb_flag) auto
  then show ?case
    using Cons.IH [OF b(3) Cons.prems(2)] b(1) by simp
qed simp

lemma on_slot_recv:
  assumes "crypto_ok C" "ue_typed True u" "length sdu \<noteq> 1" "length sdu \<noteq> 2"
  shows "\<exists>u' x. on_slot (\<lambda>rb. nr_pdcp_entity_recv_pdu C rb sdu) srb_flag (rb_slot srb_flag rb_id) u = Inr (u', x) \<and>
    (\<forall>rb evs. x = Some (rb, evs) \<longrightarrow> pd_is_gnb rb \<and> ups_ok evs)"
proof (cases "rb_slot srb_flag rb_id")
  case None
  then show ?thesis
    by (simp add: on_slot_def)
next
  case slot: (Some i)
  show ?thesis
  proof (cases "ue_rbs srb_flag u ! i")
    case None
    then show ?thesis
      using slot by (simp add: on_slot_def)
  next
    case (Some rb)
    have ok: "rb_ok True srb_flag i rb"
      using ue_typed_rb [OF assms(2) slot Some] .
    then have "pdcp_config_ok rb" "pdcp_list_ok rb" "pdcp_data_ok rb" "ups_ok (pd_out rb)"
      by (auto simp: rb_ok_def ups_ok_def)
    note ok' = this
    have "pdcp_header_size rb \<le> 3"
      by (simp add: pdcp_header_size_def)
    then have "\<not> (0 < length sdu \<and> length sdu < pdcp_header_size rb)"
      using assms(3,4) by linarith
    then obtain rb' where r: "nr_pdcp_entity_recv_pdu C rb sdu = Inr rb'" "pdcp_static rb' = pdcp_static rb"
      using pdcp_recv_pdu_any [OF ok'(1,2), of C sdu] by blast
    have "pd_is_gnb rb' = pd_is_gnb rb"
      using r(2) unfolding pdcp_static_def by (cases rb; cases rb'; simp)
    moreover have "ups_ok (pd_out rb')"
      using recv_pdu_data(2) [OF assms(1) ok'(3,4) r(1)] .
    ultimately show ?thesis
      using slot Some r ok by (simp add: on_slot_def rb_ok_def)
  qed
qed

section \<open>A node with one UE\<close>

text \<open>A configuration: the default bearer of a session, with SDAP headers, ciphered, for one QoS flow.\<close>

definition sample_drb :: drb_to_add where
  "sample_drb =
     \<lparr>da_drb_Identity = 1,
      da_pdcp_Config = Some
        \<lparr>pc_drb = Some \<lparr>dc_SN_SizeUL = Some 1, dc_SN_SizeDL = Some 1, dc_discardTimer = Some 15,
                        dc_integrityProtection = False\<rparr>,
         pc_t_Reordering = Some 0, pc_cipheringDisabled = False\<rparr>,
      da_cnAssociation = Some (CN_sdap_Config (Some
        \<lparr>sc_pdu_Session = 10, sc_HeaderUL_present = True, sc_HeaderDL_present = True, sc_defaultDRB = True,
         sc_mappedQoS_FlowsToAdd = Some [7]\<rparr>))\<rparr>"

definition sample_bearer :: rlc_bearer_config where
  "sample_bearer =
     \<lparr>bc_logicalChannelIdentity = 4, bc_servedRadioBearer = Some (Served_drb 1),
      bc_rlc_Config = Some (RLC_um_Bi_Directional
        \<lparr>rcu_t_Reassembly = 3, rcu_dl_sn_FieldLength = Some 1, rcu_ul_sn_FieldLength = Some 1\<rparr>),
      bc_logicalChannelGroup = Some 1\<rparr>"

definition sample_node :: node where
  "sample_node = \<lparr>nd_is_cu = False, nd_is_du = False, nd_tun = False\<rparr>"

definition sample_ctxt :: "bool \<Rightarrow> int \<Rightarrow> protocol_ctxt" where
  "sample_ctxt gnb rnti = ctxt_zero\<lparr>cx_enb_flag := gnb, cx_rnti := rnti\<rparr>"

definition sample_keys :: pdcp_keys where
  "sample_keys = \<lparr>k_RRCenc = Some [1, 2], k_RRCint = Some [3, 4], k_UPenc = Some [5, 6], k_UPint = None\<rparr>"

definition sample_setup :: "crypto \<Rightarrow> bool \<Rightarrow> int \<Rightarrow> pdcp_api \<Rightarrow> pdcp_api res" where
  "sample_setup C gnb rnti =
     nr_rrc_pdcp_config_asn1_req C sample_node (sample_ctxt gnb rnti)
       (Some [\<lparr>sa_srb_Identity = 1, sa_pdcp_Config = None\<rparr>]) (Some [sample_drb]) 0x22 sample_keys False
       (Some [sample_bearer])"

lemma sample_setup_reach:
  "api_reach C sample_node gnb s \<Longrightarrow> sample_setup C gnb rnti s = Inr s' \<Longrightarrow> api_reach C sample_node gnb s'"
  unfolding sample_setup_def by (erule reach_config [rotated 2]) (simp_all add: sample_ctxt_def)

lemma sample_ctxt_good: "\<not> ctxt_bad (sample_ctxt gnb rnti)" "\<not> cx_brOption (sample_ctxt gnb rnti)"
  by (simp_all add: sample_ctxt_def ctxt_bad_def ctxt_zero_def)

section \<open>Properties\<close>

text \<open>
  C21: However the layer is used, its tables are well formed: at most one UE for each RNTI, each with three
  SRB and five DRB slots of which the third SRB slot stays empty; every entity is in the slot of its own
  bearer identity and of its own type, on the side of the node, with valid parameters and a reordering
  buffer in order; and there is one SDAP entity at most for each UE and session.
\<close>

theorem pdcp_node_well_formed:
  assumes "crypto_ok C" "api_reach C node gnb s"
  shows "distinct (map ue_rnti (mg_list (pa_manager s))) \<and> distinct (map sdap_key (pa_sdap s)) \<and>
    (\<forall>ue \<in> set (mg_list (pa_manager s)). ue_typed gnb ue)"
proof -
  have ok: "manager_typed gnb (pa_manager s)" "distinct (map sdap_key (pa_sdap s))"
    using api_reach_ok [OF assms] by (auto simp: api_ok_def)
  have "ue_typed gnb u" if u: "u \<in> set (mg_list (pa_manager s))" for u
  proof -
    obtain i where "i < length (mg_list (pa_manager s))" "mg_list (pa_manager s) ! i = u"
      using u by (auto simp: in_set_conv_nth)
    then have "manager_ue (pa_manager s) i = Some u"
      by (simp add: manager_ue_def)
    then show ?thesis
      using manager_ue_table ok(1) unfolding manager_typed_def manager_all_def ue_typed_def by blast
  qed
  then show ?thesis
    using ok by (auto simp: manager_typed_def manager_all_def ue_typed_def manager_ok_def)
qed

theorem pdcp_node_well_formed_witness:
  "\<exists>s. sample_setup xor_crypto True 17 pdcp_layer_init = Inr s \<and> length (mg_list (pa_manager s)) = 1 \<and>
     (\<forall>ue \<in> set (mg_list (pa_manager s)). ue_typed True ue)"
proof -
  have "(case sample_setup xor_crypto True 17 pdcp_layer_init of Inl _ \<Rightarrow> False
      | Inr s \<Rightarrow> length (mg_list (pa_manager s)) = 1)"
    by code_simp
  then obtain s where s: "sample_setup xor_crypto True 17 pdcp_layer_init = Inr s" "length (mg_list (pa_manager s)) = 1"
    by (auto split: sum.splits)
  show ?thesis
    using pdcp_node_well_formed [OF xor_crypto_ok sample_setup_reach [OF reach_init s(1)]] s by blast
qed

text \<open>
  C22: UEs do not affect each other. Whatever arrives from RLC for a UE, and whatever a user of the SDAP or
  PDCP layer sends for it, the entities of every other UE and their SDAP entities stay as they are, and
  all that goes to the RLC queue and to other tasks carries the UE's RNTI.
\<close>

theorem pdcp_ue_isolation:
  assumes "crypto_ok C" "api_reach C node gnb s" "u16 r \<noteq> u16 (cx_rnti ctxt)"
    and "do_pdcp_data_ind C node ctxt srb_flag rb_id pdu s = Inr s' \<or>
      pdcp_data_req C node s ctxt srb_flag rb_id mui confirm sdu = Inr (b, s') \<or>
      sdap_data_req C node s ctxt srb_flag rb_id mui confirm sd qfi rqi ps = Inr (b, s')"
  shows "manager_table (pa_manager s') r = manager_table (pa_manager s) r \<and>
    sdap_find (pa_sdap s') r ps' = sdap_find (pa_sdap s) r ps' \<and>
    (\<exists>q. pa_rlc_queue s' = pa_rlc_queue s @ q \<and> (\<forall>x \<in> set q. cx_rnti (rq_ctxt x) = cx_rnti ctxt)) \<and>
    (\<exists>ms. pa_msgs s' = pa_msgs s @ ms \<and> (\<forall>m \<in> set ms. msg_of_ue (cx_rnti ctxt) m))"
proof -
  have "manager_typed gnb (pa_manager s)"
    using api_okD [OF api_reach_ok [OF assms(1,2)]] .
  from assms(4) this have f: "pdcp_frame gnb (cx_rnti ctxt) s s'"
    by (elim disjE) (erule (1) do_pdcp_data_ind_frame [OF assms(1)] pdcp_data_req_frame sdap_data_req_frame)+
  have "sdap_find l' r ps' = sdap_find l r ps'" if "sdap_frame (cx_rnti ctxt) l l'" for l l'
    using that unfolding sdap_frame_def
    by (induction l l' rule: list_all2_induct) (use assms(3) in \<open>auto simp: sdap_key_def\<close>)
  moreover have "r \<noteq> cx_rnti ctxt"
    using assms(3) by blast
  ultimately show ?thesis
    using f by (auto simp: pdcp_frame_def)
qed

theorem pdcp_ue_isolation_witness:
  "\<exists>s s'. rbind (sample_setup xor_crypto True 17 pdcp_layer_init) (sample_setup xor_crypto True 18) = Inr s \<and>
     sdap_data_req xor_crypto sample_node s (sample_ctxt True 17) False 1 0 0 (Some [9, 9]) 7 False 10 = Inr (True, s') \<and>
     manager_table (pa_manager s') 18 = manager_table (pa_manager s) 18 \<and> length (pa_rlc_queue s') = 1 \<and>
     (\<forall>x \<in> set (pa_rlc_queue s'). cx_rnti (rq_ctxt x) = 17)"
proof -
  have "(case sample_setup xor_crypto True 17 pdcp_layer_init of Inl _ \<Rightarrow> False
      | Inr s1 \<Rightarrow> (case sample_setup xor_crypto True 18 s1 of Inl _ \<Rightarrow> False
      | Inr s \<Rightarrow> (case sdap_data_req xor_crypto sample_node s (sample_ctxt True 17) False 1 0 0 (Some [9, 9]) 7 False 10 of
          Inl _ \<Rightarrow> False
        | Inr (b, s') \<Rightarrow> b \<and> length (pa_rlc_queue s) = 0 \<and> length (pa_rlc_queue s') = 1)))"
    by code_simp
  then obtain s1 s s' where s: "sample_setup xor_crypto True 17 pdcp_layer_init = Inr s1"
    "sample_setup xor_crypto True 18 s1 = Inr s"
    "sdap_data_req xor_crypto sample_node s (sample_ctxt True 17) False 1 0 0 (Some [9, 9]) 7 False 10 = Inr (True, s')"
    "pa_rlc_queue s = []" "length (pa_rlc_queue s') = 1"
    by (auto split: sum.splits)
  have r: "api_reach xor_crypto sample_node True s"
    using sample_setup_reach [OF sample_setup_reach [OF reach_init s(1)] s(2)] .
  have "u16 18 \<noteq> u16 (cx_rnti (sample_ctxt True 17))" "cx_rnti (sample_ctxt True 17) = 17"
    by (simp_all add: u16_def sample_ctxt_def)
  then show ?thesis
    using pdcp_ue_isolation [OF xor_crypto_ok r _ disjI2 [OF disjI2 [OF s(3)]], of 18] s(1,2,3,4,5)
    by (auto simp: rbind_def)
qed



end
