(* ===== verification/L2_Stack.thy ===== *)
theory L2_Stack
  imports NR_PDCP_Node NR_RLC_Node
begin

text \<open>
  The layers together: a node with its SDAP, PDCP and RLC layers and the two queues between them, and a gNB
  and a UE connected by MAC. The bearer is the one \<^verbatim>\<open>nr_DRB_preconfiguration\<close> sets up for operation without
  a core network: DRB 1 in unacknowledged mode, fed from the tun interface of the gNB.
\<close>

section \<open>A node\<close>

record l2_node =
  l2_pdcp :: pdcp_api
  l2_rlc :: rlc_api

text \<open>The calls of \<^verbatim>\<open>pdcp_data_ind\<close> that RLC has made.\<close>

definition l2_indicate :: "pdcp_data_ind_queue_item \<Rightarrow> pdcp_api \<Rightarrow> pdcp_api" where
  "l2_indicate x s = snd (pdcp_data_ind (pq_ctxt x) (pq_srb_flag x) (pq_MBMS_flag x) (pq_rb_id x) (pq_sdu x) s)"

definition l2_forward :: "rlc_api \<Rightarrow> l2_node \<Rightarrow> l2_node" where
  "l2_forward rlc n =
     n\<lparr>l2_pdcp := fold l2_indicate (ra_pdcp_ind rlc) (l2_pdcp n), l2_rlc := rlc\<lparr>ra_pdcp_ind := []\<rparr>\<rparr>"

text \<open>One round of the thread that takes a PDU from the queue of PDCP to RLC.\<close>

definition rlc_data_req_thread :: "node \<Rightarrow> l2_node \<Rightarrow> l2_node res" where
  "rlc_data_req_thread node n =
     (case pa_rlc_queue (l2_pdcp n) of
        [] \<Rightarrow> Inr n
      | x # q \<Rightarrow>
          rbind (rlc_data_req node (rq_ctxt x) (rq_srb_flag x) (rq_rb_id x) (rq_mui x) (rq_sdu x) (l2_rlc n)) (\<lambda>rlc.
            Inr (l2_forward rlc (n\<lparr>l2_pdcp := (l2_pdcp n)\<lparr>pa_rlc_queue := q\<rparr>\<rparr>))))"

text \<open>The functions of the two layers, in the node.\<close>

definition l2_on_pdcp :: "(pdcp_api \<Rightarrow> pdcp_api res) \<Rightarrow> l2_node \<Rightarrow> l2_node res" where
  "l2_on_pdcp f n = rbind (f (l2_pdcp n)) (\<lambda>s. Inr (n\<lparr>l2_pdcp := s\<rparr>))"

definition l2_data_ind :: "node \<Rightarrow> int \<Rightarrow> int \<Rightarrow> byte list \<Rightarrow> l2_node \<Rightarrow> l2_node res" where
  "l2_data_ind node rnti channel buffer n =
     rbind (mac_rlc_data_ind node 0 rnti 0 False channel buffer (l2_rlc n)) (\<lambda>rlc. Inr (l2_forward rlc n))"

definition l2_data_req :: "node \<Rightarrow> int \<Rightarrow> int \<Rightarrow> byte list \<Rightarrow> l2_node \<Rightarrow> (int \<times> byte list \<times> l2_node) res" where
  "l2_data_req node rnti channel buffer n =
     rbind (mac_rlc_data_req node rnti channel buffer (l2_rlc n)) (\<lambda>(ret, buffer, rlc).
       Inr (ret, buffer, l2_forward rlc n))"

definition l2_tick :: "int \<Rightarrow> int \<Rightarrow> l2_node \<Rightarrow> l2_node" where
  "l2_tick frame subframe n =
     n\<lparr>l2_pdcp := nr_pdcp_tick frame subframe (l2_pdcp n), l2_rlc := nr_rlc_tick frame subframe (l2_rlc n)\<rparr>"

section \<open>The default bearer\<close>

text \<open>
  The enumeration values are the positions in the ASN.1 types: no discard timer, 18 bits, no reordering
  time. The keys are null pointers and the security mode is 0.
\<close>

definition preconf_drb :: drb_to_add where
  "preconf_drb =
     \<lparr>da_drb_Identity = 1,
      da_pdcp_Config = Some \<lparr>pc_drb = Some \<lparr>dc_SN_SizeUL = Some 1, dc_SN_SizeDL = Some 1, dc_discardTimer = Some 15,
          dc_integrityProtection = False\<rparr>, pc_t_Reordering = Some 0, pc_cipheringDisabled = False\<rparr>,
      da_cnAssociation = Some (CN_eps_BearerIdentity 10)\<rparr>"

definition nr_DRB_preconfiguration :: "crypto \<Rightarrow> node \<Rightarrow> bool \<Rightarrow> int \<Rightarrow> int \<Rightarrow> l2_node \<Rightarrow> l2_node res" where
  "nr_DRB_preconfiguration C node ENB_NAS_USE_TUN NB_eNB_INST crnti n =
     (let b = nr_rlc_bearer_init True in
      rbind (nr_drb_config PR_um_Bi_Directional) (\<lambda>r.
      let b = nr_rlc_bearer_init_ul_spec (b\<lparr>bc_rlc_Config := Some r\<rparr>);
          ctxt = ctxt_zero\<lparr>cx_enb_flag := ENB_NAS_USE_TUN, cx_instance := compute_instance NB_eNB_INST 0 ENB_NAS_USE_TUN,
                           cx_rnti := crnti\<rparr>
      in rbind (nr_rrc_pdcp_config_asn1_req C node ctxt None (Some [preconf_drb]) 0
                  \<lparr>k_RRCenc = None, k_RRCint = None, k_UPenc = None, k_UPint = None\<rparr> False (Some [b]) (l2_pdcp n)) (\<lambda>pdcp.
         rbind (nr_rrc_rlc_config_asn1_req ctxt None (Some [preconf_drb]) False (Some [b]) (l2_rlc n)) (\<lambda>rlc.
           Inr (n\<lparr>l2_pdcp := pdcp, l2_rlc := rlc\<rparr>)))))"

text \<open>A node that has been started with the default bearer.\<close>

definition l2_start :: "crypto \<Rightarrow> node \<Rightarrow> bool \<Rightarrow> int \<Rightarrow> l2_node res" where
  "l2_start C node gnb crnti =
     rbind (rlc_module_init (if gnb then 1 else 0) rlc_start) (\<lambda>rlc.
       nr_DRB_preconfiguration C node gnb 0 crnti \<lparr>l2_pdcp = pdcp_layer_init, l2_rlc = rlc\<rparr>)"

section \<open>One UE with one bearer\<close>

definition drb1_ue :: "int \<Rightarrow> 'e \<Rightarrow> 'e ue" where
  "drb1_ue r e = \<lparr>ue_rnti = r, ue_srb = replicate 3 None, ue_drb = [Some e, None, None, None, None]\<rparr>"

definition one_ue :: "bool \<Rightarrow> int \<Rightarrow> 'e \<Rightarrow> 'e ue_manager" where
  "one_ue f r e = \<lparr>mg_list = [drb1_ue r e], mg_enb_flag = f\<rparr>"

lemma with_ue_one:
  "with_ue (one_ue f r e) r g = rbind (g (drb1_ue r e)) (\<lambda>(u, a). Inr (\<lparr>mg_list = [u], mg_enb_flag = f\<rparr>, a))"
  by (simp add: with_ue_def one_ue_def manager_get_ue_def manager_ue_def manager_set_ue_def drb1_ue_def)

lemma pdcp_on_rb_one:
  assumes "pa_manager s = one_ue f r e"
  shows "pdcp_on_rb g False 1 r s =
    rbind (g e) (\<lambda>e'. Inr (s\<lparr>pa_manager := one_ue f r (e'\<lparr>pd_out := []\<rparr>)\<rparr>, Some (e', pd_out e')))"
  unfolding pdcp_on_rb_def assms with_ue_one
  by (cases "g e") (simp_all add: on_slot_def rb_slot_def ue_rbs_def ue_set_rb_def drb1_ue_def one_ue_def)

lemma rlc_on_rb_one:
  assumes "ra_manager s = one_ue f r e" "\<not> (f \<and> (nd_is_cu node \<or> nd_is_du node))"
  shows "rlc_on_rb node g r (Some (False, 0)) s =
    rbind (g e) (\<lambda>(e', a). Inr (s\<lparr>ra_manager := one_ue f r (rlc_clear_out e'), ra_pdcp_ind := ra_pdcp_ind s @
      map (rlc_item f r False 0) (delivered (rlc_out e'))\<rparr>, Some a))"
  using assms(2) unfolding rlc_on_rb_def nr_rlc_manager_get_ue_def assms(1) with_ue_one rlc_callbacks_eq
  by (cases "g e") (auto simp: rlc_on_slot_def ue_rbs_def ue_set_rb_def drb1_ue_def one_ue_def Let_def)

definition preconf_sdap :: "int \<Rightarrow> nr_sdap_entity" where
  "preconf_sdap r = \<lparr>sd_rnti = u16 r, sd_default_drb = 0, sd_pdusession_id = 10,
     sd_qfi2drb_table = replicate SDAP_MAX_QFI \<lparr>qd_drb_id = 0, qd_hasSdap = False\<rparr>\<rparr>"

lemma with_ue_new:
  "with_ue (new_ue_manager f) r g = rbind (g (new_ue r)) (\<lambda>(u, a). Inr (\<lparr>mg_list = [u], mg_enb_flag = f\<rparr>, a))"
  by (simp add: with_ue_def new_ue_manager_def manager_get_ue_def manager_ue_def manager_set_ue_def)

lemma new_ue_drb1: "(new_ue r)\<lparr>ue_drb := (ue_drb (new_ue r))[0 := Some e]\<rparr> = drb1_ue r e"
  by (simp add: new_ue_def drb1_ue_def eval_nat_numeral)

definition preconf_params :: drb_params where
  "preconf_params = \<lparr>dp_sn_size = 18, dp_discard_timer = -1, dp_t_reordering = 0, dp_has_integrity = False,
     dp_has_ciphering = True, dp_sdap = \<lparr>ds_pdusession_id = 10, ds_has_sdap = False, ds_has_sdapULheader = False,
     ds_has_sdapDLheader = False, ds_is_default = False, ds_mappedQFIs2Add = [], ds_mappedQFIs2AddCount = 0\<rparr>\<rparr>"

lemma preconf_params: "drb_params_of preconf_drb = Inr preconf_params"
  by (simp add: drb_params_of_def preconf_drb_def preconf_params_def deref_def decode_sn_size_ul_def
      decode_sn_size_dl_def decode_discard_timer_def decode_t_reordering_def decode_tab_def drb_sdap_of_def)

lemma preconf_pdcp:
  assumes "new_nr_pdcp_entity NR_PDCP_DRB_AM gnb 1 10 False False False 18 0 (-1) 0 0 None None = Inr e"
  shows "add_drb_am C node gnb r preconf_drb 0 0 None None pdcp_layer_init =
    Inr (pdcp_layer_init\<lparr>pa_manager := one_ue True r e, pa_sdap := [preconf_sdap r]\<rparr>)"
proof -
  have new: "new_drb gnb 1 preconf_params 0 0 None None = Inr e"
    using assms by (simp add: new_drb_def preconf_params_def)
  have "add_rb False 1 (new_drb gnb 1 preconf_params 0 0 None None) (new_ue r) = Inr (drb1_ue r e, True)"
    unfolding new new_ue_drb1 [symmetric]
    by (simp add: add_rb_def ue_rb_present_def ue_rbs_def ue_add_drb_entity_def new_ue_def)
  then have w: "with_ue (new_ue_manager True) r (add_rb False 1 (new_drb gnb 1 preconf_params 0 0 None None)) =
      Inr (one_ue True r e, True)"
    by (simp add: with_ue_new one_ue_def)
  show ?thesis
    unfolding add_drb_am_def preconf_params Let_def
    by (simp add: preconf_drb_def pdcp_layer_init_def w new_nr_sdap_entity_def preconf_sdap_def)
      (simp add: preconf_params_def)
qed

lemma preconf_rlc:
  assumes "new_nr_rlc_entity_um 100000000 100000000 15 12 = Inr t" and "ra_manager s = new_ue_manager gnb"
    and "bc_logicalChannelIdentity b = 4" "bc_logicalChannelGroup b = Some 1"
    and "bc_rlc_Config b = Some (RLC_um_Bi_Directional
      \<lparr>rcu_t_Reassembly = 3, rcu_dl_sn_FieldLength = Some 1, rcu_ul_sn_FieldLength = Some 1\<rparr>)"
  shows "rlc_add_drb r preconf_drb b s = Inr (s\<lparr>ra_manager := one_ue gnb r (E_um t)\<rparr>)"
proof -
  have "rlc_add_rb False 1 (Inr (E_um t)) (new_ue r) = Inr (drb1_ue r (E_um t), ())"
    unfolding new_ue_drb1 [symmetric]
    by (simp add: rlc_add_rb_def ue_rb_present_def ue_rbs_def nr_rlc_ue_add_drb_rlc_entity_def ue_add_drb_entity_def new_ue_def)
  then have w: "with_ue (new_ue_manager gnb) r (rlc_add_rb False 1 (Inr (E_um t))) = Inr (one_ue gnb r (E_um t), ())"
    by (simp add: with_ue_new one_ue_def)
  have u: "um_params_of (bc_rlc_Config b) = Inr (15, 12)"
    by (simp add: assms(5) um_params_of_def deref_def decode_t_reassembly_def decode_sn_field_length_um_def decode_tab_def)
  show ?thesis
    unfolding rlc_add_drb_def rlc_add_drb_um_def u
    using assms w by (simp add: preconf_drb_def deref_def nr_rlc_manager_get_ue_def)
qed

lemma l2_start_eq:
  assumes "new_nr_pdcp_entity NR_PDCP_DRB_AM gnb 1 10 False False False 18 0 (-1) 0 0 None None = Inr e"
    and "new_nr_rlc_entity_um 100000000 100000000 15 12 = Inr t"
  shows "l2_start C node gnb r =
    Inr \<lparr>l2_pdcp = pdcp_layer_init\<lparr>pa_manager := one_ue True r e, pa_sdap := [preconf_sdap r]\<rparr>,
         l2_rlc = rlc_start\<lparr>ra_manager := one_ue gnb r (E_um t), ra_inited := gnb, ra_inited_ue := \<not> gnb\<rparr>\<rparr>"
proof -
  have id: "da_drb_Identity preconf_drb = 1"
    by (simp add: preconf_drb_def)
  show ?thesis
    using preconf_pdcp [OF assms(1), of C node r] preconf_rlc [OF assms(2), where gnb = gnb and r = r]
    by (cases gnb) (simp_all add: l2_start_def nr_DRB_preconfiguration_def nr_rrc_pdcp_config_asn1_req_def
        nr_rrc_rlc_config_asn1_req_def nr_rlc_bearer_init_def nr_rlc_bearer_init_ul_spec_def ctxt_bad_def ctxt_zero_def
        add_drb_def deref_def compute_instance_def id rlc_module_init_def rlc_start_def new_nr_rlc_ue_manager_def)
qed

section \<open>A gNB and a UE\<close>

text \<open>
  What can happen: a packet arrives at the tun interface of the gNB, a thread does one round, MAC gives the
  bearer a grant and carries the PDU to the UE, a new subframe begins at one of the nodes, the PDCP timer
  thread of one of the nodes wakes up.
\<close>

datatype l2_event =
    Tun_packet "byte list"
  | Rlc_thread
  | Mac_grant "byte list"
  | Ind_thread
  | Gnb_tick int int
  | Ue_tick int int
  | Gnb_timer
  | Ue_timer

fun l2_step :: "crypto \<Rightarrow> node \<Rightarrow> node \<Rightarrow> int \<Rightarrow> l2_node \<times> l2_node \<Rightarrow> l2_event \<Rightarrow> (l2_node \<times> l2_node) res" where
  "l2_step C gn un r (g, u) (Tun_packet p) =
     rbind (l2_on_pdcp (enb_tun_read_thread C gn p) g) (\<lambda>g. Inr (g, u))"
| "l2_step C gn un r (g, u) Rlc_thread = rbind (rlc_data_req_thread gn g) (\<lambda>g. Inr (g, u))"
| "l2_step C gn un r (g, u) (Mac_grant buffer) =
     rbind (l2_data_req gn r 4 buffer g) (\<lambda>(ret, buffer, g).
       if ret = 0 then Inr (g, u)
       else rbind (l2_data_ind un r 4 (take (nat ret) buffer) u) (\<lambda>u. Inr (g, u)))"
| "l2_step C gn un r (g, u) Ind_thread = rbind (l2_on_pdcp (pdcp_data_ind_thread C un) u) (\<lambda>u. Inr (g, u))"
| "l2_step C gn un r (g, u) (Gnb_tick frame subframe) = Inr (l2_tick frame subframe g, u)"
| "l2_step C gn un r (g, u) (Ue_tick frame subframe) = Inr (g, l2_tick frame subframe u)"
| "l2_step C gn un r (g, u) Gnb_timer = rbind (l2_on_pdcp (nr_pdcp_timer_thread C gn) g) (\<lambda>g. Inr (g, u))"
| "l2_step C gn un r (g, u) Ue_timer = rbind (l2_on_pdcp (nr_pdcp_timer_thread C un) u) (\<lambda>u. Inr (g, u))"

fun l2_run :: "crypto \<Rightarrow> node \<Rightarrow> node \<Rightarrow> int \<Rightarrow> l2_node \<times> l2_node \<Rightarrow> l2_event list \<Rightarrow> (l2_node \<times> l2_node) res" where
  "l2_run C gn un r s [] = Inr s"
| "l2_run C gn un r s (ev # evs) = rbind (l2_step C gn un r s ev) (\<lambda>s. l2_run C gn un r s evs)"

text \<open>The packets that went in, and what is allowed: no empty packet, no packet RLC refuses, no grant of two bytes.\<close>

fun packets :: "l2_event list \<Rightarrow> byte list list" where
  "packets [] = []"
| "packets (Tun_packet p # evs) = p # packets evs"
| "packets (_ # evs) = packets evs"

fun l2_event_ok :: "l2_event \<Rightarrow> bool" where
  "l2_event_ok (Tun_packet p) \<longleftrightarrow> p \<noteq> [] \<and> int (length p) + 3 \<le> NR_SDU_MAX"
| "l2_event_ok (Mac_grant buffer) \<longleftrightarrow> length buffer \<noteq> 2"
| "l2_event_ok _ \<longleftrightarrow> True"

section \<open>The entities at work\<close>

lemma um_set_time_idle:
  "um_t_reassembly_start t = 0 \<Longrightarrow> nr_rlc_entity_um_set_time t now = Inr (t\<lparr>um_t_current := now\<rparr>)"
  by (simp add: nr_rlc_entity_um_set_time_def um_check_t_reassembly_def)

lemma um_recv_sdu_frame:
  "nr_rlc_entity_um_recv_sdu t b i = Inr t' \<Longrightarrow>
   um_out t' = um_out t \<and> um_t_reassembly_start t' = um_t_reassembly_start t"
  by (auto simp: nr_rlc_entity_um_recv_sdu_def Let_def rbind_eq_Inr split: if_splits prod.splits)

lemma um_send_frame:
  "um_send_segment t g b = Inr (n, b', t') \<Longrightarrow>
   um_out t' = um_out t \<and> um_t_reassembly_start t' = um_t_reassembly_start t"
  by (auto simp: um_send_segment_def Let_def rbind_eq_Inr split: if_splits)

lemma um_generate_frame:
  assumes "nr_rlc_entity_um_generate_pdu t b = Inr (n, b', t')"
  shows "um_out t' = um_out t \<and> um_t_reassembly_start t' = um_t_reassembly_start t"
  using assms unfolding nr_rlc_entity_um_generate_pdu_def um_generate_tx_pdu_def
  by (auto simp: Let_def rbind_eq_Inr split: list.splits if_splits option.splits dest!: um_send_frame)

lemma um_current_frame [simp]:
  "um_modulus_rx (t\<lparr>um_t_current := now\<rparr>) = um_modulus_rx t" "um_pdu_size (t\<lparr>um_t_current := now\<rparr>) = um_pdu_size t"
  by (simp_all add: fun_eq_iff um_modulus_rx_def um_pdu_size_def um_compute_pdu_header_size_def Let_def)

lemma um_rx_at_current [simp]: "um_rx_at (r\<lparr>um_t_current := now\<rparr>) n x so = um_rx_at r n x so"
  by (simp add: um_rx_at_def um_config_ok_def um_sn_ok_def um_node_ok_def um_key_def)

lemma um_queue_current [simp]: "um_queue (t\<lparr>um_t_current := now\<rparr>) = um_queue t"
  by (simp add: um_queue_def)

lemma um_tx_inv_current [simp]: "um_tx_inv (t\<lparr>um_t_current := now\<rparr>) = um_tx_inv t"
  by (simp add: um_tx_inv_def um_config_ok_def)

lemma um_link_inv_current [simp]:
  "um_link_inv (t\<lparr>um_t_current := now\<rparr>) r = um_link_inv t r" "um_link_inv t (r\<lparr>um_t_current := now\<rparr>) = um_link_inv t r"
  by (cases "um_queue t"; auto simp: um_link_inv_def)+

lemma um_link_inv_out: "um_link_inv t (r\<lparr>um_out := o'\<rparr>) = um_link_inv t r"
  by (cases "um_queue t") (auto simp: um_link_inv_def um_rx_at_out)

text \<open>One command of MAC or PDCP to a connected pair, with the time set before, as the layer does it.\<close>

definition um_pair :: "nr_rlc_entity_um \<Rightarrow> nr_rlc_entity_um \<Rightarrow> bool" where
  "um_pair t r \<longleftrightarrow> um_link_inv t r \<and> um_out t = [] \<and> um_out r = [] \<and> um_t_reassembly_start t = 0 \<and>
     um_t_reassembly_start r = 0 \<and> um_tx_maxsize t = 100000000"

lemma um_link_reassembly_start: "um_link_inv t r \<Longrightarrow> um_t_reassembly_start r = 0"
  by (auto simp: um_link_inv_def um_rx_at_def split: list.splits)

lemma um_pair_sdu:
  assumes "um_pair t r" "b \<noteq> []" "int (length b) \<le> NR_SDU_MAX" "um_tx_size t + int (length b) \<le> 100000000"
  obtains t' where "rbind (rlc_set_time (E_um t) now) (\<lambda>rb. rbind (rlc_recv_sdu rb b i) (\<lambda>rb. Inr (rb, ()))) = Inr (E_um t', ())"
    "um_pair t' r" "um_out t' = []" "map fst (um_queue t') = map fst (um_queue t) @ [b]"
proof -
  let ?t = "t\<lparr>um_t_current := now\<rparr>"
  have inv: "um_link_inv ?t r" and time: "nr_rlc_entity_um_set_time t now = Inr ?t" and p: "um_tx_maxsize t = 100000000"
    using assms(1) by (simp_all add: um_pair_def um_set_time_idle)
  have "link_cmd_ok (Sdu b i)" "um_tx_size ?t + int (length b) \<le> um_tx_maxsize ?t"
    using assms(2-4) p by simp_all
  then obtain t' where t': "um_link_step (?t, r) (Sdu b i) = Inr (t', r)" "um_link_inv t' r"
    "map fst (um_queue t') = map fst (um_queue ?t) @ [b]" "um_tx_maxsize t' = um_tx_maxsize ?t"
    using um_link_sdu [OF inv] by blast
  then have recv: "nr_rlc_entity_um_recv_sdu ?t b i = Inr t'"
    by (auto simp: rbind_eq_Inr)
  have "um_out t' = []" "um_pair t' r"
    using um_recv_sdu_frame [OF recv] t'(2,4) assms(1) by (simp_all add: um_pair_def)
  then show thesis
    using that t'(3) time recv by simp
qed

lemma um_pair_grant:
  assumes "um_pair t r" "length b \<noteq> 2"
  obtains n b' t' r' where
    "rbind (rlc_set_time (E_um t) now) (\<lambda>rb. rbind (rlc_generate_pdu rb b) (\<lambda>(ret, b, rb). Inr (rb, (ret, b)))) =
       Inr (E_um t', (n, b'))" "um_out t' = []"
    "n = 0 \<longrightarrow> r' = r"
    "n \<noteq> 0 \<longrightarrow> rbind (rlc_set_time (E_um r) now') (\<lambda>rb. rbind (rlc_recv_pdu rb (take (nat n) b')) (\<lambda>rb. Inr (rb, ()))) =
       Inr (E_um r', ())"
    "um_pair t' (r'\<lparr>um_out := []\<rparr>)"
    "delivered (um_out r') @ map fst (um_queue t') = map fst (um_queue t)"
    "um_pending (um_queue t') \<le> um_pending (um_queue t)"
    "5 \<le> length b \<and> um_queue t \<noteq> [] \<longrightarrow> um_pending (um_queue t') < um_pending (um_queue t)"
proof -
  let ?t = "t\<lparr>um_t_current := now\<rparr>" and ?r = "r\<lparr>um_t_current := now'\<rparr>"
  have inv: "um_link_inv ?t ?r" and time: "nr_rlc_entity_um_set_time t now = Inr ?t" "nr_rlc_entity_um_set_time r now' = Inr ?r"
    and p: "um_tx_maxsize t = 100000000" "um_out t = []" "um_out r = []" "um_t_reassembly_start t = 0"
    using assms(1) by (simp_all add: um_pair_def um_set_time_idle)
  obtain t' r1 where g: "um_link_step (?t, ?r) (Grant b) = Inr (t', r1)" "um_link_inv t' r1"
    "delivered (um_out r1) @ map fst (um_queue t') = delivered (um_out ?r) @ map fst (um_queue ?t)"
    "um_tx_maxsize t' = um_tx_maxsize ?t" "um_pending (um_queue t') \<le> um_pending (um_queue ?t)"
    "5 \<le> length b \<and> um_queue ?t \<noteq> [] \<longrightarrow> um_pending (um_queue t') < um_pending (um_queue ?t)"
    using um_link_grant [OF inv assms(2)] by blast
  obtain n b' where gen: "nr_rlc_entity_um_generate_pdu ?t b = Inr (n, b', t')"
    and recv: "if n = 0 then r1 = ?r else nr_rlc_entity_um_recv_pdu ?r (take (nat n) b') = Inr r1"
    using g(1) by (auto simp: rbind_eq_Inr split: if_splits)
  have t': "um_out t' = []" "um_t_reassembly_start t' = 0"
    using um_generate_frame [OF gen] p by simp_all
  define r' where "r' = (if n = 0 then r else r1)"
  have inv': "um_link_inv t' r'" and out: "delivered (um_out r') = delivered (um_out r1)"
    using g(2) recv by (auto simp: r'_def)
  show thesis
  proof (rule that)
    show "rbind (rlc_set_time (E_um t) now) (\<lambda>rb. rbind (rlc_generate_pdu rb b) (\<lambda>(ret, b, rb). Inr (rb, (ret, b)))) =
        Inr (E_um t', (n, b'))"
      using time gen by simp
    show "n \<noteq> 0 \<longrightarrow> rbind (rlc_set_time (E_um r) now') (\<lambda>rb. rbind (rlc_recv_pdu rb (take (nat n) b')) (\<lambda>rb. Inr (rb, ()))) =
        Inr (E_um r', ())"
      using time recv by (simp add: r'_def)
    show "um_pair t' (r'\<lparr>um_out := []\<rparr>)"
      using inv' t' g(4) p um_link_reassembly_start [OF inv'] by (simp add: um_pair_def um_link_inv_out)
    show "delivered (um_out r') @ map fst (um_queue t') = map fst (um_queue t)"
      using g(3) out p by simp
  qed (use t' g(5,6) in \<open>simp_all add: r'_def\<close>)
qed

section \<open>PDCP in order\<close>

text \<open>A receiver that has delivered the first \<open>d\<close> SDUs and waits for nothing.\<close>

definition pdcp_idle :: "nat \<Rightarrow> nr_pdcp_entity \<Rightarrow> bool" where
  "pdcp_idle d r \<longleftrightarrow> pd_rx_list r = [] \<and> pd_rx_deliv r = count32 d \<and> pd_rx_next r = count32 d \<and>
     pd_t_reordering_start r = 0 \<and> pd_out r = []"

lemma pdcp_recv_next:
  assumes C: "crypto_ok C" and cfg: "pdcp_config_ok r" and peer: "pdcp_peers s r" and b: "b \<noteq> []"
    and idle: "pdcp_idle d r" and d: "d < 2 ^ 32 - 1"
  obtains r' where "nr_pdcp_entity_recv_pdu C r (pdcp_pdu C s (count32 d) b) = Inr r'"
    "pd_out r' = [Pdcp_sdu b]" "pdcp_idle (Suc d) (r'\<lparr>pd_out := []\<rparr>)" "pdcp_static r' = pdcp_static r"
proof -
  let ?h = "pdcp_header_size r" and ?k = "pdcp_integrity_size r"
  have u: "uint (pd_rx_deliv r) = int d"
    using idle unat_count [of d] d uint_nat [of "pd_rx_deliv r"] by (simp add: pdcp_idle_def)
  have w: "0 < pd_window_size r"
    using cfg by (simp add: pdcp_config_ok_def)
  obtain buf where buf: "nr_pdcp_entity_recv_pdu C r (pdcp_pdu C s (count32 d) b) = Inr (pdcp_reorder r buf ?h ?k (count32 d))"
    "take (length buf - ?h - ?k) (drop ?h buf) = b"
    by (rule pdcp_recv_peer [OF C cfg peer b, of d]) (use u w d in auto)
  have suc: "count32 d + 1 = count32 (Suc d)"
    by simp
  have eq: "pdcp_reorder r buf ?h ?k (count32 d) = r\<lparr>pd_rx_list := [], pd_rx_next := count32 (Suc d),
      pd_rx_deliv := count32 (Suc d), pd_out := [Pdcp_sdu b],
      pd_rx_size := pd_rx_size r + (int (length buf) - int ?h) - int (length buf - (?h + ?k))\<rparr>"
    using idle buf(2)
    by (simp add: pdcp_reorder_def pdcp_idle_def pdcp_insert_def Let_def pdcp_flush_def nr_pdcp_new_sdu_def suc
        pdcp_deliver_def pdcp_stop_timer_def pdcp_start_timer_def)
  show thesis
    by (rule that [OF buf(1)]) (use idle in \<open>simp_all add: eq pdcp_idle_def pdcp_static_def\<close>)
qed

lemma pdcp_set_time_idle:
  "pd_t_reordering_start e = 0 \<Longrightarrow> nr_pdcp_entity_set_time e now = e\<lparr>pd_t_current := now\<rparr>"
  by (simp add: nr_pdcp_entity_set_time_def pdcp_check_t_reordering_def)

section \<open>The steps of the nodes\<close>

text \<open>A packet from the tun interface becomes one PDU in the queue to RLC.\<close>

definition pdu_item :: "int \<Rightarrow> byte list \<Rightarrow> rlc_data_req_queue_item" where
  "pdu_item r buf = \<lparr>rq_ctxt = callback_ctxt r, rq_srb_flag = False, rq_MBMS_flag = False, rq_rb_id = 1,
     rq_mui = 0, rq_confirm = 0, rq_sdu = buf\<rparr>"

lemma preconf_tx:
  "nr_sdap_tx_entity req s (preconf_sdap r) ctxt False 1 0 0 (Some p) 7 rqi = req s ctxt False 1 0 0 p"
  by (simp add: nr_sdap_tx_entity_def nr_sdap_qfi2drb_map_def qfi2drb_row_def preconf_sdap_def SDAP_MAX_QFI_def)

lemma pd_out_clear: "pd_out e = [] \<Longrightarrow> e\<lparr>pd_out := []\<rparr> = e"
  by (cases e) simp

lemma tun_packet_step:
  assumes "pa_manager s = one_ue True r e" "pa_sdap s = [preconf_sdap r]" "pdcp_config_ok e" "pd_out e = []"
    and "r \<noteq> -1" "\<not> nd_is_cu node"
  shows "enb_tun_read_thread C node p s =
    Inr (s\<lparr>pa_manager := one_ue True r (e\<lparr>pd_tx_next := pd_tx_next e + 1\<rparr>),
           pa_rlc_queue := pa_rlc_queue s @ [pdu_item r (pdcp_pdu C e (pd_tx_next e) p)]\<rparr>)"
proof -
  let ?e = "e\<lparr>pd_tx_next := pd_tx_next e + 1, pd_out := [Pdcp_pdu (pdcp_pdu C e (pd_tx_next e) p) 0]\<rparr>"
  have first: "manager_get_first_rnti (pa_manager s) = r"
    by (simp add: assms(1) manager_get_first_rnti_def one_ue_def drb1_ue_def)
  have sdap: "nr_sdap_get_entity (pa_sdap s) r 10 = Some 0"
    by (simp add: assms(2) preconf_sdap_def)
  have "nr_pdcp_entity_recv_sdu C e p 0 = Inr ?e"
    using pdcp_recv_sdu_pdu [OF assms(3), of C p 0] assms(4) by simp
  then have req: "pdcp_data_req C node s ctxt False 1 0 0 p =
      Inr (True, s\<lparr>pa_manager := one_ue True r (e\<lparr>pd_tx_next := pd_tx_next e + 1\<rparr>),
        pa_rlc_queue := pa_rlc_queue s @ [pdu_item r (pdcp_pdu C e (pd_tx_next e) p)]\<rparr>)"
    if "cx_rnti ctxt = r" "\<not> ctxt_bad ctxt" for ctxt
    using that assms(4,6)
    by (simp add: pd_out_clear pdcp_data_req_def pdcp_data_req_drb_def pdcp_data_req_rb_def
        pdcp_on_rb_one [OF assms(1)] deliver_pdu_drb_def pdu_item_def)
  let ?c = "ctxt_zero\<lparr>cx_enb_flag := True, cx_rnti := r\<rparr>"
  have c: "cx_rnti ?c = r" "\<not> ctxt_bad ?c"
    by (simp_all add: ctxt_bad_def ctxt_zero_def)
  have "sdap_data_req C node s ?c False 1 0 0 (Some p) 7 False 10 = pdcp_data_req C node s ?c False 1 0 0 p"
    unfolding sdap_data_req_def c(1) sdap using assms(2) by (simp add: preconf_tx)
  then show ?thesis
    unfolding enb_tun_read_thread_def tun_read_round_def first Let_def using req [OF c] assms(5) by simp
qed

text \<open>A PDU that waits for PDCP is delivered as one packet.\<close>

lemma ind_thread_step:
  assumes "pa_ind_queue s = rlc_item False r False 0 pdu # q" "pa_manager s = one_ue True r e"
    "pa_sdap s = [preconf_sdap r]"
    and "nr_pdcp_entity_recv_pdu C e pdu = Inr e'" "pd_out e' = [Pdcp_sdu p]" "\<not> pd_is_gnb e'" "\<not> pd_has_sdap e'"
    "pd_pdusession_id e' = 10"
  shows "pdcp_data_ind_thread C node s =
    Inr (s\<lparr>pa_ind_queue := q, pa_manager := one_ue True r (e'\<lparr>pd_out := []\<rparr>),
           pa_msgs := pa_msgs s @ [Sdap_msg (To_nas p)]\<rparr>)"
proof -
  have on: "pdcp_on_rb (\<lambda>rb. nr_pdcp_entity_recv_pdu C rb pdu) False 1 r (s\<lparr>pa_ind_queue := q\<rparr>) =
      Inr (s\<lparr>pa_ind_queue := q, pa_manager := one_ue True r (e'\<lparr>pd_out := []\<rparr>)\<rparr>, Some (e', [Pdcp_sdu p]))"
    using assms(2,4,5) by (simp add: pdcp_on_rb_one [of _ True r e])
  show ?thesis
    using assms(1,3,6-8) on
    by (simp add: pdcp_data_ind_thread_def do_pdcp_data_ind_def rlc_item_def ctxt_bad_def deliver_sdu_drb_def
        sdap_data_ind_def preconf_sdap_def nr_sdap_rx_entity_def sdap_emit_def)
qed

lemma timer_thread_step:
  assumes "pa_manager s = one_ue f r e" "pd_t_reordering_start e = 0" "pd_out e = []"
  shows "nr_pdcp_timer_thread C node s =
    Inr (s\<lparr>pa_manager := one_ue f r (e\<lparr>pd_t_current := pa_timer_curtime s\<rparr>)\<rparr>)"
proof -
  let ?t = "pa_timer_curtime s" and ?m = "one_ue f r (e\<lparr>pd_t_current := pa_timer_curtime s\<rparr>)"
  have places: "timer_places (length (mg_list (pa_manager s))) =
      [(0, True, 0), (0, True, 1), (0, False, 0), (0, False, 1), (0, False, 2), (0, False, 3), (0, False, 4)]"
    by (simp add: assms(1) one_ue_def timer_places_def upt_rec)
  have first: "timer_set_time C node ?t (0, False, 0) s = Inr (s\<lparr>pa_manager := ?m\<rparr>)"
    using assms
    by (simp add: pd_out_clear timer_set_time_def manager_ue_def one_ue_def ue_rbs_def drb1_ue_def pdcp_set_time_idle
        manager_set_ue_def ue_set_rb_def Let_def)
  have none: "timer_set_time C node ?t (0, b, j) s' = Inr s'"
    if "pa_manager s' = one_ue f r e'" "ue_rbs b (drb1_ue r e') ! j = None" for b j s' e'
    using that by (simp add: timer_set_time_def manager_ue_def one_ue_def)
  have "timer_set_time C node ?t (0, True, 0) s = Inr s" "timer_set_time C node ?t (0, True, 1) s = Inr s"
    by (rule none [OF assms(1)], simp add: ue_rbs_def drb1_ue_def)+
  moreover have "timer_set_time C node ?t (0, False, j) (s\<lparr>pa_manager := ?m\<rparr>) = Inr (s\<lparr>pa_manager := ?m\<rparr>)"
    if "j \<in> {1, 2, 3, 4}" for j
    by (rule none) (use that in \<open>auto simp: ue_rbs_def drb1_ue_def\<close>)
  ultimately show ?thesis
    using first by (simp add: nr_pdcp_timer_thread_def places)
qed

section \<open>The invariant of the link\<close>

text \<open>The entities of the default bearer, and the PDU of a packet.\<close>

definition preconf_entity :: "bool \<Rightarrow> nr_pdcp_entity \<Rightarrow> bool" where
  "preconf_entity gnb e \<longleftrightarrow> pd_type e = NR_PDCP_DRB_AM \<and> pd_rb_id e = 1 \<and> pd_pdusession_id e = 10 \<and> \<not> pd_has_sdap e \<and>
     pd_sn_size e = 18 \<and> pd_is_gnb e = gnb \<and> \<not> pd_has_ciphering e \<and> \<not> pd_has_integrity e \<and>
     pd_security_context e = None \<and> pd_integrity_context e = None \<and> pdcp_config_ok e"

definition preconf_pdu :: "32 word \<Rightarrow> byte list \<Rightarrow> byte list" where
  "preconf_pdu c b =
     (let sn = uint (c AND word_of_int (2 ^ 18 - 1))
      in [word_of_int (0x80 OR (drop_bit 16 sn AND 0x3)), word_of_int (drop_bit 8 sn AND 0xff),
          word_of_int (sn AND 0xff)] @ b)"

lemma preconf_pdu: "preconf_entity gnb e \<Longrightarrow> pdcp_pdu C e c b = preconf_pdu c b"
  by (simp add: preconf_entity_def pdcp_config_ok_def pdcp_pdu_def preconf_pdu_def Let_def pdcp_header_def
      pdcp_integrity_size_def)

lemma preconf_pdu_length [simp]: "length (preconf_pdu c b) = length b + 3"
  by (simp add: preconf_pdu_def Let_def)

lemma preconf_pdu_ne [simp]: "preconf_pdu c b \<noteq> []"
  by (simp add: preconf_pdu_def Let_def)

lemma preconf_peers: "preconf_entity True e \<Longrightarrow> preconf_entity False f \<Longrightarrow> pdcp_peers e f"
  by (simp add: preconf_entity_def pdcp_peers_def pdcp_config_ok_def)

lemma preconf_entity_upd [simp]:
  "preconf_entity gnb (e\<lparr>pd_tx_next := n\<rparr>) = preconf_entity gnb e"
  "preconf_entity gnb (e\<lparr>pd_t_current := now\<rparr>) = preconf_entity gnb e"
  "preconf_entity gnb (e\<lparr>pd_out := evs\<rparr>) = preconf_entity gnb e"
  by (simp_all add: preconf_entity_def pdcp_config_ok_def)

lemma preconf_entity_static:
  assumes "pdcp_static e' = pdcp_static e"
  shows "preconf_entity gnb e' = preconf_entity gnb e"
  using assms unfolding pdcp_static_def preconf_entity_def pdcp_config_ok_def by (cases e; cases e'; simp)

lemma preconf_new:
  assumes "new_nr_pdcp_entity NR_PDCP_DRB_AM gnb 1 10 False False False 18 0 (-1) 0 0 None None = Inr e"
  shows "preconf_entity gnb e" "pdcp_idle 0 e" "pd_tx_next e = 0"
  using new_pdcp_fields [OF assms] new_pdcp_config(1) [OF assms] assms
  by (auto simp: preconf_entity_def pdcp_idle_def new_nr_pdcp_entity_def nr_pdcp_entity_set_security_def)

text \<open>
  The packets \<open>ps\<close> have come in and the first \<open>d\<close> have been delivered. The PDUs of the others are, in order,
  \<open>X\<close> in the queue to PDCP at the UE, in the transmission queue of RLC, and \<open>Z\<close> in the queue to RLC at the gNB.
\<close>

definition l2_at ::
  "int \<Rightarrow> byte list list \<Rightarrow> nat \<Rightarrow> byte list list \<Rightarrow> byte list list \<Rightarrow> nr_pdcp_entity \<Rightarrow> nr_pdcp_entity \<Rightarrow>
   nr_rlc_entity_um \<Rightarrow> nr_rlc_entity_um \<Rightarrow> l2_node \<Rightarrow> l2_node \<Rightarrow> bool" where
  "l2_at r ps d X Z e f t w g u \<longleftrightarrow>
     pa_manager (l2_pdcp g) = one_ue True r e \<and> pa_manager (l2_pdcp u) = one_ue True r f \<and>
     preconf_entity True e \<and> preconf_entity False f \<and> pdcp_idle 0 e \<and> pdcp_idle d f \<and>
     pd_tx_next e = count32 (length ps) \<and>
     pa_sdap (l2_pdcp g) = [preconf_sdap r] \<and> pa_sdap (l2_pdcp u) = [preconf_sdap r] \<and>
     ra_manager (l2_rlc g) = one_ue True r (E_um t) \<and> ra_manager (l2_rlc u) = one_ue False r (E_um w) \<and>
     ra_pdcp_ind (l2_rlc g) = [] \<and> ra_pdcp_ind (l2_rlc u) = [] \<and> um_pair t w \<and>
     pa_ind_queue (l2_pdcp u) = map (rlc_item False r False 0) X \<and> pa_rlc_queue (l2_pdcp g) = map (pdu_item r) Z \<and>
     pa_msgs (l2_pdcp u) = map (\<lambda>p. Sdap_msg (To_nas p)) (take d ps) \<and> d \<le> length ps \<and>
     map (\<lambda>i. preconf_pdu (count32 i) (ps ! i)) [d..<length ps] = X @ map fst (um_queue t) @ Z"

definition packets_ok :: "byte list list \<Rightarrow> bool" where
  "packets_ok ps \<longleftrightarrow> (\<forall>p \<in> set ps. p \<noteq> [] \<and> int (length p) + 3 \<le> NR_SDU_MAX) \<and>
     sum_list (map (\<lambda>p. length p + 3) ps) \<le> 100000000"

lemma packets_ok_length: "packets_ok ps \<Longrightarrow> length ps < 2 ^ 32 - 1"
proof -
  have "length ps \<le> sum_list (map (\<lambda>p. length p + 3) ps)"
    by (induction ps) auto
  then show "packets_ok ps \<Longrightarrow> length ps < 2 ^ 32 - 1"
    by (simp add: packets_ok_def)
qed

lemma packets_ok_events:
  assumes "\<forall>ev \<in> set evs. l2_event_ok ev" "sum_list (map (\<lambda>p. length p + 3) (packets evs)) \<le> 100000000"
  shows "packets_ok (packets evs)"
proof -
  have "\<forall>p \<in> set (packets evs). p \<noteq> [] \<and> int (length p) + 3 \<le> NR_SDU_MAX"
    using assms(1) by (induction evs rule: packets.induct) auto
  then show ?thesis
    using assms(2) by (simp add: packets_ok_def)
qed

lemma packets_ok_append: "packets_ok (as @ bs) \<Longrightarrow> packets_ok as"
  by (simp add: packets_ok_def)

lemma at_pdus_append:
  "d \<le> length ps \<Longrightarrow> map (\<lambda>i. preconf_pdu (count32 i) ((ps @ [p]) ! i)) [d..<length (ps @ [p])] =
     map (\<lambda>i. preconf_pdu (count32 i) (ps ! i)) [d..<length ps] @ [preconf_pdu (count32 (length ps)) p]"
  by (simp add: nth_append)

lemma at_tun:
  assumes at: "l2_at r ps d X Z e f t w g u" and "r \<noteq> -1" "\<not> nd_is_cu gn"
  obtains g' e' pdu where "l2_step C gn un r (g, u) (Tun_packet p) = Inr (g', u)"
    "l2_at r (ps @ [p]) d X (Z @ [pdu]) e' f t w g' u"
proof -
  let ?e = "e\<lparr>pd_tx_next := pd_tx_next e + 1\<rparr>" and ?x = "preconf_pdu (count32 (length ps)) p"
  let ?g = "g\<lparr>l2_pdcp := (l2_pdcp g)\<lparr>pa_manager := one_ue True r ?e,
    pa_rlc_queue := pa_rlc_queue (l2_pdcp g) @ [pdu_item r ?x]\<rparr>\<rparr>"
  have m: "pa_manager (l2_pdcp g) = one_ue True r e" and e: "preconf_entity True e" and d: "d \<le> length ps"
    using at by (simp_all add: l2_at_def)
  have "enb_tun_read_thread C gn p (l2_pdcp g) = Inr (l2_pdcp ?g)"
    using tun_packet_step [OF m _ _ _ assms(2,3), of C p] at preconf_pdu [OF e]
    by (simp add: l2_at_def preconf_entity_def pdcp_idle_def)
  then have step: "l2_step C gn un r (g, u) (Tun_packet p) = Inr (?g, u)"
    by (simp add: l2_on_pdcp_def)
  have "map (\<lambda>i. preconf_pdu (count32 i) ((ps @ [p]) ! i)) [d..<length (ps @ [p])] =
      X @ map fst (um_queue t) @ Z @ [?x]"
    using at_pdus_append [OF d, of p] at by (simp add: l2_at_def)
  then have "l2_at r (ps @ [p]) d X (Z @ [?x]) ?e f t w ?g u"
    using at d unfolding l2_at_def by (simp add: pdcp_idle_def add.commute)
  then show thesis
    by (rule that [OF step])
qed

lemma at_first:
  assumes "l2_at r ps d X Z e f t w g u" "X @ map fst (um_queue t) @ Z = x # xs"
  shows "d < length ps" "x = preconf_pdu (count32 d) (ps ! d)"
    "map (\<lambda>i. preconf_pdu (count32 i) (ps ! i)) [Suc d..<length ps] = xs"
proof -
  have m: "map (\<lambda>i. preconf_pdu (count32 i) (ps ! i)) [d..<length ps] = x # xs"
    using assms by (simp add: l2_at_def)
  then show d: "d < length ps"
    by (cases "d < length ps") simp_all
  show "x = preconf_pdu (count32 d) (ps ! d)" "map (\<lambda>i. preconf_pdu (count32 i) (ps ! i)) [Suc d..<length ps] = xs"
    using m by (simp_all add: upt_conv_Cons [OF d])
qed

text \<open>What is under way fits into the transmission buffer of RLC.\<close>

lemma at_bytes:
  assumes "l2_at r ps d X Z e f t w g u"
  shows "sum_list (map length (X @ map fst (um_queue t) @ Z)) \<le> sum_list (map (\<lambda>p. length p + 3) ps)"
proof -
  let ?n = "\<lambda>p :: byte list. length p + 3"
  have "map length (X @ map fst (um_queue t) @ Z) = map (\<lambda>i. ?n (ps ! i)) [d..<length ps]"
    using assms unfolding l2_at_def
    by (metis (no_types, lifting) comp_apply list.map_comp map_eq_conv preconf_pdu_length)
  also have "\<dots> = drop d (map ?n ps)"
    by (rule nth_equalityI) simp_all
  finally have eq: "map length (X @ map fst (um_queue t) @ Z) = drop d (map ?n ps)" .
  have "sum_list (map ?n ps) = sum_list (take d (map ?n ps)) + sum_list (drop d (map ?n ps))"
    by (simp only: sum_list_append [symmetric] append_take_drop_id)
  then show ?thesis
    unfolding eq by simp
qed

lemma um_pending_bytes: "um_pending q \<le> sum_list (map length (map fst q))"
  by (induction q) (auto simp: um_pending_def)

lemma at_pdu_ok:
  assumes at: "l2_at r ps d X Z e f t w g u" and "packets_ok ps" and z: "z \<in> set Z"
  shows "z \<noteq> []" "int (length z) \<le> NR_SDU_MAX"
proof -
  have "map (\<lambda>i. preconf_pdu (count32 i) (ps ! i)) [d..<length ps] = X @ map fst (um_queue t) @ Z"
    using at by (simp add: l2_at_def)
  then have "z \<in> set (map (\<lambda>i. preconf_pdu (count32 i) (ps ! i)) [d..<length ps])"
    using z by simp
  then obtain i where "i < length ps" "z = preconf_pdu (count32 i) (ps ! i)"
    by auto
  then show "z \<noteq> []" "int (length z) \<le> NR_SDU_MAX"
    using assms(2) by (auto simp: packets_ok_def)
qed

lemma um_out_clear: "um_out t = [] \<Longrightarrow> t\<lparr>um_out := []\<rparr> = t"
  by (cases t) simp

lemma fold_indicate: "fold l2_indicate xs s = s\<lparr>pa_ind_queue := pa_ind_queue s @ xs\<rparr>"
  by (induction xs arbitrary: s) (simp_all add: l2_indicate_def pdcp_data_ind_def)

text \<open>The thread that feeds RLC moves the first PDU of its queue to the end of the transmission queue.\<close>

lemma at_rlc:
  assumes at: "l2_at r ps d X Z e f t w g u" and ok: "packets_ok ps" and node: "\<not> nd_is_cu gn" "\<not> nd_is_du gn"
  obtains g' t' where "l2_step C gn un r (g, u) Rlc_thread = Inr (g', u)" "l2_at r ps d X (tl Z) e f t' w g' u"
proof (cases Z)
  case Nil
  then have "l2_step C gn un r (g, u) Rlc_thread = Inr (g, u)"
    using at by (simp add: l2_at_def rlc_data_req_thread_def)
  then show thesis
    using that at Nil by simp
next
  case (Cons z Z')
  let ?now = "ra_current_time (l2_rlc g)"
  have m: "ra_manager (l2_rlc g) = one_ue True r (E_um t)" and pair: "um_pair t w"
    using at by (simp_all add: l2_at_def)
  have tx: "um_tx_size t = int (um_pending (um_queue t))"
    using pair by (simp add: um_pair_def um_link_inv_def um_tx_size_pending)
  have "um_tx_size t + int (length z) \<le> 100000000"
    using at_bytes [OF at] ok um_pending_bytes [of "um_queue t"] Cons by (simp add: tx packets_ok_def)
  then obtain t' where t': "rbind (rlc_set_time (E_um t) ?now) (\<lambda>rb. rbind (rlc_recv_sdu rb z 0) (\<lambda>rb. Inr (rb, ()))) =
      Inr (E_um t', ())" "um_pair t' w" "um_out t' = []" "map fst (um_queue t') = map fst (um_queue t) @ [z]"
    using um_pair_sdu [OF pair at_pdu_ok [OF at ok, of z], of ?now 0] Cons by auto
  let ?g = "g\<lparr>l2_pdcp := (l2_pdcp g)\<lparr>pa_rlc_queue := map (pdu_item r) Z'\<rparr>,
    l2_rlc := (l2_rlc g)\<lparr>ra_manager := one_ue True r (E_um t')\<rparr>\<rparr>"
  have "\<not> (True \<and> (nd_is_cu gn \<or> nd_is_du gn))"
    using node by simp
  note on = rlc_on_rb_one [OF m this]
  have "rlc_data_req gn (callback_ctxt r) False 1 0 z (l2_rlc g) =
      Inr ((l2_rlc g)\<lparr>ra_manager := one_ue True r (E_um t')\<rparr>)"
    unfolding rlc_data_req_def using t'(3) at
    by (simp add: callback_ctxt_def rb_slot_def on t'(1) um_out_clear l2_at_def del: rlc_set_time.simps)
  then have "l2_step C gn un r (g, u) Rlc_thread = Inr (?g, u)"
    using at Cons by (simp add: l2_at_def rlc_data_req_thread_def pdu_item_def l2_forward_def)
  moreover have "l2_at r ps d X (tl Z) e f t' w ?g u"
    using at Cons t' by (simp add: l2_at_def)
  ultimately show thesis
    by (rule that)
qed

text \<open>A grant moves what RLC has completed to the queue of PDCP at the UE.\<close>

lemma at_grant:
  assumes at: "l2_at r ps d X Z e f t w g u" and node: "\<not> nd_is_cu gn" "\<not> nd_is_du gn" and b: "length b \<noteq> 2"
  obtains g' u' X' t' w' where "l2_step C gn un r (g, u) (Mac_grant b) = Inr (g', u')" "l2_at r ps d X' Z e f t' w' g' u'"
    "um_pending (um_queue t') \<le> um_pending (um_queue t)"
    "5 \<le> length b \<and> um_queue t \<noteq> [] \<longrightarrow> um_pending (um_queue t') < um_pending (um_queue t)"
proof -
  let ?now = "ra_current_time (l2_rlc g)" and ?now' = "ra_current_time (l2_rlc u)"
  have m: "ra_manager (l2_rlc g) = one_ue True r (E_um t)" "ra_manager (l2_rlc u) = one_ue False r (E_um w)"
    and ind: "ra_pdcp_ind (l2_rlc g) = []" "ra_pdcp_ind (l2_rlc u) = []" and pair: "um_pair t w"
    using at by (simp_all add: l2_at_def)
  obtain n b' t' w' where gen: "rbind (rlc_set_time (E_um t) ?now) (\<lambda>rb. rbind (rlc_generate_pdu rb b) (\<lambda>(ret, b, rb).
      Inr (rb, (ret, b)))) = Inr (E_um t', (n, b'))" "um_out t' = []"
    and idle: "n = 0 \<longrightarrow> w' = w"
    and recv: "n \<noteq> 0 \<longrightarrow> rbind (rlc_set_time (E_um w) ?now') (\<lambda>rb. rbind (rlc_recv_pdu rb (take (nat n) b')) (\<lambda>rb.
      Inr (rb, ()))) = Inr (E_um w', ())"
    and pair': "um_pair t' (w'\<lparr>um_out := []\<rparr>)" and del: "delivered (um_out w') @ map fst (um_queue t') = map fst (um_queue t)"
    and le: "um_pending (um_queue t') \<le> um_pending (um_queue t)"
      "5 \<le> length b \<and> um_queue t \<noteq> [] \<longrightarrow> um_pending (um_queue t') < um_pending (um_queue t)"
    by (rule um_pair_grant [OF pair b, of ?now ?now'])
  let ?X = "X @ delivered (um_out w')"
  let ?g = "g\<lparr>l2_rlc := (l2_rlc g)\<lparr>ra_manager := one_ue True r (E_um t')\<rparr>\<rparr>"
  let ?u = "u\<lparr>l2_pdcp := (l2_pdcp u)\<lparr>pa_ind_queue := map (rlc_item False r False 0) ?X\<rparr>,
    l2_rlc := (l2_rlc u)\<lparr>ra_manager := one_ue False r (E_um (w'\<lparr>um_out := []\<rparr>))\<rparr>\<rparr>"
  have "\<not> (True \<and> (nd_is_cu gn \<or> nd_is_du gn))"
    using node by simp
  note on = rlc_on_rb_one [OF m(1) this]
  have req: "l2_data_req gn r 4 b g = Inr (n, b', ?g)"
    unfolding l2_data_req_def mac_rlc_data_req_def channel_slot_def
    by (simp add: on gen um_out_clear ind l2_forward_def del: rlc_set_time.simps)
  have "\<not> (False \<and> (nd_is_cu un \<or> nd_is_du un))"
    by simp
  note on' = rlc_on_rb_one [OF m(2) this]
  have "l2_data_ind un r 4 (take (nat n) b') u = Inr ?u" if "n \<noteq> 0"
    unfolding l2_data_ind_def mac_rlc_data_ind_def channel_slot_def using at
    by (simp add: on' recv [rule_format, OF that] ind l2_forward_def fold_indicate l2_at_def del: rlc_set_time.simps)
  moreover have "?u = u" if "n = 0"
  proof -
    have "um_out w' = []" "w' = w"
      using idle that pair by (simp_all add: um_pair_def)
    then show ?thesis
      using at by (simp add: l2_at_def um_out_clear)
  qed
  ultimately have step: "l2_step C gn un r (g, u) (Mac_grant b) = Inr (?g, ?u)"
    using req by (cases "n = 0") simp_all
  have "X @ map fst (um_queue t) @ Z = ?X @ map fst (um_queue t') @ Z"
    using del by simp
  then have "l2_at r ps d ?X Z e f t' (w'\<lparr>um_out := []\<rparr>) ?g ?u"
    using at pair' by (simp add: l2_at_def)
  with step show thesis
    by (rule that) (rule le)+
qed

text \<open>The thread that feeds PDCP delivers the first PDU of its queue.\<close>

lemma at_ind:
  assumes at: "l2_at r ps d X Z e f t w g u" and ok: "packets_ok ps" and C: "crypto_ok C"
  obtains u' d' f' where "l2_step C gn un r (g, u) Ind_thread = Inr (g, u')" "l2_at r ps d' (tl X) Z e f' t w g u'"
proof (cases X)
  case Nil
  then have "l2_step C gn un r (g, u) Ind_thread = Inr (g, u)"
    using at by (simp add: l2_at_def l2_on_pdcp_def pdcp_data_ind_thread_def)
  then show thesis
    using that at Nil by simp
next
  case (Cons x X')
  have x: "d < length ps" "x = preconf_pdu (count32 d) (ps ! d)"
    "map (\<lambda>i. preconf_pdu (count32 i) (ps ! i)) [Suc d..<length ps] = X' @ map fst (um_queue t) @ Z"
    using at_first [OF at] Cons by simp_all
  have e: "preconf_entity True e" "preconf_entity False f" "pdcp_idle d f"
    and u: "pa_manager (l2_pdcp u) = one_ue True r f" "pa_sdap (l2_pdcp u) = [preconf_sdap r]"
      "pa_ind_queue (l2_pdcp u) = rlc_item False r False 0 x # map (rlc_item False r False 0) X'"
    using at Cons by (simp_all add: l2_at_def)
  have cfg: "pdcp_config_ok f" and p: "ps ! d \<noteq> []" and d: "d < 2 ^ 32 - 1"
    using e(2) ok x(1) packets_ok_length [OF ok] by (auto simp: preconf_entity_def packets_ok_def)
  obtain f' where f': "nr_pdcp_entity_recv_pdu C f (pdcp_pdu C e (count32 d) (ps ! d)) = Inr f'"
    "pd_out f' = [Pdcp_sdu (ps ! d)]" "pdcp_idle (Suc d) (f'\<lparr>pd_out := []\<rparr>)" "pdcp_static f' = pdcp_static f"
    by (rule pdcp_recv_next [OF C cfg preconf_peers [OF e(1,2)] p e(3) d])
  have g: "preconf_entity False f'"
    using preconf_entity_static [OF f'(4)] e(2) by simp
  let ?u = "u\<lparr>l2_pdcp := (l2_pdcp u)\<lparr>pa_ind_queue := map (rlc_item False r False 0) X',
    pa_manager := one_ue True r (f'\<lparr>pd_out := []\<rparr>), pa_msgs := pa_msgs (l2_pdcp u) @ [Sdap_msg (To_nas (ps ! d))]\<rparr>\<rparr>"
  have "nr_pdcp_entity_recv_pdu C f x = Inr f'"
    using f'(1) preconf_pdu [OF e(1)] x(2) by simp
  from ind_thread_step [OF u(3,1,2) this f'(2)]
  have "l2_step C gn un r (g, u) Ind_thread = Inr (g, ?u)"
    using g by (simp add: preconf_entity_def l2_on_pdcp_def)
  moreover have "l2_at r ps (Suc d) (tl X) Z e (f'\<lparr>pd_out := []\<rparr>) t w g ?u"
    using at Cons x f'(3) g by (simp add: l2_at_def take_Suc_conv_app_nth)
  ultimately show thesis
    by (rule that)
qed

lemma at_tick:
  assumes "l2_at r ps d X Z e f t w g u"
  shows "l2_at r ps d X Z e f t w (l2_tick a b g) u" "l2_at r ps d X Z e f t w g (l2_tick a b u)"
  using assms by (simp_all add: l2_at_def l2_tick_def nr_pdcp_tick_def nr_rlc_tick_def nr_pdcp_wakeup_timer_thread_def Let_def)

lemma at_timer:
  assumes at: "l2_at r ps d X Z e f t w g u"
  obtains g' u' e' f' where "l2_step C gn un r (g, u) Gnb_timer = Inr (g', u)" "l2_at r ps d X Z e' f t w g' u"
    "l2_step C gn un r (g, u) Ue_timer = Inr (g, u')" "l2_at r ps d X Z e f' t w g u'"
proof -
  let ?e = "e\<lparr>pd_t_current := pa_timer_curtime (l2_pdcp g)\<rparr>" and ?f = "f\<lparr>pd_t_current := pa_timer_curtime (l2_pdcp u)\<rparr>"
  have i: "pdcp_idle 0 ?e" "pdcp_idle d ?f"
    using at by (simp_all add: l2_at_def pdcp_idle_def)
  show thesis
  proof (rule that [where e' = ?e and f' = ?f])
    show "l2_step C gn un r (g, u) Gnb_timer = Inr (g\<lparr>l2_pdcp := (l2_pdcp g)\<lparr>pa_manager := one_ue True r ?e\<rparr>\<rparr>, u)"
      using timer_thread_step [of "l2_pdcp g" True r e C gn] at by (simp add: l2_at_def pdcp_idle_def l2_on_pdcp_def)
    show "l2_step C gn un r (g, u) Ue_timer = Inr (g, u\<lparr>l2_pdcp := (l2_pdcp u)\<lparr>pa_manager := one_ue True r ?f\<rparr>\<rparr>)"
      using timer_thread_step [of "l2_pdcp u" True r f C un] at by (simp add: l2_at_def pdcp_idle_def l2_on_pdcp_def)
  qed (use at i in \<open>simp_all add: l2_at_def\<close>)
qed

section \<open>Runs of the two nodes\<close>

lemma packets_append: "packets (as @ bs) = packets as @ packets bs"
  by (induction as rule: packets.induct) simp_all

lemma l2_run_append: "l2_run C gn un r s (as @ bs) = rbind (l2_run C gn un r s as) (\<lambda>s. l2_run C gn un r s bs)"
  by (induction as arbitrary: s) (simp_all add: rbind_assoc)

lemma at_step:
  assumes at: "l2_at r ps d X Z e f t w g u" and ok: "packets_ok (ps @ packets [ev])" "l2_event_ok ev"
    and env: "crypto_ok C" "r \<noteq> -1" "\<not> nd_is_cu gn" "\<not> nd_is_du gn"
  shows "\<exists>d' X' Z' e' f' t' w' g' u'. l2_step C gn un r (g, u) ev = Inr (g', u') \<and>
    l2_at r (ps @ packets [ev]) d' X' Z' e' f' t' w' g' u'"
proof (cases ev)
  case (Tun_packet p)
  then show ?thesis
    using at_tun [OF at env(2,3), of C un p] by (metis packets.simps(1,2))
next
  case Rlc_thread
  then show ?thesis
    using at_rlc [OF at _ env(3,4), of C un] ok(1) by (metis append_Nil2 packets.simps(1,3))
next
  case (Mac_grant b)
  then show ?thesis
    using at_grant [OF at env(3,4), of b C un] ok(2) by (metis append_Nil2 packets.simps(1,4) l2_event_ok.simps(2))
next
  case Ind_thread
  then show ?thesis
    using at_ind [OF at _ env(1), of gn un] ok(1) by (metis append_Nil2 packets.simps(1,5))
next
  case (Gnb_tick a b)
  then show ?thesis
    using at_tick(1) [OF at, of a b] by simp blast
next
  case (Ue_tick a b)
  then show ?thesis
    using at_tick(2) [OF at, of a b] by simp blast
next
  case Gnb_timer
  then show ?thesis
    using at_timer [OF at, of C gn un] by (metis append_Nil2 packets.simps(1,8))
next
  case Ue_timer
  then show ?thesis
    using at_timer [OF at, of C gn un] by (metis append_Nil2 packets.simps(1,9))
qed

lemma at_run:
  assumes "l2_at r ps d X Z e f t w g u" "packets_ok (ps @ packets evs)" "\<forall>ev \<in> set evs. l2_event_ok ev"
    and env: "crypto_ok C" "r \<noteq> -1" "\<not> nd_is_cu gn" "\<not> nd_is_du gn"
  shows "\<exists>d' X' Z' e' f' t' w' g' u'. l2_run C gn un r (g, u) evs = Inr (g', u') \<and>
    l2_at r (ps @ packets evs) d' X' Z' e' f' t' w' g' u'"
  using assms(1-3)
proof (induction evs arbitrary: ps d X Z e f t w g u)
  case Nil
  then show ?case
    by simp blast
next
  case (Cons ev evs)
  have split: "packets (ev # evs) = packets [ev] @ packets evs"
    using packets_append [of "[ev]" evs] by simp
  have ok: "packets_ok (ps @ packets [ev])" "l2_event_ok ev"
    using Cons.prems(2,3) packets_ok_append [of "ps @ packets [ev]" "packets evs"] by (simp_all add: split)
  obtain d1 X1 Z1 e1 f1 t1 w1 g1 u1 where 1: "l2_step C gn un r (g, u) ev = Inr (g1, u1)"
    "l2_at r (ps @ packets [ev]) d1 X1 Z1 e1 f1 t1 w1 g1 u1"
    using at_step [OF Cons.prems(1) ok env] by blast
  show ?case
    using Cons.IH [OF 1(2)] Cons.prems(2,3) 1(1) by (simp add: split)
qed

text \<open>The two nodes as they start.\<close>

lemma l2_started:
  obtains e f t g u where "l2_start C gn True r = Inr g" "l2_start C' un False r = Inr u" "l2_at r [] 0 [] [] e f t t g u"
proof -
  obtain e f where e: "new_nr_pdcp_entity NR_PDCP_DRB_AM True 1 10 False False False 18 0 (-1) 0 0 None None = Inr e"
    "new_nr_pdcp_entity NR_PDCP_DRB_AM False 1 10 False False False 18 0 (-1) 0 0 None None = Inr f"
    by (simp add: new_nr_pdcp_entity_def nr_pdcp_entity_set_security_def)
  obtain t where t: "new_nr_rlc_entity_um 100000000 100000000 15 12 = Inr t"
    by (simp add: new_nr_rlc_entity_um_def)
  have pair: "um_pair t t" "um_queue t = []"
    using um_new_config [OF t] t
    by (auto simp: um_pair_def um_link_inv_def NR_SDU_MAX_def new_nr_rlc_entity_um_def)
  show thesis
  proof (rule that)
    show "l2_start C gn True r = Inr \<lparr>l2_pdcp = pdcp_layer_init\<lparr>pa_manager := one_ue True r e, pa_sdap := [preconf_sdap r]\<rparr>,
        l2_rlc = rlc_start\<lparr>ra_manager := one_ue True r (E_um t), ra_inited := True, ra_inited_ue := \<not> True\<rparr>\<rparr>"
      by (rule l2_start_eq [OF e(1) t])
    show "l2_start C' un False r = Inr \<lparr>l2_pdcp = pdcp_layer_init\<lparr>pa_manager := one_ue True r f, pa_sdap := [preconf_sdap r]\<rparr>,
        l2_rlc = rlc_start\<lparr>ra_manager := one_ue False r (E_um t), ra_inited := False, ra_inited_ue := \<not> False\<rparr>\<rparr>"
      by (rule l2_start_eq [OF e(2) t])
  qed (use preconf_new [OF e(1)] preconf_new [OF e(2)] pair in
    \<open>simp add: l2_at_def pdcp_layer_init_def rlc_start_def\<close>)
qed

text \<open>The work of each thread, done to its end.\<close>

lemma at_rlcs:
  assumes "l2_at r ps d X Z e f t w g u" "packets_ok ps" "\<not> nd_is_cu gn" "\<not> nd_is_du gn"
  shows "\<exists>t' g'. l2_run C gn un r (g, u) (replicate k Rlc_thread) = Inr (g', u) \<and> l2_at r ps d X (drop k Z) e f t' w g' u"
  using assms(1)
proof (induction k arbitrary: Z t g)
  case (Suc k)
  obtain g1 t1 where 1: "l2_step C gn un r (g, u) Rlc_thread = Inr (g1, u)" "l2_at r ps d X (tl Z) e f t1 w g1 u"
    by (rule at_rlc [OF Suc.prems assms(2-4)])
  with Suc.IH [OF 1(2)] show ?case
    by (simp add: drop_Suc)
qed auto

lemma at_grants:
  assumes "l2_at r ps d X Z e f t w g u" "\<forall>b \<in> set bufs. 5 \<le> length b" "um_pending (um_queue t) \<le> length bufs"
    and node: "\<not> nd_is_cu gn" "\<not> nd_is_du gn"
  shows "\<exists>X' t' w' g' u'. l2_run C gn un r (g, u) (map Mac_grant bufs) = Inr (g', u') \<and>
    l2_at r ps d X' Z e f t' w' g' u' \<and> um_queue t' = []"
  using assms(1-3)
proof (induction bufs arbitrary: X t w g u)
  case Nil
  then have "um_queue t = []"
    by (cases "um_queue t") (auto simp: l2_at_def um_pair_def um_link_inv_def um_pending_def)
  with Nil show ?case
    by auto
next
  case (Cons b bufs)
  have b: "length b \<noteq> 2" "5 \<le> length b"
    using Cons.prems(2) by auto
  obtain g1 u1 X1 t1 w1 where 1: "l2_step C gn un r (g, u) (Mac_grant b) = Inr (g1, u1)" "l2_at r ps d X1 Z e f t1 w1 g1 u1"
    "um_pending (um_queue t1) \<le> um_pending (um_queue t)"
    "5 \<le> length b \<and> um_queue t \<noteq> [] \<longrightarrow> um_pending (um_queue t1) < um_pending (um_queue t)"
    by (rule at_grant [OF Cons.prems(1) node b(1)])
  have "um_pending (um_queue t1) \<le> length bufs"
  proof (cases "um_queue t = []")
    case True
    then have "um_pending (um_queue t) = 0"
      by (simp add: um_pending_def)
    then show ?thesis
      using 1(3) by simp
  qed (use 1(4) b(2) Cons.prems(3) in simp)
  with Cons.IH [OF 1(2)] Cons.prems(2) 1(1) show ?case
    by simp
qed

lemma at_inds:
  assumes "l2_at r ps d X Z e f t w g u" "packets_ok ps" "crypto_ok C"
  shows "\<exists>d' f' u'. l2_run C gn un r (g, u) (replicate k Ind_thread) = Inr (g, u') \<and> l2_at r ps d' (drop k X) Z e f' t w g u'"
  using assms(1)
proof (induction k arbitrary: X d f u)
  case (Suc k)
  obtain u1 d1 f1 where 1: "l2_step C gn un r (g, u) Ind_thread = Inr (g, u1)" "l2_at r ps d1 (tl X) Z e f1 t w g u1"
    by (rule at_ind [OF Suc.prems assms(2,3)])
  with Suc.IH [OF 1(2)] show ?case
    by (simp add: drop_Suc)
qed auto

lemma at_count:
  assumes "l2_at r ps d X Z e f t w g u"
  shows "length X + length (um_queue t) + length Z = length ps - d" "d \<le> length ps"
proof -
  have "length (map (\<lambda>i. preconf_pdu (count32 i) (ps ! i)) [d..<length ps]) = length (X @ map fst (um_queue t) @ Z)"
    using assms unfolding l2_at_def by presburger
  then show "length X + length (um_queue t) + length Z = length ps - d"
    by simp
  show "d \<le> length ps"
    using assms by (simp add: l2_at_def)
qed

lemma at_under_way:
  assumes "l2_at r ps d X Z e f t w g u"
  shows "map (drop 3) (map pq_sdu (pa_ind_queue (l2_pdcp u)) @ map fst (um_queue t) @ map rq_sdu (pa_rlc_queue (l2_pdcp g))) =
    drop d ps"
proof -
  have "map pq_sdu (pa_ind_queue (l2_pdcp u)) @ map fst (um_queue t) @ map rq_sdu (pa_rlc_queue (l2_pdcp g)) =
      map (\<lambda>i. preconf_pdu (count32 i) (ps ! i)) [d..<length ps]"
    using assms by (simp add: l2_at_def pdu_item_def comp_def)
  then show ?thesis
    by (auto intro!: nth_equalityI simp: preconf_pdu_def Let_def)
qed

section \<open>The downlink\<close>





end
