(* ===== verification/NR_MAC_Stack.thy ===== *)
theory NR_MAC_Stack
  imports NR_MAC_Dl_Link L2_Stack
begin

text \<open>
  The stack of a gNB and a UE with MAC between them: beside single grants, transport blocks carry the PDUs
  of the default bearer and the timing advance.
\<close>

section \<open>Transport blocks in the stack\<close>

text \<open>The sizes of the requests to RLC in the loop over the PDUs of a logical channel, as \<^const>\<open>dlsch_lc\<close> makes them.\<close>

fun dlsch_lc_requests :: "nat \<Rightarrow> node \<Rightarrow> int \<Rightarrow> nat \<Rightarrow> int \<Rightarrow> byte list \<Rightarrow> rlc_api \<Rightarrow> nat list" where
  "dlsch_lc_requests 0 node rnti lcid bytes_in_buffer rest s = []"
| "dlsch_lc_requests (Suc fuel) node rnti lcid bytes_in_buffer rest s =
     (if length rest > 3 + 1
      then
        let ndata = dl_ndata bytes_in_buffer (length rest - 3) in
        ndata #
        (case mac_rlc_data_req node rnti (int lcid) (take ndata (drop 3 rest)) s of
           Inl _ \<Rightarrow> []
         | Inr (len, data, s) \<Rightarrow>
             if len = 0 then []
             else dlsch_lc_requests fuel node rnti lcid bytes_in_buffer (drop (nat len) data @ drop (3 + ndata) rest) s)
      else [])"

section \<open>The loop and the connected pair\<close>

text \<open>One request and, if there is a PDU, its reception, in the two RLC layers.\<close>

lemma req_one:
  assumes "ra_manager s = one_ue True r (E_um t)" "\<not> nd_is_cu gn" "\<not> nd_is_du gn"
    and "rbind (rlc_set_time (E_um t) (ra_current_time s)) (\<lambda>rb. rbind (rlc_generate_pdu rb b) (\<lambda>(ret, b, rb).
      Inr (rb, (ret, b)))) = Inr (E_um t', (n, b'))" "um_out t' = []"
  shows "mac_rlc_data_req gn r 4 b s = Inr (n, b', s\<lparr>ra_manager := one_ue True r (E_um t')\<rparr>)"
proof -
  have "\<not> (True \<and> (nd_is_cu gn \<or> nd_is_du gn))"
    using assms(2,3) by simp
  note on = rlc_on_rb_one [OF assms(1) this]
  show ?thesis
    unfolding mac_rlc_data_req_def channel_slot_def
    by (simp add: on assms(4,5) um_out_clear del: rlc_set_time.simps)
qed

lemma ind_one:
  assumes "ra_manager s = one_ue False r (E_um w)"
    and "rbind (rlc_set_time (E_um w) (ra_current_time s)) (\<lambda>rb. rbind (rlc_recv_pdu rb p) (\<lambda>rb. Inr (rb, ()))) = Inr (E_um w', ())"
  shows "mac_rlc_data_ind un 0 r 0 False 4 p s = Inr (s\<lparr>ra_manager := one_ue False r (E_um (w'\<lparr>um_out := []\<rparr>)),
    ra_pdcp_ind := ra_pdcp_ind s @ map (rlc_item False r False 0) (delivered (um_out w'))\<rparr>)"
proof -
  have "\<not> (False \<and> (nd_is_cu un \<or> nd_is_du un))"
    by simp
  note on = rlc_on_rb_one [OF assms(1) this]
  show ?thesis
    unfolding mac_rlc_data_ind_def channel_slot_def by (simp add: on assms(2) del: rlc_set_time.simps)
qed

text \<open>The UE of the stack.\<close>

definition mac_ue_at :: "int \<Rightarrow> nr_rlc_entity_um \<Rightarrow> ue_mac \<Rightarrow> bool" where
  "mac_ue_at r w m \<longleftrightarrow> mu_module_id m = 0 \<and> mu_gNB_index m = 0 \<and> mu_crnti m = r \<and> ra_manager (mu_rlc m) = one_ue False r (E_um w)"

text \<open>
  From a connected pair, the loop of the gNB ends with a list of PDUs and the UE takes them; then the two are a
  connected pair again, and what has left the queue of the gNB has come out at the UE.
\<close>

definition pair_moved ::
  "node \<Rightarrow> int \<Rightarrow> nr_rlc_entity_um \<Rightarrow> nr_rlc_entity_um \<Rightarrow> (nat \<times> byte list) list \<Rightarrow> nr_rlc_entity_um \<Rightarrow> bool" where
  "pair_moved un r t w ps t' \<longleftrightarrow>
     (\<forall>m. mac_ue_at r w m \<longrightarrow>
       (\<exists>w' D m'. ue_feed un ps m = Inr m' \<and> mac_ue_at r w' m' \<and> um_pair t' w' \<and> mu_ta m' = mu_ta m \<and>
         mu_rlc m' = (mu_rlc m)\<lparr>ra_manager := one_ue False r (E_um w'),
           ra_pdcp_ind := ra_pdcp_ind (mu_rlc m) @ map (rlc_item False r False 0) D\<rparr> \<and>
         D @ map fst (um_queue t') = map fst (um_queue t)))"

lemma pair_moved_none:
  assumes "um_pair t w"
  shows "pair_moved un r t w [] t"
  unfolding pair_moved_def
proof (intro allI impI)
  fix m
  assume m: "mac_ue_at r w m"
  then have "mu_rlc m = (mu_rlc m)\<lparr>ra_manager := one_ue False r (E_um w), ra_pdcp_ind := ra_pdcp_ind (mu_rlc m) @ map (rlc_item False r False 0) []\<rparr>"
    by (simp add: mac_ue_at_def)
  with m assms show "\<exists>w' D m'. ue_feed un [] m = Inr m' \<and> mac_ue_at r w' m' \<and> um_pair t w' \<and> mu_ta m' = mu_ta m \<and>
      mu_rlc m' = (mu_rlc m)\<lparr>ra_manager := one_ue False r (E_um w'),
        ra_pdcp_ind := ra_pdcp_ind (mu_rlc m) @ map (rlc_item False r False 0) D\<rparr> \<and>
      D @ map fst (um_queue t) = map fst (um_queue t)"
    by (intro exI [of _ w] exI [of _ "[]"] exI [of _ m]) simp
qed

text \<open>
  The result of a request does not depend on the UE: the PDU and the transmitter are the same for every time of
  the receiver.
\<close>

lemma um_pair_request:
  assumes "um_pair t w" "length b \<noteq> 2"
  obtains n b' t' where
    "rbind (rlc_set_time (E_um t) now) (\<lambda>rb. rbind (rlc_generate_pdu rb b) (\<lambda>(ret, b, rb). Inr (rb, (ret, b)))) =
       Inr (E_um t', (n, b'))" "um_out t' = []"
    "n = 0 \<Longrightarrow> um_pair t' w \<and> map fst (um_queue t') = map fst (um_queue t)"
    "\<And>now'. n \<noteq> 0 \<Longrightarrow> \<exists>w'. rbind (rlc_set_time (E_um w) now') (\<lambda>rb. rbind (rlc_recv_pdu rb (take (nat n) b')) (\<lambda>rb. Inr (rb, ()))) =
       Inr (E_um w', ()) \<and> um_pair t' (w'\<lparr>um_out := []\<rparr>) \<and> delivered (um_out w') @ map fst (um_queue t') = map fst (um_queue t)"
proof -
  let ?gen = "rbind (rlc_set_time (E_um t) now) (\<lambda>rb. rbind (rlc_generate_pdu rb b) (\<lambda>(ret, b, rb). Inr (rb, (ret, b))))"
  obtain n b' t' w0 where 1: "?gen = Inr (E_um t', (n, b'))" "um_out t' = []" "n = 0 \<longrightarrow> w0 = w"
    "um_pair t' (w0\<lparr>um_out := []\<rparr>)" "delivered (um_out w0) @ map fst (um_queue t') = map fst (um_queue t)"
    by (rule um_pair_grant [OF assms, of now 0])
  have out: "um_out w = []"
    using assms(1) by (simp add: um_pair_def)
  show thesis
  proof (rule that [OF 1(1,2)])
    show "um_pair t' w \<and> map fst (um_queue t') = map fst (um_queue t)" if "n = 0"
      using 1(3-5) that out by (simp add: um_out_clear)
    show "\<exists>w'. rbind (rlc_set_time (E_um w) now') (\<lambda>rb. rbind (rlc_recv_pdu rb (take (nat n) b')) (\<lambda>rb. Inr (rb, ()))) =
       Inr (E_um w', ()) \<and> um_pair t' (w'\<lparr>um_out := []\<rparr>) \<and> delivered (um_out w') @ map fst (um_queue t') = map fst (um_queue t)"
      if "n \<noteq> 0" for now'
    proof (rule um_pair_grant [OF assms, of now now'])
      fix n2 b2 t2 w2
      assume 2: "?gen = Inr (E_um t2, (n2, b2))"
        "n2 \<noteq> 0 \<longrightarrow> rbind (rlc_set_time (E_um w) now') (\<lambda>rb. rbind (rlc_recv_pdu rb (take (nat n2) b2)) (\<lambda>rb. Inr (rb, ()))) =
          Inr (E_um w2, ())" "um_pair t2 (w2\<lparr>um_out := []\<rparr>)" "delivered (um_out w2) @ map fst (um_queue t2) = map fst (um_queue t)"
      have eq: "t2 = t'" "n2 = n" "b2 = b'"
        using 1(1) 2(1) by (simp_all del: rlc_set_time.simps)
      show ?thesis
        using 2(2-4) that unfolding eq by blast
    qed
  qed
qed

lemma pair_moved_step:
  assumes recv: "\<And>now'. \<exists>w'. rbind (rlc_set_time (E_um w) now') (\<lambda>rb. rbind (rlc_recv_pdu rb p) (\<lambda>rb. Inr (rb, ()))) =
       Inr (E_um w', ()) \<and> um_pair t1 (w'\<lparr>um_out := []\<rparr>) \<and> delivered (um_out w') @ map fst (um_queue t1) = map fst (um_queue t)"
    and IH: "\<And>w. um_pair t1 w \<Longrightarrow> pair_moved un r t1 w ps t'"
  shows "pair_moved un r t w ((4, p) # ps) t'"
  unfolding pair_moved_def
proof (intro allI impI)
  fix m
  assume m: "mac_ue_at r w m"
  obtain w1 where w1: "rbind (rlc_set_time (E_um w) (ra_current_time (mu_rlc m))) (\<lambda>rb. rbind (rlc_recv_pdu rb p) (\<lambda>rb. Inr (rb, ()))) =
       Inr (E_um w1, ())" "um_pair t1 (w1\<lparr>um_out := []\<rparr>)" "delivered (um_out w1) @ map fst (um_queue t1) = map fst (um_queue t)"
    using recv by blast
  let ?s = "(mu_rlc m)\<lparr>ra_manager := one_ue False r (E_um (w1\<lparr>um_out := []\<rparr>)),
    ra_pdcp_ind := ra_pdcp_ind (mu_rlc m) @ map (rlc_item False r False 0) (delivered (um_out w1))\<rparr>"
  have "mac_rlc_data_ind un 0 r 0 False 4 p (mu_rlc m) = Inr ?s"
    by (rule ind_one [OF _ w1(1)]) (use m in \<open>simp add: mac_ue_at_def\<close>)
  then have feed: "ue_feed un ((4, p) # ps) m = ue_feed un ps (m\<lparr>mu_rlc := ?s\<rparr>)"
    using m by (simp add: mac_ue_at_def)
  have "mac_ue_at r (w1\<lparr>um_out := []\<rparr>) (m\<lparr>mu_rlc := ?s\<rparr>)"
    using m by (simp add: mac_ue_at_def)
  with IH [OF w1(2)] obtain w' D m' where 2: "ue_feed un ps (m\<lparr>mu_rlc := ?s\<rparr>) = Inr m'" "mac_ue_at r w' m'" "um_pair t' w'"
    "mu_ta m' = mu_ta m" "mu_rlc m' = ?s\<lparr>ra_manager := one_ue False r (E_um w'),
           ra_pdcp_ind := ra_pdcp_ind ?s @ map (rlc_item False r False 0) D\<rparr>" "D @ map fst (um_queue t') = map fst (um_queue t1)"
    unfolding pair_moved_def by force
  have "mu_rlc m' = (mu_rlc m)\<lparr>ra_manager := one_ue False r (E_um w'),
        ra_pdcp_ind := ra_pdcp_ind (mu_rlc m) @ map (rlc_item False r False 0) (delivered (um_out w1) @ D)\<rparr>"
    using 2(5) by simp
  moreover have "(delivered (um_out w1) @ D) @ map fst (um_queue t') = map fst (um_queue t)"
    using 2(6) w1(3) by simp
  ultimately show "\<exists>w' D m'. ue_feed un ((4, p) # ps) m = Inr m' \<and> mac_ue_at r w' m' \<and> um_pair t' w' \<and> mu_ta m' = mu_ta m \<and>
      mu_rlc m' = (mu_rlc m)\<lparr>ra_manager := one_ue False r (E_um w'),
        ra_pdcp_ind := ra_pdcp_ind (mu_rlc m) @ map (rlc_item False r False 0) D\<rparr> \<and>
      D @ map fst (um_queue t') = map fst (um_queue t)"
    unfolding feed using 2(1-4) by blast
qed

lemma request_idle:
  assumes "um_pair t w" "length b \<noteq> 2" "rbind (rlc_set_time (E_um t) now) (\<lambda>rb. rbind (rlc_generate_pdu rb b) (\<lambda>(ret, b, rb).
    Inr (rb, (ret, b)))) = Inr (E_um t1, (0, data))"
  shows "pair_moved un r t w [] t1"
proof -
  have "um_pair t1 w \<and> map fst (um_queue t1) = map fst (um_queue t)"
    by (rule um_pair_request [OF assms(1,2), of now]) (use assms(3) in \<open>simp del: rlc_set_time.simps\<close>)
  then show ?thesis
    using pair_moved_none [of t1 w un r] by (simp add: pair_moved_def)
qed

lemma request_recv:
  assumes "um_pair t w" "length b \<noteq> 2" "rbind (rlc_set_time (E_um t) now) (\<lambda>rb. rbind (rlc_generate_pdu rb b) (\<lambda>(ret, b, rb).
    Inr (rb, (ret, b)))) = Inr (E_um t1, (len, data))" "len \<noteq> 0"
  shows "\<exists>w'. rbind (rlc_set_time (E_um w) now') (\<lambda>rb. rbind (rlc_recv_pdu rb (take (nat len) data)) (\<lambda>rb. Inr (rb, ()))) =
       Inr (E_um w', ()) \<and> um_pair t1 (w'\<lparr>um_out := []\<rparr>) \<and> delivered (um_out w') @ map fst (um_queue t1) = map fst (um_queue t)"
  by (rule um_pair_request [OF assms(1,2), of now]) (use assms(3,4) in \<open>simp del: rlc_set_time.simps\<close>)

lemma dlsch_lc_pair:
  assumes "ra_manager s = one_ue True r (E_um t)" "um_pair t w0" "\<not> nd_is_cu gn" "\<not> nd_is_du gn"
    and "length rest < fuel" "2 \<notin> set (dlsch_lc_requests fuel gn r 4 n rest s)"
  shows "\<exists>out rest' k ps t'. dlsch_lc fuel gn r 4 n rest s = Inr (out, rest', k, s\<lparr>ra_manager := one_ue True r (E_um t')\<rparr>) \<and>
    out = concat (map mac_subpdu ps) \<and> length out + length rest' = length rest \<and> (\<forall>p \<in> set ps. fst p = 4) \<and>
    (\<forall>w. um_pair t w \<longrightarrow> pair_moved un r t w ps t')"
  using assms(1,2,5,6)
proof (induction fuel arbitrary: rest s t w0)
  case (Suc fuel)
  let ?d = "dl_ndata n (length rest - 3)"
  let ?b = "take ?d (drop 3 rest)" and ?now = "ra_current_time s"
  let ?gen = "rbind (rlc_set_time (E_um t) ?now) (\<lambda>rb. rbind (rlc_generate_pdu rb ?b) (\<lambda>(ret, b, rb). Inr (rb, (ret, b))))"
  show ?case
  proof (cases "length rest > 4")
    case False
    have "s = s\<lparr>ra_manager := one_ue True r (E_um t)\<rparr>"
      using Suc.prems(1) by simp
    then show ?thesis
      using False by (intro exI [of _ "[]"] exI [of _ rest] exI [of _ 0] exI [of _ t]) (simp add: pair_moved_none)
  next
    case True
    have d: "?d \<le> length rest - 3" "?d \<noteq> 2"
      using dl_ndata_le Suc.prems(4) True by (auto simp: Let_def)
    then have b: "length ?b = ?d" "length ?b \<noteq> 2"
      by simp_all
    obtain len data t1 where gen: "?gen = Inr (E_um t1, (len, data))" "um_out t1 = []"
      by (rule um_pair_request [OF Suc.prems(2) b(2), of ?now])
    note req = req_one [OF Suc.prems(1) assms(3,4) gen]
    have fit: "0 \<le> len" "nat len \<le> ?d" "length data = ?d"
      using mac_rlc_data_req_fits [OF req] b(1) by (auto simp: fits_def)
    show ?thesis
    proof (cases "len = 0")
      case len: True
      have moved: "pair_moved un r t w [] t1" if "um_pair t w" for w
        by (rule request_idle [OF that b(2) gen(1) [unfolded len]])
      have run: "dlsch_lc (Suc fuel) gn r 4 n rest s =
          Inr ([], take 3 rest @ data @ drop (3 + ?d) rest, 0, s\<lparr>ra_manager := one_ue True r (E_um t1)\<rparr>)"
        using True req len by simp
      show ?thesis
        unfolding run using True fit d moved by (intro exI [of _ "[]"] exI) (auto intro!: exI [of _ t1])
    next
      case False
      let ?rest = "drop (nat len) data @ drop (3 + ?d) rest" and ?s = "s\<lparr>ra_manager := one_ue True r (E_um t1)\<rparr>"
      obtain w1 where w1: "um_pair t1 w1"
        using request_recv [OF Suc.prems(2) b(2) gen(1) False] by blast
      have "length ?rest < fuel" "2 \<notin> set (dlsch_lc_requests fuel gn r 4 n ?rest ?s)"
        using Suc.prems(3,4) True fit d req False by (auto simp: Let_def)
      from Suc.IH [OF _ w1 this] obtain out rest' k ps t' where
        IH: "dlsch_lc fuel gn r 4 n ?rest ?s = Inr (out, rest', k, ?s\<lparr>ra_manager := one_ue True r (E_um t')\<rparr>)"
        "out = concat (map mac_subpdu ps)" "length out + length rest' = length ?rest" "\<forall>p \<in> set ps. fst p = 4"
        "\<forall>w. um_pair t1 w \<longrightarrow> pair_moved un r t1 w ps t'"
        by auto
      let ?p = "(4 :: nat, take (nat len) data)"
      have run: "dlsch_lc (Suc fuel) gn r 4 n rest s = Inr (concat (map mac_subpdu (?p # ps)), rest', len + k,
          s\<lparr>ra_manager := one_ue True r (E_um t')\<rparr>)"
        using True req False IH(1,2) fit by (simp add: mac_subpdu_def)
      have "pair_moved un r t w (?p # ps) t'" if "um_pair t w" for w
        using pair_moved_step [OF request_recv [OF that b(2) gen(1) False]] IH(5) by blast
      moreover have "length (concat (map mac_subpdu (?p # ps))) + length rest' = length rest"
        using IH(2,3) fit d True by (simp add: mac_subpdu_def)
      ultimately show ?thesis
        unfolding run using IH(4) by (intro exI [of _ "?p # ps"] exI [of _ t'] exI) auto
    qed
  qed
qed simp

section \<open>A block in the stack\<close>

text \<open>
  The two nodes with their MAC layers. The RLC layer of the UE is in the node; \<^const>\<open>mu_rlc\<close> holds a copy only
  while a block is processed.
\<close>

record mac_nodes =
  mn_gnb :: l2_node
  mn_ue :: l2_node
  mn_dl :: mac_dl_ue
  mn_mac :: ue_mac

text \<open>
  A slot with an initial transmission: the scheduler asks RLC for the buffer status and fills a block of
  \<open>length tb\<close> bytes; the UE receives it. What RLC indicates goes to the queue of PDCP.
\<close>

definition mac_block :: "node \<Rightarrow> node \<Rightarrow> nat \<Rightarrow> ce_stack \<Rightarrow> int \<Rightarrow> int \<Rightarrow> byte list \<Rightarrow> mac_nodes \<Rightarrow> mac_nodes res" where
  "mac_block gn un N junk tag_Id frame tb x =
     rbind (nr_store_dlsch_buffer gn [mn_dl x] (l2_rlc (mn_gnb x))) (\<lambda>(us, rlc).
     rbind (dlsch_initial_transmission gn junk tag_Id False (\<lambda>_. 0) frame tb (hd us) rlc) (\<lambda>(tb, dl, rlc).
     rbind (nr_ue_process_mac_pdu un N frame (length tb) tb ((mn_mac x)\<lparr>mu_rlc := l2_rlc (mn_ue x)\<rparr>)) (\<lambda>m.
       Inr \<lparr>mn_gnb = l2_forward rlc (mn_gnb x), mn_ue = l2_forward (mu_rlc m) (mn_ue x), mn_dl = dl, mn_mac = m\<rparr>)))"

text \<open>The sizes of the requests to RLC in such a slot.\<close>

definition mac_block_requests :: "node \<Rightarrow> ce_stack \<Rightarrow> int \<Rightarrow> byte list \<Rightarrow> mac_nodes \<Rightarrow> nat list" where
  "mac_block_requests gn junk tag_Id tb x =
     (case nr_store_dlsch_buffer gn [mn_dl x] (l2_rlc (mn_gnb x)) of
        Inl _ \<Rightarrow> []
      | Inr (us, rlc) \<Rightarrow>
          let rest = drop (if du_ta_apply (mn_dl x) then 2 else 0) tb
          in dlsch_lc_requests (Suc (length rest)) gn (du_rnti (hd us)) 4
               (sr_bytes_in_buffer (du_rlc_status (hd us) 4)) rest rlc)"

text \<open>MAC serves the default bearer of the UE and has nothing else to send but timing advances.\<close>

definition mac_at :: "int \<Rightarrow> mac_nodes \<Rightarrow> bool" where
  "mac_at r x \<longleftrightarrow> du_rnti (mn_dl x) = r \<and> du_dl_lc_ids (mn_dl x) = [4] \<and> du_mac_ce_ctrl (mn_dl x) = no_ces \<and>
     du_ta_update (mn_dl x) < 64 \<and> mu_module_id (mn_mac x) = 0 \<and> mu_gNB_index (mn_mac x) = 0 \<and> mu_crnti (mn_mac x) = r"

text \<open>The buffer status only sets the time of the entity.\<close>

lemma store_at:
  assumes m: "ra_manager s = one_ue True r (E_um t)" and "um_pair t w" "\<not> nd_is_cu gn" "\<not> nd_is_du gn"
    and "du_rnti u = r" "du_dl_lc_ids u = [4]"
  obtains u' t' where "nr_store_dlsch_buffer gn [u] s = Inr ([u'], s\<lparr>ra_manager := one_ue True r (E_um t')\<rparr>)"
    "\<And>w. um_pair t w \<Longrightarrow> um_pair t' w" "um_queue t' = um_queue t" "du_rnti u' = r" "du_dl_lc_ids u' = [4]"
    "du_mac_ce_ctrl u' = du_mac_ce_ctrl u" "du_ta_apply u' = du_ta_apply u" "du_ta_update u' = du_ta_update u"
proof -
  let ?t = "t\<lparr>um_t_current := ra_current_time s\<rparr>"
  have "\<not> (True \<and> (nd_is_cu gn \<or> nd_is_du gn))"
    using assms(3,4) by simp
  note on = rlc_on_rb_one [OF m this]
  have idle: "um_t_reassembly_start t = 0" "um_out t = []"
    using assms(2) by (simp_all add: um_pair_def)
  show thesis
  proof (cases "du_rrc_processing_timer u > 0")
    case True
    have "nr_store_dlsch_buffer gn [u] s = Inr ([u\<lparr>du_num_total_bytes := 0, du_dl_pdus_total := 0\<rparr>], s\<lparr>ra_manager := one_ue True r (E_um t)\<rparr>)"
      using True assms(5,6) m by simp
    then show thesis
      by (rule that) (use assms(5,6) in simp_all)
  next
    case False
    obtain st where st: "mac_rlc_status_ind gn r 4 s = Inr (st, s\<lparr>ra_manager := one_ue True r (E_um ?t)\<rparr>)"
      using idle by (simp add: mac_rlc_status_ind_def rlc_bytes_in_buffer_def channel_slot_def on um_set_time_idle Let_def um_out_clear)
    have "\<exists>u'. nr_store_dlsch_buffer gn [u] s = Inr ([u'], s\<lparr>ra_manager := one_ue True r (E_um ?t)\<rparr>) \<and>
        du_rnti u' = r \<and> du_dl_lc_ids u' = [4] \<and> du_mac_ce_ctrl u' = du_mac_ce_ctrl u \<and>
        du_ta_apply u' = du_ta_apply u \<and> du_ta_update u' = du_ta_update u"
      using False assms(5,6) st by (cases "sr_bytes_in_buffer st = 0") (auto simp: Let_def)
    then show thesis
      using that by (auto simp: um_pair_def)
  qed
qed

lemma no_ces_block:
  assumes "\<And>c. ta = Some c \<Longrightarrow> c < 64"
  obtains ces where "nr_write_ce_dlsch_pdu junk tag_Id ta no_ces 255 None = Inr ces"
    "length ces = (if ta = None then 0 else 2)"
  using assms that by (cases ta) (simp_all add: nr_write_ce_dlsch_pdu_def no_ces_def ce_opt_def ce_ta_def)

text \<open>The timing advance and the rest of the MAC state of the UE do not matter to RLC.\<close>

lemma ue_ta_rlc [simp]: "mac_ue_at r w (ue_ta j g ta m) = mac_ue_at r w m" "mu_rlc (ue_ta j g ta m) = mu_rlc m"
  by (simp_all add: ue_ta_def mac_ue_at_def split: option.splits)

text \<open>The data of a block, from a connected pair.\<close>

lemma dlsch_data_pair:
  assumes m: "ra_manager s = one_ue True r (E_um t)" and pair: "um_pair t w0" and node: "\<not> nd_is_cu gn" "\<not> nd_is_du gn"
    and u: "du_rnti u = r" "du_dl_lc_ids u = [4]"
    and two: "2 \<notin> set (dlsch_lc_requests (Suc (length rest)) gn r 4 (sr_bytes_in_buffer (du_rlc_status u 4)) rest s)"
  shows "\<exists>out rest' c ps t'. (if du_num_total_bytes u > 0 then dlsch_lcs gn (du_dl_lc_ids u) u rest s
      else if False then Inr (fst (dlsch_random rnd rest), snd (dlsch_random rnd rest), u, s)
      else Inr ([], rest, u, s)) = Inr (out, rest', u\<lparr>du_lc_bytes := c\<rparr>, s\<lparr>ra_manager := one_ue True r (E_um t')\<rparr>) \<and>
    out = concat (map mac_subpdu ps) \<and> length out + length rest' = length rest \<and> (\<forall>p \<in> set ps. fst p = 4) \<and>
    (\<forall>w. um_pair t w \<longrightarrow> pair_moved un r t w ps t')"
proof (cases "du_num_total_bytes u > 0 \<and> sr_bytes_in_buffer (du_rlc_status u 4) \<noteq> 0")
  case True
  from dlsch_lc_pair [OF m pair node _ two, of un] obtain out rest' k ps t' where
    1: "dlsch_lc (Suc (length rest)) gn r 4 (sr_bytes_in_buffer (du_rlc_status u 4)) rest s =
      Inr (out, rest', k, s\<lparr>ra_manager := one_ue True r (E_um t')\<rparr>)"
    and 2: "out = concat (map mac_subpdu ps)" "length out + length rest' = length rest" "\<forall>p \<in> set ps. fst p = 4"
      "\<forall>w. um_pair t w \<longrightarrow> pair_moved un r t w ps t'"
    by blast
  have "\<exists>c. dlsch_lcs gn (du_dl_lc_ids u) u rest s = Inr (out, rest', u\<lparr>du_lc_bytes := c\<rparr>, s\<lparr>ra_manager := one_ue True r (E_um t')\<rparr>)"
    using True 1 u by (simp add: Let_def del: dlsch_lc.simps) blast
  then show ?thesis
    using True 2 by auto
next
  case False
  have "s\<lparr>ra_manager := one_ue True r (E_um t)\<rparr> = s"
    using m by simp
  then have "(if du_num_total_bytes u > 0 then dlsch_lcs gn (du_dl_lc_ids u) u rest s
      else if False then Inr (fst (dlsch_random rnd rest), snd (dlsch_random rnd rest), u, s)
      else Inr ([], rest, u, s)) = Inr ([], rest, u\<lparr>du_lc_bytes := du_lc_bytes u\<rparr>, s\<lparr>ra_manager := one_ue True r (E_um t)\<rparr>)"
    using False u(2) by (auto simp: Let_def simp del: dlsch_lc.simps)
  then show ?thesis
    using pair_moved_none
    by (intro exI [of _ "[]"] exI [of _ rest] exI [of _ "du_lc_bytes u"] exI [of _ "[]"] exI [of _ t] conjI) simp_all
qed

text \<open>What the gNB sends and what the UE does with it.\<close>

lemma block_pair:
  assumes m: "ra_manager s = one_ue True r (E_um t)" and pair: "um_pair t w" and node: "\<not> nd_is_cu gn" "\<not> nd_is_du gn"
    and u: "du_rnti u = r" "du_dl_lc_ids u = [4]" "du_mac_ce_ctrl u = no_ces" "du_ta_update u < 64"
    and N: "4 < N" "N \<le> 0x2F" and tb: "2 < length tb" "length tb \<le> 65536"
    and two: "2 \<notin> set (dlsch_lc_requests (Suc (length (drop (if du_ta_apply u then 2 else 0) tb))) gn r 4
      (sr_bytes_in_buffer (du_rlc_status u 4)) (drop (if du_ta_apply u then 2 else 0) tb) s)"
  shows "\<exists>tb' u' t'. dlsch_initial_transmission gn junk tag_Id False rnd frame tb u s =
      Inr (tb', u', s\<lparr>ra_manager := one_ue True r (E_um t')\<rparr>) \<and>
    du_rnti u' = r \<and> du_dl_lc_ids u' = [4] \<and> du_mac_ce_ctrl u' = no_ces \<and> du_ta_update u' < 64 \<and>
    (\<forall>m. mac_ue_at r w m \<longrightarrow>
      (\<exists>w' D m'. nr_ue_process_mac_pdu un N frame (length tb') tb' m = Inr m' \<and> mac_ue_at r w' m' \<and> um_pair t' w' \<and>
        mu_rlc m' = (mu_rlc m)\<lparr>ra_manager := one_ue False r (E_um w'),
          ra_pdcp_ind := ra_pdcp_ind (mu_rlc m) @ map (rlc_item False r False 0) D\<rparr> \<and>
        D @ map fst (um_queue t') = map fst (um_queue t)))"
proof -
  let ?ta = "if du_ta_apply u then Some (du_ta_update u) else None"
  obtain ces where ces: "nr_write_ce_dlsch_pdu junk tag_Id ?ta no_ces 255 None = Inr ces" "length ces = (if ?ta = None then 0 else 2)"
    by (rule no_ces_block [of ?ta]) (use u(4) in \<open>auto split: if_splits\<close>)
  let ?rest = "drop (length ces) tb"
  have len: "length ces = (if du_ta_apply u then 2 else 0)" "length tb > length ces"
    using ces(2) tb(1) by (auto split: if_splits)
  obtain out rest' c ps t' where 1: "(if du_num_total_bytes u > 0 then dlsch_lcs gn (du_dl_lc_ids u) u ?rest s
      else if False then Inr (fst (dlsch_random rnd ?rest), snd (dlsch_random rnd ?rest), u, s)
      else Inr ([], ?rest, u, s)) = Inr (out, rest', u\<lparr>du_lc_bytes := c\<rparr>, s\<lparr>ra_manager := one_ue True r (E_um t')\<rparr>)"
    and 2: "out = concat (map mac_subpdu ps)" "length out + length rest' = length ?rest" "\<forall>p \<in> set ps. fst p = 4"
      "\<forall>w. um_pair t w \<longrightarrow> pair_moved un r t w ps t'"
    using dlsch_data_pair [OF m pair node u(1,2) two, of rnd un] unfolding len(1) by blast
  let ?tb = "ces @ out @ dlsch_padding (length rest')"
  obtain u' where sent: "dlsch_initial_transmission gn junk tag_Id False rnd frame tb u s = Inr (?tb, u', s\<lparr>ra_manager := one_ue True r (E_um t')\<rparr>)"
    and u': "du_rnti u' = r" "du_dl_lc_ids u' = [4]" "du_mac_ce_ctrl u' = no_ces" "du_ta_update u' < 64"
    using ces(1) len(2) u unfolding dlsch_initial_transmission_def u(3) ces(1) rbind_Inr Let_def 1
    by (cases "du_ta_apply u") (simp_all add: u(3))
  have "\<forall>(lcid, pdu) \<in> set ps. 1 \<le> lcid \<and> lcid < N \<and> length pdu < 65536"
    using 2(1-3) N(1) subpdu_length [of _ ps] tb(2) by fastforce
  note sdus = process_sdus [OF this N(2), folded 2(1)]
  have l: "length ?tb = length ces + (length out + length (dlsch_padding (length rest')))"
    by simp
  have read: "nr_ue_process_mac_pdu un N frame (length ?tb) ?tb m = ue_feed un ps (ue_ta (cs_ta junk) tag_Id ?ta m)" for m
    unfolding l process_ces [OF ces(1), of un N frame, simplified ces_readable_def no_ces_def, simplified]
    using process_padding [of un N frame "length rest'" "[]"] by (simp add: sdus rbind_def split: sum.splits)
  have rx: "\<exists>w' D m'. nr_ue_process_mac_pdu un N frame (length ?tb) ?tb m = Inr m' \<and> mac_ue_at r w' m' \<and> um_pair t' w' \<and>
        mu_rlc m' = (mu_rlc m)\<lparr>ra_manager := one_ue False r (E_um w'),
          ra_pdcp_ind := ra_pdcp_ind (mu_rlc m) @ map (rlc_item False r False 0) D\<rparr> \<and>
        D @ map fst (um_queue t') = map fst (um_queue t)" if at: "mac_ue_at r w m" for m
  proof -
    have "mac_ue_at r w (ue_ta (cs_ta junk) tag_Id ?ta m)"
      using at by simp
    then show ?thesis
      using 2(4) pair unfolding read pair_moved_def by (metis ue_ta_rlc(2))
  qed
  show ?thesis
    using sent u' rx by blast
qed

lemma mac_block_at:
  assumes at: "l2_at r ps d X Z e f t w (mn_gnb x) (mn_ue x)" and mac: "mac_at r x"
    and node: "\<not> nd_is_cu gn" "\<not> nd_is_du gn" and N: "4 < N" "N \<le> 0x2F" and tb: "2 < length tb" "length tb \<le> 65536"
    and two: "2 \<notin> set (mac_block_requests gn junk tag_Id tb x)"
  shows "\<exists>x' X' t' w'. mac_block gn un N junk tag_Id frame tb x = Inr x' \<and> mac_at r x' \<and>
    l2_at r ps d X' Z e f t' w' (mn_gnb x') (mn_ue x')"
proof -
  let ?g = "mn_gnb x" and ?u = "mn_ue x"
  have m: "ra_manager (l2_rlc ?g) = one_ue True r (E_um t)" "ra_manager (l2_rlc ?u) = one_ue False r (E_um w)" and pair: "um_pair t w"
    and ind: "ra_pdcp_ind (l2_rlc ?g) = []" "ra_pdcp_ind (l2_rlc ?u) = []"
    using at by (simp_all add: l2_at_def)
  have dl: "du_rnti (mn_dl x) = r" "du_dl_lc_ids (mn_dl x) = [4]" "du_mac_ce_ctrl (mn_dl x) = no_ces" "du_ta_update (mn_dl x) < 64"
    using mac by (simp_all add: mac_at_def)
  obtain u1 t1 where 1: "nr_store_dlsch_buffer gn [mn_dl x] (l2_rlc ?g) = Inr ([u1], (l2_rlc ?g)\<lparr>ra_manager := one_ue True r (E_um t1)\<rparr>)"
    "um_pair t1 w" "um_queue t1 = um_queue t" "du_rnti u1 = r" "du_dl_lc_ids u1 = [4]" "du_mac_ce_ctrl u1 = no_ces"
    "du_ta_apply u1 = du_ta_apply (mn_dl x)" "du_ta_update u1 < 64"
    by (rule store_at [OF m(1) pair node dl(1,2)]) (use pair dl(3,4) in simp)
  let ?s = "(l2_rlc ?g)\<lparr>ra_manager := one_ue True r (E_um t1)\<rparr>"
  have "2 \<notin> set (dlsch_lc_requests (Suc (length (drop (if du_ta_apply u1 then 2 else 0) tb))) gn r 4
      (sr_bytes_in_buffer (du_rlc_status u1 4)) (drop (if du_ta_apply u1 then 2 else 0) tb) ?s)"
    using two 1 by (simp add: mac_block_requests_def Let_def del: dlsch_lc_requests.simps)
  from block_pair [OF _ 1(2) node 1(4-6,8) N tb this, of junk tag_Id "\<lambda>_. 0" frame un]
  obtain tb' u2 t2 where 2: "dlsch_initial_transmission gn junk tag_Id False (\<lambda>_. 0) frame tb u1 ?s =
      Inr (tb', u2, ?s\<lparr>ra_manager := one_ue True r (E_um t2)\<rparr>)"
    "du_rnti u2 = r" "du_dl_lc_ids u2 = [4]" "du_mac_ce_ctrl u2 = no_ces" "du_ta_update u2 < 64"
    and rx: "\<And>m. mac_ue_at r w m \<Longrightarrow> \<exists>w' D m'. nr_ue_process_mac_pdu un N frame (length tb') tb' m = Inr m' \<and> mac_ue_at r w' m' \<and>
      um_pair t2 w' \<and> mu_rlc m' = (mu_rlc m)\<lparr>ra_manager := one_ue False r (E_um w'),
        ra_pdcp_ind := ra_pdcp_ind (mu_rlc m) @ map (rlc_item False r False 0) D\<rparr> \<and>
      D @ map fst (um_queue t2) = map fst (um_queue t1)"
    by auto
  let ?m = "(mn_mac x)\<lparr>mu_rlc := l2_rlc ?u\<rparr>"
  have "mac_ue_at r w ?m"
    using mac m(2) by (simp add: mac_at_def mac_ue_at_def)
  from rx [OF this] obtain w' D m' where 3: "nr_ue_process_mac_pdu un N frame (length tb') tb' ?m = Inr m'" "mac_ue_at r w' m'"
    "um_pair t2 w'" "mu_rlc m' = (l2_rlc ?u)\<lparr>ra_manager := one_ue False r (E_um w'), ra_pdcp_ind := map (rlc_item False r False 0) D\<rparr>"
    "D @ map fst (um_queue t2) = map fst (um_queue t)"
    using ind(2) 1(3) by auto
  let ?x = "\<lparr>mn_gnb = ?g\<lparr>l2_rlc := (l2_rlc ?g)\<lparr>ra_manager := one_ue True r (E_um t2)\<rparr>\<rparr>,
    mn_ue = ?u\<lparr>l2_pdcp := (l2_pdcp ?u)\<lparr>pa_ind_queue := map (rlc_item False r False 0) (X @ D)\<rparr>,
      l2_rlc := (l2_rlc ?u)\<lparr>ra_manager := one_ue False r (E_um w')\<rparr>\<rparr>, mn_dl = u2, mn_mac = m'\<rparr>"
  have "mac_block gn un N junk tag_Id frame tb x = Inr ?x"
    unfolding mac_block_def 1(1) rbind_Inr prod.case list.sel 2(1) 3(1)
    using at ind by (simp add: 3(4) l2_forward_def fold_indicate l2_at_def)
  moreover have "mac_at r ?x"
    using 2(2-5) 3(2) by (simp add: mac_at_def mac_ue_at_def)
  moreover have "X @ map fst (um_queue t) @ Z = (X @ D) @ map fst (um_queue t2) @ Z"
    using 3(5) by simp
  then have "l2_at r ps d (X @ D) Z e f t2 w' (mn_gnb ?x) (mn_ue ?x)"
    using at 3(3) by (simp add: l2_at_def)
  ultimately show ?thesis
    by blast
qed

section \<open>Runs\<close>

text \<open>An event of the stack, or a transport block of a slot, with what the stack of the scheduler holds.\<close>

datatype mac_event = L2 l2_event | Block ce_stack int "byte list"

fun mac_step :: "crypto \<Rightarrow> node \<Rightarrow> node \<Rightarrow> int \<Rightarrow> nat \<Rightarrow> int \<Rightarrow> mac_nodes \<Rightarrow> mac_event \<Rightarrow> mac_nodes res" where
  "mac_step C gn un r N tag_Id x (L2 ev) =
     rbind (l2_step C gn un r (mn_gnb x, mn_ue x) ev) (\<lambda>(g, u). Inr (x\<lparr>mn_gnb := g, mn_ue := u\<rparr>))"
| "mac_step C gn un r N tag_Id x (Block junk frame tb) = mac_block gn un N junk tag_Id frame tb x"

fun mac_run :: "crypto \<Rightarrow> node \<Rightarrow> node \<Rightarrow> int \<Rightarrow> nat \<Rightarrow> int \<Rightarrow> mac_nodes \<Rightarrow> mac_event list \<Rightarrow> mac_nodes res" where
  "mac_run C gn un r N tag_Id x [] = Inr x"
| "mac_run C gn un r N tag_Id x (ev # evs) = rbind (mac_step C gn un r N tag_Id x ev) (\<lambda>x. mac_run C gn un r N tag_Id x evs)"

fun mac_packets :: "mac_event list \<Rightarrow> byte list list" where
  "mac_packets [] = []"
| "mac_packets (L2 ev # evs) = packets [ev] @ mac_packets evs"
| "mac_packets (Block junk frame tb # evs) = mac_packets evs"

text \<open>
  What is allowed in a state: the events of the stack as before, and blocks for which MAC does not ask RLC for
  exactly two bytes. A run is guarded if each of its events is allowed in the state it meets.
\<close>

fun mac_event_ok :: "node \<Rightarrow> int \<Rightarrow> mac_nodes \<Rightarrow> mac_event \<Rightarrow> bool" where
  "mac_event_ok gn tag_Id x (L2 ev) \<longleftrightarrow> l2_event_ok ev"
| "mac_event_ok gn tag_Id x (Block junk frame tb) \<longleftrightarrow>
     2 < length tb \<and> length tb \<le> 65536 \<and> 2 \<notin> set (mac_block_requests gn junk tag_Id tb x)"

fun mac_guarded :: "crypto \<Rightarrow> node \<Rightarrow> node \<Rightarrow> int \<Rightarrow> nat \<Rightarrow> int \<Rightarrow> mac_nodes \<Rightarrow> mac_event list \<Rightarrow> bool" where
  "mac_guarded C gn un r N tag_Id x [] \<longleftrightarrow> True"
| "mac_guarded C gn un r N tag_Id x (ev # evs) \<longleftrightarrow> mac_event_ok gn tag_Id x ev \<and>
     (case mac_step C gn un r N tag_Id x ev of Inl _ \<Rightarrow> True | Inr x \<Rightarrow> mac_guarded C gn un r N tag_Id x evs)"

definition mac_inv :: "int \<Rightarrow> byte list list \<Rightarrow> mac_nodes \<Rightarrow> bool" where
  "mac_inv r ps x \<longleftrightarrow> mac_at r x \<and> (\<exists>d X Z e f t w. l2_at r ps d X Z e f t w (mn_gnb x) (mn_ue x))"

lemma mac_step_inv:
  assumes inv: "mac_inv r ps x" and ok: "packets_ok (ps @ mac_packets [ev])" "mac_event_ok gn tag_Id x ev"
    and env: "crypto_ok C" "r \<noteq> -1" "\<not> nd_is_cu gn" "\<not> nd_is_du gn" and N: "4 < N" "N \<le> 0x2F"
  obtains x' where "mac_step C gn un r N tag_Id x ev = Inr x'" "mac_inv r (ps @ mac_packets [ev]) x'"
proof (cases ev)
  case (L2 a)
  obtain d X Z e f t w where at: "l2_at r ps d X Z e f t w (mn_gnb x) (mn_ue x)"
    using inv by (auto simp: mac_inv_def)
  have "packets_ok (ps @ packets [a])" "l2_event_ok a"
    using ok L2 by simp_all
  from at_step [OF at this env, of un] obtain d' X' Z' e' f' t' w' g' u' where
    1: "l2_step C gn un r (mn_gnb x, mn_ue x) a = Inr (g', u')" "l2_at r (ps @ packets [a]) d' X' Z' e' f' t' w' g' u'"
    by blast
  have "mac_at r (x\<lparr>mn_gnb := g', mn_ue := u'\<rparr>)"
    using inv by (simp add: mac_inv_def mac_at_def)
  then have "mac_inv r (ps @ mac_packets [ev]) (x\<lparr>mn_gnb := g', mn_ue := u'\<rparr>)"
    using 1(2) L2 by (simp add: mac_inv_def) blast
  then show thesis
    using that 1(1) L2 by simp
next
  case (Block junk frame tb)
  obtain d X Z e f t w where at: "l2_at r ps d X Z e f t w (mn_gnb x) (mn_ue x)" "mac_at r x"
    using inv by (auto simp: mac_inv_def)
  have "2 < length tb" "length tb \<le> 65536" "2 \<notin> set (mac_block_requests gn junk tag_Id tb x)"
    using ok(2) Block by simp_all
  from mac_block_at [OF at env(3,4) N this, of un frame] obtain x' where
    "mac_block gn un N junk tag_Id frame tb x = Inr x'" "mac_inv r ps x'"
    unfolding mac_inv_def by blast
  then show thesis
    using that Block by simp
qed

lemma mac_packets_Cons: "mac_packets (ev # evs) = mac_packets [ev] @ mac_packets evs"
  by (cases ev) simp_all

lemma mac_run_inv:
  assumes "mac_inv r ps x" "packets_ok (ps @ mac_packets evs)" "mac_guarded C gn un r N tag_Id x evs"
    and env: "crypto_ok C" "r \<noteq> -1" "\<not> nd_is_cu gn" "\<not> nd_is_du gn" and N: "4 < N" "N \<le> 0x2F"
  shows "\<exists>x'. mac_run C gn un r N tag_Id x evs = Inr x' \<and> mac_inv r (ps @ mac_packets evs) x'"
  using assms(1-3)
proof (induction evs arbitrary: ps x)
  case (Cons ev evs)
  note pk = mac_packets_Cons [of ev evs]
  have ok: "packets_ok (ps @ mac_packets [ev])" "mac_event_ok gn tag_Id x ev"
    using Cons.prems(2,3) packets_ok_append [of "ps @ mac_packets [ev]" "mac_packets evs"] by (simp_all add: pk)
  obtain x1 where 1: "mac_step C gn un r N tag_Id x ev = Inr x1" "mac_inv r (ps @ mac_packets [ev]) x1"
    by (rule mac_step_inv [OF Cons.prems(1) ok env N, of un])
  have "packets_ok ((ps @ mac_packets [ev]) @ mac_packets evs)" "mac_guarded C gn un r N tag_Id x1 evs"
    using Cons.prems(2,3) 1(1) by (simp_all add: pk del: mac_step.simps)
  from Cons.IH [OF 1(2) this] show ?case
    using 1(1) by (simp add: pk del: mac_step.simps)
qed simp

lemma mac_guarded_append:
  "mac_guarded C gn un r N tag_Id x (as @ bs) \<longleftrightarrow> mac_guarded C gn un r N tag_Id x as \<and>
     (case mac_run C gn un r N tag_Id x as of Inl _ \<Rightarrow> True | Inr x \<Rightarrow> mac_guarded C gn un r N tag_Id x bs)"
proof (induction as arbitrary: x)
  case (Cons a as)
  then show ?case
    by (cases "mac_step C gn un r N tag_Id x a") (simp_all del: mac_step.simps)
qed simp

lemma mac_guarded_L2: "\<forall>ev \<in> set evs. l2_event_ok ev \<Longrightarrow> mac_guarded C gn un r N tag_Id x (map L2 evs)"
  by (induction evs arbitrary: x) (auto split: sum.splits)

text \<open>
  C3: the stack with transport blocks loses nothing. A gNB and a UE start with the default bearer; MAC serves the
  bearer with transport blocks of 3 to 65536 bytes, with a timing advance where one is due. Packets come in, blocks are
  sent, threads run, subframes begin and timers wake up, in any order, and MAC never asks RLC for exactly two
  bytes. No step fails. What the UE has passed up is the beginning of what came in, in order and unaltered, and
  the remaining packets are, in order and behind a PDCP header of three bytes each, in the queue to PDCP at the
  UE, in the transmission queue of RLC and in the queue to RLC at the gNB.
\<close>

theorem mac_stack_lossless:
  assumes "crypto_ok C" "r \<noteq> -1" "\<not> nd_is_cu gn" "\<not> nd_is_du gn" and "4 < N" "N \<le> 0x2F"
    and "l2_start C gn True r = Inr g" and "l2_start C un False r = Inr u"
    and "mac_at r \<lparr>mn_gnb = g, mn_ue = u, mn_dl = dl, mn_mac = m\<rparr>"
    and "mac_guarded C gn un r N tag_Id \<lparr>mn_gnb = g, mn_ue = u, mn_dl = dl, mn_mac = m\<rparr> evs" and "packets_ok (mac_packets evs)"
  shows "\<exists>x t d. mac_run C gn un r N tag_Id \<lparr>mn_gnb = g, mn_ue = u, mn_dl = dl, mn_mac = m\<rparr> evs = Inr x \<and>
    pa_msgs (l2_pdcp (mn_ue x)) = map (\<lambda>p. Sdap_msg (To_nas p)) (take d (mac_packets evs)) \<and>
    manager_table (ra_manager (l2_rlc (mn_gnb x))) r = Some (drb1_ue r (E_um t)) \<and>
    map (drop 3) (map pq_sdu (pa_ind_queue (l2_pdcp (mn_ue x))) @ map fst (um_queue t) @
      map rq_sdu (pa_rlc_queue (l2_pdcp (mn_gnb x)))) = drop d (mac_packets evs)"
proof -
  let ?x = "\<lparr>mn_gnb = g, mn_ue = u, mn_dl = dl, mn_mac = m\<rparr>"
  obtain e f t g' u' where "l2_start C gn True r = Inr g'" "l2_start C un False r = Inr u'" "l2_at r [] 0 [] [] e f t t g' u'"
    by (rule l2_started)
  then have "mac_inv r [] ?x"
    using assms(7-9) by (simp add: mac_inv_def) blast
  from mac_run_inv [OF this _ assms(10,1-6)] assms(11) obtain x where
    1: "mac_run C gn un r N tag_Id ?x evs = Inr x" "mac_inv r (mac_packets evs) x"
    by auto
  then obtain d X Z e f t w where at: "l2_at r (mac_packets evs) d X Z e f t w (mn_gnb x) (mn_ue x)"
    by (auto simp: mac_inv_def)
  have "manager_table (ra_manager (l2_rlc (mn_gnb x))) r = Some (drb1_ue r (E_um t))"
    "pa_msgs (l2_pdcp (mn_ue x)) = map (\<lambda>p. Sdap_msg (To_nas p)) (take d (mac_packets evs))"
    using at by (simp_all add: l2_at_def one_ue_def manager_table_def drb1_ue_def)
  then show ?thesis
    using 1(1) at_under_way [OF at] by blast
qed

definition mac_sample_nodes :: "mac_nodes res" where
  "mac_sample_nodes =
     rbind (l2_start xor_crypto rlc_sample_node True 7) (\<lambda>g. rbind (l2_start xor_crypto rlc_sample_node False 7) (\<lambda>u.
       Inr \<lparr>mn_gnb = g, mn_ue = u, mn_dl = mac_sample_ue, mn_mac = mac_sample_mac rlc_start\<rparr>))"

definition mac_sample_block :: mac_event where
  "mac_sample_block = Block \<lparr>cs_ta = 0, cs_csi = 0\<rparr> 0 (replicate 24 0)"

theorem mac_stack_lossless_witness:
  "\<exists>x x' d. mac_sample_nodes = Inr x \<and>
     mac_run xor_crypto rlc_sample_node rlc_sample_node 7 14 0 x
       (map L2 [Tun_packet [1, 2, 3], Rlc_thread] @ [mac_sample_block] @ map L2 [Ind_thread]) = Inr x' \<and>
     pa_msgs (l2_pdcp (mn_ue x')) = map (\<lambda>p. Sdap_msg (To_nas p)) (take d [[1, 2, 3]])"
proof -
  let ?n = rlc_sample_node and ?as = "map L2 [Tun_packet [1, 2, 3], Rlc_thread]" and ?bs = "map L2 [Ind_thread]"
  let ?guarded = "mac_guarded xor_crypto ?n ?n 7 14 0" and ?run = "mac_run xor_crypto ?n ?n 7 14 0"
  have "case mac_sample_nodes of Inl _ \<Rightarrow> False | Inr x \<Rightarrow> (case mac_run xor_crypto rlc_sample_node rlc_sample_node 7 14 0 x
      [L2 (Tun_packet [1, 2, 3]), L2 Rlc_thread] of Inl _ \<Rightarrow> False | Inr x \<Rightarrow>
      mac_block_requests rlc_sample_node \<lparr>cs_ta = 0, cs_csi = 0\<rparr> 0 (replicate 24 0) x = [7, 7])"
    by code_simp
  then obtain x x1 where x: "mac_sample_nodes = Inr x" and x1: "?run x ?as = Inr x1"
    "mac_block_requests ?n \<lparr>cs_ta = 0, cs_csi = 0\<rparr> 0 (replicate 24 0) x1 = [7, 7]"
    by (auto simp: case_outcome simp del: mac_run.simps)
  obtain g u where g: "l2_start xor_crypto ?n True 7 = Inr g" "l2_start xor_crypto ?n False 7 = Inr u"
    and x': "x = \<lparr>mn_gnb = g, mn_ue = u, mn_dl = mac_sample_ue, mn_mac = mac_sample_mac rlc_start\<rparr>"
    using x by (auto simp: mac_sample_nodes_def elim!: rbind_InrE)
  have "?guarded x ?as" "\<And>y. ?guarded y ?bs"
    by (rule mac_guarded_L2, simp add: NR_SDU_MAX_def)+
  moreover have "mac_event_ok ?n 0 x1 mac_sample_block"
    using x1(2) by (simp add: mac_sample_block_def)
  then have "?guarded x1 ([mac_sample_block] @ ?bs)"
    using calculation(2) by (simp add: split: sum.split del: list.map)
  ultimately have guarded: "?guarded x (?as @ [mac_sample_block] @ ?bs)"
    unfolding mac_guarded_append [of _ _ _ _ _ _ _ ?as] x1(1) by simp
  have at: "mac_at 7 \<lparr>mn_gnb = g, mn_ue = u, mn_dl = mac_sample_ue, mn_mac = mac_sample_mac rlc_start\<rparr>"
    by (simp add: mac_at_def mac_sample_ue_def mac_sample_mac_def)
  have pk: "mac_packets (?as @ [mac_sample_block] @ ?bs) = [[1, 2, 3]]" "packets_ok [[1, 2, 3]]"
    by (simp_all add: mac_sample_block_def packets_ok_def NR_SDU_MAX_def)
  have n: "\<not> nd_is_cu ?n" "\<not> nd_is_du ?n"
    by (simp_all add: rlc_sample_node_def)
  have c: "(7 :: int) \<noteq> -1" "(4 :: nat) < 14" "(14 :: nat) \<le> 0x2F"
    by simp_all
  have "\<exists>x2 d. ?run x (?as @ [mac_sample_block] @ ?bs) = Inr x2 \<and>
      pa_msgs (l2_pdcp (mn_ue x2)) = map (\<lambda>p. Sdap_msg (To_nas p)) (take d [[1, 2, 3]])"
    using mac_stack_lossless [OF xor_crypto_ok c(1) n c(2,3) g at guarded [unfolded x'], folded x', unfolded pk(1), OF pk(2)]
    by (elim exE conjE) (intro exI conjI)
  then show ?thesis
    using x by blast
qed

text \<open>
  C31: a block with five bytes left loses an SDU. The scheduler asks RLC for data as long as a subheader and two
  bytes fit. In unacknowledged mode with 12-bit sequence numbers, the request for two bytes returns no PDU, but
  the SDU at the head of the queue is gone: the rest of the block is padding, the SDU never sent.
\<close>

theorem dlsch_five_bytes_lose_sdu:
  assumes "manager_ok (ra_manager s)" and "\<not> nd_is_cu node" and "\<not> nd_is_du node" and "manager_table (ra_manager s) rnti = Some u"
    and "channel_slot (int lcid) = Some (b, i)" and "i < length (ue_rbs b u)" and "ue_rbs b u ! i = Some rb"
    and "rlc_set_time rb (ra_current_time s) = Inr (E_um e)"
    and "um_tx_inv e" and "um_sn_field_length e = 12" and "um_tx_list e = g # l" and "g_so g = 0" and "2 \<le> g_size g"
    and "length rest = 5" and "2 \<le> n"
  shows "\<exists>s' u' e'. dlsch_lc (Suc fuel) node rnti lcid n rest s = Inr ([], rest, 0, s') \<and>
    manager_table (ra_manager s') rnti = Some u' \<and> ue_rbs b u' ! i = Some (E_um e') \<and> um_tx_list e' = l"
proof -
  let ?b = "take 2 (drop 3 rest)"
  have "length ?b = 2"
    using assms(14) by simp
  from um_two_byte_grant_loses_sdu [OF assms(9-13) this]
  obtain e' where gen: "nr_rlc_entity_um_generate_pdu e ?b = Inr (0, ?b, e')" "um_tx_list e' = l"
    by blast
  have loc: "rlc_local node s"
    using assms(1-3) by (simp add: rlc_local_def)
  have "rlc_generate_pdu (E_um e) ?b = Inr (0, ?b, E_um e')"
    using gen(1) by simp
  from mac_rlc_data_req_run [OF loc assms(4,7,5,8) this]
  obtain s' where req: "mac_rlc_data_req node rnti (int lcid) ?b s = Inr (0, ?b, s')"
    and h: "rlc_handed s rnti b i (E_um e') s'"
    by blast
  have nd: "dl_ndata n 2 = 2"
    using assms(15) by (simp add: dl_ndata_def)
  have "take 3 rest @ ?b @ drop 5 rest = rest"
    using append_take_drop_id [of 3 rest] append_take_drop_id [of 2 "drop 3 rest"] by simp
  then have "dlsch_lc (Suc fuel) node rnti lcid n rest s = Inr ([], rest, 0, s')"
    using assms(14) req nd by simp
  moreover have "manager_table (ra_manager s') rnti = Some (ue_set_rb b u i (rlc_clear_out (E_um e')))"
    using h assms(4) by (auto simp: rlc_handed_def)
  moreover have "ue_rbs b (ue_set_rb b u i (rlc_clear_out (E_um e'))) ! i = Some (E_um (e'\<lparr>um_out := []\<rparr>))"
    using assms(6) by (simp add: ue_set_rb_def ue_rbs_def split: if_splits)
  ultimately show ?thesis
    using gen(2) by (intro exI conjI) (assumption | simp)+
qed

theorem dlsch_five_bytes_lose_sdu_witness:
  "\<exists>e g s s' u' e'. um_tx_list e = [g] \<and> ra_manager s = one_ue True 7 (E_um e) \<and>
     dlsch_lc 1 rlc_sample_node 7 4 4 (replicate 5 0) s = Inr ([], replicate 5 0, 0, s') \<and>
     manager_table (ra_manager s') 7 = Some u' \<and> ue_rbs False u' ! 0 = Some (E_um e') \<and> um_tx_list e' = []"
proof -
  obtain e0 where e0: "new_nr_rlc_entity_um 20000 100 35 12 = Inr e0" "um_queue e0 = []"
    "um_tx_size e0 = 0" "um_tx_maxsize e0 = 100" "um_sn_field_length e0 = 12" "um_t_reassembly_start e0 = 0"
    by (simp add: new_nr_rlc_entity_um_def um_queue_def)
  obtain e where e: "nr_rlc_entity_um_recv_sdu e0 [1, 2, 3] 0 = Inr e" "um_tx_inv e" "um_sn_field_length e = 12"
    "um_queue e = [([1, 2, 3], 0)]"
    using um_recv_sdu_ok [OF um_tx_inv_new [OF e0(1)], of "[1, 2, 3]" 0] e0 by (auto simp: NR_SDU_MAX_def)
  then obtain g where g: "um_tx_list e = [g]"
    by (auto simp: um_queue_def)
  then obtain sdu :: nr_rlc_sdu where "sdu_bytes (um_heap e) g = s_data sdu" "0 \<le> g_so g"
    "g_size g = int (length (s_data sdu)) - g_so g"
    by (rule um_tx_invD [OF e(2)])
  then have so: "g_so g = 0" "g_size g = 3"
    using e(4) g by (auto simp: um_queue_def)
  let ?s = "rlc_start\<lparr>ra_manager := one_ue True 7 (E_um e)\<rparr>" and ?e = "e\<lparr>um_t_current := ra_current_time rlc_start\<rparr>"
  have "um_t_reassembly_start e = 0"
    using um_recv_sdu_frame [OF e(1)] e0(6) by simp
  then have time: "rlc_set_time (E_um e) (ra_current_time ?s) = Inr (E_um ?e)"
    by (simp add: um_set_time_idle)
  have h: "manager_ok (ra_manager ?s)" "\<not> nd_is_cu rlc_sample_node" "\<not> nd_is_du rlc_sample_node"
    "manager_table (ra_manager ?s) 7 = Some (drb1_ue 7 (E_um e))" "channel_slot (int 4) = Some (False, 0)"
    "0 < length (ue_rbs False (drb1_ue 7 (E_um e)))" "ue_rbs False (drb1_ue 7 (E_um e)) ! 0 = Some (E_um e)"
    by (simp_all add: manager_ok_def manager_table_def one_ue_def drb1_ue_def rlc_sample_node_def channel_slot_def ue_rbs_def)
  have k: "um_tx_inv ?e" "um_sn_field_length ?e = 12" "um_tx_list ?e = g # []" "g_so g = 0" "2 \<le> g_size g"
    "length (replicate 5 (0 :: byte)) = 5" "(2 :: int) \<le> 4"
    using e(2,3) g so by simp_all
  from dlsch_five_bytes_lose_sdu [OF h time k, of 0] obtain s' u' e' where
    "dlsch_lc 1 rlc_sample_node 7 4 4 (replicate 5 0) ?s = Inr ([], replicate 5 0, 0, s')"
    "manager_table (ra_manager s') 7 = Some u'" "ue_rbs False u' ! 0 = Some (E_um e')" "um_tx_list e' = []"
    unfolding One_nat_def by blast
  moreover have "ra_manager ?s = one_ue True 7 (E_um e)"
    by simp
  ultimately show ?thesis
    using g by blast
qed

end
