(* ===== verification/Spec2Isabelle.thy ===== *)
theory Spec2Isabelle
  imports NR_RLC_Am_Runs L2_Locks NR_MAC_Stack
begin

text \<open>
  Verification of the user plane of layer 2 of the 5G stack of OpenAirInterface: RLC
  (\<^verbatim>\<open>src/openair2/LAYER2/nr_rlc\<close>), PDCP (\<^verbatim>\<open>src/openair2/LAYER2/nr_pdcp\<close>) and SDAP
  (\<^verbatim>\<open>src/openair2/SDAP/nr_sdap\<close>), the same code on a gNB and on a UE, and the transport blocks of the downlink that
  MAC of the gNB fills and MAC of the UE takes apart (\<^verbatim>\<open>src/openair2/LAYER2/NR_MAC_gNB\<close>, \<^verbatim>\<open>NR_MAC_UE\<close>).

  \<^bold>\<open>The program.\<close> A packet that goes down the stack enters at SDAP, which picks a radio bearer and may add a
  header; the PDCP entity of the bearer numbers, protects and ciphers it; the PDU goes through the bounded
  queue \<^verbatim>\<open>rlc_data_req_queue\<close> to a thread that passes it to the RLC entity of the bearer; there it waits until
  MAC gives a grant, and is sent whole or in segments. MAC asks for as many RLC PDUs as fit into a transport
  block, behind its own control elements, and puts a subheader with the length before each. At the receiver MAC
  goes from subheader to subheader and hands the PDUs to RLC, which reassembles, puts the PDU
  into the queue \<^verbatim>\<open>pdcp_data_ind_queue\<close> of a second thread, and PDCP deciphers, reorders and passes it to SDAP.
  RRC configures the bearers of each UE; a table of UEs in each of RLC and PDCP, protected by one lock per
  layer, leads from an RNTI to the entities. RLC has three modes: transparent, unacknowledged, acknowledged.

  \<^bold>\<open>How C is read.\<close> A function that may abort, or whose behaviour may be undefined, returns a value of
  \<open>'a res\<close>: \<open>Inr\<close> the result or \<open>Inl\<close> a fault (theory \<open>L2_Prelude\<close>). A theorem that a call returns says that
  none of these happens. A buffer with its size is a byte list, a linked list is a list, COUNT values and times
  have their width (\<open>32 word\<close>, \<open>64 word\<close>), other integers are \<open>int\<close>, with the reduction written out where the
  code relies on it or is broken by it. Memory that is shared through pointers (the SDUs of the segments, the
  ends of lists) is an explicit store with addresses that are not reused, so that following a pointer to freed
  memory is a fault. Callbacks are recorded as events and carried out by the layer when the entity's function
  returns. AES in counter mode and CMAC are parameters; \<open>crypto_ok\<close> states what is used of them.
  Loops are structural recursion or are proved to terminate; the search for the first SDU not yet delivered
  runs with the length of the list as fuel and reports \<open>Divergence\<close> beyond it, which the theorems about it
  exclude: each round visits another sequence number of the list. The loop that fills a block from one logical
  channel runs with one more round than the block has bytes; a round that is not the last takes at least four.

  \<^bold>\<open>Theories and sources.\<close>
  \<^item> \<open>L2_Prelude\<close>: outcomes, C arithmetic, bytes as bit strings.
  \<^item> \<open>NR_RLC_Pdu\<close> (\<^verbatim>\<open>nr_rlc_pdu.c\<close>), \<open>NR_RLC_Sdu\<close> (\<^verbatim>\<open>nr_rlc_sdu.c\<close>), \<open>NR_RLC_Common\<close> (\<^verbatim>\<open>nr_rlc_entity.h\<close>): the bit
    codec and the ordered list of received PDUs, the reference counted SDUs, what all entities share. The
    locale \<open>sn_order\<close> is the order of sequence numbers an entity provides, \<open>rlc_tx\<close> the contract of a
    transmitting entity.
  \<^item> \<open>NR_RLC_Rx\<close>: the loops over the reception list, common to two modes.
  \<^item> \<open>NR_RLC_Tm\<close> (\<^verbatim>\<open>nr_rlc_entity_tm.c\<close>), \<open>NR_RLC_Um\<close>, \<open>NR_RLC_Um_Tx\<close>, \<open>NR_RLC_Um_Link\<close> (\<^verbatim>\<open>nr_rlc_entity_um.c\<close>):
    every operation of these modes, their refinement of a queue, and a connected pair.
  \<^item> \<open>NR_RLC_Am\<close>, \<open>NR_RLC_Am_Ctrl\<close>, \<open>NR_RLC_Am_Status\<close>, \<open>NR_RLC_Am_Tx\<close> (\<^verbatim>\<open>nr_rlc_entity_am.c\<close>): state and reception,
    status reports received and generated, transmission; \<open>NR_RLC_Am_Rx\<close>, \<open>NR_RLC_Am_Report\<close>, \<open>NR_RLC_Am_Runs\<close>:
    the lemmas.
  \<^item> \<open>NR_RLC_Entity\<close> (\<^verbatim>\<open>nr_rlc_entity.c\<close>), \<open>NR_RLC_Api\<close> (\<^verbatim>\<open>nr_rlc_oai_api.c\<close>, \<^verbatim>\<open>nr_rlc_ue_manager.c\<close>), \<open>NR_RLC_Node\<close>:
    the table of functions, the interface of the layer, and what holds of the RLC layer of a node.
  \<^item> \<open>NR_PDCP_Security\<close> (\<^verbatim>\<open>nr_pdcp_security_nea2.c\<close>, \<^verbatim>\<open>nr_pdcp_integrity_nia2.c\<close>), \<open>NR_PDCP_Entity\<close>
    (\<^verbatim>\<open>nr_pdcp_entity.c\<close>, \<^verbatim>\<open>nr_pdcp_sdu.c\<close>), \<open>NR_PDCP_Order\<close>, \<open>NR_PDCP_Bearer\<close>: the entity and a connected pair.
  \<^item> \<open>NR_SDAP\<close> (\<^verbatim>\<open>nr_sdap_entity.c\<close>, \<^verbatim>\<open>nr_sdap.c\<close>).
  \<^item> \<open>L2_Ue\<close> (\<^verbatim>\<open>nr_pdcp_ue_manager.c\<close>, \<^verbatim>\<open>nr_rlc_ue_manager.c\<close>): the table of UEs for any type of entity, with the
    locale \<open>ue_table\<close>; \<open>L2_Config\<close> (the two \<^verbatim>\<open>asn1_utils.c\<close>); \<open>L2_Asn1\<close>: the fields of the generated RRC
    structures that are read.
  \<^item> \<open>NR_PDCP_Api\<close> (\<^verbatim>\<open>nr_pdcp_oai_api.c\<close>, \<^verbatim>\<open>nr_pdcp_timer_thread.c\<close>), \<open>NR_PDCP_Node\<close>: the interface of PDCP and
    what holds of the PDCP layer of a node.
  \<^item> \<open>L2_Ring\<close>: the two queues with their threads and condition variables, with the locale \<open>thread_queue\<close>;
    \<open>L2_Locks\<close>: the queues together with the locks of the layers.
  \<^item> \<open>L2_Stack\<close>: a node with all its layers, the bearer of \<^verbatim>\<open>nr_DRB_preconfiguration\<close>, a gNB and a UE.
  \<^item> \<open>NR_RLC_Grant\<close>: a PDU of RLC fits its grant, in every mode.
  \<^item> \<open>NR_MAC_Dl\<close> (\<^verbatim>\<open>gNB_scheduler_dlsch.c\<close>: \<^verbatim>\<open>nr_write_ce_dlsch_pdu\<close>, \<^verbatim>\<open>nr_store_dlsch_buffer\<close>, the initial transmission;
    \<^verbatim>\<open>nr_ue_procedures.c\<close>: \<^verbatim>\<open>nr_ue_process_mac_pdu\<close>; \<^verbatim>\<open>nr_mac.h\<close>): the definitions; \<open>NR_MAC_Dl_Link\<close>: the block from
    the gNB to the UE; \<open>NR_MAC_Stack\<close>: the two nodes of \<open>L2_Stack\<close> connected by transport blocks.

  \<^bold>\<open>What is shown.\<close>
  \<^item> The stack: packets that enter a gNB reach the upper layer of the UE in order, unaltered and without loss,
    for every interleaving of the threads, the grants, the subframes and the timers, and all of them arrive if
    the threads run and grants are given. This uses the corresponding theorems of RLC and PDCP. Nothing is lost
    or altered either when the PDUs travel in the transport blocks of MAC.
  \<^item> MAC: whatever RLC returns to the scheduler, the block has its size, and the UE finds in it exactly those
    PDUs, with their logical channels and in order, and the timing advance.
  \<^item> RLC: the bit codec reads back what it writes and stays in its buffer. The transparent and the
    unacknowledged mode transmitters refine a queue of SDUs with exact counters; a connected pair in
    unacknowledged mode loses nothing and, with enough grants, delivers everything. The acknowledged mode
    receiver delivers an SDU exactly when its bytes are complete, for any order, segmentation and repetition;
    its status report has the size computed for it, is read back, and processing any report ends. The layer
    keeps its table well formed and routes what it receives to one bearer and from there to PDCP.
  \<^item> PDCP: delivery in order and, without a reordering timer, without loss; distinct counter blocks; an
    invariant of every reachable entity and of every reachable state of the layer; separation of the UEs; no
    fault of a gNB on anything RLC delivers.
  \<^item> SDAP: headers are removed as they were added, and the list of entities is a map from UE and session.
  \<^item> Queues: first in first out although the consumer works outside the lock, no wakeup is lost with fewer
    producers than slots, and the two layers can only be stuck when both queues are full, where they can.
  \<^item> Deviations: theorems that exhibit a state and an input for which the code does not do what it means to,
    among them reads outside a received PDU or transport block, a lost SDU, a control element whose length the
    UE misreads, null pointers reached by regular status reports, an
    integrity check without effect, a timer that never expires, wrong end markers.

  \<^bold>\<open>Bounds.\<close> Allocation succeeds. In \<open>L2_Stack\<close> the packets of a run are at most 100000000 bytes with their
  headers, the size of RLC's transmission buffer, so that none is refused, and grants of two bytes are excluded
  since they lose an SDU; in \<open>NR_MAC_Stack\<close> so are the blocks that lead to such a request, and a block has at
  most 65536 bytes, so that the lengths of its PDUs fit into the 16 bits of a subheader. The number
  of logical channels \<^verbatim>\<open>NB_RB_MAX\<close> comes from generated code and is an argument, at most \<^verbatim>\<open>0x2F\<close>, the first control
  element. The queues are unbounded in \<open>L2_Stack\<close>, and a full queue only delays the thread that fills
  it, which is a choice of the interleaving. The counters of PDCP do not wrap around within a run.

  \<^bold>\<open>Not modelled.\<close> Creation of threads, opening of sockets and of the network interface (\<^verbatim>\<open>nr_pdcp_module_init\<close>,
  \<^verbatim>\<open>start_pdcp_tun_enb\<close>, \<^verbatim>\<open>reblock_tun_socket\<close>): they are input and output. Functions that only satisfy the linker
  (\<^verbatim>\<open>rlc_tick\<close>, \<^verbatim>\<open>rrc_rlc_config_asn1_req\<close>, \<^verbatim>\<open>pdcp_fifo_flush_sdus\<close>): they exit or return a constant. Logging and
  tracing. Of MAC: the choice of UEs, resources and modulation, HARQ, the random access procedure except its
  success, the uplink PDUs and the messages to the physical layer. The layers above and below (PHY, RRC, NAS, S1AP, NGAP, F1AP, X2AP, GTP-U), the LTE stack, nFAPI,
  the simulators and the task scheduler are other components, most of them tied to hardware, to sockets or to
  code generated from ASN.1; the layers here reach them only through the calls that are recorded as messages.
\<close>

end
